(* ===== verification/Prelude.thy ===== *)
theory Prelude
  imports Main "HOL-Library.Word"
begin

text \<open>
  What every component of the development shares: the machine types of the C code, the
  result type of a kernel routine with its sequencing operator, C's truncating division,
  the \<open>named_theorems\<close> collections and the generic lemmas on lists and words.
\<close>

unbundle bit_operations_syntax

section \<open>Machine types\<close>

type_synonym u8 = "8 word"
type_synonym u16 = "16 word"
type_synonym u32 = "32 word"

text \<open>
  \<open>int\<close> and \<open>long\<close> of the i386 compiler are both 32 bits wide; \<open>int\<close> values are read
  off a word with \<open>sint\<close>, \<open>unsigned long\<close> values with \<open>unat\<close>.
\<close>

section \<open>Results of kernel routines\<close>

text \<open>
  A routine of the kernel either returns, or it never does: it calls \<open>panic\<close> with its
  message, it ends the current process (\<open>do_exit\<close> with its code), it goes to sleep with
  nothing in the model to wake it, it loops for ever, or it does something C leaves undefined (reading an
  argument that was not passed, an index outside an array).
\<close>

datatype kerr =
    Panic string
  | Exit int
  | Sleeps
  | Diverges
  | Undefined

type_synonym 'a res = "kerr + 'a"

text \<open>Sequencing: the rest runs only when the first part returned.\<close>

definition kbind :: "'a res \<Rightarrow> ('a \<Rightarrow> 'b res) \<Rightarrow> 'b res" where
  "kbind m f = (case m of Inl e \<Rightarrow> Inl e | Inr x \<Rightarrow> f x)"

lemma kbind_simps [simp]:
  "kbind (Inl e) f = Inl e"
  "kbind (Inr x) f = f x"
  by (simp_all add: kbind_def)

lemma kbind_Inr_iff: "kbind m f = Inr r \<longleftrightarrow> (\<exists>x. m = Inr x \<and> f x = Inr r)"
  by (cases m) auto

lemma kbind_Inl_iff:
  "kbind m f = Inl e \<longleftrightarrow> m = Inl e \<or> (\<exists>x. m = Inr x \<and> f x = Inl e)"
  by (cases m) auto

lemma kbind_assoc: "kbind (kbind m f) g = kbind m (\<lambda>x. kbind (f x) g)"
  by (cases m) auto

lemma kbind_cong [fundef_cong]:
  "m = m' \<Longrightarrow> (\<And>x. m' = Inr x \<Longrightarrow> f x = f' x) \<Longrightarrow> kbind m f = kbind m' f'"
  by (cases m') auto

lemma kbind_InrE:
  assumes "kbind m f = Inr r"
  obtains x where "m = Inr x" and "f x = Inr r"
  using assms by (cases m) auto

text \<open>A routine that goes on only when its precondition holds.\<close>

definition kassert :: "bool \<Rightarrow> kerr \<Rightarrow> unit res" where
  "kassert b e = (if b then Inr () else Inl e)"

lemma kassert_simps [simp]:
  "kassert True e = Inr ()"
  "kassert False e = Inl e"
  "kassert b e = Inr u \<longleftrightarrow> b"
  by (simp_all add: kassert_def)

section \<open>C arithmetic\<close>

text \<open>C's division and remainder on \<open>int\<close> truncate towards zero.\<close>

definition c_div :: "int \<Rightarrow> int \<Rightarrow> int" where
  "c_div a b = sgn a * sgn b * (\<bar>a\<bar> div \<bar>b\<bar>)"

definition c_mod :: "int \<Rightarrow> int \<Rightarrow> int" where
  "c_mod a b = a - b * c_div a b"

lemma c_div_nonneg: "0 \<le> a \<Longrightarrow> 0 < b \<Longrightarrow> c_div a b = a div b"
  by (cases "a = 0") (simp_all add: c_div_def)

lemma c_mod_nonneg: "0 \<le> a \<Longrightarrow> 0 < b \<Longrightarrow> c_mod a b = a mod b"
  by (simp add: c_mod_def c_div_nonneg minus_mult_div_eq_mod)

section \<open>Words\<close>

lemma unat_of_nat_div [simp]:
  "unat (of_nat (unat (n :: 'a::len word) div b) :: 'a word) = unat n div b"
proof -
  have "unat n div b < 2 ^ LENGTH('a)"
    by (rule le_less_trans [OF div_le_dividend unsigned_less])
  then show ?thesis by (simp add: unat_of_nat take_bit_nat_eq_self)
qed

lemma sint_range: "- (2 ^ (LENGTH('a) - 1)) \<le> sint (w :: 'a::len word)"
  "sint w < 2 ^ (LENGTH('a) - 1)"
  by (simp_all add: sint_greater_eq sint_less)

lemma word_of_int_sint: "word_of_int (sint w) = (w :: 'a::len word)"
  by simp

lemma uint_minus_sint:
  assumes "sint (w :: 'a::len word) < 0"
  shows "uint (- w) = - sint w"
proof -
  have b: "- sint w \<le> 2 ^ (LENGTH('a) - 1)"
    using sint_range(1) [of w] by simp
  have "(2::int) ^ (LENGTH('a) - 1) < 2 ^ LENGTH('a)"
    by (rule power_strict_increasing) simp_all
  with b have lt: "- sint w < 2 ^ LENGTH('a)" by (rule le_less_trans)
  have "uint (- w) = uint (word_of_int (- sint w) :: 'a word)"
    by (simp add: wi_hom_neg [symmetric])
  also have "\<dots> = take_bit LENGTH('a) (- sint w)" by (rule uint_word_of_int_eq)
  finally have "uint (- w) = take_bit LENGTH('a) (- sint w)" .
  with assms lt show ?thesis by (simp add: take_bit_int_eq_self)
qed

lemma uint_sint_nonneg:
  assumes "0 \<le> sint (w :: 'a::len word)"
  shows "uint w = sint w"
proof -
  have "(2::int) ^ (LENGTH('a) - 1) < 2 ^ LENGTH('a)"
    by (rule power_strict_increasing) simp_all
  with sint_range(2) [of w] have lt: "sint w < 2 ^ LENGTH('a)" by (rule less_trans)
  have "uint w = uint (word_of_int (sint w) :: 'a word)" by simp
  also have "\<dots> = take_bit LENGTH('a) (sint w)"
    by (rule uint_word_of_int_eq)
  finally show ?thesis using assms lt by (simp add: take_bit_int_eq_self)
qed

text \<open>Sums and differences of addresses that do not wrap around.\<close>

lemma unat_add_small: "unat (d :: u32) + k < 2 ^ 32 \<Longrightarrow> unat (d + of_nat k) = unat d + k"
  by (simp add: unat_word_ariths unat_of_nat)

lemma unat_add_numeral:
  "unat (d :: u32) + numeral k < 2 ^ 32 \<Longrightarrow> unat (d + numeral k) = unat d + numeral k"
  using unat_add_small [of d "numeral k"] by simp

lemma unat_add_one: "unat (d :: u32) + 1 < 2 ^ 32 \<Longrightarrow> unat (d + 1) = unat d + 1"
  using unat_add_small [of d 1] by simp

lemma unat_sub_small: "k \<le> unat (d :: u32) \<Longrightarrow> unat (d - of_nat k) = unat d - k"
proof -
  assume k: "k \<le> unat d"
  then have "d - of_nat k = of_nat (unat d - k)" by simp
  moreover have "unat d - k < 2 ^ LENGTH(32)"
    using unsigned_less [of d, where 'a = nat] by (simp add: less_imp_diff_less)
  ultimately show ?thesis by (simp only: unat_of_nat mod_less)
qed

lemma unat_sub_numeral:
  "numeral k \<le> unat (d :: u32) \<Longrightarrow> unat (d - numeral k) = unat d - numeral k"
  using unat_sub_small [of "numeral k" d] by simp

lemma u32_lt: "unat (p :: u32) < 4294967296"
  using unsigned_less [of p] by simp

text \<open>\<open>int\<close> arithmetic of the compiler wraps at 32 bits.\<close>

definition to_s32 :: "int \<Rightarrow> int" where
  "to_s32 i = sint (word_of_int i :: u32)"

lemma to_s32_id: "- (2 ^ 31) \<le> i \<Longrightarrow> i < 2 ^ 31 \<Longrightarrow> to_s32 i = i"
  by (simp add: to_s32_def sint_sbintrunc' signed_take_bit_int_eq_self)

section \<open>Strings\<close>

text \<open>A C string runs up to its first NUL.\<close>

definition cstr :: "string \<Rightarrow> string" where
  "cstr s = takeWhile (\<lambda>c. c \<noteq> CHR 0x00) s"

lemma cstr_id: "CHR 0x00 \<notin> set s \<Longrightarrow> cstr s = s"
  by (auto simp: cstr_def takeWhile_eq_all_conv)

lemma cstr_no_nul: "CHR 0x00 \<notin> set (cstr s)"
  by (auto simp: cstr_def dest: set_takeWhileD)

end
