(* ===== verification/Vsprintf.thy ===== *)
theory Vsprintf
  imports Prelude
begin

text \<open>
  \<^verbatim>\<open>kernel/vsprintf.c\<close>: the formatter behind \<open>printk\<close>. \<open>skip_atoi\<close> reads a decimal
  number of the format, \<open>number\<close> prints one integer, \<open>vsprintf\<close> walks the format. The
  output pointer \<open>str\<close> is the list of characters written so far, the argument list is a list
  of machine words and string pointers, and reading past it is \<open>Undefined\<close>.
\<close>

section \<open>Reading a number of the format\<close>

definition is_digit :: "char \<Rightarrow> bool" where
  "is_digit c \<longleftrightarrow>
     (of_char (CHR ''0'') :: nat) \<le> of_char c \<and> of_char c \<le> (of_char (CHR ''9'') :: nat)"

fun skip_atoi_loop :: "int \<Rightarrow> string \<Rightarrow> int \<times> string" where
  "skip_atoi_loop i [] = (i, [])"
| "skip_atoi_loop i (c # s) =
     (if is_digit c
      then skip_atoi_loop (to_s32 (i * 10 + int (of_char c) - int (of_char (CHR ''0'')))) s
      else (i, c # s))"

definition skip_atoi :: "string \<Rightarrow> int \<times> string" where
  "skip_atoi s = skip_atoi_loop 0 s"

section \<open>Flags\<close>

definition ZEROPAD :: u32 where "ZEROPAD = 1"

definition SIGN :: u32 where "SIGN = 2"

definition PLUS :: u32 where "PLUS = 4"

definition SPACE :: u32 where "SPACE = 8"

definition LEFT :: u32 where "LEFT = 16"

definition SPECIAL :: u32 where "SPECIAL = 32"

definition SMALL :: u32 where "SMALL = 64"

lemmas flag_defs = ZEROPAD_def SIGN_def PLUS_def SPACE_def LEFT_def SPECIAL_def SMALL_def

section \<open>Printing one integer\<close>

definition digits_upper :: string where
  "digits_upper = ''0123456789ABCDEFGHIJKLMNOPQRSTUVWXYZ''"

definition digits_lower :: string where
  "digits_lower = ''0123456789abcdefghijklmnopqrstuvwxyz''"

text \<open>\<open>do_div\<close>: \<open>divl\<close> on a zero high word, an unsigned division.\<close>

definition do_div :: "u32 \<Rightarrow> nat \<Rightarrow> u32 \<times> nat" where
  "do_div n base = (of_nat (unat n div base), unat n mod base)"

text \<open>
  The loop that fills \<open>tmp\<close>, least significant digit first; \<open>number\<close> has rejected every
  base below 2 before it.
\<close>

function tmp_digits :: "string \<Rightarrow> nat \<Rightarrow> u32 \<Rightarrow> string" where
  "tmp_digits ds base num =
     (if num = 0 \<or> base < 2 then []
      else case do_div num base of (num', r) \<Rightarrow> ds ! r # tmp_digits ds base num')"
  by pat_completeness auto
termination
  by (relation "measure (\<lambda>(ds, base, num). unat num)") (auto simp: do_div_def unat_gt_0)

declare tmp_digits.simps [simp del]

text \<open>\<open>while (size-- > 0)\<close>: the characters it writes and the value it leaves in \<open>size\<close>.\<close>

definition pad_while :: "char \<Rightarrow> int \<Rightarrow> string \<times> int" where
  "pad_while c sz = (replicate (nat sz) c, if 0 < sz then -1 else sz - 1)"

text \<open>The sign character, if any.\<close>

definition num_sign :: "u32 \<Rightarrow> u32 \<Rightarrow> string" where
  "num_sign type num =
     (if type AND SIGN \<noteq> 0 \<and> sint num < 0 then [CHR ''-'']
      else if type AND PLUS \<noteq> 0 then [CHR ''+'']
      else if type AND SPACE \<noteq> 0 then [CHR '' '']
      else [])"

text \<open>The prefix of the \<open>SPECIAL\<close> form, \<open>0\<close> or \<open>0x\<close>, and the room it takes.\<close>

definition num_special :: "u32 \<Rightarrow> nat \<Rightarrow> string \<Rightarrow> string" where
  "num_special type base digits =
     (if type AND SPECIAL \<noteq> 0
      then (if base = 8 then [CHR ''0'']
            else if base = 16 then [CHR ''0'', digits ! 33] else [])
      else [])"

definition special_room :: "u32 \<Rightarrow> nat \<Rightarrow> int" where
  "special_room type base =
     (if type AND SPECIAL \<noteq> 0 then (if base = 16 then 2 else if base = 8 then 1 else 0) else 0)"

text \<open>The loops that write the field: blanks, sign, prefix, padding, digits, blanks.\<close>

definition num_layout :: "u32 \<Rightarrow> char \<Rightarrow> int \<Rightarrow> string \<Rightarrow> string \<Rightarrow> string \<Rightarrow> string" where
  "num_layout type c sz sign special body =
     (let (lead, sz) = (if type AND (ZEROPAD + LEFT) = 0 then pad_while (CHR '' '') sz
                        else ([], sz));
          (mid, sz) = (if type AND LEFT = 0 then pad_while c sz else ([], sz));
          (trail, sz) = pad_while (CHR '' '') sz
      in lead @ sign @ special @ mid @ body @ trail)"

definition number :: "u32 \<Rightarrow> nat \<Rightarrow> int \<Rightarrow> int \<Rightarrow> u32 \<Rightarrow> string option" where
  "number num base sz precision type =
     (let digits = (if type AND SMALL \<noteq> 0 then digits_lower else digits_upper);
          type = (if type AND LEFT \<noteq> 0 then type AND NOT ZEROPAD else type)
      in if base < 2 \<or> 36 < base then None
      else
      let c = (if type AND ZEROPAD \<noteq> 0 then CHR ''0'' else CHR '' '');
          sign = num_sign type num;
          num = (if type AND SIGN \<noteq> 0 \<and> sint num < 0 then - num else num);
          sz = (if sign \<noteq> [] then sz - 1 else sz);
          sz = sz - special_room type base;
          tmp = (if num = 0 then [CHR ''0''] else tmp_digits digits base num);
          i = int (length tmp);
          precision = (if i > precision then i else precision);
          sz = sz - precision
      in Some (num_layout type c sz sign (num_special type base digits)
                 (replicate (nat (precision - i)) (CHR ''0'') @ rev tmp)))"

section \<open>The formatter\<close>

text \<open>
  An argument is a machine word, or a pointer to a string given with its address and the
  string it points to.
\<close>

datatype va = VaInt u32 | VaStr u32 string

fun va_word :: "va list \<Rightarrow> (u32 \<times> va list) res" where
  "va_word [] = Inl Undefined"
| "va_word (VaInt w # as) = Inr (w, as)"
| "va_word (VaStr a s # as) = Inr (a, as)"

fun va_string :: "va list \<Rightarrow> (string \<times> va list) res" where
  "va_string (VaStr a s # as) = Inr (cstr s, as)"
| "va_string _ = Inl Undefined"

text \<open>
  \<open>vs_out\<close> is what stands between \<open>buf\<close> and \<open>str\<close>, \<open>vs_args\<close> the arguments not yet read,
  \<open>vs_stores\<close> the stores of \<open>%n\<close> in order.
\<close>

record vs =
  vs_out :: string
  vs_args :: "va list"
  vs_stores :: "(u32 \<times> nat) list"

definition emit :: "string \<Rightarrow> vs \<Rightarrow> vs" where
  "emit t v = v\<lparr>vs_out := vs_out v @ t\<rparr>"

text \<open>The character under \<open>fmt\<close>: past the end it is the terminating NUL.\<close>

definition peek :: "string \<Rightarrow> char" where
  "peek s = (case s of [] \<Rightarrow> CHR 0x00 | c # _ \<Rightarrow> c)"

fun vs_flags :: "u32 \<Rightarrow> string \<Rightarrow> u32 \<times> string" where
  "vs_flags f [] = (f, [])"
| "vs_flags f (c # s) =
     (if c = CHR ''-'' then vs_flags (f OR LEFT) s
      else if c = CHR ''+'' then vs_flags (f OR PLUS) s
      else if c = CHR '' '' then vs_flags (f OR SPACE) s
      else if c = CHR ''#'' then vs_flags (f OR SPECIAL) s
      else if c = CHR ''0'' then vs_flags (f OR ZEROPAD) s
      else (f, c # s))"

definition vs_width :: "u32 \<Rightarrow> string \<Rightarrow> va list \<Rightarrow> (int \<times> u32 \<times> string \<times> va list) res" where
  "vs_width flags fmt args =
     (if is_digit (peek fmt)
      then (case skip_atoi fmt of (w, fmt') \<Rightarrow> Inr (w, flags, fmt', args))
      else if peek fmt = CHR ''*''
      then kbind (va_word args) (\<lambda>(w, args').
             if sint w < 0 then Inr (to_s32 (- sint w), flags OR LEFT, fmt, args')
             else Inr (sint w, flags, fmt, args'))
      else Inr (-1, flags, fmt, args))"

definition vs_precision :: "string \<Rightarrow> va list \<Rightarrow> (int \<times> string \<times> va list) res" where
  "vs_precision fmt args =
     (if peek fmt = CHR ''.''
      then let fmt = tl fmt
           in kbind
                (if is_digit (peek fmt)
                 then (case skip_atoi fmt of (p, fmt') \<Rightarrow> Inr (p, fmt', args))
                 else if peek fmt = CHR ''*''
                 then kbind (va_word args) (\<lambda>(w, args'). Inr (sint w, fmt, args'))
                 else Inr (-1, fmt, args))
                (\<lambda>(p, fmt, args). Inr (if p < 0 then 0 else p, fmt, args))
      else Inr (-1, fmt, args))"

definition vs_qualifier :: "string \<Rightarrow> string" where
  "vs_qualifier fmt =
     (if peek fmt \<in> {CHR ''h'', CHR ''l'', CHR ''L''} then tl fmt else fmt)"

definition vs_number :: "nat \<Rightarrow> int \<Rightarrow> int \<Rightarrow> u32 \<Rightarrow> vs \<Rightarrow> vs res" where
  "vs_number base width prec flags v =
     kbind (va_word (vs_args v)) (\<lambda>(w, as).
       case number w base width prec flags of
         None \<Rightarrow> Inl Undefined
       | Some t \<Rightarrow> Inr (emit t (v\<lparr>vs_args := as\<rparr>)))"

definition vs_char :: "int \<Rightarrow> u32 \<Rightarrow> vs \<Rightarrow> vs res" where
  "vs_char width flags v =
     kbind (va_word (vs_args v)) (\<lambda>(w, as).
       let pad = replicate (nat (width - 1)) (CHR '' '');
           ch = [char_of (unat w)]
       in Inr (emit (if flags AND LEFT = 0 then pad @ ch else ch @ pad) (v\<lparr>vs_args := as\<rparr>)))"

definition vs_string :: "int \<Rightarrow> int \<Rightarrow> u32 \<Rightarrow> vs \<Rightarrow> vs res" where
  "vs_string width prec flags v =
     kbind (va_string (vs_args v)) (\<lambda>(s, as).
       let len = (if prec < 0 then int (length s)
                  else if int (length s) > prec then prec else int (length s));
           pad = replicate (nat (width - len)) (CHR '' '');
           body = take (nat len) s
       in Inr (emit (if flags AND LEFT = 0 then pad @ body else body @ pad)
                 (v\<lparr>vs_args := as\<rparr>)))"

definition vs_conversion :: "char \<Rightarrow> int \<Rightarrow> int \<Rightarrow> u32 \<Rightarrow> vs \<Rightarrow> vs res" where
  "vs_conversion c width prec flags v =
     (if c = CHR ''c'' then vs_char width flags v
      else if c = CHR ''s'' then vs_string width prec flags v
      else if c = CHR ''o'' then vs_number 8 width prec flags v
      else if c = CHR ''p''
      then (if width = -1 then vs_number 16 8 prec (flags OR ZEROPAD) v
            else vs_number 16 width prec flags v)
      else if c = CHR ''x'' then vs_number 16 width prec (flags OR SMALL) v
      else if c = CHR ''X'' then vs_number 16 width prec flags v
      else if c = CHR ''d'' \<or> c = CHR ''i'' then vs_number 10 width prec (flags OR SIGN) v
      else if c = CHR ''u'' then vs_number 10 width prec flags v
      else if c = CHR ''n''
      then kbind (va_word (vs_args v)) (\<lambda>(w, as).
             Inr (v\<lparr>vs_args := as, vs_stores := vs_stores v @ [(w, length (vs_out v))]\<rparr>))
      else Inr (emit ((if c \<noteq> CHR ''%'' then ''%'' else []) @
                      (if c \<noteq> CHR 0x00 then [c] else [])) v))"

text \<open>
  One directive, \<open>fmt\<close> just after its percent sign; the result is where \<open>fmt\<close> stands after
  the loop's increment. In the default case at the end of the format \<open>--fmt\<close> and the loop's
  increment cancel, which is what \<open>tl []\<close> gives.
\<close>

definition vs_directive :: "string \<Rightarrow> vs \<Rightarrow> (string \<times> vs) res" where
  "vs_directive fmt v =
     (case vs_flags 0 fmt of (flags, fmt) \<Rightarrow>
        kbind (vs_width flags fmt (vs_args v)) (\<lambda>(width, flags, fmt, args).
        kbind (vs_precision fmt args) (\<lambda>(prec, fmt, args).
          let fmt = vs_qualifier fmt
          in kbind (vs_conversion (peek fmt) width prec flags (v\<lparr>vs_args := args\<rparr>))
               (\<lambda>v. Inr (tl fmt, v)))))"

lemma skip_atoi_loop_length: "length (snd (skip_atoi_loop i s)) \<le> length s"
  by (induction i s rule: skip_atoi_loop.induct) auto

lemma vs_flags_length: "length (snd (vs_flags f s)) \<le> length s"
  by (induction f s rule: vs_flags.induct) auto

lemma vs_width_length:
  "vs_width fl fmt as = Inr (w, fl', fmt', as') \<Longrightarrow> length fmt' \<le> length fmt"
  using skip_atoi_loop_length [of 0 fmt]
  by (auto simp: vs_width_def skip_atoi_def kbind_Inr_iff split: if_splits prod.splits)

lemma vs_precision_length:
  "vs_precision fmt as = Inr (p, fmt', as') \<Longrightarrow> length fmt' \<le> length fmt"
  using skip_atoi_loop_length [of 0 "tl fmt"]
  by (cases fmt) (auto simp: vs_precision_def skip_atoi_def kbind_Inr_iff Let_def peek_def
      split: if_splits prod.splits)

lemma vs_qualifier_length: "length (vs_qualifier fmt) \<le> length fmt"
  by (simp add: vs_qualifier_def)

lemma vs_directive_length:
  assumes "vs_directive fmt v = Inr (fmt', v')"
  shows "length fmt' \<le> length fmt"
proof -
  obtain fl fmt1 where f1: "vs_flags 0 fmt = (fl, fmt1)" by force
  with assms obtain w fl2 fmt2 as2 p fmt3 as3
    where w: "vs_width fl fmt1 (vs_args v) = Inr (w, fl2, fmt2, as2)"
      and p: "vs_precision fmt2 as2 = Inr (p, fmt3, as3)"
      and fmt': "fmt' = tl (vs_qualifier fmt3)"
    by (auto simp: vs_directive_def kbind_Inr_iff Let_def split: prod.splits)
  have "length fmt1 \<le> length fmt" using vs_flags_length [of 0 fmt] f1 by simp
  with vs_width_length [OF w] vs_precision_length [OF p] vs_qualifier_length [of fmt3]
  show ?thesis by (simp add: fmt')
qed

function vs_loop :: "string \<Rightarrow> vs \<Rightarrow> vs res" where
  "vs_loop [] v = Inr v"
| "vs_loop (c # fmt) v =
     (if c \<noteq> CHR ''%'' then vs_loop fmt (emit [c] v)
      else kbind (vs_directive fmt v) (\<lambda>(fmt', v'). vs_loop fmt' v'))"
  by pat_completeness auto
termination
  by (relation "measure (\<lambda>(fmt, v). length fmt)") (auto dest: vs_directive_length)

text \<open>
  The output without its final NUL (the return value is its length), the arguments left and
  the \<open>%n\<close> stores.
\<close>

definition vsprintf :: "string \<Rightarrow> va list \<Rightarrow> vs res" where
  "vsprintf fmt args = vs_loop (cstr fmt) \<lparr>vs_out = [], vs_args = args, vs_stores = []\<rparr>"

section \<open>Digits\<close>

text \<open>The digits of a number in base \<open>b\<close>, least significant first, as numbers.\<close>

fun rdigits :: "nat \<Rightarrow> nat \<Rightarrow> nat list" where
  "rdigits b n = (if n = 0 \<or> b < 2 then [] else n mod b # rdigits b (n div b))"

declare rdigits.simps [simp del]

lemma rdigits_0 [simp]: "rdigits b 0 = []"
  by (simp add: rdigits.simps)

lemma tmp_digits_rdigits: "tmp_digits ds b w = map ((!) ds) (rdigits b (unat w))"
proof (induction ds b w rule: tmp_digits.induct)
  case (1 ds b w)
  show ?case
  proof (cases "w = 0 \<or> b < 2")
    case True
    then show ?thesis by (auto simp: tmp_digits.simps rdigits.simps [of b])
  next
    case False
    with 1 show ?thesis
      by (simp add: tmp_digits.simps [of ds b w] rdigits.simps [of b "unat w"] do_div_def
          unat_eq_0)
  qed
qed

lemma rdigits_value: "2 \<le> b \<Longrightarrow> foldr (\<lambda>d a. a * b + d) (rdigits b n) 0 = n"
proof (induction b n rule: rdigits.induct)
  case (1 b n)
  then show ?case by (cases "n = 0") (simp_all add: rdigits.simps [of b n])
qed

lemma rdigits_less: "d \<in> set (rdigits b n) \<Longrightarrow> d < b"
proof (induction b n rule: rdigits.induct)
  case (1 b n)
  then show ?case by (auto simp: rdigits.simps [of b n] split: if_splits)
qed

lemma rdigits_last: "rdigits b n \<noteq> [] \<Longrightarrow> last (rdigits b n) \<noteq> 0"
proof (induction b n rule: rdigits.induct)
  case (1 b n)
  show ?case
  proof (cases "n div b = 0")
    case True
    with 1 show ?thesis
      by (auto simp: rdigits.simps [of b n] div_eq_0_iff split: if_splits)
  next
    case False
    with 1 show ?thesis
      by (auto simp: rdigits.simps [of b n] rdigits.simps [of b "n div b"] split: if_splits)
  qed
qed

lemma rdigits_length: "n < 2 ^ k \<Longrightarrow> length (rdigits b n) \<le> k"
proof (induction k arbitrary: n)
  case 0
  then show ?case by simp
next
  case (Suc k)
  show ?case
  proof (cases "n = 0 \<or> b < 2")
    case True
    then show ?thesis by (auto simp: rdigits.simps [of b n])
  next
    case False
    then have "n div b \<le> n div 2" by (intro div_le_mono2) simp_all
    also have "\<dots> < 2 ^ k" using Suc.prems by simp
    finally have "length (rdigits b (n div b)) \<le> k" by (rule Suc.IH)
    with False show ?thesis by (simp add: rdigits.simps [of b n])
  qed
qed

lemma tmp_digits_length: "length (tmp_digits ds b w) \<le> 32"
  using rdigits_length [of "unat w" 32 b] unsigned_less [of w]
  by (simp add: tmp_digits_rdigits)

section \<open>Reading back what was printed\<close>

definition dchar :: "nat \<Rightarrow> char" where
  "dchar d = char_of (48 + d)"

lemma dchar_digit [simp]: "d < 10 \<Longrightarrow> is_digit (dchar d)"
  by (simp add: dchar_def is_digit_def)

lemma of_char_dchar [simp]: "d < 10 \<Longrightarrow> of_char (dchar d) = (48 + d :: nat)"
  by (simp add: dchar_def)

lemma digits_nth:
  assumes "d < 10"
  shows "digits_upper ! d = dchar d" and "digits_lower ! d = dchar d"
proof -
  from assms have "d \<in> set [0,1,2,3,4,5,6,7,8,9]" by auto
  then show "digits_upper ! d = dchar d" "digits_lower ! d = dchar d"
    by (auto simp: digits_upper_def digits_lower_def dchar_def char_of_def bit_Suc_0_iff)
qed

lemma foldl_grows: "(0::int) \<le> i \<Longrightarrow> i \<le> foldl (\<lambda>a d. a * 10 + int d) i ds"
proof (induction ds arbitrary: i)
  case (Cons d ds)
  from Cons.IH [of "i * 10 + int d"] Cons.prems show ?case by simp
qed simp

lemma skip_atoi_loop_digits:
  assumes "\<forall>d \<in> set ds. d < 10" and "0 \<le> i"
    and "foldl (\<lambda>a d. a * 10 + int d) i ds < 2 ^ 31"
  shows "skip_atoi_loop i (map dchar ds @ s) =
         skip_atoi_loop (foldl (\<lambda>a d. a * 10 + int d) i ds) s"
  using assms
proof (induction ds arbitrary: i)
  case Nil
  then show ?case by simp
next
  case (Cons d ds)
  then have "i * 10 + int d \<le> foldl (\<lambda>a d. a * 10 + int d) (i * 10 + int d) ds"
    by (intro foldl_grows) simp
  with Cons.prems have "to_s32 (i * 10 + int d) = i * 10 + int d"
    by (intro to_s32_id) simp_all
  moreover have "int (of_char (dchar d)) - int (of_char (CHR ''0'')) = int d"
    using Cons.prems by simp
  ultimately show ?case using Cons by (simp add: algebra_simps)
qed

lemma rdigits_foldl:
  "2 \<le> b \<Longrightarrow> foldl (\<lambda>a d. a * int b + int d) 0 (rev (rdigits b n)) = int n"
proof -
  assume b: "2 \<le> b"
  have "int (foldr (\<lambda>d a. a * b + d) ds 0) = foldr (\<lambda>d a. a * int b + int d) ds 0" for ds
    by (induction ds) simp_all
  from this [of "rdigits b n"] show ?thesis
    by (simp only: foldl_conv_foldr rev_rev_ident rdigits_value [OF b])
qed

text \<open>The decimal numeral of a natural number, most significant digit first.\<close>

definition dec_nat :: "nat \<Rightarrow> string" where
  "dec_nat n = map dchar (if n = 0 then [0] else rev (rdigits 10 n))"

definition dec :: "int \<Rightarrow> string" where
  "dec i = (if i < 0 then CHR ''-'' # dec_nat (nat (- i)) else dec_nat (nat i))"

lemma skip_atoi_dec_nat:
  assumes "n < 2 ^ 31" and "s = [] \<or> \<not> is_digit (hd s)"
  shows "skip_atoi (dec_nat n @ s) = (int n, s)"
proof -
  define ds where "ds = (if n = 0 then [0] else rev (rdigits 10 n))"
  have v: "foldl (\<lambda>a d. a * 10 + int d) 0 ds = int n"
    using rdigits_foldl [of 10 n] by (simp add: ds_def)
  have "\<forall>d \<in> set ds. d < 10" by (auto simp: ds_def dest: rdigits_less)
  with v assms(1) have "skip_atoi_loop 0 (map dchar ds @ s) = skip_atoi_loop (int n) s"
    by (subst skip_atoi_loop_digits) auto
  also have "\<dots> = (int n, s)" using assms(2) by (cases s) auto
  finally show ?thesis by (simp add: skip_atoi_def dec_nat_def ds_def)
qed

lemma tmp_dec:
  "rev (if w = 0 then [CHR ''0''] else tmp_digits digits_upper 10 w) = dec_nat (unat w)"
proof (cases "w = 0")
  case True
  then show ?thesis by (simp add: dec_nat_def dchar_def char_of_def bit_Suc_0_iff)
next
  case False
  have "map ((!) digits_upper) (rdigits 10 n) = map dchar (rdigits 10 n)" for n
    by (auto simp: digits_nth dest: rdigits_less)
  with False show ?thesis
    by (simp add: dec_nat_def tmp_digits_rdigits unat_eq_0 rev_map)
qed

lemma dec_sint:
  "dec (sint (w :: u32)) =
     (if sint w < 0 then CHR ''-'' # dec_nat (unat (- w)) else dec_nat (unat w))"
proof -
  have "nat (- sint w) = unat (- w)" if "sint w < 0"
    using uint_minus_sint [OF that] by (simp add: unat_eq_nat_uint)
  moreover have "nat (sint w) = unat w" if "\<not> sint w < 0"
    using uint_sint_nonneg [of w] that by (simp add: unat_eq_nat_uint)
  ultimately show ?thesis by (simp add: dec_def)
qed

lemmas number_parts = num_sign_def num_special_def special_room_def num_layout_def

lemma number_plain:
  "number w 10 (-1) (-1) 0 = Some (dec_nat (unat w))"
  by (simp add: number_def number_parts Let_def flag_defs pad_while_def tmp_dec [symmetric])

lemma number_zeropad:
  "number w 10 sz (-1) ZEROPAD =
     Some (replicate (nat (sz - int (length (dec_nat (unat w))))) (CHR ''0'') @ dec_nat (unat w))"
  by (simp add: number_def number_parts Let_def flag_defs pad_while_def tmp_dec [symmetric])

lemma number_signed:
  "number w 10 (-1) (-1) SIGN = Some (dec (sint w))"
  by (simp add: number_def number_parts Let_def flag_defs pad_while_def tmp_dec [symmetric] dec_sint)

section \<open>The formatter on literal text and on decimal directives\<close>

lemma emit_emit: "emit t (emit s v) = emit (s @ t) v"
  by (simp add: emit_def)

lemma vs_loop_literal:
  "CHR ''%'' \<notin> set s \<Longrightarrow> vs_loop (s @ s') v = vs_loop s' (emit s v)"
  by (induction s arbitrary: v) (auto simp: emit_emit, simp_all add: emit_def)

lemma vs_loop_literal_end: "CHR ''%'' \<notin> set s \<Longrightarrow> vs_loop s v = Inr (emit s v)"
  using vs_loop_literal [of s "[]" v] by simp

lemma vs_directive_d:
  "vs_args v = VaInt w # as \<Longrightarrow>
   vs_directive (CHR ''d'' # s) v = Inr (s, emit (dec (sint w)) (v\<lparr>vs_args := as\<rparr>))"
  by (simp add: vs_directive_def vs_width_def vs_precision_def vs_qualifier_def peek_def
      is_digit_def vs_conversion_def vs_number_def number_signed)

lemma vs_directive_star:
  assumes "vs_args v = VaInt w # as"
  shows "vs_directive (CHR ''*'' # CHR ''d'' # s) v =
         Inr (CHR ''d'' # s, emit ''%*'' (v\<lparr>vs_args := as\<rparr>))"
  using assms
  by (simp add: vs_directive_def vs_width_def vs_precision_def vs_qualifier_def peek_def
      is_digit_def vs_conversion_def)


section \<open>Width and padding\<close>

lemma foldl_zeros: "foldl (\<lambda>a d. a * 10 + int d) 0 (replicate k 0) = 0"
  by (induction k) simp_all

lemma dchar_0: "dchar 0 = CHR ''0''"
  by (simp add: dchar_def char_of_def bit_Suc_0_iff)

lemma skip_atoi_zeros: "skip_atoi (replicate k (CHR ''0'') @ s) = skip_atoi s"
proof -
  have z: "replicate k (CHR ''0'') = map dchar (replicate k 0)"
    by (simp add: dchar_0)
  show ?thesis
    unfolding skip_atoi_def z
    by (subst skip_atoi_loop_digits) (auto simp: foldl_zeros)
qed

lemma length_pad_while: "length (fst (pad_while c z)) = nat z"
  "nat (snd (pad_while c z)) = 0"
  by (simp_all add: pad_while_def)

lemma length_num_layout:
  "length (num_layout type c z sign special body) =
   length sign + length special + length body + nat z"
  by (simp add: num_layout_def Let_def pad_while_def)

lemma number_length:
  assumes "number num base sz prec type = Some t"
  shows "sz \<le> int (length t)" and "prec \<le> int (length t)"
    and "int (length t) \<le> max sz (max prec 32 + 3)"
proof -
  let ?type = "if type AND LEFT \<noteq> 0 then type AND NOT ZEROPAD else type"
  let ?ds = "if type AND SMALL \<noteq> 0 then digits_lower else digits_upper"
  define n where "n = (if ?type AND SIGN \<noteq> 0 \<and> sint num < 0 then - num else num)"
  define tmp where "tmp = (if n = 0 then [CHR ''0''] else tmp_digits ?ds base n)"
  define sign where "sign = num_sign ?type num"
  define sp where "sp = num_special ?type base ?ds"
  define p where "p = (if int (length tmp) > prec then int (length tmp) else prec)"
  have tmp: "length tmp \<le> 32" using tmp_digits_length [of ?ds base n] by (simp add: tmp_def)
  have sign: "length sign \<le> 1" by (simp add: sign_def num_sign_def)
  have sp: "int (length sp) = special_room ?type base" "length sp \<le> 2"
    by (simp_all add: sp_def num_special_def special_room_def)
  have b: "\<not> (base < 2 \<or> 36 < base)"
    using assms unfolding number_def Let_def by (rule contrapos_pn) simp
  have "t = num_layout ?type (if ?type AND ZEROPAD \<noteq> 0 then CHR ''0'' else CHR '' '')
      ((if sign \<noteq> [] then sz - 1 else sz) - special_room ?type base - p) sign sp
      (replicate (nat (p - int (length tmp))) (CHR ''0'') @ rev tmp)"
    using assms b unfolding number_def Let_def n_def tmp_def sign_def sp_def p_def
    by (simp only: if_False option.inject)
  then have "int (length t) = max sz (int (length sign) + int (length sp) + p)"
    using sign by (cases sign) (simp_all add: length_num_layout p_def sp(1) [symmetric])
  with tmp sign sp(2) show "sz \<le> int (length t)" "prec \<le> int (length t)"
    "int (length t) \<le> max sz (max prec 32 + 3)"
    by (auto simp: p_def max_def split: if_splits)
qed

section \<open>Properties\<close>

text \<open>every directive \<open>%d\<close> in literal text prints the signed value of its argument in decimal,
  the most negative \<open>int\<close> included, and the text around it is copied unchanged.
\<close>

theorem vsprintf_decimal:
  assumes "CHR ''%'' \<notin> set pre" and "CHR ''%'' \<notin> set post"
    and "CHR 0x00 \<notin> set pre" and "CHR 0x00 \<notin> set post"
  shows "vsprintf (pre @ ''%d'' @ post) (VaInt w # as) =
         Inr \<lparr>vs_out = pre @ dec (sint w) @ post, vs_args = as, vs_stores = []\<rparr>"
proof -
  have "cstr (pre @ ''%d'' @ post) = pre @ ''%d'' @ post"
    using assms(3,4) by (intro cstr_id) auto
  with assms(1,2) show ?thesis
    by (simp add: vsprintf_def vs_loop_literal vs_directive_d vs_loop_literal_end emit_def)
qed

theorem vsprintf_decimal_witness:
  "vsprintf (''pid '' @ ''%d'' @ ''!'') [VaInt 0x80000000] =
   Inr \<lparr>vs_out = ''pid '' @ dec (- (2 ^ 31)) @ ''!'', vs_args = [], vs_stores = []\<rparr>"
  using vsprintf_decimal [of "''pid ''" "''!''" "0x80000000" "[]"] by simp

text \<open>reading back a number printed with leading zeros in any field width gives the number, so
  \<open>skip_atoi\<close> and \<open>number\<close> agree on decimal notation below the overflow bound of \<open>int\<close>.
\<close>

theorem skip_atoi_number_zeropad:
  assumes "unat w < 2 ^ 31" and "s = [] \<or> \<not> is_digit (hd s)"
  shows "map_option (\<lambda>t. skip_atoi (t @ s)) (number w 10 sz (-1) ZEROPAD) =
         Some (int (unat w), s)"
  using skip_atoi_dec_nat [OF assms] by (simp add: number_zeropad skip_atoi_zeros)

theorem skip_atoi_number_zeropad_witness:
  "map_option (\<lambda>t. skip_atoi (t @ '' blocks'')) (number 1991 10 8 (-1) ZEROPAD) =
   Some (int (unat (1991 :: u32)), '' blocks'')"
  by (rule skip_atoi_number_zeropad) (simp_all add: is_digit_def)

text \<open>whatever the flags and the base, \<open>number\<close> fills at least the field width and the
  precision it was given and never writes more than the larger of the field and 35 characters
  beside the precision, so its scratch array of 36 digits never overflows.
\<close>

theorem number_width:
  assumes "number num base sz prec type = Some t"
  shows "sz \<le> int (length t) \<and> prec \<le> int (length t) \<and>
         int (length t) \<le> max sz (max prec 32 + 3) \<and> length (tmp_digits ds base num) \<le> 32"
  using number_length [OF assms] tmp_digits_length by simp

theorem number_width_witness:
  "\<exists>t. number 255 10 6 (-1) LEFT = Some t \<and> (6 \<le> int (length t) \<and> -1 \<le> int (length t) \<and>
         int (length t) \<le> max 6 (max (-1) 32 + 3) \<and> length (tmp_digits digits_upper 10 255) \<le> 32)"
proof -
  obtain t where t: "number 255 10 6 (-1) LEFT = Some t"
    by (simp add: number_def Let_def)
  from number_width [OF t, of digits_upper] t show ?thesis by blast
qed

text \<open>a width given as \<open>*\<close> is read from the arguments but the asterisk is never skipped, so
  the directive \<open>%*d\<close> prints \<open>%*d\<close> itself and leaves the number it should print unread.
\<close>

theorem vsprintf_star_width_broken:
  "vsprintf ''%*d'' [VaInt width, VaInt value] =
   Inr \<lparr>vs_out = ''%*d'', vs_args = [VaInt value], vs_stores = []\<rparr>"
proof -
  have "cstr ''%*d'' = ''%*d''" by (intro cstr_id) simp
  then show ?thesis
    by (simp add: vsprintf_def vs_directive_star) (simp add: emit_def)
qed

end
