(* ===== verification/Mktime.thy ===== *)
theory Mktime
  imports Prelude
begin

text \<open>
  \<^verbatim>\<open>kernel/mktime.c\<close>: the seconds since 1970 of a broken-down time. The reference is the
  proleptic count of days with the Gregorian leap rule.
\<close>

record tm =
  tm_sec :: int
  tm_min :: int
  tm_hour :: int
  tm_mday :: int
  tm_mon :: int
  tm_year :: int

definition MINUTE :: int where "MINUTE = 60"

definition HOUR :: int where "HOUR = 60 * MINUTE"

definition DAY :: int where "DAY = 24 * HOUR"

definition YEAR :: int where "YEAR = 365 * DAY"

lemmas time_unit_defs = MINUTE_def HOUR_def DAY_def YEAR_def

text \<open>Seconds before each month of a leap year.\<close>

definition month :: "int list" where
  "month = [0,
     DAY * 31,
     DAY * (31 + 29),
     DAY * (31 + 29 + 31),
     DAY * (31 + 29 + 31 + 30),
     DAY * (31 + 29 + 31 + 30 + 31),
     DAY * (31 + 29 + 31 + 30 + 31 + 30),
     DAY * (31 + 29 + 31 + 30 + 31 + 30 + 31),
     DAY * (31 + 29 + 31 + 30 + 31 + 30 + 31 + 31),
     DAY * (31 + 29 + 31 + 30 + 31 + 30 + 31 + 31 + 30),
     DAY * (31 + 29 + 31 + 30 + 31 + 30 + 31 + 31 + 30 + 31),
     DAY * (31 + 29 + 31 + 30 + 31 + 30 + 31 + 31 + 30 + 31 + 30)]"

text \<open>
  The arithmetic is on \<open>long\<close>, which wraps at 32 bits: sums and products modulo \<open>2 ^ 32\<close> may
  be wrapped once, at the end. An index outside the month table is undefined.
\<close>

definition kernel_mktime :: "tm \<Rightarrow> int res" where
  "kernel_mktime t =
     (let year = tm_year t - 70;
          res = YEAR * year + DAY * c_div (year + 1) 4
      in if tm_mon t < 0 \<or> 12 \<le> tm_mon t then Inl Undefined
      else
      let res = res + month ! nat (tm_mon t);
          res = (if tm_mon t > 1 \<and> c_mod (year + 2) 4 \<noteq> 0 then res - DAY else res);
          res = res + DAY * (tm_mday t - 1);
          res = res + HOUR * tm_hour t;
          res = res + MINUTE * tm_min t
      in Inr (to_s32 (res + tm_sec t)))"

section \<open>The Gregorian reference\<close>

definition leap :: "int \<Rightarrow> bool" where
  "leap y \<longleftrightarrow> 4 dvd y \<and> (\<not> 100 dvd y \<or> 400 dvd y)"

definition days_in_month :: "int \<Rightarrow> nat \<Rightarrow> int" where
  "days_in_month y m =
     (if m = 1 then (if leap y then 29 else 28)
      else if m \<in> {3, 5, 8, 10} then 30 else 31)"

definition days_in_year :: "int \<Rightarrow> int" where
  "days_in_year y = (if leap y then 366 else 365)"

definition gregorian_seconds :: "tm \<Rightarrow> int" where
  "gregorian_seconds t =
     (let y = 1900 + tm_year t
      in ((\<Sum>i = 1970..<y. days_in_year i) + (\<Sum>m < nat (tm_mon t). days_in_month y m)
          + (tm_mday t - 1)) * 86400
         + tm_hour t * 3600 + tm_min t * 60 + tm_sec t)"

lemma leap_century:
  assumes "1970 \<le> y" and "y < 2100"
  shows "leap y \<longleftrightarrow> 4 dvd y"
proof -
  have "400 dvd y" if "100 dvd y"
  proof -
    from that obtain k where "y = 100 * k" by (auto elim: dvdE)
    with assms have "y = 100 * 20" by simp
    then show ?thesis by simp
  qed
  then show ?thesis by (auto simp: leap_def)
qed

lemma leap_step: "(z :: int) div 4 - (z - 1) div 4 = (if 4 dvd z then 1 else 0)"
  by presburger

lemma days_before_year:
  assumes "1970 \<le> y" and "y < 2100"
  shows "(\<Sum>i = 1970..<y. days_in_year i) = 365 * (y - 1970) + (y - 1969) div 4"
  using assms
proof (induction y rule: int_ge_induct)
  case base
  then show ?case by simp
next
  case (step y)
  then have "{1970..<y + 1} = insert y {1970..<y}" by auto
  with step have "(\<Sum>i = 1970..<y + 1. days_in_year i) =
      days_in_year y + (365 * (y - 1970) + (y - 1969) div 4)" by simp
  also have "days_in_year y = 365 + ((y - 1968) div 4 - (y - 1968 - 1) div 4)"
  proof -
    have "leap y \<longleftrightarrow> 4 dvd y" using step by (intro leap_century) simp_all
    also have "\<dots> \<longleftrightarrow> 4 dvd (y - 1968)" by (rule dvd_diff_left_iff [symmetric]) simp
    finally show ?thesis unfolding leap_step by (simp add: days_in_year_def)
  qed
  finally show ?case by simp
qed

lemma days_before_month:
  assumes "m < 12"
  shows "(\<Sum>i < m. days_in_month y i) * 86400 =
         month ! m - (if m > 1 \<and> \<not> leap y then 86400 else 0)"
proof -
  from assms have "m = 0 \<or> m = 1 \<or> m = 2 \<or> m = 3 \<or> m = 4 \<or> m = 5 \<or> m = 6 \<or> m = 7 \<or>
      m = 8 \<or> m = 9 \<or> m = 10 \<or> m = 11" by arith
  then show ?thesis
    by (elim disjE)
      (simp_all add: days_in_month_def month_def time_unit_defs numeral_eq_Suc lessThan_Suc)
qed

lemma kernel_mktime_gregorian:
  assumes y: "70 \<le> tm_year t" "tm_year t < 200" and m: "0 \<le> tm_mon t" "tm_mon t < 12"
  shows "kernel_mktime t = Inr (to_s32 (gregorian_seconds t))"
proof -
  let ?y = "1900 + tm_year t"
  have leap: "c_mod (tm_year t - 70 + 2) 4 = 0 \<longleftrightarrow> leap ?y"
  proof -
    have "leap ?y \<longleftrightarrow> 4 dvd ?y" using y by (intro leap_century) simp_all
    then show ?thesis using y by (simp add: c_mod_nonneg) presburger
  qed
  have yr: "(\<Sum>i = 1970..<?y. days_in_year i) =
      365 * (tm_year t - 70) + c_div (tm_year t - 69) 4"
    using y by (subst days_before_year) (simp_all add: c_div_nonneg)
  have mo: "(\<Sum>i < nat (tm_mon t). days_in_month ?y i) * 86400 =
      month ! nat (tm_mon t) - (if tm_mon t > 1 \<and> \<not> leap ?y then 86400 else 0)"
    using m days_before_month [of "nat (tm_mon t)" ?y] by (auto simp: nat_less_iff)
  show ?thesis
    using m leap yr mo
    by (cases "tm_mon t > 1 \<and> \<not> leap ?y")
      (auto simp: kernel_mktime_def gregorian_seconds_def Let_def time_unit_defs algebra_simps
        intro!: arg_cong [of _ _ to_s32])
qed

section \<open>Properties\<close>

text \<open>C28: for every valid month of the years 1970 to 2099 \<open>kernel_mktime\<close> is the Gregorian count
  of seconds modulo the width of \<open>long\<close>, although it only ever tests divisibility of the
  shifted year by four; as long as that count fits in \<open>long\<close> it is exact.
\<close>

theorem mktime_gregorian:
  assumes "70 \<le> tm_year t" and "tm_year t < 200" and "0 \<le> tm_mon t" and "tm_mon t < 12"
  shows "kernel_mktime t = Inr (to_s32 (gregorian_seconds t)) \<and>
         (0 \<le> gregorian_seconds t \<and> gregorian_seconds t < 2 ^ 31 \<longrightarrow>
          kernel_mktime t = Inr (gregorian_seconds t))"
  using kernel_mktime_gregorian [OF assms] by (simp add: to_s32_id)

theorem mktime_gregorian_witness:
  "kernel_mktime \<lparr>tm_sec = 0, tm_min = 30, tm_hour = 2, tm_mday = 1, tm_mon = 1, tm_year = 70\<rparr> =
   Inr (31 * 86400 + 2 * 3600 + 30 * 60)"
proof -
  let ?t = "\<lparr>tm_sec = 0, tm_min = 30, tm_hour = 2, tm_mday = 1, tm_mon = 1, tm_year = 70\<rparr>"
  have g: "gregorian_seconds ?t = 31 * 86400 + 2 * 3600 + 30 * 60"
    by (simp add: gregorian_seconds_def days_in_month_def)
  show ?thesis using mktime_gregorian [of ?t, THEN conjunct2] unfolding g by simp
qed

end
