(* ===== verification/Task.thy ===== *)
theory Task
  imports Prelude
begin

text \<open>
  The process table entry of \<^verbatim>\<open>include/linux/sched.h\<close>, shared by the memory manager, the
  scheduler and the process system calls, with the constants of \<^verbatim>\<open>include/signal.h\<close> and
  \<^verbatim>\<open>include/errno.h\<close> they use. Pointers to inodes and open files are indices into their
  tables, the null pointer is \<open>None\<close>. Signal sets are words, one bit per signal; times,
  counters and identifiers are the values of their \<open>long\<close>.
\<close>

section \<open>Constants\<close>

abbreviation (input) NR_TASKS :: nat where "NR_TASKS \<equiv> 64"

abbreviation (input) HZ :: int where "HZ \<equiv> 100"

abbreviation (input) SIGHUP :: nat where "SIGHUP \<equiv> 1"

abbreviation (input) SIGKILL :: nat where "SIGKILL \<equiv> 9"

abbreviation (input) SIGSEGV :: nat where "SIGSEGV \<equiv> 11"

abbreviation (input) SIGPIPE :: nat where "SIGPIPE \<equiv> 13"

abbreviation (input) SIGALRM :: nat where "SIGALRM \<equiv> 14"

abbreviation (input) SIGCHLD :: nat where "SIGCHLD \<equiv> 17"

abbreviation (input) SIGSTOP :: nat where "SIGSTOP \<equiv> 19"

abbreviation (input) EPERM :: int where "EPERM \<equiv> 1"

abbreviation (input) ENOENT :: int where "ENOENT \<equiv> 2"

abbreviation (input) ESRCH :: int where "ESRCH \<equiv> 3"

abbreviation (input) EINTR :: int where "EINTR \<equiv> 4"

abbreviation (input) EIO :: int where "EIO \<equiv> 5"

abbreviation (input) EBADF :: int where "EBADF \<equiv> 9"

abbreviation (input) ECHILD :: int where "ECHILD \<equiv> 10"

abbreviation (input) EAGAIN :: int where "EAGAIN \<equiv> 11"

abbreviation (input) ENOMEM :: int where "ENOMEM \<equiv> 12"

abbreviation (input) EACCES :: int where "EACCES \<equiv> 13"

abbreviation (input) EEXIST :: int where "EEXIST \<equiv> 17"

abbreviation (input) ENOTDIR :: int where "ENOTDIR \<equiv> 20"

abbreviation (input) EISDIR :: int where "EISDIR \<equiv> 21"

abbreviation (input) EINVAL :: int where "EINVAL \<equiv> 22"

abbreviation (input) ENFILE :: int where "ENFILE \<equiv> 23"

abbreviation (input) EMFILE :: int where "EMFILE \<equiv> 24"

abbreviation (input) ENOSPC :: int where "ENOSPC \<equiv> 28"

abbreviation (input) ESPIPE :: int where "ESPIPE \<equiv> 29"

abbreviation (input) ERROR :: int where "ERROR \<equiv> 99"

abbreviation (input) ENOSYS :: int where "ENOSYS \<equiv> 38"

section \<open>The task structure\<close>

datatype tstate =
    TASK_RUNNING
  | TASK_INTERRUPTIBLE
  | TASK_UNINTERRUPTIBLE
  | TASK_ZOMBIE
  | TASK_STOPPED

text \<open>A handler is an address; 0 is the default action and 1 is ignore.\<close>

record sigaction =
  sa_handler :: u32
  sa_mask :: u32
  sa_flags :: u32
  sa_restorer :: u32

text \<open>A descriptor of the local descriptor table, by the base and the limit it encodes.\<close>

record desc =
  d_base :: u32
  d_limit :: u32

record task_struct =
  tstate :: tstate
  counter :: int
  priority :: int
  signal :: u32
  sigactions :: "nat \<Rightarrow> sigaction"
  blocked :: u32
  exit_code :: int
  start_code :: u32
  end_code :: u32
  end_data :: u32
  brk :: u32
  start_stack :: u32
  pid :: int
  father :: int
  pgrp :: int
  session :: int
  leader :: int
  uid :: u16
  euid :: u16
  suid :: u16
  gid :: u16
  egid :: u16
  sgid :: u16
  alarm :: int
  utime :: int
  stime :: int
  cutime :: int
  cstime :: int
  start_time :: int
  used_math :: bool
  tty :: int
  umask :: u16
  pwd :: "nat option"
  root :: "nat option"
  executable :: "nat option"
  close_on_exec :: u32
  filp :: "nat \<Rightarrow> nat option"
  ldt_code :: desc
  ldt_data :: desc

type_synonym task_table = "nat \<Rightarrow> task_struct option"

definition no_action :: sigaction where
  "no_action = \<lparr>sa_handler = 0, sa_mask = 0, sa_flags = 0, sa_restorer = 0\<rparr>"

text \<open>\<open>INIT_TASK\<close>: the first entry of the table.\<close>

definition INIT_TASK :: task_struct where
  "INIT_TASK = \<lparr>
     tstate = TASK_RUNNING, counter = 15, priority = 15,
     signal = 0, sigactions = (\<lambda>_. no_action), blocked = 0,
     exit_code = 0, start_code = 0, end_code = 0, end_data = 0, brk = 0, start_stack = 0,
     pid = 0, father = -1, pgrp = 0, session = 0, leader = 0,
     uid = 0, euid = 0, suid = 0, gid = 0, egid = 0, sgid = 0,
     alarm = 0, utime = 0, stime = 0, cutime = 0, cstime = 0, start_time = 0,
     used_math = False, tty = -1, umask = 18,
     pwd = None, root = None, executable = None, close_on_exec = 0,
     filp = (\<lambda>_. None),
     ldt_code = \<lparr>d_base = 0, d_limit = 0xa0000\<rparr>,
     ldt_data = \<lparr>d_base = 0, d_limit = 0xa0000\<rparr>\<rparr>"

text \<open>\<open>1 << (sig - 1)\<close>: the bit of a signal in a signal set.\<close>

definition sig_bit :: "nat \<Rightarrow> u32" where
  "sig_bit sig = push_bit (sig - 1) 1"

lemma bit_sig_bit: "bit (sig_bit sig) n \<longleftrightarrow> n = sig - 1 \<and> n < 32"
  by (auto simp: sig_bit_def bit_simps)

lemma sig_bit_nonzero: "1 \<le> sig \<Longrightarrow> sig \<le> 32 \<Longrightarrow> sig_bit sig \<noteq> 0"
  using bit_sig_bit [of sig "sig - 1"] by auto

end
