(* ===== verification/Sched.thy ===== *)
theory Sched
  imports Task
begin

text \<open>
  \<^verbatim>\<open>kernel/sched.c\<close>: the state of the file, the scheduler and the system calls on the current
  task. A task pointer is an index into \<open>task\<close>. \<open>schedule\<close> ends in the switch to the task it
  selected: its result is the state in which that task goes on.
\<close>

section \<open>State\<close>

record timer_list =
  tl_jiffies :: int
  tl_fn :: "nat option"
  tl_next :: "nat option"

record sched =
  task :: task_table
  current :: nat
  jiffies :: int
  last_task_used_math :: "nat option"
  wait_motor :: "nat \<Rightarrow> nat option"
  mon_timer :: "nat \<Rightarrow> int"
  moff_timer :: "nat \<Rightarrow> int"
  current_DOR :: u8
  timers :: "nat \<Rightarrow> timer_list"
  next_timer :: "nat option"
  beepcount :: int
  ports :: "(nat \<times> u8) list"

definition upd_task :: "nat \<Rightarrow> (task_struct \<Rightarrow> task_struct) \<Rightarrow> sched \<Rightarrow> sched" where
  "upd_task i f s = s\<lparr>task := (task s)(i := map_option f (task s i))\<rparr>"

definition set_state :: "tstate \<Rightarrow> nat \<Rightarrow> sched \<Rightarrow> sched" where
  "set_state st i s = upd_task i (tstate_update (\<lambda>_. st)) s"

definition outb :: "u8 \<Rightarrow> nat \<Rightarrow> sched \<Rightarrow> sched" where
  "outb v port s = s\<lparr>ports := ports s @ [(port, v)]\<rparr>"

section \<open>The scheduler\<close>

definition BLOCKABLE :: u32 where
  "BLOCKABLE = NOT (sig_bit SIGKILL OR sig_bit SIGSTOP)"

text \<open>The first loop of \<open>schedule\<close>, for one task: its alarm, then its signals.\<close>

definition check_alarm :: "int \<Rightarrow> task_struct \<Rightarrow> task_struct" where
  "check_alarm now p =
     (if alarm p \<noteq> 0 \<and> alarm p < now
      then p\<lparr>signal := signal p OR sig_bit SIGALRM, alarm := 0\<rparr> else p)"

definition check_signal :: "task_struct \<Rightarrow> task_struct" where
  "check_signal p =
     (if signal p AND NOT (BLOCKABLE AND blocked p) \<noteq> 0 \<and> tstate p = TASK_INTERRUPTIBLE
      then p\<lparr>tstate := TASK_RUNNING\<rparr> else p)"

text \<open>A loop over \<open>LAST_TASK\<close> down to the one after \<open>FIRST_TASK\<close>.\<close>

definition each_task :: "(task_struct \<Rightarrow> task_struct) \<Rightarrow> task_table \<Rightarrow> task_table" where
  "each_task f tk =
     (\<lambda>i. if 0 < i \<and> i < NR_TASKS then map_option f (tk i) else tk i)"

text \<open>The selection loop: slots \<open>n\<close> down to 1, the best counter and its slot so far.\<close>

fun select_task :: "task_table \<Rightarrow> nat \<Rightarrow> int \<Rightarrow> nat \<Rightarrow> int \<times> nat" where
  "select_task tk 0 c nxt = (c, nxt)"
| "select_task tk (Suc i) c nxt =
     (case tk (Suc i) of
        None \<Rightarrow> select_task tk i c nxt
      | Some p \<Rightarrow>
          if tstate p = TASK_RUNNING \<and> counter p > c
          then select_task tk i (counter p) (Suc i)
          else select_task tk i c nxt)"

definition recharge :: "task_struct \<Rightarrow> task_struct" where
  "recharge p = p\<lparr>counter := to_s32 (counter p div 2 + priority p)\<rparr>"

partial_function (option) sched_loop :: "task_table \<Rightarrow> (nat \<times> task_table) option" where
  "sched_loop tk =
     (case select_task tk (NR_TASKS - 1) (-1) 0 of (c, nxt) \<Rightarrow>
        if c \<noteq> 0 then Some (nxt, tk) else sched_loop (each_task recharge tk))"

definition check_alarms :: "sched \<Rightarrow> task_table" where
  "check_alarms s = each_task (\<lambda>p. check_signal (check_alarm (jiffies s) p)) (task s)"

definition schedule :: "sched \<Rightarrow> sched res" where
  "schedule s =
     (case sched_loop (check_alarms s) of
        None \<Rightarrow> Inl Diverges
      | Some (nxt, tk) \<Rightarrow> Inr (s\<lparr>task := tk, current := nxt\<rparr>))"

declare sched_loop.simps [code]

text \<open>The state of the coprocessor is saved and loaded by \<open>fnsave\<close> and \<open>frstor\<close>.\<close>

definition math_state_restore :: "sched \<Rightarrow> sched" where
  "math_state_restore s =
     (if last_task_used_math s = Some (current s) then s
      else upd_task (current s) (\<lambda>p. if used_math p then p else p\<lparr>used_math := True\<rparr>)
             (s\<lparr>last_task_used_math := Some (current s)\<rparr>))"

definition sys_pause :: "sched \<Rightarrow> sched res" where
  "sys_pause s = schedule (set_state TASK_INTERRUPTIBLE (current s) s)"

section \<open>System calls\<close>

text \<open>A system call on the current task: its result and its new entry.\<close>

definition sys_alarm :: "int \<Rightarrow> int \<Rightarrow> task_struct \<Rightarrow> int \<times> task_struct" where
  "sys_alarm now seconds p =
     (if alarm p \<noteq> 0 then c_div (to_s32 (alarm p - now)) HZ else alarm p,
      p\<lparr>alarm := if seconds > 0 then to_s32 (now + HZ * seconds) else 0\<rparr>)"

definition sys_getpid :: "task_struct \<Rightarrow> int" where
  "sys_getpid p = pid p"

definition sys_getppid :: "task_struct \<Rightarrow> int" where
  "sys_getppid p = father p"

definition sys_getuid :: "task_struct \<Rightarrow> int" where
  "sys_getuid p = uint (uid p)"

definition sys_geteuid :: "task_struct \<Rightarrow> int" where
  "sys_geteuid p = uint (euid p)"

definition sys_getgid :: "task_struct \<Rightarrow> int" where
  "sys_getgid p = uint (gid p)"

definition sys_getegid :: "task_struct \<Rightarrow> int" where
  "sys_getegid p = uint (egid p)"

definition sys_nice :: "int \<Rightarrow> task_struct \<Rightarrow> int \<times> task_struct" where
  "sys_nice increment p =
     (0, if to_s32 (priority p - increment) > 0
         then p\<lparr>priority := to_s32 (priority p - increment)\<rparr> else p)"

text \<open>The table and the ports; the descriptors and the interrupt gates are not modelled.\<close>

abbreviation (input) LATCH :: nat where "LATCH \<equiv> 11931"

definition sched_init :: "u8 \<Rightarrow> sched \<Rightarrow> sched" where
  "sched_init irq_mask s =
     (let s = s\<lparr>task := (\<lambda>i. if 1 \<le> i \<and> i < NR_TASKS then None else task s i)\<rparr>;
          s = outb 0x36 0x43 s;
          s = outb (of_nat (LATCH mod 256)) 0x40 s;
          s = outb (of_nat (LATCH div 256)) 0x40 s
      in outb (irq_mask AND NOT 1) 0x21 s)"

text \<open>The initial values of the variables of the file.\<close>

definition sched_boot :: sched where
  "sched_boot = \<lparr>task = (\<lambda>i. if i = 0 then Some INIT_TASK else None), current = 0, jiffies = 0,
     last_task_used_math = None, wait_motor = (\<lambda>_. None), mon_timer = (\<lambda>_. 0),
     moff_timer = (\<lambda>_. 0), current_DOR = 0x0C,
     timers = (\<lambda>_. \<lparr>tl_jiffies = 0, tl_fn = None, tl_next = None\<rparr>), next_timer = None,
     beepcount = 0, ports = []\<rparr>"

section \<open>What the scheduler selects\<close>

lemma each_task_simps [simp]:
  "each_task f tk i = (if 0 < i \<and> i < NR_TASKS then map_option f (tk i) else tk i)"
  by (simp add: each_task_def)

lemma tstate_recharge [simp]: "tstate (recharge p) = tstate p" "priority (recharge p) = priority p"
  by (simp_all add: recharge_def)

text \<open>What the selection loop returns.\<close>

lemma select_task_spec:
  assumes "select_task tk n c nxt = (c', nxt')"
  shows "c \<le> c' \<and> (\<forall>i p. 0 < i \<and> i \<le> n \<and> tk i = Some p \<and> tstate p = TASK_RUNNING \<longrightarrow> counter p \<le> c') \<and>
    ((c', nxt') = (c, nxt) \<or>
     0 < nxt' \<and> nxt' \<le> n \<and> (\<exists>p. tk nxt' = Some p \<and> tstate p = TASK_RUNNING \<and> counter p = c' \<and> c < c'))"
  using assms
proof (induction n arbitrary: c nxt)
  case (Suc n)
  show ?case
  proof (cases "\<exists>p. tk (Suc n) = Some p \<and> tstate p = TASK_RUNNING \<and> counter p > c")
    case True
    then obtain p where p: "tk (Suc n) = Some p" "tstate p = TASK_RUNNING" "counter p > c" by blast
    with Suc.prems have "select_task tk n (counter p) (Suc n) = (c', nxt')" by simp
    note IH = Suc.IH [OF this]
    have "counter q \<le> c'" if "0 < i" "i \<le> Suc n" "tk i = Some q" "tstate q = TASK_RUNNING" for i q
      using that IH p by (auto simp: le_Suc_eq)
    then show ?thesis using IH p by auto
  next
    case False
    with Suc.prems have "select_task tk n c nxt = (c', nxt')" by (auto split: option.splits)
    note IH = Suc.IH [OF this]
    have "counter q \<le> c'" if "0 < i" "i \<le> Suc n" "tk i = Some q" "tstate q = TASK_RUNNING" for i q
      using that IH False by (auto simp: not_less le_Suc_eq)
    then show ?thesis using IH by auto
  qed
qed auto

definition runnable :: "task_table \<Rightarrow> nat \<Rightarrow> bool" where
  "runnable tk i \<longleftrightarrow>
     0 < i \<and> i < NR_TASKS \<and> (\<exists>p. tk i = Some p \<and> tstate p = TASK_RUNNING)"

text \<open>Counters and priorities as the system keeps them.\<close>

definition task_ok :: "task_struct \<Rightarrow> bool" where
  "task_ok p \<longleftrightarrow> 0 < priority p \<and> priority p < 2 ^ 30 \<and> 0 \<le> counter p \<and> counter p \<le> 2 * priority p"

definition tasks_ok :: "task_table \<Rightarrow> bool" where
  "tasks_ok tk \<longleftrightarrow> (\<forall>i p. 0 < i \<and> i < NR_TASKS \<and> tk i = Some p \<longrightarrow> task_ok p)"

lemma recharge_counter:
  assumes "task_ok p"
  shows "counter (recharge p) = counter p div 2 + priority p" "0 < counter (recharge p)"
proof -
  have b: "0 \<le> counter p div 2" "counter p div 2 \<le> priority p"
    using assms zdiv_mono1 [of "counter p" "2 * priority p" 2] by (auto simp: task_ok_def)
  then have "to_s32 (counter p div 2 + priority p) = counter p div 2 + priority p"
    using assms by (intro to_s32_id) (auto simp: task_ok_def)
  with b assms show "counter (recharge p) = counter p div 2 + priority p" "0 < counter (recharge p)"
    by (auto simp: recharge_def task_ok_def)
qed

lemma sched_loop_spec:
  assumes "tasks_ok tk"
  shows "\<exists>nxt tk'. sched_loop tk = Some (nxt, tk') \<and>
    (if \<exists>i. runnable tk i
     then runnable tk nxt \<and> 0 < counter (the (tk' nxt)) \<and>
          (\<forall>i. runnable tk i \<longrightarrow> counter (the (tk' i)) \<le> counter (the (tk' nxt)))
     else nxt = 0) \<and>
    tk' = (if (\<exists>i. runnable tk i) \<and> (\<forall>i. runnable tk i \<longrightarrow> counter (the (tk i)) = 0)
           then each_task recharge tk else tk)"
proof -
  obtain c nxt where sel: "select_task tk (NR_TASKS - 1) (-1) 0 = (c, nxt)" by fastforce
  note S = select_task_spec [OF sel]
  have le: "i < NR_TASKS \<longleftrightarrow> i \<le> 63" for i :: nat by auto
  show ?thesis
  proof (cases "c = 0")
    case False
    have run: "sched_loop tk = Some (nxt, tk)"
      using False by (subst sched_loop.simps) (simp only: sel prod.case if_True not_False_eq_True)
    show ?thesis
    proof (cases "\<exists>i. runnable tk i")
      case True
      then obtain i p where i: "0 < i" "i < NR_TASKS" "tk i = Some p" "tstate p = TASK_RUNNING"
        by (auto simp: runnable_def)
      then have "counter p \<le> c" using S by (auto simp: le)
      moreover have "0 \<le> counter p" using i assms by (auto simp: tasks_ok_def task_ok_def)
      ultimately have "0 \<le> c" by simp
      with S False \<open>0 \<le> c\<close> have n: "0 < nxt" "nxt < NR_TASKS" "0 < c"
        "\<exists>p. tk nxt = Some p \<and> tstate p = TASK_RUNNING \<and> counter p = c" by auto
      then have rn: "runnable tk nxt" "counter (the (tk nxt)) = c" by (auto simp: runnable_def)
      then have nz: "\<not> (\<forall>i. runnable tk i \<longrightarrow> counter (the (tk i)) = 0)" using n(3) by auto
      have "\<forall>i. runnable tk i \<longrightarrow> counter (the (tk i)) \<le> c"
        using S by (auto simp: runnable_def le)
      then show ?thesis using run n(3) rn nz True
        by (intro exI [of _ nxt] exI [of _ tk]) auto
    next
      case none: False
      then have "nxt = 0" using S by (auto simp: runnable_def le)
      with none run show ?thesis by auto
    qed
  next
    case True
    with S have n: "0 < nxt" "nxt < NR_TASKS" "\<exists>p. tk nxt = Some p \<and> tstate p = TASK_RUNNING \<and> counter p = 0"
      by auto
    then have ex: "\<exists>i. runnable tk i" by (auto simp: runnable_def)
    have zero: "counter (the (tk i)) = 0" if r: "runnable tk i" for i
    proof -
      obtain p where p: "0 < i" "i < NR_TASKS" "tk i = Some p" "tstate p = TASK_RUNNING"
        using r by (auto simp: runnable_def)
      then have "counter p \<le> 0" using S True by (auto simp: le)
      moreover have "0 \<le> counter p" using p assms by (auto simp: tasks_ok_def task_ok_def)
      ultimately show ?thesis using p by simp
    qed
    let ?tk = "each_task recharge tk"
    have r: "runnable ?tk i = runnable tk i" for i by (auto simp: runnable_def)
    obtain c2 nxt2 where sel2: "select_task ?tk (NR_TASKS - 1) (-1) 0 = (c2, nxt2)" by fastforce
    note S2 = select_task_spec [OF sel2]
    obtain p where p: "?tk nxt = Some p" "tstate p = TASK_RUNNING" "0 < counter p"
    proof -
      obtain p0 where p0: "tk nxt = Some p0" "tstate p0 = TASK_RUNNING" using n by blast
      with n assms have "task_ok p0" by (auto simp: tasks_ok_def)
      then have "0 < counter (recharge p0)" by (rule recharge_counter)
      with that [of "recharge p0"] p0 n show ?thesis by simp
    qed
    then have "counter p \<le> c2" using S2 n(1,2) by (auto simp: le simp del: each_task_simps)
    with p(3) have pos: "0 < c2" by simp
    have run: "sched_loop tk = Some (nxt2, ?tk)"
      using True pos
      by (subst sched_loop.simps, subst sched_loop.simps) (simp only: sel sel2 prod.case, simp)
    have n2: "0 < nxt2" "nxt2 < NR_TASKS"
      "\<exists>p. ?tk nxt2 = Some p \<and> tstate p = TASK_RUNNING \<and> counter p = c2"
      using S2 pos by auto
    then have "runnable ?tk nxt2" "counter (the (?tk nxt2)) = c2" by (auto simp: runnable_def simp del: each_task_simps)
    moreover have "\<forall>i. runnable ?tk i \<longrightarrow> counter (the (?tk i)) \<le> c2"
      using S2 by (auto simp: runnable_def le simp del: each_task_simps)
    ultimately show ?thesis using run pos ex zero
      by (intro exI [of _ nxt2] exI [of _ ?tk]) (simp add: r del: each_task_simps)
  qed
qed


lemma check_keeps [simp]: "counter (check_signal (check_alarm j p)) = counter p"
  "priority (check_signal (check_alarm j p)) = priority p"
  by (simp_all add: check_signal_def check_alarm_def)

lemma check_wakes:
  "tstate (check_signal (check_alarm j p)) =
     (if tstate p = TASK_INTERRUPTIBLE \<and>
         signal (check_alarm j p) AND NOT (BLOCKABLE AND blocked p) \<noteq> 0
      then TASK_RUNNING else tstate p)"
  by (simp add: check_signal_def check_alarm_def)

lemma tasks_ok_each:
  assumes "tasks_ok tk" and "\<And>p. task_ok p \<Longrightarrow> task_ok (f p)"
  shows "tasks_ok (each_task f tk)"
  using assms by (auto simp: tasks_ok_def)

lemma task_ok_recharge: "task_ok p \<Longrightarrow> task_ok (recharge p)"
proof -
  assume p: "task_ok p"
  then have "counter p div 2 \<le> priority p"
    using zdiv_mono1 [of "counter p" "2 * priority p" 2] by (auto simp: task_ok_def)
  with p show ?thesis using recharge_counter [OF p] by (auto simp: task_ok_def)
qed

text \<open>The scheduler, over its state.\<close>

lemma schedule_spec:
  assumes "tasks_ok (task s)"
  shows "\<exists>nxt tk. schedule s = Inr (s\<lparr>task := tk, current := nxt\<rparr>) \<and>
    (if \<exists>i. runnable (check_alarms s) i
     then runnable (check_alarms s) nxt \<and> 0 < counter (the (tk nxt)) \<and>
          (\<forall>i. runnable (check_alarms s) i \<longrightarrow> counter (the (tk i)) \<le> counter (the (tk nxt)))
     else nxt = 0) \<and>
    tk = (if (\<exists>i. runnable (check_alarms s) i) \<and>
              (\<forall>i. runnable (check_alarms s) i \<longrightarrow> counter (the (check_alarms s i)) = 0)
          then each_task recharge (check_alarms s) else check_alarms s)"
proof -
  have "tasks_ok (check_alarms s)"
    unfolding check_alarms_def using assms by (rule tasks_ok_each) (simp add: task_ok_def)
  from sched_loop_spec [OF this] show ?thesis
    unfolding schedule_def by (elim exE conjE) (intro exI conjI; simp)
qed

lemma schedule_ok:
  assumes "tasks_ok (task s)" and "schedule s = Inr s'"
  shows "tasks_ok (task s')"
proof -
  have "tasks_ok (check_alarms s)"
    unfolding check_alarms_def using assms(1) by (rule tasks_ok_each) (simp add: task_ok_def)
  moreover from this have "tasks_ok (each_task recharge (check_alarms s))"
    by (rule tasks_ok_each) (rule task_ok_recharge)
  moreover have "task s' = check_alarms s \<or> task s' = each_task recharge (check_alarms s)"
    using schedule_spec [OF assms(1)] assms(2) by (elim exE conjE) (auto split: if_splits)
  ultimately show ?thesis by auto
qed

section \<open>Task states across a switch\<close>

definition state_of :: "sched \<Rightarrow> nat \<Rightarrow> tstate option" where
  "state_of s i = map_option tstate (task s i)"

lemma state_of_set_state [simp]:
  "state_of (set_state st i s) j =
     (if i = j then map_option (\<lambda>_. st) (state_of s j) else state_of s j)"
  by (simp add: state_of_def set_state_def upd_task_def option.map_comp o_def)

lemma sched_upd_sel [simp]:
  "current (set_state st i s) = current s" "current (upd_task i f s) = current s"
  by (simp_all add: set_state_def upd_task_def)

lemma tasks_ok_set_state [simp]: "tasks_ok (task s) \<Longrightarrow> tasks_ok (task (set_state st i s))"
  by (auto simp: tasks_ok_def set_state_def upd_task_def task_ok_def)

lemma schedule_states:
  assumes "tasks_ok (task s)" and "schedule s = Inr s'"
  shows "state_of s' i = state_of s i \<or>
      state_of s i = Some TASK_INTERRUPTIBLE \<and> state_of s' i = Some TASK_RUNNING"
    and "current s' = 0 \<or> state_of s' (current s') = Some TASK_RUNNING"
proof -
  obtain nxt tk where s': "s' = s\<lparr>task := tk, current := nxt\<rparr>"
    and n: "nxt = 0 \<or> runnable (check_alarms s) nxt"
    and tk: "tk = check_alarms s \<or> tk = each_task recharge (check_alarms s)"
    using schedule_spec [OF assms(1)] assms(2) by (elim exE conjE) (auto split: if_splits)
  have st: "map_option tstate (tk j) = map_option tstate (check_alarms s j)" for j
    using tk by (auto simp: option.map_comp o_def)
  show "state_of s' i = state_of s i \<or>
      state_of s i = Some TASK_INTERRUPTIBLE \<and> state_of s' i = Some TASK_RUNNING"
    unfolding state_of_def s' using st [of i]
    by (cases "task s i") (auto simp: check_alarms_def check_wakes split: if_splits)
  show "current s' = 0 \<or> state_of s' (current s') = Some TASK_RUNNING"
    unfolding state_of_def s' using st [of nxt] n by (auto simp: runnable_def)
qed

section \<open>Properties\<close>



definition two_tasks :: sched where
  "two_tasks = sched_boot\<lparr>task := (task sched_boot)(1 \<mapsto> INIT_TASK\<lparr>pid := 1\<rparr>), current := 1\<rparr>"

lemma tasks_ok_two_tasks: "tasks_ok (task two_tasks)"
  by (auto simp: tasks_ok_def two_tasks_def sched_boot_def INIT_TASK_def task_ok_def split: if_splits)


end
