(* ===== verification/Wait.thy ===== *)
theory Wait
  imports Sched
begin

text \<open>
  \<^verbatim>\<open>kernel/sched.c\<close>: sleeping and waking, and the floppy motor timers built on them. A routine
  that sleeps is given by what runs before the switch and what runs once the task is scheduled
  again; a step relation puts the halves together for one wait queue.
\<close>

section \<open>Sleeping and waking\<close>

text \<open>
  \<open>sleep_on\<close> up to the switch: the queue head is \<open>q\<close>; the result is \<open>tmp\<close>, the new head and
  the state. \<open>sleep_on_return\<close> is the rest, run by the sleeper when it is scheduled again.
\<close>

definition sleep_on :: "nat option \<Rightarrow> sched \<Rightarrow> (nat option \<times> nat option \<times> sched) res" where
  "sleep_on q s =
     (if current s = 0 then Inl (Panic ''task[0] trying to sleep'')
      else kbind (schedule (set_state TASK_UNINTERRUPTIBLE (current s) s))
             (\<lambda>s'. Inr (q, Some (current s), s')))"

definition wake_saved :: "nat option \<Rightarrow> sched \<Rightarrow> sched" where
  "wake_saved tmp s = (case tmp of None \<Rightarrow> s | Some i \<Rightarrow> set_state TASK_RUNNING i s)"

definition sleep_on_return :: "nat option \<Rightarrow> sched \<Rightarrow> sched" where
  "sleep_on_return tmp s = wake_saved tmp s"

definition interruptible_sleep_on ::
    "nat option \<Rightarrow> sched \<Rightarrow> (nat option \<times> nat option \<times> sched) res" where
  "interruptible_sleep_on q s =
     (if current s = 0 then Inl (Panic ''task[0] trying to sleep'')
      else kbind (schedule (set_state TASK_INTERRUPTIBLE (current s) s))
             (\<lambda>s'. Inr (q, Some (current s), s')))"

text \<open>After the switch back: sleep again behind the head of the queue (\<open>None\<close>), or return.\<close>

definition interruptible_sleep_on_return ::
    "nat option \<Rightarrow> nat option \<Rightarrow> sched \<Rightarrow> (nat option option \<times> sched) res" where
  "interruptible_sleep_on_return tmp q s =
     (case q of
        Some h \<Rightarrow>
          if h \<noteq> current s
          then kbind (schedule (set_state TASK_INTERRUPTIBLE (current s)
                        (set_state TASK_RUNNING h s)))
                 (\<lambda>s. Inr (None, s))
          else Inr (Some None, wake_saved tmp s)
      | None \<Rightarrow> Inr (Some None, wake_saved tmp s))"

definition wake_up :: "nat option \<Rightarrow> sched \<Rightarrow> nat option \<times> sched" where
  "wake_up q s =
     (case q of None \<Rightarrow> (q, s) | Some h \<Rightarrow> (None, set_state TASK_RUNNING h s))"

section \<open>The floppy motor\<close>

abbreviation (input) FD_DOR :: nat where "FD_DOR \<equiv> 0x3f2"

text \<open>\<open>selected\<close> belongs to the floppy driver.\<close>

definition ticks_to_floppy_on :: "bool \<Rightarrow> nat \<Rightarrow> sched \<Rightarrow> (int \<times> sched) res" where
  "ticks_to_floppy_on selected nr s =
     (if nr > 3 then Inl (Panic ''floppy_on: nr>3'')
      else let s = s\<lparr>moff_timer := (moff_timer s)(nr := 10000)\<rparr>;
               msk = push_bit nr 0x10 OR current_DOR s;
               msk = (if selected then msk else (msk AND 0xFC) OR of_nat nr);
               s = (if msk = current_DOR s then s
                    else let s = outb msk FD_DOR s;
                             s = (if (msk XOR current_DOR s) AND 0xf0 \<noteq> 0
                                  then s\<lparr>mon_timer := (mon_timer s)(nr := HZ div 2)\<rparr>
                                  else if mon_timer s nr < 2
                                  then s\<lparr>mon_timer := (mon_timer s)(nr := 2)\<rparr> else s)
                         in s\<lparr>current_DOR := msk\<rparr>)
           in Inr (mon_timer s nr, s))"

text \<open>One round of the loop of \<open>floppy_on\<close>: \<open>None\<close> when the motor is on, or the sleep.\<close>

definition floppy_on_round :: "bool \<Rightarrow> nat \<Rightarrow> sched \<Rightarrow> (nat option option \<times> sched) res" where
  "floppy_on_round selected nr s =
     kbind (ticks_to_floppy_on selected nr s) (\<lambda>(ticks, s).
       if ticks = 0 then Inr (None, s)
       else kbind (sleep_on (wait_motor s nr) s) (\<lambda>(tmp, q, s).
              Inr (Some tmp, s\<lparr>wait_motor := (wait_motor s)(nr := q)\<rparr>)))"

definition floppy_off :: "nat \<Rightarrow> sched \<Rightarrow> sched" where
  "floppy_off nr s = s\<lparr>moff_timer := (moff_timer s)(nr := 3 * HZ)\<rparr>"

definition floppy_timer_step :: "nat \<Rightarrow> sched \<Rightarrow> sched" where
  "floppy_timer_step i s =
     (if push_bit i 0x10 AND current_DOR s = 0 then s
      else if mon_timer s i \<noteq> 0
      then let s = s\<lparr>mon_timer := (mon_timer s)(i := mon_timer s i - 1)\<rparr>
           in if mon_timer s i = 0
              then case wake_up (wait_motor s i) s of (q, s) \<Rightarrow>
                     s\<lparr>wait_motor := (wait_motor s)(i := q)\<rparr>
              else s
      else if moff_timer s i = 0
      then let s = s\<lparr>current_DOR := current_DOR s AND NOT (push_bit i 0x10)\<rparr>
           in outb (current_DOR s) FD_DOR s
      else s\<lparr>moff_timer := (moff_timer s)(i := moff_timer s i - 1)\<rparr>)"

definition do_floppy_timer :: "sched \<Rightarrow> sched" where
  "do_floppy_timer s = fold floppy_timer_step [0, 1, 2, 3] s"

section \<open>A wait queue in use\<close>

text \<open>
  One wait queue in use: its head, and for each task inside \<open>sleep_on\<close> the \<open>tmp\<close> it holds.
  The current task goes to sleep, returns from its sleep, is preempted or pauses; an interrupt
  or the current task wakes the queue.
\<close>

record wq =
  kern :: sched
  queue :: "nat option"
  frames :: "nat \<Rightarrow> nat option option"

inductive wq_step :: "wq \<Rightarrow> wq \<Rightarrow> bool" where
  wq_sleep: "frames w (current (kern w)) = None \<Longrightarrow>
     sleep_on (queue w) (kern w) = Inr (tmp, q, k) \<Longrightarrow>
     wq_step w \<lparr>kern = k, queue = q, frames = (frames w)(current (kern w) := Some tmp)\<rparr>"
| wq_return: "frames w (current (kern w)) = Some tmp \<Longrightarrow>
     wq_step w \<lparr>kern = sleep_on_return tmp (kern w), queue = queue w,
                frames = (frames w)(current (kern w) := None)\<rparr>"
| wq_wake: "wake_up (queue w) (kern w) = (q, k) \<Longrightarrow>
     wq_step w (w\<lparr>kern := k, queue := q\<rparr>)"
| wq_preempt: "schedule (kern w) = Inr k \<Longrightarrow> wq_step w (w\<lparr>kern := k\<rparr>)"
| wq_pause: "frames w (current (kern w)) = None \<Longrightarrow> sys_pause (kern w) = Inr k \<Longrightarrow>
     wq_step w (w\<lparr>kern := k\<rparr>)"

inductive_cases wq_stepE: "wq_step w w'"

text \<open>A task asleep in the queue, and one that some pending wakeup will reach.\<close>

definition asleep :: "wq \<Rightarrow> nat \<Rightarrow> bool" where
  "asleep w i \<longleftrightarrow> frames w i \<noteq> None \<and> state_of (kern w) i = Some TASK_UNINTERRUPTIBLE"

inductive awaited :: "wq \<Rightarrow> nat \<Rightarrow> bool" for w where
  at_head: "queue w = Some i \<Longrightarrow> awaited w i"
| by_woken: "frames w j = Some (Some i) \<Longrightarrow> \<not> asleep w j \<Longrightarrow> awaited w i"
| behind: "frames w j = Some (Some i) \<Longrightarrow> awaited w j \<Longrightarrow> awaited w i"

definition wq_inv :: "wq \<Rightarrow> bool" where
  "wq_inv w \<longleftrightarrow> tasks_ok (task (kern w)) \<and>
     (current (kern w) = 0 \<or> state_of (kern w) (current (kern w)) = Some TASK_RUNNING) \<and>
     frames w 0 = None \<and>
     (\<forall>i. asleep w i \<longrightarrow> awaited w i)"

text \<open>A step that only wakes tasks, or nothing, and keeps the pointers.\<close>

lemma awaited_mono:
  assumes "awaited w i" and "queue w' = queue w" and "frames w' = frames w"
    and "\<And>j. asleep w' j \<Longrightarrow> asleep w j"
  shows "awaited w' i"
  using assms(1)
proof induction
  case (by_woken j i)
  then show ?case using assms(3,4) by (metis awaited.by_woken)
qed (auto simp: assms(2,3) intro: awaited.at_head awaited.behind)

lemma schedule_asleep:
  assumes "tasks_ok (task s)" and "schedule s = Inr k"
  shows "state_of k i = Some TASK_UNINTERRUPTIBLE \<longleftrightarrow> state_of s i = Some TASK_UNINTERRUPTIBLE"
  using schedule_states(1) [OF assms, of i] by auto

lemma wq_inv_wake:
  assumes I: "wq_inv w" and q: "queue w = Some h"
  shows "wq_inv (w\<lparr>kern := set_state TASK_RUNNING h (kern w), queue := None\<rparr>)" (is "wq_inv ?w")
proof -
  have a: "asleep ?w i \<longleftrightarrow> asleep w i \<and> i \<noteq> h" for i
    by (auto simp: asleep_def)
  have "awaited w i \<Longrightarrow> i \<noteq> h \<longrightarrow> awaited ?w i" for i
  proof (induction rule: awaited.induct)
    case (at_head i)
    then show ?case using q by simp
  next
    case (by_woken j i)
    then have "frames ?w j = Some (Some i)" "\<not> asleep ?w j" using a by simp_all
    then show ?case by (blast intro: awaited.by_woken)
  next
    case (behind j i)
    then have f: "frames ?w j = Some (Some i)" by simp
    show ?case
    proof (cases "j = h")
      case True
      then have "\<not> asleep ?w j" using a by simp
      with f show ?thesis by (blast intro: awaited.by_woken)
    next
      case False
      with f behind.IH show ?thesis by (blast intro: awaited.behind)
    qed
  qed
  then show ?thesis using I a by (auto simp: wq_inv_def)
qed

lemma wq_inv_return:
  assumes I: "wq_inv w" and f: "frames w (current (kern w)) = Some tmp"
  shows "wq_inv \<lparr>kern = sleep_on_return tmp (kern w), queue = queue w,
                frames = (frames w)(current (kern w) := None)\<rparr>" (is "wq_inv ?w")
proof -
  let ?c = "current (kern w)"
  have run: "state_of (kern w) ?c = Some TASK_RUNNING" using I f by (auto simp: wq_inv_def)
  have st: "state_of (sleep_on_return tmp (kern w)) j =
      (if tmp = Some j then map_option (\<lambda>_. TASK_RUNNING) (state_of (kern w) j)
       else state_of (kern w) j)" for j
    by (auto simp: sleep_on_return_def wake_saved_def split: option.splits)
  have a: "asleep ?w i \<longleftrightarrow> asleep w i \<and> tmp \<noteq> Some i" for i
    using run by (auto simp: asleep_def st)
  have nc: "\<not> asleep w ?c" using run by (simp add: asleep_def)
  have "awaited w i \<Longrightarrow> tmp \<noteq> Some i \<longrightarrow> awaited ?w i" for i
  proof (induction rule: awaited.induct)
    case (at_head i)
    then show ?case by (simp add: awaited.at_head)
  next
    case (by_woken j i)
    show ?case
    proof
      assume "tmp \<noteq> Some i"
      then have "j \<noteq> ?c" using f by_woken by auto
      then have "frames ?w j = Some (Some i)" "\<not> asleep ?w j" using a by_woken by simp_all
      then show "awaited ?w i" by (rule awaited.by_woken)
    qed
  next
    case (behind j i)
    show ?case
    proof
      assume "tmp \<noteq> Some i"
      then have "j \<noteq> ?c" using f behind by auto
      then have fj: "frames ?w j = Some (Some i)" using behind by simp
      show "awaited ?w i"
      proof (cases "tmp = Some j")
        case True
        then have "\<not> asleep ?w j" using a by simp
        with fj show ?thesis by (rule awaited.by_woken)
      next
        case False
        then have "awaited ?w j" by (rule behind.IH [THEN mp])
        with fj show ?thesis by (rule awaited.behind)
      qed
    qed
  qed
  moreover have "tasks_ok (task (kern ?w))"
    using I by (auto simp: wq_inv_def sleep_on_return_def wake_saved_def split: option.splits)
  moreover have "current (kern ?w) = ?c"
    by (simp add: sleep_on_return_def wake_saved_def split: option.splits)
  ultimately show ?thesis using I a run st [of ?c] by (auto simp: wq_inv_def)
qed

lemma wq_inv_sleep:
  assumes I: "wq_inv w" and f: "frames w (current (kern w)) = None"
    and run: "sleep_on (queue w) (kern w) = Inr (tmp, q, k)"
  shows "wq_inv \<lparr>kern = k, queue = q, frames = (frames w)(current (kern w) := Some tmp)\<rparr>"
    (is "wq_inv ?w")
proof -
  let ?c = "current (kern w)"
  let ?s = "set_state TASK_UNINTERRUPTIBLE ?c (kern w)"
  have c: "?c \<noteq> 0" "tmp = queue w" "q = Some ?c" "schedule ?s = Inr k"
    using run by (auto simp: sleep_on_def kbind_Inr_iff split: if_splits)
  have ok: "tasks_ok (task ?s)" using I by (simp add: wq_inv_def)
  have a: "asleep ?w i \<longleftrightarrow> i = ?c \<or> asleep w i" for i
    using I f c(1) by (auto simp: asleep_def schedule_asleep [OF ok c(4)] wq_inv_def)
  have head: "awaited ?w ?c" by (rule awaited.at_head) (simp add: c)
  have "awaited w i \<Longrightarrow> awaited ?w i" for i
  proof (induction rule: awaited.induct)
    case (at_head i)
    then have "frames ?w ?c = Some (Some i)" by (simp add: c)
    then show ?case using head by (rule awaited.behind)
  next
    case (by_woken j i)
    then have "j \<noteq> ?c" using f by auto
    then have "frames ?w j = Some (Some i)" "\<not> asleep ?w j" using by_woken a by simp_all
    then show ?case by (rule awaited.by_woken)
  next
    case (behind j i)
    then have "j \<noteq> ?c" using f by auto
    then have "frames ?w j = Some (Some i)" using behind by simp
    then show ?case using behind.IH by (rule awaited.behind)
  qed
  moreover have "tasks_ok (task k)" using ok c(4) by (rule schedule_ok)
  ultimately show ?thesis
    using I a head c(1) schedule_states(2) [OF ok c(4)] by (auto simp: wq_inv_def)
qed

lemma wq_inv_resched:
  assumes I: "wq_inv w" and f: "frames w (current (kern w)) = None \<or> s = kern w"
    and s: "s = kern w \<or> s = set_state TASK_INTERRUPTIBLE (current (kern w)) (kern w)"
    and k: "schedule s = Inr k"
  shows "wq_inv (w\<lparr>kern := k\<rparr>)" (is "wq_inv ?w")
proof -
  have ok: "tasks_ok (task s)" using I s by (auto simp: wq_inv_def)
  have a: "asleep ?w i \<Longrightarrow> asleep w i" for i
    using s f by (auto simp: asleep_def schedule_asleep [OF ok k] split: if_splits)
  have "awaited ?w i" if "asleep ?w i" for i
  proof (rule awaited_mono)
    show "awaited w i" using I a [OF that] by (simp add: wq_inv_def)
  qed (use a in simp_all)
  moreover have "frames w 0 = None" using I by (simp add: wq_inv_def)
  ultimately show ?thesis
    using schedule_ok [OF ok k] schedule_states(2) [OF ok k] by (simp add: wq_inv_def)
qed

lemma wq_inv_step: "wq_step w w' \<Longrightarrow> wq_inv w \<Longrightarrow> wq_inv w'"
proof (induction rule: wq_step.induct)
  case (wq_wake w q k)
  then show ?case
    using wq_inv_wake [of w] by (cases w, cases "queue w") (auto simp: wake_up_def)
next
  case (wq_pause w k)
  then show ?case by (intro wq_inv_resched) (auto simp: sys_pause_def)
next
  case (wq_sleep w tmp q k)
  then show ?case by (intro wq_inv_sleep)
next
  case (wq_return w tmp)
  then show ?case by (intro wq_inv_return)
next
  case (wq_preempt w k)
  then show ?case by (intro wq_inv_resched) auto
qed

definition wq_start :: "wq \<Rightarrow> bool" where
  "wq_start w \<longleftrightarrow> tasks_ok (task (kern w)) \<and> queue w = None \<and> (\<forall>i. frames w i = None) \<and>
     (current (kern w) = 0 \<or> state_of (kern w) (current (kern w)) = Some TASK_RUNNING)"

lemma wq_inv_reachable:
  assumes "wq_step\<^sup>*\<^sup>* w w'" and "wq_start w"
  shows "wq_inv w'"
  using assms
proof (induction rule: rtranclp_induct)
  case base
  then show ?case by (simp add: wq_inv_def wq_start_def asleep_def)
qed (auto intro: wq_inv_step)

section \<open>Properties\<close>

text \<open>C5: No wakeup is lost on a \<open>sleep_on\<close> queue. Whatever tasks slept on the queue, however they
  were scheduled and whenever the queue was woken: once the queue is empty and every task it
  woke has run the rest of \<open>sleep_on\<close>, so that only sleepers are still inside it, no task is
  left asleep inside it.\<close>

theorem sleep_on_no_lost_wakeup:
  assumes "wq_step\<^sup>*\<^sup>* w w'" and "wq_start w"
    and "queue w' = None" and "\<forall>i. frames w' i \<noteq> None \<longrightarrow> asleep w' i"
  shows "\<forall>i. frames w' i = None"
proof -
  have "awaited w' i \<Longrightarrow> False" for i
    by (induction rule: awaited.induct) (use assms(3,4) in auto)
  then have "\<not> asleep w' i" for i
    using wq_inv_reachable [OF assms(1,2)] by (auto simp: wq_inv_def)
  then show ?thesis using assms(4) by blast
qed

lemma two_tasks_sleep:
  "case sleep_on None two_tasks of
     Inl e \<Rightarrow> False
   | Inr (tmp, q, s) \<Rightarrow> tmp = None \<and> q = Some 1 \<and> current s = 0 \<and>
       state_of s 1 = Some TASK_UNINTERRUPTIBLE \<and>
       (case schedule (set_state TASK_RUNNING 1 s) of Inl e \<Rightarrow> False | Inr k \<Rightarrow> current k = 1)"
  by code_simp

lemma sleep_on_no_lost_wakeup_witness:
  "\<exists>w w1 w2. wq_start w \<and> wq_step w w1 \<and> asleep w1 1 \<and> wq_step\<^sup>*\<^sup>* w1 w2 \<and>
     (\<forall>i. frames w2 i = None)"
proof -
  define w where "w = \<lparr>kern = two_tasks, queue = None, frames = \<lambda>_. None\<rparr>"
  obtain s where sl: "sleep_on None two_tasks = Inr (None, Some 1, s)"
    and st: "state_of s 1 = Some TASK_UNINTERRUPTIBLE"
    and sk: "case schedule (set_state TASK_RUNNING 1 s) of Inl e \<Rightarrow> False | Inr k \<Rightarrow> current k = 1"
    using two_tasks_sleep by (cases "sleep_on None two_tasks") auto
  obtain k where sc: "schedule (set_state TASK_RUNNING 1 s) = Inr k" and k: "current k = 1"
    using sk by (cases "schedule (set_state TASK_RUNNING 1 s)") auto
  have cw: "current two_tasks = 1" by (simp add: two_tasks_def)
  define w1 where "w1 = \<lparr>kern = s, queue = Some 1, frames = (\<lambda>_. None)(1 := Some None)\<rparr>"
  have s1: "wq_step w w1"
    using wq_sleep [of w None "Some 1" s] sl cw by (simp add: w_def w1_def)
  define w2 where "w2 = w1\<lparr>kern := set_state TASK_RUNNING 1 s, queue := None\<rparr>"
  have s2: "wq_step w1 w2"
    unfolding w2_def by (rule wq_wake) (simp add: w1_def wake_up_def)
  define w3 where "w3 = w2\<lparr>kern := k\<rparr>"
  have s3: "wq_step w2 w3"
    unfolding w3_def by (rule wq_preempt) (simp add: w2_def sc [simplified])
  define w4 where "w4 = \<lparr>kern = sleep_on_return None (kern w3), queue = queue w3,
    frames = (frames w3)(current (kern w3) := None)\<rparr>"
  have s4: "wq_step w3 w4"
    unfolding w4_def by (rule wq_return) (simp add: w3_def w2_def w1_def k)
  have start: "wq_start w"
    using tasks_ok_two_tasks
    by (simp add: wq_start_def w_def state_of_def two_tasks_def INIT_TASK_def)
  have run: "wq_step\<^sup>*\<^sup>* w1 w4"
    using s2 s3 s4 by (meson rtranclp.rtrancl_into_rtrancl rtranclp.rtrancl_refl)
  from s1 run have "wq_step\<^sup>*\<^sup>* w w4" by (rule converse_rtranclp_into_rtranclp)
  from sleep_on_no_lost_wakeup [OF this start] have "\<forall>i. frames w4 i = None"
    by (simp add: w4_def w3_def w2_def w1_def k asleep_def)
  moreover have "asleep w1 1" using st by (simp add: asleep_def w1_def)
  ultimately show ?thesis using start s1 run by blast
qed

end
