(* ===== verification/Timer.thy ===== *)
theory Timer
  imports Wait
begin

text \<open>
  \<^verbatim>\<open>kernel/sched.c\<close>: the timer list, kept as delays relative to the request before, and the
  timer interrupt. The list is threaded through the slots of an array; the lemmas read it as a
  list of requests, and that as the ticks until each one is due.
\<close>

section \<open>Timers\<close>

abbreviation (input) TIME_REQUESTS :: nat where "TIME_REQUESTS \<equiv> 64"

text \<open>
  The timer functions belong to the drivers: \<open>call f s\<close> is the state after running \<open>f\<close>.
  The loop that moves the new request down the list exchanges the contents of neighbours.
\<close>

definition swap_timers ::
    "nat \<Rightarrow> nat \<Rightarrow> (nat \<Rightarrow> timer_list) \<Rightarrow> nat \<Rightarrow> timer_list" where
  "swap_timers p q tms = tms(
     p := (tms p)\<lparr>tl_jiffies := tl_jiffies (tms q), tl_fn := tl_fn (tms q)\<rparr>,
     q := (tms q)\<lparr>tl_jiffies := tl_jiffies (tms p) - tl_jiffies (tms q), tl_fn := tl_fn (tms p)\<rparr>)"

partial_function (option) sift_timer ::
    "nat \<Rightarrow> (nat \<Rightarrow> timer_list) \<Rightarrow> (nat \<Rightarrow> timer_list) option" where
  "sift_timer p tms =
     (case tl_next (tms p) of
        None \<Rightarrow> Some tms
      | Some q \<Rightarrow>
          if tl_jiffies (tms q) < tl_jiffies (tms p) then sift_timer q (swap_timers p q tms)
          else Some tms)"

definition add_timer ::
    "(nat \<Rightarrow> sched \<Rightarrow> sched) \<Rightarrow> int \<Rightarrow> nat option \<Rightarrow> sched \<Rightarrow> sched res" where
  "add_timer call jif fn s =
     (case fn of
        None \<Rightarrow> Inr s
      | Some f \<Rightarrow>
          if jif \<le> 0 then Inr (call f s)
          else case find (\<lambda>p. tl_fn (timers s p) = None) [0..<TIME_REQUESTS] of
                 None \<Rightarrow> Inl (Panic ''No more time requests free'')
               | Some p \<Rightarrow>
                   case sift_timer p ((timers s)(p :=
                          \<lparr>tl_jiffies = jif, tl_fn = Some f, tl_next = next_timer s\<rparr>)) of
                     None \<Rightarrow> Inl Diverges
                   | Some tms \<Rightarrow> Inr (s\<lparr>timers := tms, next_timer := Some p\<rparr>))"

partial_function (option) run_timers ::
    "(nat \<Rightarrow> sched \<Rightarrow> sched) \<Rightarrow> sched \<Rightarrow> sched res option" where
  "run_timers call s =
     (case next_timer s of
        None \<Rightarrow> Some (Inr s)
      | Some p \<Rightarrow>
          if tl_jiffies (timers s p) > 0 then Some (Inr s)
          else case tl_fn (timers s p) of
                 None \<Rightarrow> Some (Inl Undefined)
               | Some f \<Rightarrow> run_timers call (call f
                   (s\<lparr>timers := (timers s)(p := (timers s p)\<lparr>tl_fn := None\<rparr>),
                      next_timer := tl_next (timers s p)\<rparr>)))"

definition timer_tick :: "(nat \<Rightarrow> sched \<Rightarrow> sched) \<Rightarrow> sched \<Rightarrow> sched res" where
  "timer_tick call s =
     (case next_timer s of
        None \<Rightarrow> Inr s
      | Some p \<Rightarrow>
          case run_timers call (s\<lparr>timers := (timers s)
                 (p := (timers s p)\<lparr>tl_jiffies := tl_jiffies (timers s p) - 1\<rparr>)\<rparr>) of
            None \<Rightarrow> Inl Diverges
          | Some r \<Rightarrow> r)"

text \<open>\<open>sysbeepstop\<close> belongs to the console.\<close>

definition do_timer ::
    "(nat \<Rightarrow> sched \<Rightarrow> sched) \<Rightarrow> (sched \<Rightarrow> sched) \<Rightarrow> bool \<Rightarrow> sched \<Rightarrow> sched res" where
  "do_timer call sysbeepstop cpl s =
     (let s = (if beepcount s = 0 then s
               else let s = s\<lparr>beepcount := beepcount s - 1\<rparr>
                    in if beepcount s = 0 then sysbeepstop s else s);
          s = upd_task (current s) (if cpl then utime_update (\<lambda>t. t + 1)
                                    else stime_update (\<lambda>t. t + 1)) s
      in kbind (timer_tick call s) (\<lambda>s.
           let s = (if current_DOR s AND 0xf0 \<noteq> 0 then do_floppy_timer s else s);
               s = upd_task (current s) (counter_update (\<lambda>c. c - 1)) s
           in case task s (current s) of
                None \<Rightarrow> Inl Undefined
              | Some p \<Rightarrow>
                  if counter p > 0 then Inr s
                  else let s = upd_task (current s) (counter_update (\<lambda>_. 0)) s
                       in if cpl then schedule s else Inr s))"

section \<open>The timer list\<close>

text \<open>The requests from \<open>h\<close> on occupy the slots \<open>ps\<close>; every other slot is free.\<close>

fun tchain :: "(nat \<Rightarrow> timer_list) \<Rightarrow> nat option \<Rightarrow> nat list \<Rightarrow> bool" where
  "tchain tms h [] \<longleftrightarrow> h = None"
| "tchain tms h (p # ps) \<longleftrightarrow> h = Some p \<and> p < TIME_REQUESTS \<and> tchain tms (tl_next (tms p)) ps"

definition timers_wf :: "nat list \<Rightarrow> sched \<Rightarrow> bool" where
  "timers_wf ps s \<longleftrightarrow> distinct ps \<and> tchain (timers s) (next_timer s) ps \<and>
     (\<forall>p < TIME_REQUESTS. tl_fn (timers s p) \<noteq> None \<longleftrightarrow> p \<in> set ps)"

definition timer_requests :: "(nat \<Rightarrow> timer_list) \<Rightarrow> nat list \<Rightarrow> (int \<times> nat) list" where
  "timer_requests tms ps = map (\<lambda>p. (tl_jiffies (tms p), the (tl_fn (tms p)))) ps"

text \<open>The ticks to go until each request is due.\<close>

fun due :: "int \<Rightarrow> (int \<times> nat) list \<Rightarrow> (int \<times> nat) list" where
  "due t [] = []"
| "due t ((d, f) # r) = (t + d, f) # due (t + d) r"

text \<open>What the exchange loop does to the deltas of the list.\<close>

fun delta_insert :: "int \<Rightarrow> nat \<Rightarrow> (int \<times> nat) list \<Rightarrow> (int \<times> nat) list" where
  "delta_insert j f [] = [(j, f)]"
| "delta_insert j f ((d, g) # r) =
     (if d < j then (d, g) # delta_insert (j - d) f r else (j, f) # (d, g) # r)"

lemma tchain_cong:
  "(\<And>p. p \<in> set ps \<Longrightarrow> tl_next (tms p) = tl_next (tms' p)) \<Longrightarrow> tchain tms h ps = tchain tms' h ps"
  by (induction ps arbitrary: h) auto

lemma timer_requests_cong:
  "(\<And>p. p \<in> set ps \<Longrightarrow> tms p = tms' p) \<Longrightarrow> timer_requests tms ps = timer_requests tms' ps"
  by (simp add: timer_requests_def)

lemma sift_timer_spec:
  assumes "distinct (p # ps)" and "tchain tms (tl_next (tms p)) ps"
    and "\<forall>q \<in> set (p # ps). tl_fn (tms q) \<noteq> None"
  shows "\<exists>tms'. sift_timer p tms = Some tms' \<and>
    (\<forall>q. q \<notin> set (p # ps) \<longrightarrow> tms' q = tms q) \<and>
    (\<forall>q. tl_next (tms' q) = tl_next (tms q)) \<and>
    (\<forall>q \<in> set (p # ps). tl_fn (tms' q) \<noteq> None) \<and>
    timer_requests tms' (p # ps) =
      delta_insert (tl_jiffies (tms p)) (the (tl_fn (tms p))) (timer_requests tms ps)"
  using assms
proof (induction ps arbitrary: p tms)
  case Nil
  then show ?case
    by (subst sift_timer.simps) (simp add: timer_requests_def)
next
  case (Cons q ps)
  then have q: "tl_next (tms p) = Some q" "p \<noteq> q" "p \<notin> set ps" "q \<notin> set ps" by auto
  show ?case
  proof (cases "tl_jiffies (tms q) < tl_jiffies (tms p)")
    case False
    with Cons.prems q show ?thesis
      by (subst sift_timer.simps) (auto simp: timer_requests_def)
  next
    case True
    let ?t = "swap_timers p q tms"
    have t: "tl_next (?t r) = tl_next (tms r)" "r \<noteq> p \<Longrightarrow> r \<noteq> q \<Longrightarrow> ?t r = tms r" for r
      by (simp_all add: swap_timers_def)
    have "\<exists>tms'. sift_timer q ?t = Some tms' \<and>
      (\<forall>r. r \<notin> set (q # ps) \<longrightarrow> tms' r = ?t r) \<and>
      (\<forall>r. tl_next (tms' r) = tl_next (?t r)) \<and>
      (\<forall>r \<in> set (q # ps). tl_fn (tms' r) \<noteq> None) \<and>
      timer_requests tms' (q # ps) =
        delta_insert (tl_jiffies (?t q)) (the (tl_fn (?t q))) (timer_requests ?t ps)"
    proof (rule Cons.IH)
      show "distinct (q # ps)" using Cons.prems by simp
      show "tchain ?t (tl_next (?t q)) ps"
        using Cons.prems(2) q t tchain_cong [of ps ?t tms] by simp
      show "\<forall>r \<in> set (q # ps). tl_fn (?t r) \<noteq> None"
        using Cons.prems(3) by (simp add: swap_timers_def)
    qed
    then obtain tms' where t': "sift_timer q ?t = Some tms'"
      "\<forall>r. r \<notin> set (q # ps) \<longrightarrow> tms' r = ?t r" "\<forall>r. tl_next (tms' r) = tl_next (?t r)"
      "\<forall>r \<in> set (q # ps). tl_fn (tms' r) \<noteq> None"
      "timer_requests tms' (q # ps) =
        delta_insert (tl_jiffies (?t q)) (the (tl_fn (?t q))) (timer_requests ?t ps)"
      by blast
    have r: "timer_requests ?t ps = timer_requests tms ps"
      by (rule timer_requests_cong, rule t) (use q in auto)
    have p': "tms' p = ?t p" using t' q by auto
    have h: "tl_jiffies (?t q) = tl_jiffies (tms p) - tl_jiffies (tms q)"
      "tl_fn (?t q) = tl_fn (tms p)" "tl_jiffies (?t p) = tl_jiffies (tms q)"
      "tl_fn (?t p) = tl_fn (tms q)"
      using q by (simp_all add: swap_timers_def)
    have "timer_requests tms' (p # q # ps) =
        (tl_jiffies (tms q), the (tl_fn (tms q))) # timer_requests tms' (q # ps)"
      by (simp add: timer_requests_def p' h)
    also have "\<dots> =
        (tl_jiffies (tms q), the (tl_fn (tms q))) #
        delta_insert (tl_jiffies (tms p) - tl_jiffies (tms q)) (the (tl_fn (tms p))) (timer_requests tms ps)"
      by (simp only: t'(5) r h)
    also have "\<dots> = delta_insert (tl_jiffies (tms p)) (the (tl_fn (tms p))) (timer_requests tms (q # ps))"
      using True by (simp add: timer_requests_def)
    finally have req: "timer_requests tms' (p # q # ps) =
      delta_insert (tl_jiffies (tms p)) (the (tl_fn (tms p))) (timer_requests tms (q # ps))" .
    have run: "sift_timer p tms = Some tms'"
      using True q t' by (subst sift_timer.simps) simp
    have fnp: "tl_fn (tms' p) \<noteq> None" using Cons.prems(3) q by (simp add: p' swap_timers_def)
    show ?thesis
      using run req fnp t t'(2-4) by (intro exI [of _ tms']) auto
  qed
qed


lemma find_free:
  assumes "find P xs = Some p"
  shows "P p \<and> p \<in> set xs"
  using assms by (auto simp: find_Some_iff)

lemma add_timer_spec:
  assumes wf: "timers_wf ps s" and j: "0 < j" and room: "length ps < TIME_REQUESTS"
  shows "\<exists>s' qs. add_timer call j (Some f) s = Inr s' \<and> timers_wf qs s' \<and>
    timer_requests (timers s') qs = delta_insert j f (timer_requests (timers s) ps) \<and>
    s' = s\<lparr>timers := timers s', next_timer := next_timer s'\<rparr>"
proof -
  have bound: "set ps \<subseteq> {..<TIME_REQUESTS}" if "tchain tms h ps" for tms h
    using that by (induction ps arbitrary: h) auto
  have sub: "set ps \<subseteq> {..<TIME_REQUESTS}" using wf bound by (auto simp: timers_wf_def)
  have "card (set ps) < card {..<TIME_REQUESTS}"
    using room card_length [of ps] by simp
  then have "\<not> {..<TIME_REQUESTS} \<subseteq> set ps"
    using card_mono [of "set ps" "{..<TIME_REQUESTS}"] by auto
  then obtain p0 where "p0 < TIME_REQUESTS" "p0 \<notin> set ps" by auto
  then have "tl_fn (timers s p0) = None" "p0 \<in> set [0..<TIME_REQUESTS]"
    using wf by (auto simp: timers_wf_def)
  then have "find (\<lambda>p. tl_fn (timers s p) = None) [0..<TIME_REQUESTS] \<noteq> None"
    by (auto simp: find_None_iff simp del: upt_conv_Cons)
  then obtain p where p: "find (\<lambda>p. tl_fn (timers s p) = None) [0..<TIME_REQUESTS] = Some p"
    by blast
  then have pf: "tl_fn (timers s p) = None" "p < TIME_REQUESTS"
    using find_free [OF p] by auto
  then have pn: "p \<notin> set ps" using wf by (auto simp: timers_wf_def)
  let ?n = "\<lparr>tl_jiffies = j, tl_fn = Some f, tl_next = next_timer s\<rparr>"
  let ?t = "(timers s)(p := ?n)"
  have "\<exists>tms'. sift_timer p ?t = Some tms' \<and>
    (\<forall>q. q \<notin> set (p # ps) \<longrightarrow> tms' q = ?t q) \<and>
    (\<forall>q. tl_next (tms' q) = tl_next (?t q)) \<and>
    (\<forall>q \<in> set (p # ps). tl_fn (tms' q) \<noteq> None) \<and>
    timer_requests tms' (p # ps) = delta_insert (tl_jiffies (?t p)) (the (tl_fn (?t p))) (timer_requests ?t ps)"
  proof (rule sift_timer_spec)
    show "distinct (p # ps)" using wf pn by (simp add: timers_wf_def)
    show "tchain ?t (tl_next (?t p)) ps"
    proof -
      have "tchain ?t (next_timer s) ps = tchain (timers s) (next_timer s) ps"
        by (rule tchain_cong) (use pn in auto)
      with wf show ?thesis by (simp add: timers_wf_def)
    qed
    show "\<forall>q \<in> set (p # ps). tl_fn (?t q) \<noteq> None" using wf sub by (auto simp: timers_wf_def)
  qed
  then obtain tms' where t: "sift_timer p ?t = Some tms'"
    "\<forall>q. q \<notin> set (p # ps) \<longrightarrow> tms' q = ?t q" "\<forall>q. tl_next (tms' q) = tl_next (?t q)"
    "\<forall>q \<in> set (p # ps). tl_fn (tms' q) \<noteq> None"
    "timer_requests tms' (p # ps) = delta_insert j f (timer_requests ?t ps)" by auto
  have req: "timer_requests ?t ps = timer_requests (timers s) ps"
    by (rule timer_requests_cong) (use pn in auto)
  let ?s = "s\<lparr>timers := tms', next_timer := Some p\<rparr>"
  have run: "add_timer call j (Some f) s = Inr ?s"
    using j p t(1) by (simp add: add_timer_def)
  have "tchain tms' (next_timer s) ps"
  proof -
    have "tchain tms' (next_timer s) ps = tchain (timers s) (next_timer s) ps"
      by (rule tchain_cong) (use pn t(3) in auto)
    with wf show ?thesis by (simp add: timers_wf_def)
  qed
  then have "tchain tms' (Some p) (p # ps)" using t(3) pf by simp
  moreover have "tl_fn (tms' q) \<noteq> None \<longleftrightarrow> q \<in> set (p # ps)" if "q < TIME_REQUESTS" for q
    using that t(2,4) wf by (cases "q \<in> set (p # ps)") (auto simp: timers_wf_def)
  ultimately have "timers_wf (p # ps) ?s" using wf pn by (simp add: timers_wf_def)
  with run t(5) req show ?thesis by (intro exI [of _ ?s] exI [of _ "p # ps"]) simp
qed

text \<open>
  The due times after an insertion: the requests before the new one keep theirs, it gets its
  own, and those behind it move back by what is left of its delay.
\<close>

lemma due_append: "due t (xs @ ys) = due t xs @ due (t + sum_list (map fst xs)) ys"
  by (induction xs arbitrary: t) (auto simp: algebra_simps)

lemma due_shift: "due (t + d) xs = map (\<lambda>(k, f). (k + d, f)) (due t xs)"
proof (induction xs arbitrary: t)
  case (Cons a xs)
  obtain k f where a: "a = (k, f)" by fastforce
  have "t + d + k = t + k + d" by simp
  then show ?case using Cons.IH [of "t + k"] by (simp only: a due.simps list.map prod.case)
qed simp

lemma delta_insert_split:
  "\<exists>xs ys. r = xs @ ys \<and> delta_insert j f r = xs @ (j - sum_list (map fst xs), f) # ys \<and>
     (ys \<noteq> [] \<longrightarrow> j - sum_list (map fst xs) \<le> fst (hd ys))"
proof (induction r arbitrary: j)
  case (Cons a r)
  obtain d g where a: "a = (d, g)" by fastforce
  show ?case
  proof (cases "d < j")
    case True
    obtain xs ys where "r = xs @ ys"
      "delta_insert (j - d) f r = xs @ (j - d - sum_list (map fst xs), f) # ys"
      "ys \<noteq> [] \<longrightarrow> j - d - sum_list (map fst xs) \<le> fst (hd ys)"
      using Cons.IH [of "j - d"] by blast
    then show ?thesis using True a
      by (intro exI [of _ "(d, g) # xs"] exI [of _ ys]) (auto simp: algebra_simps)
  next
    case False
    with a show ?thesis by (intro exI [of _ "[]"] exI [of _ "(d, g) # r"]) auto
  qed
qed auto

lemma due_delta_insert:
  "\<exists>xs ys d. due 0 r = xs @ ys \<and>
     due 0 (delta_insert j f r) = xs @ (j, f) # map (\<lambda>(t, g). (t + d, g)) ys \<and>
     d = j - (if xs = [] then 0 else fst (last xs))"
proof -
  obtain us vs where s: "r = us @ vs" "delta_insert j f r = us @ (j - sum_list (map fst us), f) # vs"
    using delta_insert_split [of r j f] by blast
  have l: "us \<noteq> [] \<Longrightarrow> fst (last (due t us)) = t + sum_list (map fst us)" for t
  proof (induction us arbitrary: t)
    case (Cons a us)
    then show ?case by (cases a; cases us) auto
  qed simp
  have e: "due 0 us = [] \<longleftrightarrow> us = []" by (cases us) auto
  let ?k = "sum_list (map fst us)"
  have sh: "due j vs = map (\<lambda>(t, g). (t + (j - ?k), g)) (due ?k vs)"
    using due_shift [of ?k "j - ?k" vs] by simp
  have "due 0 r = due 0 us @ due ?k vs" by (simp add: s(1) due_append)
  moreover have "due 0 (delta_insert j f r) =
      due 0 us @ (j, f) # map (\<lambda>(t, g). (t + (j - ?k), g)) (due ?k vs)"
    by (simp add: s(2) due_append sh)
  moreover have "j - ?k = j - (if due 0 us = [] then 0 else fst (last (due 0 us)))"
    using l [of 0] e by simp
  ultimately show ?thesis by blast
qed

text \<open>Every delay in the list is positive; a tick then calls at most the function at its head.\<close>

definition positive :: "(int \<times> nat) list \<Rightarrow> bool" where
  "positive r \<longleftrightarrow> (\<forall>d \<in> fst ` set r. 0 < d)"

lemma positive_insert: "positive r \<Longrightarrow> 0 < j \<Longrightarrow> positive (delta_insert j f r)"
  by (induction j f r rule: delta_insert.induct) (auto simp: positive_def)

lemma due_positive: "positive r \<Longrightarrow> (k, f) \<in> set (due t r) \<Longrightarrow> t < k"
  by (induction t r arbitrary: k f rule: due.induct) (auto simp: positive_def, fastforce)

lemma due_filter_positive:
  assumes "positive r"
  shows "filter (\<lambda>(k, f). k \<noteq> t) (due t r) = due t r" "filter (\<lambda>(k, f). k = t) (due t r) = []"
  using due_positive [OF assms, of _ _ t] by (auto simp: filter_id_conv filter_empty_conv)

definition observes :: "(sched \<Rightarrow> nat list) \<Rightarrow> (nat \<Rightarrow> sched \<Rightarrow> sched) \<Rightarrow> bool" where
  "observes obs call \<longleftrightarrow> (\<forall>f s. obs (call f s) = obs s @ [f] \<and>
     timers (call f s) = timers s \<and> next_timer (call f s) = next_timer s) \<and>
     (\<forall>s t n. obs (s\<lparr>timers := t, next_timer := n\<rparr>) = obs s)"

lemma timer_tick_spec:
  assumes wf: "timers_wf ps s" and pos: "positive (timer_requests (timers s) ps)"
    and ob: "observes obs call"
  shows "\<exists>s' qs. timer_tick call s = Inr s' \<and> timers_wf qs s' \<and>
    positive (timer_requests (timers s') qs) \<and>
    due 0 (timer_requests (timers s') qs) =
      map (\<lambda>(t, f). (t - 1, f)) (filter (\<lambda>(t, f). t \<noteq> 1) (due 0 (timer_requests (timers s) ps))) \<and>
    obs s' = obs s @ map snd (filter (\<lambda>(t, f). t = 1) (due 0 (timer_requests (timers s) ps)))"
proof (cases ps)
  case Nil
  with wf have "next_timer s = None" by (simp add: timers_wf_def)
  then have "timer_tick call s = Inr s" by (simp add: timer_tick_def)
  with wf Nil show ?thesis by (intro exI [of _ s] exI [of _ "[]"]) (simp add: timer_requests_def positive_def)
next
  case (Cons p ps')
  have obt: "obs (s\<lparr>timers := t\<rparr>) = obs s" for s t
  proof -
    have "obs (s\<lparr>timers := t, next_timer := next_timer s\<rparr>) = obs s" 
      using ob unfolding observes_def by blast
    then show ?thesis by simp
  qed
  let ?e = "timers s p"
  let ?t = "(timers s)(p := ?e\<lparr>tl_jiffies := tl_jiffies ?e - 1\<rparr>)"
  let ?s = "s\<lparr>timers := ?t\<rparr>"
  have p: "next_timer s = Some p" "p < TIME_REQUESTS" "p \<notin> set ps'" "distinct ps'"
    "tchain (timers s) (tl_next ?e) ps'"
    using wf Cons by (auto simp: timers_wf_def)
  obtain f where f: "tl_fn ?e = Some f" using wf Cons p by (fastforce simp: timers_wf_def)
  define d where "d = tl_jiffies ?e"
  have R: "timer_requests (timers s) ps = (d, f) # timer_requests (timers s) ps'"
    using f Cons by (simp add: timer_requests_def d_def)
  have d: "0 < d" "positive (timer_requests (timers s) ps')"
    using pos R by (auto simp: positive_def)
  have r': "timer_requests tms' ps' = timer_requests (timers s) ps'" if "\<And>q. q \<noteq> p \<Longrightarrow> tms' q = timers s q" for tms'
    by (rule timer_requests_cong, rule that) (use p(3) in auto)
  have ch: "tchain tms' h ps' = tchain (timers s) h ps'"
    if "\<And>q. tl_next (tms' q) = tl_next (timers s q)" for tms' h
    using that by (intro tchain_cong) auto
  have s1: "map (\<lambda>(t, f). (t - 1, f)) (due d r) = due (d - 1) r" for r
    using due_shift [of d "-1" r] by simp
  show ?thesis
  proof (cases "d = 1")
    case False
    have "timer_tick call s = Inr ?s"
      using p(1) d(1) False by (simp add: timer_tick_def run_timers.simps d_def)
    moreover have "timers_wf ps ?s"
      using wf Cons p ch [of ?t] by (auto simp: timers_wf_def)
    moreover have Q: "timer_requests (timers ?s) ps = (d - 1, f) # timer_requests (timers s) ps'"
      using r' [of ?t] Cons f by (simp add: timer_requests_def d_def)
    moreover have "positive (timer_requests (timers ?s) ps)"
      unfolding Q using d False by (auto simp: positive_def)
    moreover have "(k, g) \<in> set (due d (timer_requests (timers s) ps')) \<Longrightarrow> k \<noteq> 1" for k g
      using due_positive [OF d(2), of k g d] d(1) by auto
    then have "filter (\<lambda>(k, g). k \<noteq> 1) (due d (timer_requests (timers s) ps')) = due d (timer_requests (timers s) ps')"
      "filter (\<lambda>(k, g). k = 1) (due d (timer_requests (timers s) ps')) = []"
      by (auto simp: filter_id_conv filter_empty_conv)
    ultimately show ?thesis using False
      by (intro exI [of _ ?s] exI [of _ ps]) (simp add: R s1 obt)
  next
    case True
    let ?u = "?t(p := (?t p)\<lparr>tl_fn := None\<rparr>)"
    let ?v = "s\<lparr>timers := ?u, next_timer := tl_next ?e\<rparr>"
    define w where "w = call f ?v"
    have ws: "timers w = ?u" "next_timer w = tl_next ?e" "obs w = obs s @ [f]"
      using ob by (simp_all add: w_def observes_def)
    have chu: "tchain ?u (tl_next ?e) ps'"
      using p(5) ch [of ?u] by simp
    have stop: "run_timers call w = Some (Inr w)"
    proof (cases ps')
      case Nil
      then show ?thesis using chu by (subst run_timers.simps) (simp add: ws)
    next
      case (Cons q qs)
      then have "tl_next ?e = Some q" using p(5) by simp
      moreover have "q \<noteq> p" using Cons p(3) by auto
      moreover have "0 < tl_jiffies (timers s q)"
        using d(2) Cons by (simp add: timer_requests_def positive_def)
      ultimately show ?thesis by (subst run_timers.simps) (simp add: ws)
    qed
    have "run_timers call ?s = run_timers call w"
      using p(1) f True by (subst run_timers.simps) (simp add: d_def w_def)
    then have "timer_tick call s = Inr w"
      using p(1) stop by (simp add: timer_tick_def)
    moreover have "timers_wf ps' w"
      using wf Cons p chu by (auto simp: timers_wf_def ws)
    moreover have "timer_requests (timers w) ps' = timer_requests (timers s) ps'"
      unfolding ws by (rule r') simp
    ultimately show ?thesis
      using d True due_filter_positive [OF d(2), of 1] s1 [of "timer_requests (timers s) ps'"]
      by (intro exI [of _ w] exI [of _ ps']) (simp add: R ws)
  qed
qed

section \<open>Properties\<close>


text \<open>A request due in 10 ticks is due in 13 once one for 3 ticks has been added.\<close>

definition one_timer :: sched where
  "one_timer = sched_boot\<lparr>timers := (timers sched_boot)
     (0 := \<lparr>tl_jiffies = 10, tl_fn = Some 7, tl_next = None\<rparr>), next_timer := Some 0\<rparr>"

lemma one_timer_wf: "timers_wf [0] one_timer" "timer_requests (timers one_timer) [0] = [(10, 7)]"
  by (auto simp: timers_wf_def timer_requests_def one_timer_def sched_boot_def)

lemma add_timer_delays_others:
  "\<exists>s' qs. add_timer call 3 (Some 8) one_timer = Inr s' \<and> timers_wf qs s' \<and>
     due 0 (timer_requests (timers one_timer) [0]) = [(10, 7)] \<and>
     due 0 (timer_requests (timers s') qs) = [(3, 8), (13, 7)]"
proof -
  obtain s' qs where "add_timer call 3 (Some 8) one_timer = Inr s'" "timers_wf qs s'"
    "timer_requests (timers s') qs = delta_insert 3 8 [(10, 7)]"
    using add_timer_spec [OF one_timer_wf(1), of 3 call 8] one_timer_wf(2) by auto
  then show ?thesis using one_timer_wf(2) by (intro exI [of _ s'] exI [of _ qs]) simp
qed


text \<open>One tick of the timer interrupt calls exactly the function whose request is due in one
  tick, if there is one, and brings every other request one tick nearer; the list stays
  well-formed and its delays positive. (The functions called leave the list alone and \<open>obs\<close>
  records their calls.)\<close>

theorem timer_tick_due:
  assumes "timers_wf ps s" and "positive (timer_requests (timers s) ps)" and "observes obs call"
  shows "\<exists>s' qs. timer_tick call s = Inr s' \<and> timers_wf qs s' \<and>
    positive (timer_requests (timers s') qs) \<and>
    due 0 (timer_requests (timers s') qs) =
      map (\<lambda>(t, f). (t - 1, f)) (filter (\<lambda>(t, f). t \<noteq> 1) (due 0 (timer_requests (timers s) ps))) \<and>
    obs s' = obs s @ map snd (filter (\<lambda>(t, f). t = 1) (due 0 (timer_requests (timers s) ps)))"
  using assms by (rule timer_tick_spec)

lemma timer_tick_due_witness:
  "\<exists>s' qs. timer_tick (\<lambda>f. outb 0 f) one_timer = Inr s' \<and>
     due 0 (timer_requests (timers s') qs) = [(9, 7)] \<and> map fst (ports s') = []"
proof -
  have o: "observes (\<lambda>s. map fst (ports s)) (\<lambda>f. outb 0 f)"
    by (simp add: observes_def outb_def)
  have "positive (timer_requests (timers one_timer) [0])"
    unfolding one_timer_wf by (simp add: positive_def)
  from timer_tick_due [OF one_timer_wf(1) this o] obtain s' qs
    where "timer_tick (\<lambda>f. outb 0 f) one_timer = Inr s'"
      "due 0 (timer_requests (timers s') qs) = [(9, 7)]" "map fst (ports s') = map fst (ports one_timer)"
    unfolding one_timer_wf(2) by auto
  then show ?thesis
    by (intro exI [of _ s'] exI [of _ qs]) (simp add: one_timer_def sched_boot_def)
qed

end
