(* ===== verification/Memory.thy ===== *)
theory Memory
  imports Task
begin

text \<open>
  \<^verbatim>\<open>mm/memory.c\<close>: page frames with their use counts and the two-level page tables. The
  state is \<open>HIGH_MEMORY\<close>, the byte array \<open>mem_map\<close> and physical memory, a function from the
  address of a \<open>long\<close> to its value; the page directory is at address 0, as the code assumes.
  \<open>oom\<close> ends the process with \<open>SIGSEGV\<close>; messages on the console are not modelled.
\<close>

section \<open>State\<close>

abbreviation (input) LOW_MEM :: u32 where "LOW_MEM \<equiv> 0x100000"

abbreviation (input) PAGING_PAGES :: nat where "PAGING_PAGES \<equiv> 3840"

abbreviation (input) USED :: u8 where "USED \<equiv> 100"

record mm =
  HIGH_MEMORY :: u32
  mem_map :: "nat \<Rightarrow> u8"
  phys :: "u32 \<Rightarrow> u32"

definition MAP_NR :: "u32 \<Rightarrow> nat" where
  "MAP_NR addr = unat (drop_bit 12 (addr - LOW_MEM))"

definition page_addr :: "nat \<Rightarrow> u32" where
  "page_addr i = LOW_MEM + push_bit 12 (of_nat i)"

definition frame :: "u32 \<Rightarrow> u32" where
  "frame a = 0xfffff000 AND a"

text \<open>Stores of one \<open>long\<close>, of a cleared page and of a copied page.\<close>

definition poke :: "u32 \<Rightarrow> u32 \<Rightarrow> mm \<Rightarrow> mm" where
  "poke a v s = s\<lparr>phys := (phys s)(a := v)\<rparr>"

definition clear_page :: "u32 \<Rightarrow> mm \<Rightarrow> mm" where
  "clear_page page s = s\<lparr>phys := (\<lambda>a. if frame a = page then 0 else phys s a)\<rparr>"

definition copy_page :: "u32 \<Rightarrow> u32 \<Rightarrow> mm \<Rightarrow> mm" where
  "copy_page from to s =
     s\<lparr>phys := (\<lambda>a. if frame a = to then phys s (from OR (a AND 0xfff)) else phys s a)\<rparr>"

definition set_map :: "nat \<Rightarrow> u8 \<Rightarrow> mm \<Rightarrow> mm" where
  "set_map i v s = s\<lparr>mem_map := (mem_map s)(i := v)\<rparr>"

definition oom :: "'a res" where
  "oom = Inl (Exit (int SIGSEGV))"

section \<open>Page frames\<close>

text \<open>\<open>std; repne scasb\<close>: the highest index below \<open>n\<close> whose byte is 0.\<close>

fun scan_free :: "(nat \<Rightarrow> u8) \<Rightarrow> nat \<Rightarrow> nat option" where
  "scan_free m n =
     (if n = 0 then None else if m (n - 1) = 0 then Some (n - 1) else scan_free m (n - 1))"

declare scan_free.simps [simp del]

definition get_free_page :: "mm \<Rightarrow> u32 \<times> mm" where
  "get_free_page s =
     (case scan_free (mem_map s) PAGING_PAGES of
        None \<Rightarrow> (0, s)
      | Some i \<Rightarrow> (page_addr i, clear_page (page_addr i) (set_map i 1 s)))"

definition free_page :: "u32 \<Rightarrow> mm \<Rightarrow> mm res" where
  "free_page addr s =
     (if addr < LOW_MEM then Inr s
      else if addr \<ge> HIGH_MEMORY s then Inl (Panic ''trying to free nonexistent page'')
      else if MAP_NR addr \<ge> PAGING_PAGES then Inl Undefined
      else let i = MAP_NR addr
           in if mem_map s i \<noteq> 0 then Inr (set_map i (mem_map s i - 1) s)
              else Inl (Panic ''trying to free free page''))"

text \<open>\<open>mem_map[i]++\<close> and \<open>mem_map[i]--\<close> where the code does not check the index.\<close>

definition map_inc :: "nat \<Rightarrow> mm \<Rightarrow> mm res" where
  "map_inc i s =
     (if i < PAGING_PAGES then Inr (set_map i (mem_map s i + 1) s) else Inl Undefined)"

definition map_dec :: "nat \<Rightarrow> mm \<Rightarrow> mm res" where
  "map_dec i s =
     (if i < PAGING_PAGES then Inr (set_map i (mem_map s i - 1) s) else Inl Undefined)"

section \<open>Page tables\<close>

text \<open>The address of the directory entry of a linear address, and of its table entry.\<close>

definition dir_slot :: "u32 \<Rightarrow> u32" where
  "dir_slot address = drop_bit 20 address AND 0xffc"

definition pte_slot :: "u32 \<Rightarrow> u32 \<Rightarrow> u32" where
  "pte_slot entry address = frame entry + (drop_bit 10 address AND 0xffc)"

definition present :: "u32 \<Rightarrow> bool" where
  "present entry \<longleftrightarrow> entry AND 1 \<noteq> 0"

definition write_protect :: "u32 \<Rightarrow> u32" where
  "write_protect entry = entry AND NOT 2"

fun free_ptes :: "nat \<Rightarrow> u32 \<Rightarrow> mm \<Rightarrow> mm res" where
  "free_ptes 0 pg_table s = Inr s"
| "free_ptes (Suc n) pg_table s =
     kbind (if present (phys s pg_table) then free_page (frame (phys s pg_table)) s else Inr s)
       (\<lambda>s. free_ptes n (pg_table + 4) (poke pg_table 0 s))"

fun free_dirs :: "nat \<Rightarrow> u32 \<Rightarrow> mm \<Rightarrow> mm res" where
  "free_dirs 0 dir s = Inr s"
| "free_dirs (Suc n) dir s =
     (if \<not> present (phys s dir) then free_dirs n (dir + 4) s
      else kbind (free_ptes 1024 (frame (phys s dir)) s) (\<lambda>s.
           kbind (free_page (frame (phys s dir)) s) (\<lambda>s.
             free_dirs n (dir + 4) (poke dir 0 s))))"

definition free_page_tables :: "u32 \<Rightarrow> u32 \<Rightarrow> mm \<Rightarrow> mm res" where
  "free_page_tables from sz s =
     (if from AND 0x3fffff \<noteq> 0 then Inl (Panic ''free_page_tables called with wrong alignment'')
      else if from = 0 then Inl (Panic ''Trying to free up swapper memory space'')
      else free_dirs (unat (drop_bit 22 (sz + 0x3fffff))) (dir_slot from) s)"

fun copy_ptes :: "nat \<Rightarrow> u32 \<Rightarrow> u32 \<Rightarrow> mm \<Rightarrow> mm res" where
  "copy_ptes 0 from_pt to_pt s = Inr s"
| "copy_ptes (Suc n) from_pt to_pt s =
     (let this_page = phys s from_pt
      in if \<not> present this_page then copy_ptes n (from_pt + 4) (to_pt + 4) s
      else let this_page = write_protect this_page;
               s = poke to_pt this_page s
           in if this_page > LOW_MEM
              then kbind (map_inc (MAP_NR this_page) (poke from_pt this_page s))
                     (\<lambda>s. copy_ptes n (from_pt + 4) (to_pt + 4) s)
              else copy_ptes n (from_pt + 4) (to_pt + 4) s)"

fun copy_dirs :: "nat \<Rightarrow> nat \<Rightarrow> u32 \<Rightarrow> u32 \<Rightarrow> mm \<Rightarrow> (int \<times> mm) res" where
  "copy_dirs nr 0 from_dir to_dir s = Inr (0, s)"
| "copy_dirs nr (Suc n) from_dir to_dir s =
     (if present (phys s to_dir) then Inl (Panic ''copy_page_tables: already exist'')
      else if \<not> present (phys s from_dir) then copy_dirs nr n (from_dir + 4) (to_dir + 4) s
      else case get_free_page s of (to_page_table, s1) \<Rightarrow>
        if to_page_table = 0 then Inr (-1, s1)
        else kbind (copy_ptes nr (frame (phys s from_dir)) to_page_table
                      (poke to_dir (to_page_table OR 7) s1))
               (\<lambda>s. copy_dirs nr n (from_dir + 4) (to_dir + 4) s))"

definition copy_page_tables :: "u32 \<Rightarrow> u32 \<Rightarrow> u32 \<Rightarrow> mm \<Rightarrow> (int \<times> mm) res" where
  "copy_page_tables from to sz s =
     (if from AND 0x3fffff \<noteq> 0 \<or> to AND 0x3fffff \<noteq> 0
      then Inl (Panic ''copy_page_tables called with wrong alignment'')
      else copy_dirs (if from = 0 then 0xA0 else 1024)
             (unat (drop_bit 22 (sz + 0x3fffff))) (dir_slot from) (dir_slot to) s)"

definition put_page :: "u32 \<Rightarrow> u32 \<Rightarrow> mm \<Rightarrow> u32 \<times> mm" where
  "put_page page address s =
     (let d = phys s (dir_slot address)
      in if present d
         then (page, poke (frame d + 4 * (drop_bit 12 address AND 0x3ff)) (page OR 7) s)
         else case get_free_page s of (tmp, s) \<Rightarrow>
           if tmp = 0 then (0, s)
           else (page, poke (tmp + 4 * (drop_bit 12 address AND 0x3ff)) (page OR 7)
                         (poke (dir_slot address) (tmp OR 7) s)))"

section \<open>Copy on write\<close>

definition un_wp_page :: "u32 \<Rightarrow> mm \<Rightarrow> mm res" where
  "un_wp_page table_entry s =
     (let old_page = frame (phys s table_entry)
      in if old_page \<ge> LOW_MEM \<and> MAP_NR old_page \<ge> PAGING_PAGES then Inl Undefined
         else if old_page \<ge> LOW_MEM \<and> mem_map s (MAP_NR old_page) = 1
         then Inr (poke table_entry (phys s table_entry OR 2) s)
         else case get_free_page s of (new_page, s) \<Rightarrow>
           if new_page = 0 then oom
           else kbind (if old_page \<ge> LOW_MEM then map_dec (MAP_NR old_page) s else Inr s)
                  (\<lambda>s. Inr (copy_page old_page new_page (poke table_entry (new_page OR 7) s))))"

definition do_wp_page :: "u32 \<Rightarrow> mm \<Rightarrow> mm res" where
  "do_wp_page address s =
     un_wp_page ((drop_bit 10 address AND 0xffc) + frame (phys s (dir_slot address))) s"

definition write_verify :: "u32 \<Rightarrow> mm \<Rightarrow> mm res" where
  "write_verify address s =
     (let page = phys s (dir_slot address)
      in if \<not> present page then Inr s
         else let slot = pte_slot page address
              in if phys s slot AND 3 = 1 then un_wp_page slot s else Inr s)"

definition get_empty_page :: "u32 \<Rightarrow> mm \<Rightarrow> mm res" where
  "get_empty_page address s =
     (case get_free_page s of (tmp, s) \<Rightarrow>
        if tmp = 0 then kbind (free_page tmp s) (\<lambda>_. oom)
        else case put_page tmp address s of (r, s) \<Rightarrow>
          if r = 0 then kbind (free_page tmp s) (\<lambda>_. oom) else Inr s)"

section \<open>Demand loading and sharing\<close>

text \<open>
  What the page-fault handlers use of the file system: the use count of an inode, the block
  that holds a block of a file, and reading four blocks into a page.
\<close>

record exe_ops =
  i_count_of :: "nat \<Rightarrow> int"
  bmap_of :: "nat \<Rightarrow> u32 \<Rightarrow> u32"
  bread_page_of :: "u32 \<Rightarrow> nat \<Rightarrow> u32 list \<Rightarrow> (u32 \<Rightarrow> u32) \<Rightarrow> (u32 \<Rightarrow> u32)"

definition try_to_share :: "u32 \<Rightarrow> task_struct \<Rightarrow> task_struct \<Rightarrow> mm \<Rightarrow> (bool \<times> mm) res" where
  "try_to_share address current p s =
     (let from_page = dir_slot address + dir_slot (start_code p);
          to_page = dir_slot address + dir_slot (start_code current);
          from = phys s from_page
      in if \<not> present from then Inr (False, s)
      else let from_page = frame from + (drop_bit 10 address AND 0xffc);
               phys_addr = phys s from_page
      in if phys_addr AND 0x41 \<noteq> 1 then Inr (False, s)
      else let phys_addr = frame phys_addr
      in if phys_addr \<ge> HIGH_MEMORY s \<or> phys_addr < LOW_MEM then Inr (False, s)
      else kbind
        (let to = phys s to_page
         in if present to then Inr (to, s)
            else case get_free_page s of (to, s) \<Rightarrow>
              if to = 0 then oom else Inr (to, poke to_page (to OR 7) s))
        (\<lambda>(to, s).
          let to_page = frame to + (drop_bit 10 address AND 0xffc)
          in if present (phys s to_page)
             then Inl (Panic ''try_to_share: to_page already exists'')
             else let s = poke from_page (write_protect (phys s from_page)) s;
                      s = poke to_page (phys s from_page) s
                  in kbind (map_inc (MAP_NR phys_addr) s) (\<lambda>s. Inr (True, s))))"

text \<open>The loop of \<open>share_page\<close>: task slots \<open>n\<close> down to 1.\<close>

fun share_tasks :: "nat \<Rightarrow> u32 \<Rightarrow> task_table \<Rightarrow> nat \<Rightarrow> task_struct \<Rightarrow> mm \<Rightarrow> (bool \<times> mm) res" where
  "share_tasks 0 address task cur current s = Inr (False, s)"
| "share_tasks (Suc n) address task cur current s =
     (case task (Suc n) of
        None \<Rightarrow> share_tasks n address task cur current s
      | Some p \<Rightarrow>
          if cur = Suc n \<or> executable p \<noteq> executable current
          then share_tasks n address task cur current s
          else kbind (try_to_share address current p s) (\<lambda>(r, s).
                 if r then Inr (True, s) else share_tasks n address task cur current s))"

definition share_page ::
    "exe_ops \<Rightarrow> u32 \<Rightarrow> task_table \<Rightarrow> nat \<Rightarrow> task_struct \<Rightarrow> mm \<Rightarrow> (bool \<times> mm) res" where
  "share_page ops address task cur current s =
     (case executable current of
        None \<Rightarrow> Inr (False, s)
      | Some e \<Rightarrow>
          if i_count_of ops e < 2 then Inr (False, s)
          else share_tasks (NR_TASKS - 1) address task cur current s)"

text \<open>
  The loop that clears the last \<open>n\<close> bytes of a page: the \<open>long\<close> at \<open>a\<close> keeps its bytes below
  the first one cleared.
\<close>

definition clear_tail :: "u32 \<Rightarrow> nat \<Rightarrow> mm \<Rightarrow> mm" where
  "clear_tail page n s =
     s\<lparr>phys := (\<lambda>a. if frame a = page
                    then take_bit (8 * (4096 - n - unat (a AND 0xfff))) (phys s a)
                    else phys s a)\<rparr>"

definition do_no_page ::
    "exe_ops \<Rightarrow> task_table \<Rightarrow> nat \<Rightarrow> task_struct \<Rightarrow> u32 \<Rightarrow> mm \<Rightarrow> mm res" where
  "do_no_page ops task cur current address s =
     (let address = frame address;
          tmp = address - start_code current
      in case executable current of
           None \<Rightarrow> get_empty_page address s
         | Some e \<Rightarrow>
      if tmp \<ge> end_data current then get_empty_page address s
      else kbind (share_page ops tmp task cur current s) (\<lambda>(shared, s).
        if shared then Inr s
        else case get_free_page s of (page, s) \<Rightarrow>
          if page = 0 then oom
          else let block = 1 + tmp div 1024;
                   nr = map (\<lambda>i. bmap_of ops e (block + i)) [0, 1, 2, 3];
                   s = s\<lparr>phys := bread_page_of ops page e nr (phys s)\<rparr>;
                   i = sint (tmp + 4096 - end_data current);
                   s = clear_tail page (nat i) s
               in case put_page page address s of (r, s) \<Rightarrow>
                    if r \<noteq> 0 then Inr s else kbind (free_page page s) (\<lambda>_. oom)))"

section \<open>Initialisation and statistics\<close>

definition mem_init :: "u32 \<Rightarrow> u32 \<Rightarrow> mm \<Rightarrow> mm res" where
  "mem_init start_mem end_mem s =
     (let i = MAP_NR start_mem;
          n = nat (sint (signed_drop_bit 12 (end_mem - start_mem)))
      in if n \<noteq> 0 \<and> i + n > PAGING_PAGES then Inl Undefined
         else Inr (s\<lparr>HIGH_MEMORY := end_mem,
                     mem_map := (\<lambda>j. if i \<le> j \<and> j < i + n then 0
                                     else if j < PAGING_PAGES then USED else mem_map s j)\<rparr>))"

text \<open>What \<open>calc_mem\<close> prints: the free pages, and for each directory in use its pages.\<close>

definition calc_mem :: "mm \<Rightarrow> nat \<times> (nat \<times> nat) list" where
  "calc_mem s =
     (length (filter (\<lambda>i. mem_map s i = 0) [0..<PAGING_PAGES]),
      map (\<lambda>i. (i, length (filter (\<lambda>j. present (phys s (frame (phys s (4 * of_nat i)) + 4 * of_nat j)))
                          [0..<1024])))
        (filter (\<lambda>i. present (phys s (4 * of_nat i))) [2..<1024]))"

section \<open>Frames and addresses\<close>

lemma hi_mask: "(0xfffff000 :: u32) = NOT (mask 12)"
  by (simp add: mask_eq_exp_minus_1)

lemma lo_mask: "(0xfff :: u32) = mask 12"
  by (simp add: mask_eq_exp_minus_1)

lemma frame_eq: "frame a = push_bit 12 (drop_bit 12 a)"
  by (rule bit_word_eqI) (auto simp: frame_def hi_mask bit_simps)

lemma unat_frame: "unat (frame a) = 4096 * (unat a div 4096)"
proof -
  have lt: "unat a < 2 ^ 32" using unsigned_less [of a, where ?'a = nat] by simp
  have "unat (frame a) = take_bit 32 (push_bit 12 (drop_bit 12 (take_bit 32 (unat a))))"
    by (simp only: frame_eq unsigned_push_bit_eq unsigned_drop_bit_eq) simp
  also have "\<dots> = take_bit 32 (unat a div 4096 * 4096)"
    using lt by (simp add: push_bit_eq_mult drop_bit_eq_div take_bit_nat_eq_self)
  also have "\<dots> = unat a div 4096 * 4096"
    by (rule take_bit_nat_eq_self) (rule le_less_trans [OF _ lt], simp)
  finally show ?thesis by simp
qed

lemma frame_frame [simp]: "frame (frame a) = frame a"
  by (rule bit_word_eqI) (auto simp: frame_def hi_mask bit_simps)

lemma unat_page_addr:
  assumes "i < PAGING_PAGES"
  shows "unat (page_addr i) = 0x100000 + 4096 * i"
proof -
  have "unat (push_bit 12 (of_nat i) :: u32) = take_bit 32 (push_bit 12 (take_bit 32 i))"
    by (simp only: unsigned_push_bit_eq unat_of_nat) (simp add: take_bit_eq_mod)
  also have "\<dots> = 4096 * i"
    using assms by (simp add: push_bit_eq_mult take_bit_nat_eq_self)
  finally have "unat (push_bit 12 (of_nat i) :: u32) = 4096 * i" .
  with assms show ?thesis
    by (simp only: page_addr_def unat_word_ariths) simp
qed

lemma page_addr_inj:
  assumes "i < PAGING_PAGES" and "j < PAGING_PAGES"
  shows "page_addr i = page_addr j \<longleftrightarrow> i = j"
proof
  assume "page_addr i = page_addr j"
  then have "unat (page_addr i) = unat (page_addr j)" by simp
  with assms show "i = j" by (simp only: unat_page_addr)
qed simp

lemma page_addr_ge: "i < PAGING_PAGES \<Longrightarrow> LOW_MEM \<le> page_addr i"
  by (simp add: word_le_nat_alt unat_page_addr)

lemma page_addr_nonzero: 
  assumes "i < PAGING_PAGES" shows "page_addr i \<noteq> 0"
proof
  assume "page_addr i = 0"
  then have "unat (page_addr i) = 0" by simp
  with assms show False by (simp add: unat_page_addr)
qed

lemma frame_page_addr: "i < PAGING_PAGES \<Longrightarrow> frame (page_addr i) = page_addr i"
  by (simp add: word_unat_eq_iff unat_frame unat_page_addr)

lemma MAP_NR_unat:
  assumes "LOW_MEM \<le> a"
  shows "MAP_NR a = (unat a - 0x100000) div 4096"
proof -
  have u: "unat (a - LOW_MEM) = unat a - 0x100000"
    using assms by (simp add: unat_sub)
  have "MAP_NR a = drop_bit 12 (unat (a - LOW_MEM))"
    by (simp only: MAP_NR_def unat_drop_bit_eq)
  then show ?thesis by (simp only: u) (simp add: drop_bit_eq_div)
qed

lemma MAP_NR_page_addr: "i < PAGING_PAGES \<Longrightarrow> MAP_NR (page_addr i) = i"
  by (simp add: MAP_NR_unat page_addr_ge unat_page_addr)

lemma page_addr_MAP_NR:
  assumes "LOW_MEM \<le> a" and "MAP_NR a < PAGING_PAGES"
  shows "page_addr (MAP_NR a) = frame a"
proof -
  obtain b where b: "unat a = b + 256 * 4096"
    using assms(1) le_Suc_ex [of "256 * 4096" "unat a"] by (auto simp: word_le_nat_alt)
  have "0x100000 + 4096 * ((unat a - 0x100000) div 4096) = 4096 * (unat a div 4096)"
  proof -
    have "unat a div 4096 = 256 + b div 4096" unfolding b by (rule div_mult_self1) simp
    moreover have "unat a - 0x100000 = b" unfolding b by simp
    ultimately show ?thesis by simp
  qed
  then have "0x100000 + 4096 * MAP_NR a = unat (frame a)"
    by (simp only: MAP_NR_unat [OF assms(1)] unat_frame)
  with unat_page_addr [OF assms(2)] show ?thesis by (simp only: word_unat_eq_iff)
qed

section \<open>Page frames\<close>

lemma scan_free_Some:
  "scan_free m n = Some i \<Longrightarrow> i < n \<and> m i = 0 \<and> (\<forall>j. i < j \<and> j < n \<longrightarrow> m j \<noteq> 0)"
proof (induction m n rule: scan_free.induct)
  case (1 m n)
  show ?case
  proof (cases "n = 0 \<or> m (n - 1) = 0")
    case True
    with 1 show ?thesis by (auto simp: scan_free.simps [of m n] split: if_splits)
  next
    case False
    with 1 have ih: "i < n - 1 \<and> m i = 0 \<and> (\<forall>j. i < j \<and> j < n - 1 \<longrightarrow> m j \<noteq> 0)"
      by (simp add: scan_free.simps [of m n])
    have "m j \<noteq> 0" if "i < j" "j < n" for j
      using that ih False by (cases "j = n - 1") auto
    with ih show ?thesis by auto
  qed
qed

lemma scan_free_None: "scan_free m n = None \<Longrightarrow> j < n \<Longrightarrow> m j \<noteq> 0"
proof (induction m n rule: scan_free.induct)
  case (1 m n)
  then show ?case
    by (cases "j = n - 1") (auto simp: scan_free.simps [of m n] split: if_splits)
qed

text \<open>The two outcomes of \<open>get_free_page\<close>.\<close>

lemma get_free_page_cases:
  obtains (full) "get_free_page s = (0, s)" and "\<forall>i < PAGING_PAGES. mem_map s i \<noteq> 0"
  | (page) i where "i < PAGING_PAGES" and "mem_map s i = 0"
      and "\<forall>j. i < j \<and> j < PAGING_PAGES \<longrightarrow> mem_map s j \<noteq> 0"
      and "get_free_page s = (page_addr i, clear_page (page_addr i) (set_map i 1 s))"
proof (cases "scan_free (mem_map s) PAGING_PAGES")
  case None
  with full show thesis by (auto simp: get_free_page_def dest: scan_free_None)
next
  case (Some i)
  with page [of i] show thesis by (auto simp: get_free_page_def dest: scan_free_Some)
qed

lemma mm_sel [simp]:
  "mem_map (poke a v s) = mem_map s"
  "HIGH_MEMORY (poke a v s) = HIGH_MEMORY s"
  "phys (poke a v s) = (phys s)(a := v)"
  "mem_map (clear_page p s) = mem_map s"
  "HIGH_MEMORY (clear_page p s) = HIGH_MEMORY s"
  "mem_map (copy_page p q s) = mem_map s"
  "HIGH_MEMORY (copy_page p q s) = HIGH_MEMORY s"
  "mem_map (set_map i w s) = (mem_map s)(i := w)"
  "HIGH_MEMORY (set_map i w s) = HIGH_MEMORY s"
  "phys (set_map i w s) = phys s"
  by (simp_all add: poke_def clear_page_def copy_page_def set_map_def)

lemma phys_clear_page: "phys (clear_page p s) a = (if frame a = p then 0 else phys s a)"
  by (simp add: clear_page_def)

lemma phys_copy_page:
  "phys (copy_page p q s) a = (if frame a = q then phys s (p OR (a AND 0xfff)) else phys s a)"
  by (simp add: copy_page_def)

lemma set_map_set_map [simp]: "set_map i v (set_map i w s) = set_map i v s"
  by (simp add: set_map_def)

lemma free_page_frame:
  assumes "i < PAGING_PAGES" and "page_addr i < HIGH_MEMORY s" and "mem_map s i \<noteq> 0"
  shows "free_page (page_addr i) s = Inr (set_map i (mem_map s i - 1) s)"
  using assms page_addr_ge [of i] by (simp add: free_page_def MAP_NR_page_addr not_less [symmetric])

lemma free_page_low: "a < LOW_MEM \<Longrightarrow> free_page a s = Inr s"
  by (simp add: free_page_def)

lemma get_free_page_spec:
  "case get_free_page s of (page, s') \<Rightarrow>
     if \<forall>i < PAGING_PAGES. mem_map s i \<noteq> 0 then page = 0 \<and> s' = s
     else \<exists>i < PAGING_PAGES. page = page_addr i \<and> page \<noteq> 0 \<and> mem_map s i = 0 \<and>
            (\<forall>j. i < j \<and> j < PAGING_PAGES \<longrightarrow> mem_map s j \<noteq> 0) \<and>
            mem_map s' = (mem_map s)(i := 1) \<and>
            (\<forall>a. phys s' a = (if frame a = page then 0 else phys s a)) \<and>
            HIGH_MEMORY s' = HIGH_MEMORY s"
  by (cases rule: get_free_page_cases [of s]) (auto simp: phys_clear_page page_addr_nonzero)

lemma free_get_page:
  assumes "get_free_page s = (page, s')" and "page \<noteq> 0" and "page < HIGH_MEMORY s"
  shows "\<exists>s''. free_page page s' = Inr s'' \<and> mem_map s'' = mem_map s"
proof (cases rule: get_free_page_cases [of s])
  case full
  with assms show ?thesis by simp
next
  case (page i)
  with assms have "page = page_addr i" "s' = clear_page (page_addr i) (set_map i 1 s)" by auto
  with page assms(3) show ?thesis
    by (subst \<open>page = page_addr i\<close>, subst free_page_frame) (auto simp: fun_upd_idem_iff)
qed

section \<open>Copy on write\<close>

text \<open>A page frame in use: below \<open>LOW_MEM\<close>, or counted in \<open>mem_map\<close>.\<close>

definition in_use :: "mm \<Rightarrow> u32 \<Rightarrow> bool" where
  "in_use s a \<longleftrightarrow> a < LOW_MEM \<or> (MAP_NR a < PAGING_PAGES \<and> mem_map s (MAP_NR a) \<noteq> 0)"

lemma in_use_not_free:
  assumes "in_use s a" and "i < PAGING_PAGES" and "mem_map s i = 0"
  shows "frame a \<noteq> page_addr i"
proof
  assume eq: "frame a = page_addr i"
  have "frame a \<le> a" by (simp add: word_le_nat_alt unat_frame)
  with eq page_addr_ge [OF assms(2)] have "LOW_MEM \<le> a" by simp
  with assms(1) have u: "MAP_NR a < PAGING_PAGES" "mem_map s (MAP_NR a) \<noteq> 0"
    by (auto simp: in_use_def)
  from \<open>LOW_MEM \<le> a\<close> u(1) have "page_addr (MAP_NR a) = page_addr i"
    using eq by (simp add: page_addr_MAP_NR)
  with u assms show False by (simp add: page_addr_inj)
qed

lemma frame_or_offset: "frame off = 0 \<Longrightarrow> frame (frame p OR off) = frame p"
proof -
  assume "frame off = 0"
  then have "\<And>n. bit (frame off) n \<longleftrightarrow> False" by simp
  then show ?thesis
    by (intro bit_word_eqI) (auto simp: frame_def hi_mask bit_simps)
qed

lemma offset_of_or: "frame off = 0 \<Longrightarrow> (frame p OR off) AND 0xfff = off"
proof -
  assume "frame off = 0"
  then have "\<And>n. bit (frame off) n \<longleftrightarrow> False" by simp
  then show ?thesis
    by (intro bit_word_eqI) (auto simp: frame_def hi_mask lo_mask bit_simps)
qed

lemma frame_or_7: "frame (frame p OR 7) = frame p"
  by (rule frame_or_offset) (simp add: frame_def)

lemma entry_7: "present (p OR 7)" "(p OR 7) AND 2 \<noteq> (0 :: u32)"
proof -
  have "bit ((p OR 7) AND 1) 0" "bit ((p OR 7) AND 2) 1"
    by (simp_all add: bit_simps)
  then show "present (p OR 7)" "(p OR 7) AND 2 \<noteq> 0" by (auto simp: present_def)
qed

lemma entry_or_2: "present (e OR 2) = present e" "(e OR 2) AND 2 \<noteq> (0 :: u32)"
  "frame (e OR 2) = frame e"
proof -
  have "(e OR 2) AND 1 = e AND 1" by (rule bit_word_eqI) (auto simp: bit_simps)
  then show "present (e OR 2) = present e" by (simp add: present_def)
  have "bit ((e OR 2) AND 2) 1" by (simp add: bit_simps)
  then show "(e OR 2) AND 2 \<noteq> 0" by auto
  show "frame (e OR 2) = frame e"
    by (rule bit_word_eqI) (auto simp: frame_def hi_mask bit_simps)
qed

lemma un_wp_page_cow:
  assumes run: "un_wp_page e s = Inr s'" and pres: "present (phys s e)"
    and use: "in_use s e" "in_use s (frame (phys s e))" and sep: "frame e \<noteq> frame (phys s e)"
  shows "present (phys s' e) \<and> phys s' e AND 2 \<noteq> 0 \<and> LOW_MEM \<le> frame (phys s' e) \<and>
    mem_map s' (MAP_NR (frame (phys s' e))) = 1 \<and>
    (\<forall>off. frame off = 0 \<longrightarrow>
       phys s' (frame (phys s' e) OR off) = phys s (frame (phys s e) OR off)) \<and>
    (\<forall>a. a \<noteq> e \<and> frame a \<noteq> frame (phys s' e) \<longrightarrow> phys s' a = phys s a) \<and>
    mem_map s' = (if frame (phys s' e) = frame (phys s e) then mem_map s
      else (\<lambda>i. if i = MAP_NR (frame (phys s' e)) then 1
                else if LOW_MEM \<le> frame (phys s e) \<and> i = MAP_NR (frame (phys s e))
                then mem_map s i - 1 else mem_map s i))"
proof (cases "frame (phys s e) \<ge> LOW_MEM \<and> mem_map s (MAP_NR (frame (phys s e))) = 1")
  case True
  with run have s': "s' = poke e (phys s e OR 2) s"
    by (auto simp: un_wp_page_def Let_def split: if_splits)
  have "frame (phys s e) OR off \<noteq> e" if "frame off = 0" for off
    using sep frame_or_offset [OF that, of "phys s e"] by auto
  with True pres show ?thesis by (simp add: s' entry_or_2)
next
  case False
  let ?old = "frame (phys s e)"
  from False run have "fst (get_free_page s) \<noteq> 0"
    by (auto simp: un_wp_page_def Let_def oom_def split: if_splits prod.splits)
  then obtain i where i: "i < PAGING_PAGES" "mem_map s i = 0"
    and g: "get_free_page s = (page_addr i, clear_page (page_addr i) (set_map i 1 s))"
    by (cases rule: get_free_page_cases [of s]) auto
  have ne: "?old \<noteq> page_addr i" "frame e \<noteq> page_addr i"
    using in_use_not_free [OF use(2) i] in_use_not_free [OF use(1) i] by simp_all
  have old: "MAP_NR ?old \<noteq> i" "MAP_NR ?old < PAGING_PAGES" if "LOW_MEM \<le> ?old"
    using that use(2) i by (auto simp: in_use_def)
  define s1 where "s1 = poke e (page_addr i OR 7)
    (if LOW_MEM \<le> ?old then set_map (MAP_NR ?old) (mem_map s (MAP_NR ?old) - 1)
       (clear_page (page_addr i) (set_map i 1 s)) else clear_page (page_addr i) (set_map i 1 s))"
  have s': "s' = copy_page ?old (page_addr i) s1"
    using run False old page_addr_nonzero [OF i(1)]
    by (auto simp: un_wp_page_def Let_def g map_dec_def s1_def split: if_splits)
  have e': "phys s' e = page_addr i OR 7"
    using ne by (simp add: s' phys_copy_page s1_def)
  have fr: "frame (page_addr i OR 7) = page_addr i"
    using frame_or_7 [of "page_addr i"] i by (simp add: frame_page_addr)
  have cont: "phys s' (page_addr i OR off) = phys s (?old OR off)" if "frame off = 0" for off
  proof -
    have o: "frame (page_addr i OR off) = page_addr i" "(page_addr i OR off) AND 0xfff = off"
      using frame_or_offset [OF that, of "page_addr i"] offset_of_or [OF that, of "page_addr i"]
        i by (simp_all add: frame_page_addr)
    have "frame (?old OR off) = ?old" using frame_or_offset [OF that] .
    with o ne sep show ?thesis
      by (auto simp: s' phys_copy_page s1_def phys_clear_page)
  qed
  have keep: "phys s' a = phys s a" if "a \<noteq> e" "frame a \<noteq> page_addr i" for a
    using that by (simp add: s' phys_copy_page s1_def phys_clear_page)
  show ?thesis
    using i ne old cont keep
    by (simp add: e' fr entry_7 page_addr_ge MAP_NR_page_addr) (auto simp: s' s1_def)
qed

section \<open>Copying and freeing a page table\<close>

text \<open>The addresses of \<open>n\<close> consecutive entries.\<close>

definition slots :: "nat \<Rightarrow> u32 \<Rightarrow> u32 set" where
  "slots n p = (\<lambda>k. p + 4 * of_nat k) ` {..<n}"

lemma slots_0 [simp]: "slots 0 p = {}"
  by (simp add: slots_def)

lemma slots_Suc: "slots (Suc n) p = insert p (slots n (p + 4))"
proof -
  have "(\<lambda>k. p + 4 * of_nat k) ` {..<Suc n} =
        insert p ((\<lambda>k. p + 4 * of_nat (Suc k)) ` {..<n})"
    by (auto simp: lessThan_Suc_eq_insert_0 image_image)
  then show ?thesis by (simp add: slots_def algebra_simps)
qed

lemma slot_notin_next: "n \<le> 1024 \<Longrightarrow> p \<notin> slots n (p + 4)"
proof
  assume n: "n \<le> 1024" and "p \<in> slots n (p + 4)"
  then obtain k where k: "k < n" and "p = p + 4 + 4 * of_nat k" by (auto simp: slots_def)
  then have "4 + 4 * of_nat k = (0 :: u32)" by (simp add: add.assoc)
  then have "(of_nat (4 + 4 * k) :: u32) = 0" by simp
  then have "unat (of_nat (4 + 4 * k) :: u32) = 0" by (simp only: unat_0)
  with k n show False by (simp add: unat_of_nat del: of_nat_add of_nat_mult)
qed

text \<open>How many of \<open>n\<close> page table entries refer to page frame \<open>i\<close>.\<close>

fun pte_refs :: "nat \<Rightarrow> u32 \<Rightarrow> (u32 \<Rightarrow> u32) \<Rightarrow> nat \<Rightarrow> nat" where
  "pte_refs 0 p ph i = 0"
| "pte_refs (Suc n) p ph i =
     (if present (ph p) \<and> LOW_MEM \<le> frame (ph p) \<and> MAP_NR (frame (ph p)) = i then 1 else 0)
     + pte_refs n (p + 4) ph i"

lemma pte_refs_cong:
  "(\<And>a. a \<in> slots n p \<Longrightarrow> ph a = ph' a) \<Longrightarrow> pte_refs n p ph i = pte_refs n p ph' i"
  by (induction n arbitrary: p) (simp_all add: slots_Suc)

lemma frame_ge_iff: "LOW_MEM \<le> frame a \<longleftrightarrow> LOW_MEM \<le> a"
proof -
  have "256 \<le> unat a div 4096 \<longleftrightarrow> 256 * 4096 \<le> unat a"
    by (simp add: less_eq_div_iff_mult_less_eq)
  then show ?thesis by (simp add: word_le_nat_alt unat_frame)
qed

lemma MAP_NR_frame:
  assumes "LOW_MEM \<le> a"
  shows "MAP_NR (frame a) = MAP_NR a"
proof -
  obtain b where b: "unat a = b + 256 * 4096"
    using assms le_Suc_ex [of "256 * 4096" "unat a"] by (auto simp: word_le_nat_alt)
  have "unat a div 4096 = 256 + b div 4096" unfolding b by (rule div_mult_self1) simp
  then have "unat (frame a) - 0x100000 = 4096 * (b div 4096)" by (simp add: unat_frame)
  moreover have "unat a - 0x100000 = b" unfolding b by simp
  ultimately show ?thesis using assms by (simp add: MAP_NR_unat frame_ge_iff)
qed

lemma frame_wp: "frame (write_protect e) = frame e" "present (write_protect e) = present e"
  unfolding write_protect_def
proof -
  show "frame (e AND NOT 2) = frame e"
    by (rule bit_word_eqI) (auto simp: frame_def hi_mask bit_simps)
  have "(e AND NOT 2) AND 1 = e AND 1" by (rule bit_word_eqI) (auto simp: bit_simps)
  then show "present (e AND NOT 2) = present e" by (simp add: present_def)
qed

lemma low_frame_iff:
  assumes "present e"
  shows "LOW_MEM < write_protect e \<longleftrightarrow> LOW_MEM \<le> frame e"
proof -
  have "present (write_protect e)" using assms by (simp add: frame_wp)
  moreover have "\<not> present LOW_MEM" by (simp add: present_def)
  ultimately have "write_protect e \<noteq> LOW_MEM" by auto
  then show ?thesis using frame_ge_iff [of "write_protect e"] by (auto simp: frame_wp)
qed

lemma copy_ptes_spec:
  assumes "copy_ptes n f t s = Inr s'" and "n \<le> 1024" and "slots n f \<inter> slots n t = {}"
    and "\<forall>a \<in> slots n t. \<not> present (phys s a)"
  shows "(\<forall>a. a \<notin> slots n f \<union> slots n t \<longrightarrow> phys s' a = phys s a) \<and>
    (\<forall>k < n. phys s' (t + 4 * of_nat k) =
       (let e = phys s (f + 4 * of_nat k)
        in if present e then write_protect e else phys s (t + 4 * of_nat k))) \<and>
    (\<forall>k < n. phys s' (f + 4 * of_nat k) =
       (let e = phys s (f + 4 * of_nat k)
        in if present e \<and> LOW_MEM \<le> frame e then write_protect e else e)) \<and>
    (\<forall>i. mem_map s' i = mem_map s i + of_nat (pte_refs n f (phys s) i)) \<and>
    HIGH_MEMORY s' = HIGH_MEMORY s"
  using assms
proof (induction n arbitrary: f t s)
  case 0
  then show ?case by simp
next
  case (Suc n)
  have n: "f \<notin> slots n (f + 4)" "t \<notin> slots n (t + 4)" "n \<le> 1024"
    using Suc.prems(2) by (simp_all add: slot_notin_next)
  have d: "f \<noteq> t" "t \<notin> slots n (f + 4)" "f \<notin> slots n (t + 4)" "slots n (f + 4) \<inter> slots n (t + 4) = {}"
    using Suc.prems(3) by (auto simp: slots_Suc)
  have k4: "f + 4 * of_nat (Suc k) = f + 4 + 4 * of_nat k"
    "t + 4 * of_nat (Suc k) = t + 4 + 4 * of_nat k" for k
    by (simp_all add: algebra_simps)
  let ?e = "phys s f"
  define s1 where "s1 = (if \<not> present ?e then s
     else if LOW_MEM \<le> frame ?e
       then set_map (MAP_NR (frame ?e)) (mem_map s (MAP_NR (frame ?e)) + 1)
              (poke f (write_protect ?e) (poke t (write_protect ?e) s))
       else poke t (write_protect ?e) s)"
  have nr: "MAP_NR (write_protect ?e) = MAP_NR (frame ?e)" if "LOW_MEM \<le> frame ?e"
    using that MAP_NR_frame [of "write_protect ?e"] frame_ge_iff [of "write_protect ?e"]
    by (simp add: frame_wp)
  have run: "copy_ptes n (f + 4) (t + 4) s1 = Inr s'"
  proof (cases "present ?e")
    case True
    then show ?thesis
      using Suc.prems(1) low_frame_iff [OF True] nr d(1)
      by (cases "LOW_MEM \<le> frame ?e")
        (simp_all add: s1_def map_inc_def Let_def split: if_split_asm)
  next
    case False
    then show ?thesis using Suc.prems(1) by (simp add: s1_def)
  qed
  have same: "phys s1 a = phys s a" if "a \<noteq> f" "a \<noteq> t" for a
    using that by (simp add: s1_def)
  have np: "\<forall>a \<in> slots n (t + 4). \<not> present (phys s1 a)"
    using Suc.prems(4) n d same by (metis insertCI slots_Suc)
  note IH = Suc.IH [OF run n(3) d(4) np]
  have at: "phys s' f = phys s1 f" "phys s' t = phys s1 t"
    using IH n d by auto
  have next_f: "phys s1 (f + 4 + 4 * of_nat k) = phys s (f + 4 + 4 * of_nat k)" 
    and next_t: "phys s1 (t + 4 + 4 * of_nat k) = phys s (t + 4 + 4 * of_nat k)" if "k < n" for k
  proof -
    have "f + 4 + 4 * of_nat k \<in> slots n (f + 4)" "t + 4 + 4 * of_nat k \<in> slots n (t + 4)"
      using that by (auto simp: slots_def)
    with n d show "phys s1 (f + 4 + 4 * of_nat k) = phys s (f + 4 + 4 * of_nat k)" 
      "phys s1 (t + 4 + 4 * of_nat k) = phys s (t + 4 + 4 * of_nat k)"
      by (auto intro!: same)
  qed
  have refs: "pte_refs n (f + 4) (phys s1) i = pte_refs n (f + 4) (phys s) i" for i
    using n d by (intro pte_refs_cong same) auto
  have f1: "phys s1 f = (if present ?e \<and> LOW_MEM \<le> frame ?e then write_protect ?e else ?e)"
    and t1: "phys s1 t = (if present ?e then write_protect ?e else phys s t)"
    and m1: "mem_map s1 i = mem_map s i +
      (if present ?e \<and> LOW_MEM \<le> frame ?e \<and> MAP_NR (frame ?e) = i then 1 else 0)"
    and h1: "HIGH_MEMORY s1 = HIGH_MEMORY s" for i
    using d(1) by (auto simp: s1_def)
  show ?case
  proof (intro conjI)
    show "\<forall>a. a \<notin> slots (Suc n) f \<union> slots (Suc n) t \<longrightarrow> phys s' a = phys s a"
      using IH same by (auto simp: slots_Suc)
    show "\<forall>k < Suc n. phys s' (t + 4 * of_nat k) =
       (let e = phys s (f + 4 * of_nat k)
        in if present e then write_protect e else phys s (t + 4 * of_nat k))"
      unfolding All_less_Suc2 k4 using IH next_f next_t at t1 by (simp add: Let_def)
    show "\<forall>k < Suc n. phys s' (f + 4 * of_nat k) =
       (let e = phys s (f + 4 * of_nat k)
        in if present e \<and> LOW_MEM \<le> frame e then write_protect e else e)"
      unfolding All_less_Suc2 k4 using IH next_f next_t at f1 by (simp add: Let_def)
    show "\<forall>i. mem_map s' i = mem_map s i + of_nat (pte_refs (Suc n) f (phys s) i)"
      using IH by (simp add: refs m1)
    show "HIGH_MEMORY s' = HIGH_MEMORY s"
      using IH h1 by simp
  qed
qed

lemma free_ptes_spec:
  assumes "n \<le> 1024"
    and "\<forall>a \<in> slots n t. present (phys s a) \<and> LOW_MEM \<le> frame (phys s a) \<longrightarrow>
           frame (phys s a) < HIGH_MEMORY s \<and> MAP_NR (frame (phys s a)) < PAGING_PAGES"
    and "\<forall>i. pte_refs n t (phys s) i \<le> unat (mem_map s i)"
  shows "\<exists>s'. free_ptes n t s = Inr s' \<and>
    (\<forall>a. phys s' a = (if a \<in> slots n t then 0 else phys s a)) \<and>
    (\<forall>i. mem_map s' i = mem_map s i - of_nat (pte_refs n t (phys s) i)) \<and>
    HIGH_MEMORY s' = HIGH_MEMORY s"
  using assms
proof (induction n arbitrary: t s)
  case 0
  then show ?case by simp
next
  case (Suc n)
  have n: "t \<notin> slots n (t + 4)" "n \<le> 1024"
    using Suc.prems(1) by (simp_all add: slot_notin_next)
  let ?e = "phys s t" and ?i = "MAP_NR (frame (phys s t))"
  define c where "c = (present ?e \<and> LOW_MEM \<le> frame ?e)"
  define s1 where "s1 = poke t 0 (if c then set_map ?i (mem_map s ?i - 1) s else s)"
  have pos: "mem_map s ?i \<noteq> 0" if c
  proof -
    from Suc.prems(3) have "pte_refs (Suc n) t (phys s) ?i \<le> unat (mem_map s ?i)" by blast
    with that show ?thesis by (auto simp: c_def)
  qed
  have run: "free_ptes (Suc n) t s = free_ptes n (t + 4) s1"
    using pos Suc.prems(2)
    by (auto simp: slots_Suc s1_def c_def free_page_def Let_def not_le split: if_splits)
  have same: "phys s1 a = phys s a" if "a \<in> slots n (t + 4)" for a
    using that n by (auto simp: s1_def)
  then have refs: "pte_refs n (t + 4) (phys s1) i = pte_refs n (t + 4) (phys s) i" for i
    by (intro pte_refs_cong) simp
  have m1: "mem_map s1 i = (if c \<and> i = ?i then mem_map s i - 1 else mem_map s i)" for i
    by (simp add: s1_def)
  have le: "pte_refs n (t + 4) (phys s1) i \<le> unat (mem_map s1 i)" for i
  proof -
    from Suc.prems(3) have l: "pte_refs (Suc n) t (phys s) i \<le> unat (mem_map s i)" by blast
    show ?thesis
    proof (cases "c \<and> i = ?i")
      case True
      with pos have "unat (mem_map s i - 1) = unat (mem_map s i) - 1"
        by (simp add: unat_minus_one)
      with True l show ?thesis by (simp add: refs m1) (simp add: c_def)
    next
      case False
      with l show ?thesis by (auto simp: refs m1 split: if_splits)
    qed
  qed
  have "\<exists>s'. free_ptes n (t + 4) s1 = Inr s' \<and>
    (\<forall>a. phys s' a = (if a \<in> slots n (t + 4) then 0 else phys s1 a)) \<and>
    (\<forall>i. mem_map s' i = mem_map s1 i - of_nat (pte_refs n (t + 4) (phys s1) i)) \<and>
    HIGH_MEMORY s' = HIGH_MEMORY s1"
  proof (rule Suc.IH [OF n(2)])
    have "HIGH_MEMORY s1 = HIGH_MEMORY s" by (simp add: s1_def)
    then show "\<forall>a \<in> slots n (t + 4). present (phys s1 a) \<and> LOW_MEM \<le> frame (phys s1 a) \<longrightarrow>
        frame (phys s1 a) < HIGH_MEMORY s1 \<and> MAP_NR (frame (phys s1 a)) < PAGING_PAGES"
      using Suc.prems(2) same by (simp add: slots_Suc)
    show "\<forall>i. pte_refs n (t + 4) (phys s1) i \<le> unat (mem_map s1 i)" using le by blast
  qed
  then obtain s' where s': "free_ptes n (t + 4) s1 = Inr s'"
    and ph: "\<forall>a. phys s' a = (if a \<in> slots n (t + 4) then 0 else phys s1 a)"
    and mm: "\<forall>i. mem_map s' i = mem_map s1 i - of_nat (pte_refs n (t + 4) (phys s) i)"
    and h: "HIGH_MEMORY s' = HIGH_MEMORY s1"
    unfolding refs by blast
  have "phys s' a = (if a \<in> slots (Suc n) t then 0 else phys s a)" for a
    by (simp add: ph slots_Suc) (simp add: s1_def)
  moreover have "mem_map s' i = mem_map s i - of_nat (pte_refs (Suc n) t (phys s) i)" for i
    by (simp add: mm) (simp add: s1_def c_def)
  moreover have "HIGH_MEMORY s' = HIGH_MEMORY s" using h by (simp add: s1_def)
  ultimately show ?case unfolding run s' by auto
qed

lemma pte_refs_shared:
  assumes "\<forall>k < n. present (ph' (t + 4 * of_nat k)) = present (ph (f + 4 * of_nat k)) \<and>
    (present (ph (f + 4 * of_nat k)) \<longrightarrow>
     frame (ph' (t + 4 * of_nat k)) = frame (ph (f + 4 * of_nat k)))"
  shows "pte_refs n t ph' i = pte_refs n f ph i"
  using assms
proof (induction n arbitrary: f t)
  case (Suc n)
  have "f + 4 * of_nat (Suc k) = f + 4 + 4 * of_nat k"
    "t + 4 * of_nat (Suc k) = t + 4 + 4 * of_nat k" for k
    by (simp_all add: algebra_simps)
  with Suc.prems have
    "present (ph' t) = present (ph f) \<and> (present (ph f) \<longrightarrow> frame (ph' t) = frame (ph f))"
    and "pte_refs n (t + 4) ph' i = pte_refs n (f + 4) ph i"
    unfolding All_less_Suc2 by (auto intro!: Suc.IH simp: add.assoc)
  then show ?case by auto
qed simp

text \<open>
  Freeing a page table just filled by the copy undoes the copy in \<open>mem_map\<close>.
\<close>

lemma copy_free_ptes:
  assumes run: "copy_ptes n f t s = Inr s1" and n: "n \<le> 1024"
    and disj: "slots n f \<inter> slots n t = {}" and empty: "\<forall>a \<in> slots n t. phys s a = 0"
    and no_overflow: "\<forall>i. unat (mem_map s i) + pte_refs n f (phys s) i < 256"
    and valid: "\<forall>a \<in> slots n f. present (phys s a) \<and> LOW_MEM \<le> frame (phys s a) \<longrightarrow>
           frame (phys s a) < HIGH_MEMORY s \<and> MAP_NR (frame (phys s a)) < PAGING_PAGES"
  shows "\<exists>s2. free_ptes n t s1 = Inr s2 \<and> mem_map s2 = mem_map s \<and>
    (\<forall>a. a \<notin> slots n f \<longrightarrow> phys s2 a = phys s a) \<and>
    (\<forall>a \<in> slots n f. phys s2 a = phys s a \<or> phys s2 a = write_protect (phys s a))"
proof -
  have np: "\<forall>a \<in> slots n t. \<not> present (phys s a)" using empty by (simp add: present_def)
  note c = copy_ptes_spec [OF run n disj np]
  have ent: "\<forall>k < n. phys s1 (t + 4 * of_nat k) =
      (if present (phys s (f + 4 * of_nat k)) then write_protect (phys s (f + 4 * of_nat k)) else 0)"
    using c empty by (auto simp: Let_def slots_def)
  have refs: "pte_refs n t (phys s1) i = pte_refs n f (phys s) i" for i
    using ent by (intro pte_refs_shared) (auto simp: frame_wp, simp_all add: present_def)
  have mm: "mem_map s1 i = mem_map s i + of_nat (pte_refs n f (phys s) i)" for i
    using c by blast
  have "pte_refs n t (phys s1) i \<le> unat (mem_map s1 i)" for i
  proof -
    have "unat (of_nat (pte_refs n f (phys s) i) :: u8) = pte_refs n f (phys s) i"
      using no_overflow [rule_format, of i] by (simp add: unat_of_nat)
    then show ?thesis using no_overflow [rule_format, of i] by (simp add: refs mm unat_word_ariths)
  qed
  moreover have "\<forall>a \<in> slots n t. present (phys s1 a) \<and> LOW_MEM \<le> frame (phys s1 a) \<longrightarrow>
      frame (phys s1 a) < HIGH_MEMORY s1 \<and> MAP_NR (frame (phys s1 a)) < PAGING_PAGES"
    using ent valid c by (auto simp: slots_def frame_wp present_def [of 0])
  ultimately obtain s2 where s2: "free_ptes n t s1 = Inr s2"
    and ph: "\<forall>a. phys s2 a = (if a \<in> slots n t then 0 else phys s1 a)"
    and m2: "\<forall>i. mem_map s2 i = mem_map s1 i - of_nat (pte_refs n t (phys s1) i)"
    using free_ptes_spec [OF n, of t s1] by blast
  have "mem_map s2 = mem_map s" by (rule ext) (simp add: m2 mm refs)
  moreover have "\<forall>a. a \<notin> slots n f \<longrightarrow> phys s2 a = phys s a"
    using ph c empty by auto
  moreover have "\<forall>a \<in> slots n f. phys s2 a = phys s a \<or> phys s2 a = write_protect (phys s a)"
    using ph c disj by (auto simp: slots_def Let_def)
  ultimately show ?thesis using s2 by blast
qed
section \<open>Properties\<close>

text \<open>\<open>get_free_page\<close> fails, changing nothing, exactly when every byte of \<open>mem_map\<close> is in
  use; otherwise it takes the highest free frame, counts one use of it, returns its physical
  address and has zeroed all of it and nothing else.\<close>

theorem get_free_page_highest:
  "case get_free_page s of (page, s') \<Rightarrow>
     if \<forall>i < PAGING_PAGES. mem_map s i \<noteq> 0 then page = 0 \<and> s' = s
     else \<exists>i < PAGING_PAGES. page = page_addr i \<and> page \<noteq> 0 \<and> mem_map s i = 0 \<and>
            (\<forall>j. i < j \<and> j < PAGING_PAGES \<longrightarrow> mem_map s j \<noteq> 0) \<and>
            mem_map s' = (mem_map s)(i := 1) \<and>
            (\<forall>a. phys s' a = (if frame a = page then 0 else phys s a)) \<and>
            HIGH_MEMORY s' = HIGH_MEMORY s"
  by (rule get_free_page_spec)

definition mm_example :: mm where
  "mm_example = \<lparr>HIGH_MEMORY = 0x1000000,
     mem_map = (\<lambda>i. if i = 0 then 1 else if i = 1 then 2 else if i = 3839 then 100 else 0),
     phys = (\<lambda>a. if a = 0x40 then 0x100007 else if a = 0x100000 then 0x101005
                 else if a = 0x101004 then 42 else 7)\<rparr>"

lemma get_free_page_example:
  "get_free_page mm_example = (0xffe000, clear_page 0xffe000 (set_map 3838 1 mm_example))"
proof -
  have "scan_free (mem_map mm_example) PAGING_PAGES = Some 3838"
    by (simp add: mm_example_def scan_free.simps)
  then show ?thesis by (simp add: get_free_page_def page_addr_def)
qed

lemma get_free_page_highest_witness:
  "phys (snd (get_free_page mm_example)) 0xffe008 = 0 \<and>
   mem_map (snd (get_free_page mm_example)) 3838 = 1"
proof -
  have "mem_map mm_example 5 = 0" by (simp add: mm_example_def)
  then have "(\<forall>i < PAGING_PAGES. mem_map mm_example i \<noteq> 0) = False"
    by (simp only: not_all simp_thms) (rule exI [of _ 5], simp)
  note h = get_free_page_highest [of mm_example, unfolded get_free_page_example prod.case this if_False]
  from h obtain i where "i < PAGING_PAGES" "0xffe000 = page_addr i"
      and m: "mem_map (clear_page 0xffe000 (set_map 3838 1 mm_example)) = (mem_map mm_example)(i := 1)"
      and z: "\<forall>a. phys (clear_page 0xffe000 (set_map 3838 1 mm_example)) a =
           (if frame a = 0xffe000 then 0 else phys mm_example a)"
    by (elim exE conjE) (rule that)
  then have "i = 3838" using MAP_NR_page_addr [of i] by (simp add: MAP_NR_def)
  with m z show ?thesis unfolding get_free_page_example
    by (simp add: frame_def)
qed

text \<open>Freeing the page \<open>get_free_page\<close> just returned succeeds and gives back the \<open>mem_map\<close>
  of before, as long as the frame lies below \<open>HIGH_MEMORY\<close>.\<close>

theorem free_page_get_free_page:
  assumes "get_free_page s = (page, s')" and "page \<noteq> 0" and "page < HIGH_MEMORY s"
  shows "\<exists>s''. free_page page s' = Inr s'' \<and> mem_map s'' = mem_map s"
  using assms by (rule free_get_page)

lemma free_page_get_free_page_witness:
  "\<exists>s''. free_page 0xffe000 (clear_page 0xffe000 (set_map 3838 1 mm_example)) = Inr s'' \<and>
     mem_map s'' = mem_map mm_example"
  by (rule free_page_get_free_page [OF get_free_page_example]) (simp_all add: mm_example_def)

text \<open>C2: Copy on write. When a write to a present page faults, with the page table and the page
  both in use and distinct, \<open>do_wp_page\<close> leaves a table entry that is present and writable, whose
  frame has use count 1 and holds the contents of the old frame; every other \<open>long\<close> outside the
  new frame is untouched, and when the frame changed the old one has lost exactly one use.\<close>

theorem do_wp_page_copy_on_write:
  assumes "do_wp_page address s = Inr s'"
    and "e = (drop_bit 10 address AND 0xffc) + frame (phys s (dir_slot address))"
    and "old = frame (phys s e)" and "new = frame (phys s' e)"
    and "present (phys s e)" and "in_use s e" and "in_use s old" and "frame e \<noteq> old"
  shows "present (phys s' e) \<and> phys s' e AND 2 \<noteq> 0 \<and> LOW_MEM \<le> new \<and>
    mem_map s' (MAP_NR new) = 1 \<and>
    (\<forall>off. frame off = 0 \<longrightarrow> phys s' (new OR off) = phys s (old OR off)) \<and>
    (\<forall>a. a \<noteq> e \<and> frame a \<noteq> new \<longrightarrow> phys s' a = phys s a) \<and>
    mem_map s' = (if new = old then mem_map s
      else (\<lambda>i. if i = MAP_NR new then 1
                else if LOW_MEM \<le> old \<and> i = MAP_NR old then mem_map s i - 1 else mem_map s i))"
proof -
  have "un_wp_page e s = Inr s'" using assms(1,2) by (simp add: do_wp_page_def)
  then show ?thesis
    using assms(5-8) unfolding assms(3,4) by (rule un_wp_page_cow)
qed

lemma do_wp_page_copy_on_write_witness:
  "\<exists>s'. do_wp_page 0x4001000 (poke 0x100004 0x101005 mm_example) = Inr s' \<and>
     mem_map s' 1 = 1 \<and> phys s' 0xffe004 = 42"
proof -
  let ?s = "poke 0x100004 0x101005 mm_example"
  have g: "get_free_page ?s = (0xffe000, clear_page 0xffe000 (set_map 3838 1 ?s))"
  proof -
    have "scan_free (mem_map ?s) PAGING_PAGES = Some 3838"
      by (simp add: mm_example_def scan_free.simps)
    then show ?thesis by (simp add: get_free_page_def page_addr_def)
  qed
  have e: "0x100004 = (drop_bit 10 (0x4001000 :: u32) AND 0xffc) + frame (phys ?s (dir_slot 0x4001000))"
    by (simp add: mm_example_def dir_slot_def frame_def)
  define s' where "s' = copy_page 0x101000 0xffe000 (poke 0x100004 0xffe007
    (set_map 1 1 (clear_page 0xffe000 (set_map 3838 1 ?s))))"
  have r: "do_wp_page 0x4001000 ?s = Inr s'"
    unfolding do_wp_page_def e [symmetric] un_wp_page_def g s'_def
    by (simp add: mm_example_def frame_def MAP_NR_def map_dec_def g [unfolded mm_example_def, simplified])
  have n: "frame (phys s' 0x100004) = 0xffe000"
    by (simp add: s'_def phys_copy_page frame_def)
  have o: "frame (phys ?s 0x100004) = 0x101000" by (simp add: mm_example_def frame_def)
  note cow = do_wp_page_copy_on_write [OF r e refl refl, unfolded n o]
  have "present (phys ?s 0x100004)" "in_use ?s 0x100004" "in_use ?s 0x101000"
    "frame 0x100004 \<noteq> 0x101000"
    by (simp_all add: mm_example_def present_def in_use_def MAP_NR_def frame_def)
  note c = cow [OF this]
  have "phys s' (0xffe000 OR 4) = phys ?s (0x101000 OR 4)" using c [THEN conjunct2, THEN conjunct2, THEN conjunct2, THEN conjunct2, THEN conjunct1,
      rule_format, of 4] by (simp add: frame_def)
  moreover have "mem_map s' 1 = mem_map ?s 1 - 1" using c by (simp add: MAP_NR_def)
  ultimately have "mem_map s' 1 = 1 \<and> phys s' 0xffe004 = 42"
    by (simp add: mm_example_def)
  with r show ?thesis by blast
qed

text \<open>C6: Fork and exit of a page table. Copying \<open>n\<close> entries into an empty table and then freeing
  the copy gives back every use count of \<open>mem_map\<close>, when no count overflows its byte and the
  shared frames are in range; the source table keeps its entries, at most made read-only.\<close>

theorem copy_then_free_ptes:
  assumes "copy_ptes n f t s = Inr s1" and "n \<le> 1024"
    and "slots n f \<inter> slots n t = {}" and "\<forall>a \<in> slots n t. phys s a = 0"
    and "\<forall>i. unat (mem_map s i) + pte_refs n f (phys s) i < 256"
    and "\<forall>a \<in> slots n f. present (phys s a) \<and> LOW_MEM \<le> frame (phys s a) \<longrightarrow>
           frame (phys s a) < HIGH_MEMORY s \<and> MAP_NR (frame (phys s a)) < PAGING_PAGES"
  shows "\<exists>s2. free_ptes n t s1 = Inr s2 \<and> mem_map s2 = mem_map s \<and>
    (\<forall>a. a \<notin> slots n f \<longrightarrow> phys s2 a = phys s a) \<and>
    (\<forall>a \<in> slots n f. phys s2 a = phys s a \<or> phys s2 a = write_protect (phys s a))"
  using assms by (rule copy_free_ptes)

definition pt_example :: mm where
  "pt_example = \<lparr>HIGH_MEMORY = 0x1000000, mem_map = (\<lambda>i. if i = 1 then 3 else 0),
     phys = (\<lambda>a. if a = 0x2000 then 0x101007 else if a = 0x2004 then 0x101005 else 0)\<rparr>"

lemma slots_2: "slots (Suc (Suc 0)) p = {p, p + 4}"
  by (simp add: slots_Suc)

lemma copy_then_free_ptes_witness:
  "\<exists>s1 s2. copy_ptes (Suc (Suc 0)) 0x2000 0x3000 pt_example = Inr s1 \<and> mem_map s1 1 = 5 \<and>
     free_ptes (Suc (Suc 0)) 0x3000 s1 = Inr s2 \<and> mem_map s2 1 = 3"
proof -
  have wp: "write_protect 0x101007 = 0x101005" "write_protect 0x101005 = 0x101005"
    by (simp_all add: write_protect_def)
  obtain s1 where c: "copy_ptes (Suc (Suc 0)) 0x2000 0x3000 pt_example = Inr s1"
    and m: "mem_map s1 1 = 5"
    by (simp add: pt_example_def present_def map_inc_def MAP_NR_def wp Let_def)
  have "\<exists>s2. free_ptes (Suc (Suc 0)) 0x3000 s1 = Inr s2 \<and> mem_map s2 = mem_map pt_example \<and>
    (\<forall>a. a \<notin> slots (Suc (Suc 0)) 0x2000 \<longrightarrow> phys s2 a = phys pt_example a) \<and>
    (\<forall>a \<in> slots (Suc (Suc 0)) 0x2000. phys s2 a = phys pt_example a \<or>
       phys s2 a = write_protect (phys pt_example a))"
    by (rule copy_then_free_ptes [OF c])
      (simp_all add: slots_2 pt_example_def present_def frame_def MAP_NR_def)
  then obtain s2 where "free_ptes (Suc (Suc 0)) 0x3000 s1 = Inr s2" "mem_map s2 = mem_map pt_example"
    by blast
  with c m show ?thesis by (auto simp: pt_example_def)
qed
end
