(* ===== verification/Process.thy ===== *)
theory Process
  imports Wait Memory
begin

text \<open>
  The process system calls: \<^verbatim>\<open>kernel/signal.c\<close>, \<^verbatim>\<open>kernel/exit.c\<close>, \<^verbatim>\<open>kernel/fork.c\<close> and
  \<^verbatim>\<open>kernel/sys.c\<close>. The state joins the scheduler, the memory manager and the file system;
  the file system is reached through a record of operations. The user space of the current task
  is a function from addresses of its \<open>fs\<close> segment to bytes.
\<close>

section \<open>State\<close>

record 'f kstate =
  sch :: sched
  mem :: mm
  task_page :: "nat \<Rightarrow> u32"
  last_pid :: int
  startup_time :: int
  user :: "u32 \<Rightarrow> u8"
  tty_pgrp :: "nat \<Rightarrow> int"
  fsys :: 'f

record 'f fs_ops =
  op_close :: "nat \<Rightarrow> 'f kstate \<Rightarrow> 'f kstate res"
  op_iput :: "nat option \<Rightarrow> 'f kstate \<Rightarrow> 'f kstate res"
  op_dup_file :: "nat \<Rightarrow> 'f \<Rightarrow> 'f"
  op_dup_inode :: "nat \<Rightarrow> 'f \<Rightarrow> 'f"

abbreviation (input) NR_OPEN :: nat where "NR_OPEN \<equiv> 20"

abbreviation (input) SA_NOMASK :: u32 where "SA_NOMASK \<equiv> 0x40000000"

abbreviation (input) SA_ONESHOT :: u32 where "SA_ONESHOT \<equiv> 0x80000000"

definition cur :: "'f kstate \<Rightarrow> task_struct" where
  "cur s = the (task (sch s) (current (sch s)))"

definition upd :: "nat \<Rightarrow> (task_struct \<Rightarrow> task_struct) \<Rightarrow> 'f kstate \<Rightarrow> 'f kstate" where
  "upd i f s = s\<lparr>sch := upd_task i f (sch s)\<rparr>"

definition upd_cur :: "(task_struct \<Rightarrow> task_struct) \<Rightarrow> 'f kstate \<Rightarrow> 'f kstate" where
  "upd_cur f s = upd (current (sch s)) f s"

definition suser :: "task_struct \<Rightarrow> bool" where
  "suser p \<longleftrightarrow> euid p = 0"

definition reschedule :: "'f kstate \<Rightarrow> 'f kstate res" where
  "reschedule s = kbind (schedule (sch s)) (\<lambda>k. Inr (s\<lparr>sch := k\<rparr>))"

text \<open>\<open>put_fs_byte\<close>, \<open>put_fs_long\<close> and \<open>get_fs_long\<close> of \<^verbatim>\<open>include/asm/segment.h\<close>.\<close>

definition put_fs_byte :: "u8 \<Rightarrow> u32 \<Rightarrow> 'f kstate \<Rightarrow> 'f kstate" where
  "put_fs_byte v a s = s\<lparr>user := (user s)(a := v)\<rparr>"

definition put_fs_long :: "u32 \<Rightarrow> u32 \<Rightarrow> 'f kstate \<Rightarrow> 'f kstate" where
  "put_fs_long v a s =
     fold (\<lambda>i. put_fs_byte (ucast (drop_bit (8 * i) v)) (a + of_nat i)) [0, 1, 2, 3] s"

definition get_fs_long :: "u32 \<Rightarrow> 'f kstate \<Rightarrow> u32" where
  "get_fs_long a s =
     ucast (user s a) OR push_bit 8 (ucast (user s (a + 1))) OR
     push_bit 16 (ucast (user s (a + 2))) OR push_bit 24 (ucast (user s (a + 3)))"

section \<open>\<open>fork.c\<close>: verifying user areas\<close>

fun verify_pages :: "nat \<Rightarrow> u32 \<Rightarrow> mm \<Rightarrow> mm res" where
  "verify_pages 0 start m = Inr m"
| "verify_pages (Suc n) start m =
     kbind (write_verify start m) (\<lambda>m. verify_pages n (start + 4096) m)"

definition verify_area :: "u32 \<Rightarrow> int \<Rightarrow> 'f kstate \<Rightarrow> 'f kstate res" where
  "verify_area addr sz s =
     (let sz = sz + uint (addr AND 0xfff);
          start = frame addr + d_base (ldt_data (cur s))
      in kbind (verify_pages (nat ((sz + 4095) div 4096)) start (mem s))
           (\<lambda>m. Inr (s\<lparr>mem := m\<rparr>)))"

section \<open>\<open>signal.c\<close>\<close>

definition sys_sgetmask :: "task_struct \<Rightarrow> u32" where
  "sys_sgetmask p = blocked p"

definition sys_ssetmask :: "u32 \<Rightarrow> task_struct \<Rightarrow> u32 \<times> task_struct" where
  "sys_ssetmask newmask p =
     (blocked p, p\<lparr>blocked := newmask AND NOT (sig_bit SIGKILL)\<rparr>)"

definition set_sigaction :: "nat \<Rightarrow> sigaction \<Rightarrow> task_struct \<Rightarrow> task_struct" where
  "set_sigaction i a p = p\<lparr>sigactions := (sigactions p)(i := a)\<rparr>"

definition sys_signal :: "int \<Rightarrow> u32 \<Rightarrow> u32 \<Rightarrow> task_struct \<Rightarrow> int \<times> task_struct" where
  "sys_signal signum handler restorer p =
     (if signum < 1 \<or> signum > 32 \<or> signum = int SIGKILL then (-1, p)
      else let i = nat (signum - 1)
           in (sint (sa_handler (sigactions p i)),
               set_sigaction i \<lparr>sa_handler = handler, sa_mask = 0,
                 sa_flags = SA_ONESHOT OR SA_NOMASK, sa_restorer = restorer\<rparr> p))"

text \<open>\<open>save_old\<close> and \<open>get_new\<close> copy the 16 bytes of a \<open>struct sigaction\<close>.\<close>

definition save_old :: "sigaction \<Rightarrow> u32 \<Rightarrow> 'f kstate \<Rightarrow> 'f kstate res" where
  "save_old a to s =
     kbind (verify_area to 16 s) (\<lambda>s.
       Inr (put_fs_long (sa_restorer a) (to + 12) (put_fs_long (sa_flags a) (to + 8)
             (put_fs_long (sa_mask a) (to + 4) (put_fs_long (sa_handler a) to s)))))"

definition get_new :: "u32 \<Rightarrow> 'f kstate \<Rightarrow> sigaction" where
  "get_new from s = \<lparr>sa_handler = get_fs_long from s, sa_mask = get_fs_long (from + 4) s,
     sa_flags = get_fs_long (from + 8) s, sa_restorer = get_fs_long (from + 12) s\<rparr>"

definition sys_sigaction ::
    "int \<Rightarrow> u32 \<Rightarrow> u32 \<Rightarrow> 'f kstate \<Rightarrow> (int \<times> 'f kstate) res" where
  "sys_sigaction signum action oldaction s =
     (if signum < 1 \<or> signum > 32 \<or> signum = int SIGKILL then Inr (-1, s)
      else let i = nat (signum - 1);
               tmp = sigactions (cur s) i;
               s = upd_cur (set_sigaction i (get_new action s)) s
           in kbind (if oldaction \<noteq> 0 then save_old tmp oldaction s else Inr s) (\<lambda>s.
                let a = sigactions (cur s) i;
                    a = (if sa_flags a AND SA_NOMASK \<noteq> 0 then a\<lparr>sa_mask := 0\<rparr>
                         else a\<lparr>sa_mask := sa_mask a OR sig_bit (nat signum)\<rparr>)
                in Inr (0, upd_cur (set_sigaction i a) s)))"

text \<open>The registers of the frame that \<open>do_signal\<close> changes or saves.\<close>

record regs =
  r_eax :: u32
  r_ecx :: u32
  r_edx :: u32
  r_eflags :: u32
  r_eip :: u32
  r_esp :: u32

fun put_longs :: "u32 list \<Rightarrow> u32 \<Rightarrow> 'f kstate \<Rightarrow> 'f kstate" where
  "put_longs [] a s = s"
| "put_longs (v # vs) a s = put_longs vs (a + 4) (put_fs_long v a s)"

text \<open>\<open>Inl (Exit c)\<close> is \<open>do_exit (c)\<close>.\<close>

definition do_signal :: "nat \<Rightarrow> regs \<Rightarrow> 'f kstate \<Rightarrow> (regs \<times> 'f kstate) res" where
  "do_signal signr r s =
     (let sa = sigactions (cur s) (signr - 1);
          h = sa_handler sa
      in if h = 1 then Inr (r, s)
         else if h = 0 \<and> signr = SIGCHLD then Inr (r, s)
         else if h = 0 then Inl (Exit (sint (sig_bit signr)))
         else let s = (if sa_flags sa AND SA_ONESHOT \<noteq> 0
                       then upd_cur (set_sigaction (signr - 1) (sa\<lparr>sa_handler := 0\<rparr>)) s else s);
                  longs = (if sa_flags sa AND SA_NOMASK \<noteq> 0 then 7 else 8 :: nat);
                  esp = r_esp r - 4 * of_nat longs
              in kbind (verify_area esp (int longs * 4) s) (\<lambda>s.
                   Inr (r\<lparr>r_eip := h, r_esp := esp\<rparr>,
                     upd_cur (\<lambda>p. p\<lparr>blocked := blocked p OR sa_mask sa\<rparr>)
                       (put_longs ([sa_restorer sa, of_nat signr] @
                          (if sa_flags sa AND SA_NOMASK \<noteq> 0 then [] else [blocked (cur s)]) @
                          [r_eax r, r_ecx r, r_edx r, r_eflags r, r_eip r]) esp s))))"

section \<open>\<open>exit.c\<close>\<close>

definition release :: "nat \<Rightarrow> 'f kstate \<Rightarrow> 'f kstate res" where
  "release i s =
     (if 1 \<le> i \<and> i < NR_TASKS \<and> task (sch s) i \<noteq> None
      then kbind (free_page (task_page s i) (mem s)) (\<lambda>m.
             reschedule (s\<lparr>mem := m, sch := (sch s)\<lparr>task := (task (sch s))(i := None)\<rparr>\<rparr>))
      else Inl (Panic ''trying to release non-existent task''))"

text \<open>\<open>send_sig\<close> to the task in slot \<open>i\<close>, on the table of tasks.\<close>

definition send_sig :: "int \<Rightarrow> nat \<Rightarrow> bool \<Rightarrow> nat \<Rightarrow> task_table \<Rightarrow> int \<times> task_table" where
  "send_sig sig i priv me tk =
     (case tk i of
        None \<Rightarrow> (- EINVAL, tk)
      | Some p \<Rightarrow>
          if sig < 1 \<or> sig > 32 then (- EINVAL, tk)
          else if priv \<or> euid (the (tk me)) = euid p \<or> suser (the (tk me))
          then (0, tk(i \<mapsto> p\<lparr>signal := signal p OR sig_bit (nat sig)\<rparr>))
          else (- EPERM, tk))"

definition kill_session :: "int \<Rightarrow> task_table \<Rightarrow> task_table" where
  "kill_session sess tk = each_task (\<lambda>p.
     if session p = sess then p\<lparr>signal := signal p OR sig_bit SIGHUP\<rparr> else p) tk"

text \<open>
  The loops of \<open>sys_kill\<close>: slots \<open>n\<close> down to 1, those that satisfy \<open>sel\<close>. The last \<open>else\<close> of
  the function belongs to the \<open>if\<close> inside the loop for \<open>pid == -1\<close>: once a signal was
  sent without error, the rest of the slots goes through the loop for process groups.
\<close>

fun kill_loop ::
    "(task_struct \<Rightarrow> bool) \<Rightarrow> int \<Rightarrow> bool \<Rightarrow> nat \<Rightarrow> nat \<Rightarrow> int \<Rightarrow> task_table \<Rightarrow> int \<times> task_table" where
  "kill_loop sel sig priv me 0 retval tk = (retval, tk)"
| "kill_loop sel sig priv me (Suc n) retval tk =
     (case tk (Suc n) of
        None \<Rightarrow> kill_loop sel sig priv me n retval tk
      | Some p \<Rightarrow>
          if sel p then case send_sig sig (Suc n) priv me tk of (err, tk) \<Rightarrow>
            kill_loop sel sig priv me n (if err \<noteq> 0 then err else retval) tk
          else kill_loop sel sig priv me n retval tk)"

fun kill_all ::
    "int \<Rightarrow> int \<Rightarrow> nat \<Rightarrow> nat \<Rightarrow> int \<Rightarrow> task_table \<Rightarrow> int \<times> task_table" where
  "kill_all p sig me 0 retval tk = (retval, tk)"
| "kill_all p sig me (Suc n) retval tk =
     (case send_sig sig (Suc n) False me tk of (err, tk) \<Rightarrow>
        if err \<noteq> 0 then kill_all p sig me n err tk
        else kill_loop (\<lambda>t. pgrp t = - p) sig False me n retval tk)"

definition kill_tasks :: "int \<Rightarrow> int \<Rightarrow> nat \<Rightarrow> task_table \<Rightarrow> int \<times> task_table" where
  "kill_tasks p sig me tk =
     (if p = 0
      then kill_loop (\<lambda>t. pgrp t = pid (the (tk me))) sig True me (NR_TASKS - 1) 0 tk
      else if p > 0 then kill_loop (\<lambda>t. pid t = p) sig False me (NR_TASKS - 1) 0 tk
      else if p = -1 then kill_all p sig me (NR_TASKS - 1) 0 tk
      else (0, tk))"

definition sys_kill :: "int \<Rightarrow> int \<Rightarrow> 'f kstate \<Rightarrow> int \<times> 'f kstate" where
  "sys_kill p sig s =
     (case kill_tasks p sig (current (sch s)) (task (sch s)) of
        (r, tk) \<Rightarrow> (r, s\<lparr>sch := (sch s)\<lparr>task := tk\<rparr>\<rparr>))"

text \<open>The father gets \<open>SIGCHLD\<close>; with no father the task releases itself and never runs again.\<close>

definition tell_father :: "int \<Rightarrow> 'f kstate \<Rightarrow> (bool \<times> 'f kstate) res" where
  "tell_father p s =
     (case (if p = 0 then None
            else find (\<lambda>i. case task (sch s) i of None \<Rightarrow> False | Some t \<Rightarrow> pid t = p)
                   [0..<NR_TASKS]) of
        Some i \<Rightarrow> Inr (True, upd i (\<lambda>t. t\<lparr>signal := signal t OR sig_bit SIGCHLD\<rparr>) s)
      | None \<Rightarrow> kbind (release (current (sch s)) s) (\<lambda>s. Inr (False, s)))"

text \<open>The children of process \<open>me\<close> go to process 1, which hears of the zombies among them.\<close>

fun orphan_children :: "int \<Rightarrow> nat \<Rightarrow> nat list \<Rightarrow> task_table \<Rightarrow> task_table" where
  "orphan_children me c [] tk = tk"
| "orphan_children me c (i # is) tk =
     (case tk i of
        None \<Rightarrow> orphan_children me c is tk
      | Some t \<Rightarrow>
          if father t = me
          then let tk = tk(i \<mapsto> t\<lparr>father := 1\<rparr>)
               in orphan_children me c is
                    (if tstate t = TASK_ZOMBIE then snd (send_sig (int SIGCHLD) 1 True c tk) else tk)
          else orphan_children me c is tk)"

fun close_files :: "'f fs_ops \<Rightarrow> nat list \<Rightarrow> 'f kstate \<Rightarrow> 'f kstate res" where
  "close_files ops [] s = Inr s"
| "close_files ops (i # is) s =
     kbind (if filp (cur s) i \<noteq> None then op_close ops i s else Inr s) (close_files ops is)"

definition upd_tasks :: "(task_table \<Rightarrow> task_table) \<Rightarrow> 'f kstate \<Rightarrow> 'f kstate" where
  "upd_tasks f s = s\<lparr>sch := (sch s)\<lparr>task := f (task (sch s))\<rparr>\<rparr>"

definition exit_files :: "'f fs_ops \<Rightarrow> 'f kstate \<Rightarrow> 'f kstate res" where
  "exit_files ops s =
     kbind (close_files ops [0..<NR_OPEN] s) (\<lambda>s.
     kbind (op_iput ops (pwd (cur s)) s) (\<lambda>s.
     kbind (let s = upd_cur (pwd_update (\<lambda>_. None)) s
            in op_iput ops (root (cur s)) s) (\<lambda>s.
     kbind (let s = upd_cur (root_update (\<lambda>_. None)) s
            in op_iput ops (executable (cur s)) s) (\<lambda>s.
     Inr (upd_cur (executable_update (\<lambda>_. None)) s)))))"

text \<open>The end of \<open>do_exit\<close>: terminal, session, state of the task and its father.\<close>

definition exit_notify :: "int \<Rightarrow> 'f kstate \<Rightarrow> 'f kstate res" where
  "exit_notify code s =
     (let s = (if leader (cur s) \<noteq> 0 \<and> tty (cur s) \<ge> 0
               then s\<lparr>tty_pgrp := (tty_pgrp s)(nat (tty (cur s)) := 0)\<rparr> else s);
          s = (if last_task_used_math (sch s) = Some (current (sch s))
               then s\<lparr>sch := (sch s)\<lparr>last_task_used_math := None\<rparr>\<rparr> else s);
          s = (if leader (cur s) \<noteq> 0 then upd_tasks (kill_session (session (cur s))) s else s);
          s = upd_cur (\<lambda>p. p\<lparr>tstate := TASK_ZOMBIE, exit_code := code\<rparr>) s
      in kbind (tell_father (father (cur s)) s) (\<lambda>(live, s).
           if live then reschedule s else Inr s))"

definition do_exit :: "'f fs_ops \<Rightarrow> int \<Rightarrow> 'f kstate \<Rightarrow> 'f kstate res" where
  "do_exit ops code s =
     kbind (free_page_tables (d_base (ldt_code (cur s))) (d_limit (ldt_code (cur s))) (mem s)) (\<lambda>m.
     kbind (free_page_tables (d_base (ldt_data (cur s))) (d_limit (ldt_data (cur s))) m) (\<lambda>m.
     let s = upd_tasks (orphan_children (pid (cur s)) (current (sch s)) [0..<NR_TASKS])
               (s\<lparr>mem := m\<rparr>)
     in kbind (exit_files ops s) (exit_notify code)))"

definition sys_exit :: "'f fs_ops \<Rightarrow> u32 \<Rightarrow> 'f kstate \<Rightarrow> 'f kstate res" where
  "sys_exit ops error_code s = do_exit ops (uint (push_bit 8 (error_code AND 0xff))) s"

abbreviation (input) WNOHANG :: u32 where "WNOHANG \<equiv> 1"

abbreviation (input) WUNTRACED :: u32 where "WUNTRACED \<equiv> 2"

definition waits_for :: "int \<Rightarrow> task_struct \<Rightarrow> task_struct \<Rightarrow> bool" where
  "waits_for p me t \<longleftrightarrow> father t = pid me \<and>
     (if p > 0 then pid t = p
      else if p = 0 then pgrp t = pgrp me
      else p = -1 \<or> pgrp t = - p)"

text \<open>
  The scan of \<open>sys_waitpid\<close>, slots \<open>n\<close> down to 1: a stopped or a dead child, or whether a
  child was seen at all.
\<close>

datatype wait_scan =
    Stopped nat
  | Dead nat
  | Nothing bool

fun wait_loop :: "int \<Rightarrow> u32 \<Rightarrow> nat \<Rightarrow> task_table \<Rightarrow> nat \<Rightarrow> bool \<Rightarrow> wait_scan" where
  "wait_loop p options me tk 0 flag = Nothing flag"
| "wait_loop p options me tk (Suc n) flag =
     (case tk (Suc n) of
        None \<Rightarrow> wait_loop p options me tk n flag
      | Some t \<Rightarrow>
          if Suc n = me \<or> \<not> waits_for p (the (tk me)) t then wait_loop p options me tk n flag
          else case tstate t of
            TASK_STOPPED \<Rightarrow>
              if options AND WUNTRACED = 0 then wait_loop p options me tk n flag
              else Stopped (Suc n)
          | TASK_ZOMBIE \<Rightarrow> Dead (Suc n)
          | _ \<Rightarrow> wait_loop p options me tk n True)"

text \<open>
  One pass: it returns a value, it has released a child and goes on with \<open>waitpid_reaped\<close> when
  scheduled again, or it sleeps and goes on with \<open>waitpid_woken\<close>.
\<close>

datatype wait_result =
    Returns int
  | Reaped int int
  | Asleep

definition waitpid_pass ::
    "int \<Rightarrow> u32 \<Rightarrow> u32 \<Rightarrow> 'f kstate \<Rightarrow> (wait_result \<times> 'f kstate) res" where
  "waitpid_pass p stat_addr options s =
     (let tk = task (sch s)
      in case wait_loop p options (current (sch s)) tk (NR_TASKS - 1) False of
        Stopped i \<Rightarrow> Inr (Returns (pid (the (tk i))), put_fs_long 0x7f stat_addr s)
      | Dead i \<Rightarrow>
          let t = the (tk i)
          in kbind (release i (upd_cur (\<lambda>c. c\<lparr>cutime := cutime c + utime t,
                                               cstime := cstime c + stime t\<rparr>) s))
               (\<lambda>s. Inr (Reaped (pid t) (exit_code t), s))
      | Nothing False \<Rightarrow> Inr (Returns (- ECHILD), s)
      | Nothing True \<Rightarrow>
          if options AND WNOHANG \<noteq> 0 then Inr (Returns 0, s)
          else kbind (reschedule (upd_cur (tstate_update (\<lambda>_. TASK_INTERRUPTIBLE)) s))
                 (\<lambda>s. Inr (Asleep, s)))"

definition sys_waitpid ::
    "int \<Rightarrow> u32 \<Rightarrow> u32 \<Rightarrow> 'f kstate \<Rightarrow> (wait_result \<times> 'f kstate) res" where
  "sys_waitpid p stat_addr options s =
     kbind (verify_area stat_addr 4 s) (waitpid_pass p stat_addr options)"

definition waitpid_reaped :: "int \<Rightarrow> int \<Rightarrow> u32 \<Rightarrow> 'f kstate \<Rightarrow> int \<times> 'f kstate" where
  "waitpid_reaped flag code stat_addr s = (flag, put_fs_long (word_of_int code) stat_addr s)"

definition waitpid_woken ::
    "int \<Rightarrow> u32 \<Rightarrow> u32 \<Rightarrow> 'f kstate \<Rightarrow> (wait_result \<times> 'f kstate) res" where
  "waitpid_woken p stat_addr options s =
     (let s = upd_cur (\<lambda>c. c\<lparr>signal := signal c AND NOT (sig_bit SIGCHLD)\<rparr>) s
      in if signal (cur s) = 0 then waitpid_pass p stat_addr options s
         else Inr (Returns (- EINTR), s))"

section \<open>\<open>fork.c\<close>\<close>

definition copy_mem :: "nat \<Rightarrow> task_struct \<Rightarrow> 'f kstate \<Rightarrow> (int \<times> task_struct \<times> 'f kstate) res" where
  "copy_mem nr p s =
     (let c = cur s;
          code_limit = d_limit (ldt_code c);
          data_limit = d_limit (ldt_data c);
          old_code_base = d_base (ldt_code c);
          old_data_base = d_base (ldt_data c)
      in if old_data_base \<noteq> old_code_base then Inl (Panic ''We don't support separate I&D'')
         else if data_limit < code_limit then Inl (Panic ''Bad data_limit'')
         else let base = of_nat nr * 0x4000000;
                  p = p\<lparr>start_code := base,
                        ldt_code := (ldt_code p)\<lparr>d_base := base\<rparr>,
                        ldt_data := (ldt_data p)\<lparr>d_base := base\<rparr>\<rparr>
              in kbind (copy_page_tables old_data_base base data_limit (mem s)) (\<lambda>(r, m).
                   if r \<noteq> 0
                   then kbind (free_page_tables base data_limit m) (\<lambda>m.
                          Inr (- ENOMEM, p, s\<lparr>mem := m\<rparr>))
                   else Inr (0, p, s\<lparr>mem := m\<rparr>)))"

text \<open>The registers of the child are set in the TSS, which is not part of the model.\<close>

definition new_task :: "int \<Rightarrow> int \<Rightarrow> task_struct \<Rightarrow> task_struct" where
  "new_task new_pid now c = c\<lparr>tstate := TASK_UNINTERRUPTIBLE, pid := new_pid, father := pid c,
     counter := priority c, signal := 0, alarm := 0, leader := 0, utime := 0, stime := 0,
     cutime := 0, cstime := 0, start_time := now\<rparr>"

definition dup_opt :: "(nat \<Rightarrow> 'f \<Rightarrow> 'f) \<Rightarrow> nat option \<Rightarrow> 'f \<Rightarrow> 'f" where
  "dup_opt f x fs = (case x of None \<Rightarrow> fs | Some i \<Rightarrow> f i fs)"

definition dup_files :: "'f fs_ops \<Rightarrow> task_struct \<Rightarrow> task_struct \<Rightarrow> 'f \<Rightarrow> 'f" where
  "dup_files ops p c fs =
     dup_opt (op_dup_inode ops) (executable c) (dup_opt (op_dup_inode ops) (root c)
       (dup_opt (op_dup_inode ops) (pwd c)
         (fold (\<lambda>i. dup_opt (op_dup_file ops) (filp p i)) [0..<NR_OPEN] fs)))"

definition copy_process :: "'f fs_ops \<Rightarrow> nat \<Rightarrow> 'f kstate \<Rightarrow> (int \<times> 'f kstate) res" where
  "copy_process ops nr s =
     (case get_free_page (mem s) of (page, m) \<Rightarrow>
        if page = 0 then Inr (- EAGAIN, s\<lparr>mem := m\<rparr>)
        else let p = new_task (last_pid s) (jiffies (sch s)) (cur s);
                 s = upd_tasks (\<lambda>tk. tk(nr \<mapsto> p))
                       (s\<lparr>mem := m, task_page := (task_page s)(nr := page)\<rparr>)
             in kbind (copy_mem nr p s) (\<lambda>(r, p, s).
               if r \<noteq> 0
               then let s = upd_tasks (\<lambda>tk. tk(nr := None)) s
                    in kbind (free_page page (mem s)) (\<lambda>m. Inr (- EAGAIN, s\<lparr>mem := m\<rparr>))
               else let s = s\<lparr>fsys := dup_files ops p (cur s) (fsys s)\<rparr>
                    in Inr (last_pid s, upd_tasks (\<lambda>tk. tk(nr \<mapsto> p\<lparr>tstate := TASK_RUNNING\<rparr>)) s)))"

text \<open>\<open>++last_pid\<close> on a 32-bit \<open>long\<close>, and the search for a number no task has.\<close>

definition next_pid :: "int \<Rightarrow> int" where
  "next_pid p = (if to_s32 (p + 1) < 0 then 1 else to_s32 (p + 1))"

definition pid_used :: "task_table \<Rightarrow> int \<Rightarrow> bool" where
  "pid_used tk p \<longleftrightarrow>
     (\<exists>i \<in> set [0..<NR_TASKS]. case tk i of None \<Rightarrow> False | Some t \<Rightarrow> pid t = p)"

partial_function (option) fresh_pid :: "task_table \<Rightarrow> int \<Rightarrow> int option" where
  "fresh_pid tk p = (if pid_used tk (next_pid p) then fresh_pid tk (next_pid p)
                     else Some (next_pid p))"

declare fresh_pid.simps [code]

definition find_empty_process :: "'f kstate \<Rightarrow> (int \<times> 'f kstate) res" where
  "find_empty_process s =
     (case fresh_pid (task (sch s)) (last_pid s) of
        None \<Rightarrow> Inl Diverges
      | Some p \<Rightarrow>
          Inr (case find (\<lambda>i. task (sch s) i = None) [1..<NR_TASKS] of
                 None \<Rightarrow> - EAGAIN | Some i \<Rightarrow> int i,
               s\<lparr>last_pid := p\<rparr>))"

section \<open>\<open>sys.c\<close>\<close>

text \<open>The calls that are not implemented: \<open>ftime\<close>, \<open>break\<close>, \<open>ptrace\<close>, \<open>stty\<close>, \<open>gtty\<close>,
  \<open>rename\<close>, \<open>prof\<close>, \<open>acct\<close>, \<open>phys\<close>, \<open>lock\<close>, \<open>mpx\<close> and \<open>ulimit\<close>.\<close>

definition sys_ftime :: int where
  "sys_ftime = - ENOSYS"

definition sys_acct :: int where
  "sys_acct = - ENOSYS"

definition sys_setregid :: "int \<Rightarrow> int \<Rightarrow> task_struct \<Rightarrow> int \<times> task_struct" where
  "sys_setregid rg eg p =
     (if rg > 0 \<and> uint (gid p) \<noteq> rg \<and> \<not> suser p then (- EPERM, p)
      else let p = (if rg > 0 then p\<lparr>gid := word_of_int rg\<rparr> else p)
      in if eg > 0
         then if uint (gid p) = eg \<or> uint (egid p) = eg \<or> uint (sgid p) = eg \<or> suser p
              then (0, p\<lparr>egid := word_of_int eg\<rparr>) else (- EPERM, p)
         else (0, p))"

definition sys_setgid :: "int \<Rightarrow> task_struct \<Rightarrow> int \<times> task_struct" where
  "sys_setgid g p = sys_setregid g g p"

definition sys_setreuid :: "int \<Rightarrow> int \<Rightarrow> task_struct \<Rightarrow> int \<times> task_struct" where
  "sys_setreuid ru eu p =
     (let old_ruid = uid p
      in if ru > 0 \<and> uint (euid p) \<noteq> ru \<and> uint old_ruid \<noteq> ru \<and> \<not> suser p then (- EPERM, p)
      else let p = (if ru > 0 then p\<lparr>uid := word_of_int ru\<rparr> else p)
      in if eu > 0
         then if uint old_ruid = eu \<or> uint (euid p) = eu \<or> suser p
              then (0, p\<lparr>euid := word_of_int eu\<rparr>)
              else (- EPERM, p\<lparr>uid := old_ruid\<rparr>)
         else (0, p))"

definition sys_setuid :: "int \<Rightarrow> task_struct \<Rightarrow> int \<times> task_struct" where
  "sys_setuid u p = sys_setreuid u u p"

definition current_time :: "'f kstate \<Rightarrow> int" where
  "current_time s = startup_time s + c_div (jiffies (sch s)) HZ"

definition sys_time :: "u32 \<Rightarrow> 'f kstate \<Rightarrow> (int \<times> 'f kstate) res" where
  "sys_time tloc s =
     (let i = current_time s
      in if tloc = 0 then Inr (i, s)
         else kbind (verify_area tloc 4 s) (\<lambda>s. Inr (i, put_fs_long (word_of_int i) tloc s)))"

definition sys_stime :: "u32 \<Rightarrow> 'f kstate \<Rightarrow> int \<times> 'f kstate" where
  "sys_stime tptr s =
     (if \<not> suser (cur s) then (- EPERM, s)
      else (0, s\<lparr>startup_time := sint (get_fs_long tptr s) - c_div (jiffies (sch s)) HZ\<rparr>))"

definition sys_times :: "u32 \<Rightarrow> 'f kstate \<Rightarrow> (int \<times> 'f kstate) res" where
  "sys_times tbuf s =
     kbind (if tbuf = 0 then Inr s
            else kbind (verify_area tbuf 16 s) (\<lambda>s.
              Inr (put_longs (map word_of_int
                [utime (cur s), stime (cur s), cutime (cur s), cstime (cur s)]) tbuf s)))
       (\<lambda>s. Inr (jiffies (sch s), s))"

definition sys_brk :: "u32 \<Rightarrow> task_struct \<Rightarrow> u32 \<times> task_struct" where
  "sys_brk end_data_seg p =
     (let p = (if end_data_seg \<ge> end_code p \<and> end_data_seg < start_stack p - 16384
               then p\<lparr>brk := end_data_seg\<rparr> else p)
      in (brk p, p))"

definition sys_setpgid :: "int \<Rightarrow> int \<Rightarrow> 'f kstate \<Rightarrow> int \<times> 'f kstate" where
  "sys_setpgid p pg s =
     (let p = (if p = 0 then pid (cur s) else p);
          pg = (if pg = 0 then pid (cur s) else pg)
      in case find (\<lambda>i. case task (sch s) i of None \<Rightarrow> False | Some t \<Rightarrow> pid t = p) [0..<NR_TASKS] of
           None \<Rightarrow> (- ESRCH, s)
         | Some i \<Rightarrow>
             let t = the (task (sch s) i)
             in if leader t \<noteq> 0 then (- EPERM, s)
                else if session t \<noteq> session (cur s) then (- EPERM, s)
                else (0, upd i (pgrp_update (\<lambda>_. pg)) s))"

definition sys_getpgrp :: "task_struct \<Rightarrow> int" where
  "sys_getpgrp p = pgrp p"

definition sys_setsid :: "task_struct \<Rightarrow> int \<times> task_struct" where
  "sys_setsid p =
     (if leader p \<noteq> 0 \<and> \<not> suser p then (- EPERM, p)
      else (pid p, p\<lparr>leader := 1, session := pid p, pgrp := pid p, tty := -1\<rparr>))"

text \<open>\<open>struct utsname\<close>: five fields of nine bytes.\<close>

definition thisname :: "string" where
  "thisname = concat (map (\<lambda>f. f @ replicate (9 - length f) (CHR 0x00))
     [''linux .0'', ''nodename'', ''release '', ''version '', ''machine ''])"

definition sys_uname :: "u32 \<Rightarrow> 'f kstate \<Rightarrow> (int \<times> 'f kstate) res" where
  "sys_uname name s =
     (if name = 0 then Inr (- ERROR, s)
      else kbind (verify_area name 45 s) (\<lambda>s.
        Inr (0, fold (\<lambda>i. put_fs_byte (of_char (thisname ! i)) (of_nat i + name)) [0..<45] s)))"

definition sys_umask :: "u32 \<Rightarrow> task_struct \<Rightarrow> int \<times> task_struct" where
  "sys_umask msk p = (uint (umask p), p\<lparr>umask := ucast (msk AND 0x1ff)\<rparr>)"

end
