(* ===== verification/Process_Facts.thy ===== *)
theory Process_Facts
  imports Process
begin

text \<open>
  What the process system calls promise: who gets a signal, fresh process numbers, the family
  after an exit, what a wait reports, identities, and the child a fork makes.
\<close>

section \<open>Sending signals\<close>

text \<open>What a signal loop does to the table, when the signal number is valid.\<close>

definition may_signal :: "bool \<Rightarrow> nat \<Rightarrow> task_table \<Rightarrow> task_struct \<Rightarrow> bool" where
  "may_signal priv me tk t \<longleftrightarrow>
     priv \<or> euid (the (tk me)) = euid t \<or> suser (the (tk me))"

definition add_signal :: "int \<Rightarrow> task_struct \<Rightarrow> task_struct" where
  "add_signal sig t = t\<lparr>signal := signal t OR sig_bit (nat sig)\<rparr>"

lemma send_sig_Some:
  "1 \<le> sig \<Longrightarrow> sig \<le> 32 \<Longrightarrow> tk i = Some t \<Longrightarrow>
   send_sig sig i priv me tk = (if may_signal priv me tk t then (0, tk(i \<mapsto> add_signal sig t)) else (- EPERM, tk))"
  by (simp add: send_sig_def may_signal_def add_signal_def)

lemma may_signal_upd [simp]:
  "tk i = Some t \<Longrightarrow> may_signal priv me (tk(i \<mapsto> add_signal sig t)) u = may_signal priv me tk u"
  by (auto simp: may_signal_def add_signal_def suser_def)

definition refused :: "(task_struct \<Rightarrow> bool) \<Rightarrow> bool \<Rightarrow> nat \<Rightarrow> nat \<Rightarrow> task_table \<Rightarrow> bool" where
  "refused sel priv me n tk \<longleftrightarrow>
     (\<exists>i t. 0 < i \<and> i \<le> n \<and> tk i = Some t \<and> sel t \<and> \<not> may_signal priv me tk t)"

definition signalled ::
    "(task_struct \<Rightarrow> bool) \<Rightarrow> int \<Rightarrow> bool \<Rightarrow> nat \<Rightarrow> nat \<Rightarrow> task_table \<Rightarrow> task_table" where
  "signalled sel sig priv me n tk =
     (\<lambda>i. if 0 < i \<and> i \<le> n
         then map_option (\<lambda>t. if sel t \<and> may_signal priv me tk t then add_signal sig t else t) (tk i)
         else tk i)"

lemma refused_Suc:
  "refused sel priv me (Suc n) tk \<longleftrightarrow> refused sel priv me n tk \<or>
     (\<exists>t. tk (Suc n) = Some t \<and> sel t \<and> \<not> may_signal priv me tk t)"
  by (auto simp: refused_def le_Suc_eq)

lemma refused_upd:
  assumes "tk (Suc n) = Some t"
  shows "refused sel priv me n (tk(Suc n \<mapsto> add_signal sig t)) = refused sel priv me n tk"
  unfolding refused_def may_signal_upd [of tk "Suc n", OF assms]
proof (intro iff_exI conj_cong refl)
  fix i u assume "0 < i" "i \<le> n"
  then show "((tk(Suc n \<mapsto> add_signal sig t)) i = Some u) = (tk i = Some u)" by simp
qed

lemma signalled_Suc:
  "signalled sel sig priv me (Suc n) tk = (signalled sel sig priv me n tk)(Suc n :=
     map_option (\<lambda>t. if sel t \<and> may_signal priv me tk t then add_signal sig t else t) (tk (Suc n)))"
proof (rule ext)
  fix i
  show "signalled sel sig priv me (Suc n) tk i = ((signalled sel sig priv me n tk)(Suc n :=
     map_option (\<lambda>t. if sel t \<and> may_signal priv me tk t then add_signal sig t else t) (tk (Suc n)))) i"
    by (cases "i = Suc n") (simp_all add: signalled_def le_Suc_eq)
qed

lemma signalled_upd:
  "tk (Suc n) = Some t \<Longrightarrow>
   signalled sel sig priv me n (tk(Suc n \<mapsto> add_signal sig t)) =
     (signalled sel sig priv me n tk)(Suc n \<mapsto> add_signal sig t)"
  by (rule ext) (simp add: signalled_def)

lemma signalled_out: "signalled sel sig priv me n tk (Suc n) = tk (Suc n)"
  by (simp add: signalled_def)

lemma kill_loop_spec:
  assumes "1 \<le> sig" and "sig \<le> 32"
  shows "kill_loop sel sig priv me n r tk =
    (if refused sel priv me n tk then - EPERM else r, signalled sel sig priv me n tk)"
proof (induction n arbitrary: r tk)
  case 0
  show ?case by (auto simp: refused_def signalled_def)
next
  case (Suc n)
  note E = refused_Suc signalled_Suc
  show ?case
  proof (cases "tk (Suc n)")
    case None
    then have "(signalled sel sig priv me n tk)(Suc n := None) = signalled sel sig priv me n tk"
      using signalled_out [of sel sig priv me n tk] by (metis fun_upd_triv)
    with None show ?thesis by (simp add: Suc.IH E)
  next
    case (Some t)
    then have id: "(signalled sel sig priv me n tk)(Suc n \<mapsto> t) = signalled sel sig priv me n tk"
      using signalled_out [of sel sig priv me n tk] by (metis fun_upd_triv)
    show ?thesis
    proof (cases "sel t")
      case False
      with Some id show ?thesis by (simp add: Suc.IH E)
    next
      case True
      with Some id show ?thesis
        by (simp add: Suc.IH E send_sig_Some [OF assms] refused_upd signalled_upd del: fun_upd_apply)
    qed
  qed
qed

section \<open>Process numbers\<close>

abbreviation (input) PID_MAX :: int where "PID_MAX \<equiv> 2147483647"

lemma next_pid_mod: "0 \<le> p \<Longrightarrow> p \<le> PID_MAX \<Longrightarrow> next_pid p = p mod PID_MAX + 1"
proof (cases "p = PID_MAX")
  case True
  then show ?thesis by (simp add: next_pid_def to_s32_def)
next
  case False
  assume "0 \<le> p" "p \<le> PID_MAX"
  with False show ?thesis by (simp add: next_pid_def to_s32_id)
qed

lemma next_pid_range: "0 \<le> p \<Longrightarrow> p \<le> PID_MAX \<Longrightarrow> 0 < next_pid p \<and> next_pid p \<le> PID_MAX"
  using pos_mod_sign [of PID_MAX p] pos_mod_bound [of PID_MAX p] by (simp add: next_pid_mod)

lemma next_pid_iterate:
  assumes "0 \<le> p" and "p \<le> PID_MAX"
  shows "(next_pid ^^ Suc k) p = (p + int k) mod PID_MAX + 1"
proof (induction k)
  case 0
  then show ?case using assms by (simp add: next_pid_mod)
next
  case (Suc k)
  let ?q = "(p + int k) mod PID_MAX + 1"
  have q: "0 \<le> ?q" "?q \<le> PID_MAX"
    using pos_mod_sign [of PID_MAX "p + int k"] pos_mod_bound [of PID_MAX "p + int k"] by auto
  have "(next_pid ^^ Suc (Suc k)) p = next_pid ?q" using Suc by simp
  also have "\<dots> = ?q mod PID_MAX + 1" using q by (rule next_pid_mod)
  also have "?q mod PID_MAX = (p + int (Suc k)) mod PID_MAX"
    by (simp add: mod_simps algebra_simps)
  finally show ?case .
qed

lemma fresh_pid_steps:
  assumes "\<not> pid_used tk ((next_pid ^^ Suc k) p)"
  shows "\<exists>j \<le> k. fresh_pid tk p = Some ((next_pid ^^ Suc j) p) \<and>
    \<not> pid_used tk ((next_pid ^^ Suc j) p)"
  using assms
proof (induction k arbitrary: p)
  case 0
  then show ?case by (subst fresh_pid.simps) simp
next
  case (Suc k)
  show ?case
  proof (cases "pid_used tk (next_pid p)")
    case False
    then show ?thesis by (subst fresh_pid.simps) (auto intro: exI [of _ 0])
  next
    case True
    have "\<not> pid_used tk ((next_pid ^^ Suc k) (next_pid p))"
      using Suc.prems by (simp add: funpow_swap1)
    from Suc.IH [OF this] obtain j where "j \<le> k"
      "fresh_pid tk (next_pid p) = Some ((next_pid ^^ Suc j) (next_pid p))"
      "\<not> pid_used tk ((next_pid ^^ Suc j) (next_pid p))" by blast
    with True show ?thesis
      by (subst fresh_pid.simps) (auto simp: funpow_swap1 intro!: exI [of _ "Suc j"])
  qed
qed

lemma fresh_pid_exists:
  assumes "0 \<le> p" and "p \<le> PID_MAX"
  shows "\<exists>k \<le> NR_TASKS. \<not> pid_used tk ((next_pid ^^ Suc k) p)"
proof (rule ccontr)
  assume "\<not> ?thesis"
  then have used: "\<And>k. k \<le> NR_TASKS \<Longrightarrow> pid_used tk ((next_pid ^^ Suc k) p)" by blast
  let ?f = "\<lambda>k. (p + int k) mod PID_MAX + 1"
  have inj: "inj_on ?f {..NR_TASKS}"
  proof (rule inj_onI)
    fix i j assume ij: "i \<in> {..NR_TASKS}" "j \<in> {..NR_TASKS}" and "?f i = ?f j"
    then have "(p + int i) mod PID_MAX = (p + int j) mod PID_MAX" by simp
    then have "PID_MAX dvd (p + int i) - (p + int j)" by (simp only: mod_eq_dvd_iff)
    then have "PID_MAX dvd int i - int j" by simp
    moreover have "\<bar>int i - int j\<bar> < PID_MAX" using ij by auto
    ultimately have "int i - int j = 0" using dvd_imp_le_int [of "int i - int j" PID_MAX] by fastforce
    then show "i = j" by simp
  qed
  have "?f ` {..NR_TASKS} \<subseteq> (\<lambda>i. pid (the (tk i))) ` {..<NR_TASKS}"
  proof
    fix q assume "q \<in> ?f ` {..NR_TASKS}"
    then obtain k where "k \<le> NR_TASKS" "q = (next_pid ^^ Suc k) p"
      unfolding next_pid_iterate [OF assms] by auto
    with used have "pid_used tk q" by blast
    then obtain i t where "i < NR_TASKS" "tk i = Some t" "pid t = q"
      by (auto simp: pid_used_def split: option.split_asm)
    then show "q \<in> (\<lambda>i. pid (the (tk i))) ` {..<NR_TASKS}" by (auto intro!: image_eqI [of _ _ i])
  qed
  then have "card (?f ` {..NR_TASKS}) \<le> card ((\<lambda>i. pid (the (tk i))) ` {..<NR_TASKS})"
    by (intro card_mono) auto
  also have "\<dots> \<le> card {..<NR_TASKS}" by (rule card_image_le) simp
  finally show False using inj by (simp add: card_image)
qed

lemma find_empty_process_spec:
  assumes "0 \<le> last_pid s" and "last_pid s \<le> PID_MAX"
  shows "\<exists>p r. find_empty_process s = Inr (r, s\<lparr>last_pid := p\<rparr>) \<and> 0 < p \<and> p \<le> PID_MAX \<and>
    (\<forall>i < NR_TASKS. \<forall>t. task (sch s) i = Some t \<longrightarrow> pid t \<noteq> p) \<and>
    (if \<exists>i. 0 < i \<and> i < NR_TASKS \<and> task (sch s) i = None
     then 0 < r \<and> r < int NR_TASKS \<and> task (sch s) (nat r) = None else r = - EAGAIN)"
proof -
  obtain k where "\<not> pid_used (task (sch s)) ((next_pid ^^ Suc k) (last_pid s))"
    using fresh_pid_exists [OF assms] by blast
  from fresh_pid_steps [OF this] obtain j where
    j: "fresh_pid (task (sch s)) (last_pid s) = Some ((next_pid ^^ Suc j) (last_pid s))"
    "\<not> pid_used (task (sch s)) ((next_pid ^^ Suc j) (last_pid s))" by blast
  define p where "p = (next_pid ^^ Suc j) (last_pid s)"
  have p: "0 < p" "p \<le> PID_MAX"
    using pos_mod_sign [of PID_MAX "last_pid s + int j"] pos_mod_bound [of PID_MAX "last_pid s + int j"]
    unfolding p_def next_pid_iterate [OF assms] by auto
  have fresh: "\<forall>i < NR_TASKS. \<forall>t. task (sch s) i = Some t \<longrightarrow> pid t \<noteq> p"
    using j(2) unfolding p_def [symmetric] by (force simp: pid_used_def)
  let ?r = "case find (\<lambda>i. task (sch s) i = None) [1..<NR_TASKS] of None \<Rightarrow> - EAGAIN | Some i \<Rightarrow> int i"
  have slot: "if \<exists>i. 0 < i \<and> i < NR_TASKS \<and> task (sch s) i = None
     then 0 < ?r \<and> ?r < int NR_TASKS \<and> task (sch s) (nat ?r) = None else ?r = - EAGAIN"
  proof (cases "find (\<lambda>i. task (sch s) i = None) [1..<NR_TASKS]")
    case None
    then have "\<not> (\<exists>i. i \<in> set [1..<NR_TASKS] \<and> task (sch s) i = None)"
      by (rule find_None_iff [THEN iffD1])
    then have "\<not> (\<exists>i. 0 < i \<and> i < NR_TASKS \<and> task (sch s) i = None)" by auto
    with None show ?thesis by (simp only: if_False option.case)
  next
    case (Some i)
    then have "i \<in> set [1..<NR_TASKS] \<and> task (sch s) i = None"
      unfolding find_Some_iff by (metis nth_mem)
    with Some show ?thesis by auto
  qed
  have "find_empty_process s = Inr (?r, s\<lparr>last_pid := p\<rparr>)"
    by (simp only: find_empty_process_def j(1) option.case p_def)
  with p fresh slot show ?thesis by blast
qed

section \<open>Leaving\<close>

lemma send_sig_family:
  "map_option (\<lambda>t. (pid t, father t, tstate t, exit_code t)) (snd (send_sig sig i priv me tk) j) =
   map_option (\<lambda>t. (pid t, father t, tstate t, exit_code t)) (tk j)"
  by (auto simp: send_sig_def split: option.splits)

text \<open>The loop over the children, read slot by slot.\<close>

lemma orphan_children_spec:
  assumes "me \<noteq> 1" and "distinct is"
  shows "map_option (\<lambda>t. (pid t, father t, tstate t, exit_code t)) (orphan_children me c is tk j) =
    map_option (\<lambda>t. (pid t, if j \<in> set is \<and> father t = me then 1 else father t, tstate t, exit_code t))
      (tk j)"
  using assms(2)
proof (induction me c "is" tk rule: orphan_children.induct)
  case (1 me c tk)
  then show ?case by (cases "tk j") auto
next
  case (2 me c i "is" tk)
  show ?case
  proof (cases "tk i")
    case None
    with 2 show ?thesis by (cases "j = i") auto
  next
    case (Some t)
    show ?thesis
    proof (cases "father t = me")
      case False
      with Some 2 show ?thesis by (cases "j = i") auto
    next
      case True
      let ?tk = "tk(i \<mapsto> t\<lparr>father := 1\<rparr>)"
      let ?u = "if tstate t = TASK_ZOMBIE then snd (send_sig (int SIGCHLD) 1 True c ?tk) else ?tk"
      have u: "map_option (\<lambda>t. (pid t, father t, tstate t, exit_code t)) (?u j) =
          map_option (\<lambda>t. (pid t, father t, tstate t, exit_code t)) (?tk j)"
        using send_sig_family [of "int SIGCHLD" 1 True c ?tk j] by (simp del: fun_upd_apply)
      have step: "orphan_children me c (i # is) tk = orphan_children me c is ?u"
        using Some True by (simp add: Let_def del: fun_upd_apply)
      have IH: "map_option (\<lambda>t. (pid t, father t, tstate t, exit_code t)) (orphan_children me c is ?u j) =
        map_option (\<lambda>t. (pid t, if j \<in> set is \<and> father t = me then 1 else father t, tstate t, exit_code t))
          (?u j)"
        using 2(2) [OF Some True refl] 2(4) by simp
      have "map_option (\<lambda>t. (pid t, if j \<in> set is \<and> father t = me then 1 else father t, tstate t, exit_code t)) (?u j) =
        map_option ((\<lambda>(a, b, c, d). (a, if j \<in> set is \<and> b = me then 1 else b, c, d)) \<circ>
          (\<lambda>t. (pid t, father t, tstate t, exit_code t))) (?u j)"
        by (simp add: comp_def)
      also have "\<dots> = map_option (\<lambda>(a, b, c, d). (a, if j \<in> set is \<and> b = me then 1 else b, c, d))
          (map_option (\<lambda>t. (pid t, father t, tstate t, exit_code t)) (?u j))"
        by (simp only: option.map_comp)
      finally show ?thesis
        unfolding step IH u using Some True 2(4) by (cases "j = i"; cases "tk j") auto
    qed
  qed
qed

lemma schedule_proj:
  assumes "tasks_ok (task s)" and "schedule s = Inr s'"
    and "\<And>now p. P (check_signal (check_alarm now p)) = P p" and "\<And>p. P (recharge p) = P p"
  shows "map_option P (task s' j) = map_option P (task s j)"
proof -
  obtain nxt tk where s': "s' = s\<lparr>task := tk, current := nxt\<rparr>"
    and tk: "tk = check_alarms s \<or> tk = each_task recharge (check_alarms s)"
    using schedule_spec [OF assms(1)] assms(2) by (elim exE conjE) (auto split: if_splits)
  have "map_option P (check_alarms s j) = map_option P (task s j)"
    by (simp add: check_alarms_def option.map_comp comp_def assms(3))
  moreover have "map_option P (each_task recharge (check_alarms s) j) = map_option P (check_alarms s j)"
    by (simp add: option.map_comp comp_def assms(4))
  ultimately show ?thesis using tk by (auto simp: s')
qed

text \<open>What the loops of \<open>do_exit\<close> may not disturb: who is whose child, and the states.\<close>

definition family :: "task_struct \<Rightarrow> int \<times> int \<times> tstate \<times> int" where
  "family t = (pid t, father t, tstate t, exit_code t)"

definition same_family :: "'f kstate \<Rightarrow> 'f kstate \<Rightarrow> bool" where
  "same_family s s' \<longleftrightarrow> current (sch s') = current (sch s) \<and>
     (\<forall>j. map_option family (task (sch s') j) = map_option family (task (sch s) j)) \<and>
     (tasks_ok (task (sch s)) \<longrightarrow> tasks_ok (task (sch s')))"

definition ops_keep :: "'f fs_ops \<Rightarrow> bool" where
  "ops_keep ops \<longleftrightarrow> (\<forall>i s s'. op_close ops i s = Inr s' \<longrightarrow> same_family s s') \<and>
     (\<forall>i s s'. op_iput ops i s = Inr s' \<longrightarrow> same_family s s')"

lemma same_family_refl [simp]: "same_family s s"
  by (simp add: same_family_def)

lemma same_family_trans: "same_family s t \<Longrightarrow> same_family t u \<Longrightarrow> same_family s u"
  by (simp add: same_family_def)

lemma same_family_upd:
  assumes "\<And>t. family (f t) = family t" and "\<And>t. task_ok t \<Longrightarrow> task_ok (f t)"
  shows "same_family s (upd i f s)"
  using assms(2)
  by (auto simp: same_family_def upd_def upd_task_def option.map_comp comp_def assms(1) tasks_ok_def)

lemma close_files_family:
  assumes "ops_keep ops" and "close_files ops is s = Inr s'"
  shows "same_family s s'"
  using assms(2)
proof (induction "is" arbitrary: s)
  case (Cons i "is")
  then obtain u where u: "(if filp (cur s) i \<noteq> None then op_close ops i s else Inr s) = Inr u"
    "close_files ops is u = Inr s'" by (auto elim: kbind_InrE)
  then have "same_family s u" using assms(1) by (auto simp: ops_keep_def split: if_splits)
  with Cons.IH u same_family_trans show ?case by blast
qed simp

lemma exit_files_family:
  assumes "ops_keep ops" and "exit_files ops s = Inr s'"
  shows "same_family s s'"
proof -
  obtain s1 s2 s3 s4 where "close_files ops [0..<NR_OPEN] s = Inr s1"
    and s2: "op_iput ops (pwd (cur s1)) s1 = Inr s2"
    and s3: "op_iput ops (root (cur (upd_cur (pwd_update (\<lambda>_. None)) s2)))
       (upd_cur (pwd_update (\<lambda>_. None)) s2) = Inr s3"
    and s4: "op_iput ops (executable (cur (upd_cur (root_update (\<lambda>_. None)) s3)))
       (upd_cur (root_update (\<lambda>_. None)) s3) = Inr s4"
    and s': "s' = upd_cur (executable_update (\<lambda>_. None)) s4"
    using assms(2) by (auto simp: exit_files_def Let_def elim!: kbind_InrE)
  then have "same_family s s1" using assms(1) close_files_family by blast
  moreover have "same_family s1 s2" using s2 assms(1) by (auto simp: ops_keep_def)
  moreover have "same_family (upd_cur (pwd_update (\<lambda>_. None)) s2) s3"
    using s3 assms(1) by (auto simp: ops_keep_def)
  moreover have "same_family (upd_cur (root_update (\<lambda>_. None)) s3) s4"
    using s4 assms(1) by (auto simp: ops_keep_def)
  moreover have "same_family u (upd_cur (pwd_update (\<lambda>_. None)) u)"
    "same_family u (upd_cur (root_update (\<lambda>_. None)) u)"
    "same_family u (upd_cur (executable_update (\<lambda>_. None)) u)" for u :: "'a kstate"
    unfolding upd_cur_def by (rule same_family_upd; simp add: family_def task_ok_def)+
  ultimately show ?thesis unfolding s' by (meson same_family_trans)
qed

lemma kill_session_family: "same_family s (upd_tasks (kill_session q) s)"
proof -
  have "family (if session p = q then p\<lparr>signal := signal p OR sig_bit SIGHUP\<rparr> else p) = family p" for p
    by (simp add: family_def)
  then show ?thesis
    by (auto simp: same_family_def upd_tasks_def kill_session_def option.map_comp comp_def tasks_ok_def
        task_ok_def split: if_splits)
qed

lemma orphan_family:
  assumes "me \<noteq> 1"
  shows "map_option family (orphan_children me c [0..<n] tk j) =
    map_option (\<lambda>t. (pid t, if j < n \<and> father t = me then 1 else father t, tstate t, exit_code t)) (tk j)"
  using orphan_children_spec [OF assms, of "[0..<n]" c tk j]
  by (simp add: family_def [abs_def] del: upt_Suc)

definition hears_of :: "nat \<Rightarrow> task_struct \<Rightarrow> bool" where
  "hears_of sig t \<longleftrightarrow> bit (signal t) (sig - 1)"

lemma tasks_ok_send_sig: "tasks_ok tk \<Longrightarrow> tasks_ok (snd (send_sig sig i priv me tk))"
  by (auto simp: send_sig_def tasks_ok_def task_ok_def split: option.splits)

lemma tasks_ok_orphan: "tasks_ok tk \<Longrightarrow> tasks_ok (orphan_children me c is tk)"
proof (induction me c "is" tk rule: orphan_children.induct)
  case (2 me c i "is" tk)
  have "tasks_ok (tk(i \<mapsto> t\<lparr>father := 1\<rparr>))" if "tk i = Some t" for t
    using 2(4) that by (auto simp: tasks_ok_def task_ok_def)
  with 2 show ?case by (auto simp: Let_def tasks_ok_send_sig split: option.splits)
qed simp

lemma exit_notify_spec:
  assumes run: "exit_notify code s = Inr s'" and ok: "tasks_ok (task (sch s))"
    and c: "c = current (sch s)" "0 < c" "c < NR_TASKS" "task (sch s) c = Some t"
    and f: "father t \<noteq> 0" "i < NR_TASKS" "task (sch s) i = Some u" "pid u = father t"
  shows "(\<exists>z. task (sch s') c = Some z \<and> tstate z = TASK_ZOMBIE \<and> exit_code z = code \<and> pid z = pid t) \<and>
    (\<forall>j. map_option father (task (sch s') j) = map_option father (task (sch s) j)) \<and>
    current (sch s') \<noteq> c \<and>
    (\<exists>k v. k < NR_TASKS \<and> task (sch s') k = Some v \<and> pid v = father t \<and> hears_of SIGCHLD v)"
proof -
  define s1 where "s1 = (if leader (cur s) \<noteq> 0 \<and> tty (cur s) \<ge> 0
               then s\<lparr>tty_pgrp := (tty_pgrp s)(nat (tty (cur s)) := 0)\<rparr> else s)"
  define s2 where "s2 = (if last_task_used_math (sch s1) = Some (current (sch s1))
               then s1\<lparr>sch := (sch s1)\<lparr>last_task_used_math := None\<rparr>\<rparr> else s1)"
  define s3 where "s3 = (if leader (cur s2) \<noteq> 0 then upd_tasks (kill_session (session (cur s2))) s2 else s2)"
  define s4 where "s4 = upd_cur (\<lambda>p. p\<lparr>tstate := TASK_ZOMBIE, exit_code := code\<rparr>) s3"
  have "same_family s s1" "same_family s1 s2" "same_family s2 s3"
    using kill_session_family by (auto simp: s1_def s2_def s3_def same_family_def)
  then have f3: "same_family s s3" by (meson same_family_trans)
  have cur4: "current (sch s4) = c"
    using f3 c by (simp add: s4_def upd_cur_def upd_def same_family_def)
  have fam: "map_option family (task (sch s4) j) =
      (if j = c then Some (pid t, father t, TASK_ZOMBIE, code)
       else map_option family (task (sch s) j))" for j
  proof -
    have "map_option family (task (sch s3) j) = map_option family (task (sch s) j)"
      "current (sch s3) = c" using f3 c by (simp_all add: same_family_def)
    then show ?thesis using c(4)
      by (auto simp: s4_def upd_cur_def upd_def upd_task_def family_def)
  qed
  have ok4: "tasks_ok (task (sch s4))"
  proof -
    have "same_family s3 s3" by simp
    have "tasks_ok (task (sch s3))" using f3 ok by (simp add: same_family_def)
    then show ?thesis by (auto simp: s4_def upd_cur_def upd_def upd_task_def tasks_ok_def task_ok_def)
  qed
  have ft: "father (cur s4) = father t"
    using fam [of c] by (auto simp: cur_def cur4 family_def)
  have run4: "kbind (tell_father (father (cur s4)) s4) (\<lambda>(live, s). if live then reschedule s else Inr s) = Inr s'"
    using run unfolding exit_notify_def by (simp only: Let_def s1_def s2_def s3_def s4_def)
  let ?P = "\<lambda>i. case task (sch s4) i of None \<Rightarrow> False | Some t' \<Rightarrow> pid t' = father t"
  have "?P i"
    using fam [of i] f c(4) by (cases "i = c") (auto simp: family_def split: option.splits)
  then have "find ?P [0..<NR_TASKS] \<noteq> None"
    using f(2) unfolding find_None_iff by auto
  then obtain k where k: "find ?P [0..<NR_TASKS] = Some k" by blast
  then have kp: "?P k" "k < NR_TASKS" unfolding find_Some_iff by (force, metis nth_mem atLeastLessThan_iff set_upt)
  define s5 where "s5 = upd k (\<lambda>t. t\<lparr>signal := signal t OR sig_bit SIGCHLD\<rparr>) s4"
  have "tell_father (father (cur s4)) s4 = Inr (True, s5)"
    using f(1) k by (simp add: tell_father_def ft s5_def del: upt_conv_Cons)
  with run4 have "reschedule s5 = Inr s'" by simp
  then obtain k' where sc: "schedule (sch s5) = Inr k'" and s': "sch s' = k'"
    by (auto simp: reschedule_def elim!: kbind_InrE)
  have ok5: "tasks_ok (task (sch s5))"
    using ok4 by (auto simp: s5_def upd_def upd_task_def tasks_ok_def task_ok_def)
  have fam5: "map_option family (task (sch s5) j) = map_option family (task (sch s4) j)" for j
    by (auto simp: s5_def upd_def upd_task_def option.map_comp comp_def family_def [abs_def])
  have pr: "map_option P (task k' j) = map_option P (task (sch s5) j)"
    if "\<And>now p. P (check_signal (check_alarm now p)) = P p" "\<And>p. P (recharge p) = P p"
    for P :: "task_struct \<Rightarrow> 'x" and j
    using ok5 sc that by (rule schedule_proj)
  have prfam: "map_option (\<lambda>t. (pid t, father t, exit_code t)) (task k' j) =
     map_option (\<lambda>t. (pid t, father t, exit_code t)) (task (sch s5) j)" for j
    by (rule pr) (simp_all add: check_signal_def check_alarm_def recharge_def)
  have prs: "map_option (\<lambda>t. (pid t, hears_of SIGCHLD t)) (task k' j) =
     map_option (\<lambda>t. (pid t, hears_of SIGCHLD t)) (task (sch s5) j)" for j
    by (rule pr) (auto simp: check_signal_def check_alarm_def recharge_def hears_of_def bit_simps bit_sig_bit)
  have f45: "map_option (\<lambda>t. (pid t, father t, exit_code t)) (task (sch s5) j) =
     map_option (\<lambda>(a, b, c, d). (a, b, d)) (map_option family (task (sch s4) j))" for j
    unfolding fam5 [symmetric] by (simp add: option.map_comp comp_def family_def)
  have stc: "state_of (sch s5) c = Some TASK_ZOMBIE"
    using fam5 [of c] fam [of c] by (auto simp: state_of_def family_def)
  then have stc': "state_of k' c = Some TASK_ZOMBIE"
    using schedule_states(1) [OF ok5 sc, of c] by auto
  have "\<exists>z. task k' c = Some z \<and> tstate z = TASK_ZOMBIE \<and> exit_code z = code \<and> pid z = pid t"
    using prfam [of c] f45 [of c] fam [of c] stc' by (auto simp: state_of_def)
  moreover have "map_option father (task k' j) = map_option father (task (sch s) j)" for j
  proof -
    have "map_option father (task k' j) = map_option (\<lambda>(a, b, d). b)
        (map_option (\<lambda>t. (pid t, father t, exit_code t)) (task k' j))"
      by (simp add: option.map_comp comp_def)
    also have "\<dots> = map_option (\<lambda>(a, b, c, d). b) (map_option family (task (sch s4) j))"
      unfolding prfam f45 by (simp add: option.map_comp comp_def case_prod_beta)
    also have "\<dots> = map_option father (task (sch s) j)"
      unfolding fam using c(4) by (auto simp: option.map_comp comp_def family_def)
    finally show ?thesis .
  qed
  moreover have "current k' \<noteq> c"
    using schedule_states(2) [OF ok5 sc] stc' c(2) by auto
  moreover have "\<exists>v. task k' k = Some v \<and> pid v = father t \<and> hears_of SIGCHLD v"
    using prs [of k] kp(1)
    by (auto simp: s5_def upd_def upd_task_def hears_of_def bit_simps bit_sig_bit split: option.splits)
  ultimately show ?thesis using kp(2) unfolding s' by blast
qed

lemma do_exit_spec:
  assumes run: "do_exit ops code s = Inr s'" and keep: "ops_keep ops" and ok: "tasks_ok (task (sch s))"
    and c: "c = current (sch s)" "0 < c" "c < NR_TASKS" "task (sch s) c = Some t"
    and me: "pid t \<noteq> 1" "father t \<noteq> pid t"
    and f: "father t \<noteq> 0" "i < NR_TASKS" "task (sch s) i = Some u" "pid u = father t"
  shows "(\<exists>z. task (sch s') c = Some z \<and> tstate z = TASK_ZOMBIE \<and> exit_code z = code \<and> pid z = pid t) \<and>
    (\<forall>j < NR_TASKS. \<forall>w. task (sch s) j = Some w \<longrightarrow>
       map_option father (task (sch s') j) = Some (if father w = pid t then 1 else father w)) \<and>
    current (sch s') \<noteq> c \<and>
    (\<exists>k v. k < NR_TASKS \<and> task (sch s') k = Some v \<and> pid v = father t \<and> hears_of SIGCHLD v)"
proof -
  have cur: "cur s = t" using c by (simp add: cur_def)
  obtain m s2 where ex: "exit_files ops (upd_tasks (orphan_children (pid t) c [0..<NR_TASKS]) (s\<lparr>mem := m\<rparr>)) = Inr s2"
    and no: "exit_notify code s2 = Inr s'"
    using run c by (auto simp: do_exit_def Let_def cur simp del: upt_conv_Cons elim!: kbind_InrE)
  let ?s1 = "upd_tasks (orphan_children (pid t) c [0..<NR_TASKS]) (s\<lparr>mem := m\<rparr>)"
  have sf: "same_family ?s1 s2" using exit_files_family [OF keep ex] .
  have t1: "task (sch ?s1) = orphan_children (pid t) c [0..<NR_TASKS] (task (sch s))"
    "current (sch ?s1) = c"
    using c by (simp_all add: upd_tasks_def)
  have ok2: "tasks_ok (task (sch s2))"
    using sf tasks_ok_orphan [OF ok] by (simp add: same_family_def t1 del: upt_conv_Cons)
  have fam: "map_option family (task (sch s2) j) =
      map_option (\<lambda>t'. (pid t', if j < NR_TASKS \<and> father t' = pid t then 1 else father t', tstate t', exit_code t'))
        (task (sch s) j)" for j
    using sf orphan_family [OF me(1), of c NR_TASKS "task (sch s)" j]
    by (simp add: same_family_def t1 del: upt_conv_Cons)
  obtain t2 where t2: "task (sch s2) c = Some t2" "pid t2 = pid t" "father t2 = father t"
    using fam [of c] c me(2) by (auto simp: family_def)
  obtain u2 where u2: "task (sch s2) i = Some u2" "pid u2 = father t2"
    using fam [of i] f t2 by (auto simp: family_def)
  have c2: "c = current (sch s2)" using sf t1 by (simp add: same_family_def)
  have f2: "father t2 \<noteq> 0" using f t2 by simp
  note E = exit_notify_spec [OF no ok2 c2 c(2,3) t2(1) f2 f(2) u2]
  have "map_option father (task (sch s') j) = Some (if father w = pid t then 1 else father w)"
    if "j < NR_TASKS" "task (sch s) j = Some w" for j w
  proof -
    have "map_option father (task (sch s') j) = map_option father (task (sch s2) j)" using E by blast
    also have "\<dots> = Some (if father w = pid t then 1 else father w)"
      using fam [of j] that by (auto simp: family_def)
    finally show ?thesis .
  qed
  with E t2 show ?thesis by auto
qed

section \<open>Waiting\<close>

definition child_of :: "int \<Rightarrow> nat \<Rightarrow> task_table \<Rightarrow> nat \<Rightarrow> tstate \<Rightarrow> bool" where
  "child_of p me tk i st \<longleftrightarrow> 0 < i \<and> i < NR_TASKS \<and> i \<noteq> me \<and>
     (\<exists>t. tk i = Some t \<and> waits_for p (the (tk me)) t \<and> tstate t = st)"

lemma wait_loop_spec:
  "case wait_loop p options me tk n flag of
     Dead i \<Rightarrow> i \<le> n \<and> 0 < i \<and> i \<noteq> me \<and>
       (\<exists>t. tk i = Some t \<and> waits_for p (the (tk me)) t \<and> tstate t = TASK_ZOMBIE)
   | Stopped i \<Rightarrow> options AND WUNTRACED \<noteq> 0 \<and> i \<le> n \<and> 0 < i \<and> i \<noteq> me \<and>
       (\<exists>t. tk i = Some t \<and> waits_for p (the (tk me)) t \<and> tstate t = TASK_STOPPED)
   | Nothing b \<Rightarrow>
       (\<forall>i t. 0 < i \<and> i \<le> n \<and> i \<noteq> me \<and> tk i = Some t \<and> waits_for p (the (tk me)) t \<longrightarrow>
          tstate t \<noteq> TASK_ZOMBIE \<and> (tstate t = TASK_STOPPED \<longrightarrow> options AND WUNTRACED = 0)) \<and>
       (b \<longleftrightarrow> flag \<or> (\<exists>i t. 0 < i \<and> i \<le> n \<and> i \<noteq> me \<and> tk i = Some t \<and>
          waits_for p (the (tk me)) t \<and> tstate t \<noteq> TASK_STOPPED))"
proof (induction n arbitrary: flag)
  case 0
  then show ?case by simp
next
  case (Suc n)
  have le: "i \<le> Suc n \<longleftrightarrow> i = Suc n \<or> i \<le> n" for i by auto
  consider (skip) "wait_loop p options me tk (Suc n) flag = wait_loop p options me tk n flag"
      "\<And>t. tk (Suc n) = Some t \<Longrightarrow> Suc n \<noteq> me \<Longrightarrow> waits_for p (the (tk me)) t \<Longrightarrow>
         tstate t = TASK_STOPPED \<and> options AND WUNTRACED = 0"
    | (stop) t where "wait_loop p options me tk (Suc n) flag = Stopped (Suc n)"
      "tk (Suc n) = Some t" "Suc n \<noteq> me" "waits_for p (the (tk me)) t" "tstate t = TASK_STOPPED"
      "options AND WUNTRACED \<noteq> 0"
    | (dead) t where "wait_loop p options me tk (Suc n) flag = Dead (Suc n)"
      "tk (Suc n) = Some t" "Suc n \<noteq> me" "waits_for p (the (tk me)) t" "tstate t = TASK_ZOMBIE"
    | (live) t where "wait_loop p options me tk (Suc n) flag = wait_loop p options me tk n True"
      "tk (Suc n) = Some t" "Suc n \<noteq> me" "waits_for p (the (tk me)) t"
      "tstate t \<noteq> TASK_ZOMBIE" "tstate t \<noteq> TASK_STOPPED"
  proof (cases "tk (Suc n)")
    case None
    then show ?thesis by (intro skip) auto
  next
    case (Some t)
    show ?thesis
    proof (cases "Suc n = me \<or> \<not> waits_for p (the (tk me)) t")
      case True
      with Some show ?thesis by (intro skip) auto
    next
      case False
      show ?thesis
      proof (cases "tstate t")
        case TASK_STOPPED
        with Some False show ?thesis
          by (cases "options AND WUNTRACED = 0") (auto intro: skip stop)
      qed (use Some False in \<open>auto intro: live dead\<close>)
    qed
  qed
  then show ?case
  proof cases
    case skip
    then show ?thesis using Suc.IH [of flag] unfolding skip(1)
      by (auto simp: le split: wait_scan.splits)
  next
    case live
    then show ?thesis using Suc.IH [of True] unfolding live(1)
      by (auto simp: le split: wait_scan.splits)
  next
    case stop
    show ?thesis unfolding stop(1) using stop(2-) by simp
  next
    case dead
    show ?thesis unfolding dead(1) using dead(2-) by simp
  qed
qed

section \<open>Forking\<close>

lemma upd_tasks_sel [simp]:
  "task (sch (upd_tasks f s)) = f (task (sch s))" "current (sch (upd_tasks f s)) = current (sch s)"
  "mem (upd_tasks f s) = mem s" "last_pid (upd_tasks f s) = last_pid s"
  "fsys (upd_tasks f s) = fsys s"
  by (simp_all add: upd_tasks_def)

lemma copy_mem_spec:
  assumes "copy_mem nr p s = Inr (r, p', s')"
  shows "p' = p\<lparr>start_code := of_nat nr * 0x4000000,
      ldt_code := (ldt_code p)\<lparr>d_base := of_nat nr * 0x4000000\<rparr>,
      ldt_data := (ldt_data p)\<lparr>d_base := of_nat nr * 0x4000000\<rparr>\<rparr> \<and>
    s' = s\<lparr>mem := mem s'\<rparr> \<and> (r = 0 \<or> r = - ENOMEM)"
  using assms
  by (auto simp: copy_mem_def Let_def split: if_splits elim!: kbind_InrE)

lemma copy_process_spec:
  assumes run: "copy_process ops nr s = Inr (r, s')" and c: "task (sch s) (current (sch s)) = Some c"
    and nr: "nr \<noteq> current (sch s)"
  shows "(\<forall>j. j \<noteq> nr \<longrightarrow> task (sch s') j = task (sch s) j) \<and>
    (r = - EAGAIN \<and> (task (sch s') nr = None \<or> task (sch s') nr = task (sch s) nr) \<and> fsys s' = fsys s \<or>
     r = last_pid s \<and> fsys s' = dup_files ops c c (fsys s) \<and>
     (\<exists>t. task (sch s') nr = Some t \<and> tstate t = TASK_RUNNING \<and> pid t = last_pid s \<and>
        father t = pid c \<and> signal t = 0 \<and> alarm t = 0 \<and> leader t = 0 \<and> counter t = priority c \<and>
        start_code t = of_nat nr * 0x4000000 \<and> d_base (ldt_data t) = start_code t \<and>
        blocked t = blocked c \<and> filp t = filp c \<and> uid t = uid c \<and> euid t = euid c))"
proof -
  have cs: "cur s = c" using c by (simp add: cur_def)
  obtain page m where g: "get_free_page (mem s) = (page, m)" by fastforce
  show ?thesis
  proof (cases "page = 0")
    case True
    with run g show ?thesis by (auto simp: copy_process_def)
  next
    case False
    define p where "p = new_task (last_pid s) (jiffies (sch s)) c"
    define s1 where "s1 = upd_tasks (\<lambda>tk. tk(nr \<mapsto> p))
      (s\<lparr>mem := m, task_page := (task_page s)(nr := page)\<rparr>)"
    obtain r1 p1 s2 where cm: "copy_mem nr p s1 = Inr (r1, p1, s2)"
      using run False by (auto simp: copy_process_def g cs p_def s1_def Let_def elim!: kbind_InrE)
    note M = copy_mem_spec [OF cm]
    have e: "s2 = s1\<lparr>mem := mem s2\<rparr>" using M by blast
    have e2: "sch s2 = sch s1" "fsys s2 = fsys s1" "last_pid s2 = last_pid s1"
      using arg_cong [OF e, of sch] arg_cong [OF e, of fsys] arg_cong [OF e, of last_pid] by simp_all
    have t2: "task (sch s2) = (task (sch s))(nr \<mapsto> p)" "fsys s2 = fsys s" "last_pid s2 = last_pid s"
      "current (sch s2) = current (sch s)"
      unfolding e2 s1_def upd_tasks_sel by (simp_all del: fun_upd_apply)
    show ?thesis
    proof (cases "r1 = 0")
      case True
      have cs2: "cur s2 = c" using c nr by (simp add: cur_def t2)
      have "r = last_pid s \<and> s' = upd_tasks (\<lambda>tk. tk(nr \<mapsto> p1\<lparr>tstate := TASK_RUNNING\<rparr>))
          (s2\<lparr>fsys := dup_files ops p1 c (fsys s)\<rparr>)"
        using run False True
        by (auto simp: copy_process_def g cs p_def [symmetric] s1_def [symmetric] Let_def cm cs2 t2)
      moreover have "dup_files ops p1 c fs = dup_files ops c c fs" for fs
        using M by (simp add: dup_files_def p_def new_task_def)
      ultimately show ?thesis
        using M by (auto simp: t2 p_def new_task_def)
    next
      case False
      then show ?thesis
        using run \<open>page \<noteq> 0\<close>
        by (auto simp: copy_process_def g cs p_def [symmetric] s1_def [symmetric] Let_def cm t2
            elim!: kbind_InrE)
    qed
  qed
qed

section \<open>A small system\<close>

definition shell :: task_struct where
  "shell = INIT_TASK\<lparr>pid := 2, father := 1, ldt_code := \<lparr>d_base = 0x8000000, d_limit = 0xa0000\<rparr>,
     ldt_data := \<lparr>d_base = 0x8000000, d_limit = 0xa0000\<rparr>, euid := 5, uid := 5\<rparr>"

definition small_system :: "unit kstate" where
  "small_system = \<lparr>
     sch = sched_boot\<lparr>task := [0 \<mapsto> INIT_TASK, 1 \<mapsto> INIT_TASK\<lparr>pid := 1\<rparr>, 2 \<mapsto> shell,
       3 \<mapsto> shell\<lparr>pid := 3, father := 2, tstate := TASK_ZOMBIE\<rparr>], current := 2\<rparr>,
     mem = \<lparr>HIGH_MEMORY = 0x1000000, mem_map = (\<lambda>_. 0), phys = (\<lambda>_. 0)\<rparr>,
     task_page = (\<lambda>_. 0), last_pid = 3, startup_time = 0, user = (\<lambda>_. 0),
     tty_pgrp = (\<lambda>_. 0), fsys = ()\<rparr>"

definition no_fs :: "unit fs_ops" where
  "no_fs = \<lparr>op_close = (\<lambda>_. Inr), op_iput = (\<lambda>_. Inr), op_dup_file = (\<lambda>_ _. ()),
     op_dup_inode = (\<lambda>_ _. ())\<rparr>"

lemma no_fs_files:
  "exit_files no_fs s = Inr (upd_cur (executable_update (\<lambda>_. None))
     (upd_cur (root_update (\<lambda>_. None)) (upd_cur (pwd_update (\<lambda>_. None)) s)))"
proof -
  have "close_files no_fs is s = Inr s" for "is" and s :: "unit kstate"
    by (induction "is") (simp_all add: no_fs_def)
  then show ?thesis by (simp add: exit_files_def no_fs_def)
qed

lemma small_free:
  "free_page_tables (d_base (ldt_code (cur small_system))) (d_limit (ldt_code (cur small_system)))
     (mem small_system) = Inr (mem small_system)"
  "free_page_tables (d_base (ldt_data (cur small_system))) (d_limit (ldt_data (cur small_system)))
     (mem small_system) = Inr (mem small_system)"
  by (simp_all add: free_page_tables_def small_system_def cur_def shell_def dir_slot_def present_def)

lemma small_exit: "\<exists>s'. do_exit no_fs 256 small_system = Inr s'"
proof -
  have "case exit_notify 256 (upd_cur (executable_update (\<lambda>_. None))
     (upd_cur (root_update (\<lambda>_. None)) (upd_cur (pwd_update (\<lambda>_. None))
       (upd_tasks (orphan_children (pid (cur small_system)) (current (sch small_system)) [0..<NR_TASKS])
         small_system)))) of Inl e \<Rightarrow> False | Inr s' \<Rightarrow> True"
    by code_simp
  then show ?thesis
    unfolding do_exit_def small_free kbind_simps Let_def no_fs_files
    by (simp del: upt_conv_Cons split: sum.split_asm)
qed

lemma small_fork: "\<exists>s'. copy_process no_fs 4 small_system = Inr (3, s')"
proof -
  have "case copy_process no_fs 4 small_system of Inl e \<Rightarrow> False | Inr (r, s') \<Rightarrow> r = 3"
    by code_simp
  then show ?thesis by (auto split: sum.split_asm)
qed

section \<open>Properties\<close>

text \<open>C34: A signal sent to a positive process number reaches exactly the tasks with that number
  that the sender may signal (same effective user, or super-user): they get the signal's bit,
  nothing else in the table changes, and the result is \<open>-EPERM\<close> iff some task was refused.\<close>

theorem sys_kill_delivers:
  assumes "sys_kill p sig s = (r, s')" and "0 < p" and "1 \<le> sig" and "sig \<le> 32"
  shows "(\<forall>i t. 0 < i \<and> i < NR_TASKS \<and> task (sch s) i = Some t \<longrightarrow>
      task (sch s') i = Some (if pid t = p \<and> (euid (cur s) = euid t \<or> suser (cur s))
        then t\<lparr>signal := signal t OR sig_bit (nat sig)\<rparr> else t)) \<and>
    (r = (if \<exists>i t. 0 < i \<and> i < NR_TASKS \<and> task (sch s) i = Some t \<and> pid t = p \<and>
              \<not> (euid (cur s) = euid t \<or> suser (cur s)) then - EPERM else 0))"
proof -
  let ?tk = "task (sch s)" and ?me = "current (sch s)"
  have le: "i \<le> NR_TASKS - 1 \<longleftrightarrow> i < NR_TASKS" for i :: nat by auto
  have m: "may_signal False ?me ?tk t \<longleftrightarrow> euid (cur s) = euid t \<or> suser (cur s)" for t
    by (simp add: may_signal_def cur_def)
  have k: "kill_tasks p sig ?me ?tk =
    (if refused (\<lambda>t. pid t = p) False ?me (NR_TASKS - 1) ?tk then - EPERM else 0,
     signalled (\<lambda>t. pid t = p) sig False ?me (NR_TASKS - 1) ?tk)"
    using assms(2) kill_loop_spec [OF assms(3,4)] by (simp add: kill_tasks_def)
  have s': "r = (if refused (\<lambda>t. pid t = p) False ?me (NR_TASKS - 1) ?tk then - EPERM else 0)"
    "task (sch s') = signalled (\<lambda>t. pid t = p) sig False ?me (NR_TASKS - 1) ?tk"
    using assms(1) unfolding sys_kill_def k by auto
  show ?thesis
    unfolding s' refused_def signalled_def le m by (auto simp: add_signal_def)
qed

lemma sys_kill_delivers_witness:
  "\<exists>t. task (sch (snd (sys_kill 3 9 small_system))) 3 = Some t \<and> signal t = sig_bit 9"
proof -
  obtain r s' where k: "sys_kill 3 9 small_system = (r, s')" by fastforce
  have t: "task (sch small_system) 3 = Some (shell\<lparr>pid := 3, father := 2, tstate := TASK_ZOMBIE\<rparr>)"
    "cur small_system = shell"
    by (simp_all add: small_system_def cur_def)
  have "task (sch s') 3 = Some (shell\<lparr>pid := 3, father := 2, tstate := TASK_ZOMBIE,
      signal := sig_bit 9\<rparr>)"
    using sys_kill_delivers [OF k] t by (simp add: shell_def INIT_TASK_def)
  then show ?thesis by (simp add: k)
qed

text \<open>Signalling a process group does nothing. For a process number below -1 \<open>sys_kill\<close> sends
  no signal, changes nothing and returns 0: the loop over the group hangs off the \<open>if\<close> inside the
  loop for -1.\<close>

theorem sys_kill_group_ignored:
  assumes "p < -1"
  shows "sys_kill p sig s = (0, s)"
  using assms by (simp add: sys_kill_def kill_tasks_def)

lemma sys_kill_group_ignored_witness:
  "sys_kill (-2) 9 small_system = (0, small_system) \<and> pgrp shell = 0"
  using sys_kill_group_ignored [of "-2" 9 small_system] by (simp add: shell_def INIT_TASK_def)

text \<open>The search for a process number ends: from any \<open>last_pid\<close> it returns a positive number
  that fits in a \<open>long\<close> and that no task has, with a free slot of the table after the first, or
  \<open>-EAGAIN\<close> when there is none.\<close>

theorem find_empty_process_fresh:
  assumes "0 \<le> last_pid s" and "last_pid s \<le> PID_MAX"
  shows "\<exists>p r. find_empty_process s = Inr (r, s\<lparr>last_pid := p\<rparr>) \<and> 0 < p \<and> p \<le> PID_MAX \<and>
    (\<forall>i < NR_TASKS. \<forall>t. task (sch s) i = Some t \<longrightarrow> pid t \<noteq> p) \<and>
    (if \<exists>i. 0 < i \<and> i < NR_TASKS \<and> task (sch s) i = None
     then 0 < r \<and> r < int NR_TASKS \<and> task (sch s) (nat r) = None else r = - EAGAIN)"
  using assms by (rule find_empty_process_spec)

lemma find_empty_process_fresh_witness:
  "\<exists>p r. find_empty_process (small_system\<lparr>last_pid := PID_MAX\<rparr>) =
     Inr (r, small_system\<lparr>last_pid := p\<rparr>) \<and> p \<noteq> 2"
proof -
  let ?s = "small_system\<lparr>last_pid := PID_MAX\<rparr>"
  obtain p r where f: "find_empty_process ?s = Inr (r, ?s\<lparr>last_pid := p\<rparr>)"
    and n: "\<forall>i < NR_TASKS. \<forall>t. task (sch ?s) i = Some t \<longrightarrow> pid t \<noteq> p"
    using find_empty_process_fresh [of ?s] by auto
  have "p \<noteq> 2"
    using n [rule_format, of 2 shell] by (auto simp: small_system_def shell_def)
  with f show ?thesis by auto
qed



text \<open>What \<open>sys_waitpid\<close> finds. A dead child it reports is a zombie it was asked for, a stopped
  one is reported only under \<open>WUNTRACED\<close>; when it reports neither there is no such zombie, and it
  waits exactly when some child it was asked for is not stopped, so with only stopped children
  and no \<open>WUNTRACED\<close> it fails with \<open>-ECHILD\<close>.\<close>

theorem wait_loop_reports:
  "case wait_loop p options me tk (NR_TASKS - 1) False of
     Dead i \<Rightarrow> i \<le> NR_TASKS - 1 \<and> 0 < i \<and> i \<noteq> me \<and>
       (\<exists>t. tk i = Some t \<and> waits_for p (the (tk me)) t \<and> tstate t = TASK_ZOMBIE)
   | Stopped i \<Rightarrow> options AND WUNTRACED \<noteq> 0 \<and> i \<le> NR_TASKS - 1 \<and> 0 < i \<and> i \<noteq> me \<and>
       (\<exists>t. tk i = Some t \<and> waits_for p (the (tk me)) t \<and> tstate t = TASK_STOPPED)
   | Nothing b \<Rightarrow>
       (\<forall>i t. 0 < i \<and> i \<le> NR_TASKS - 1 \<and> i \<noteq> me \<and> tk i = Some t \<and>
          waits_for p (the (tk me)) t \<longrightarrow>
          tstate t \<noteq> TASK_ZOMBIE \<and> (tstate t = TASK_STOPPED \<longrightarrow> options AND WUNTRACED = 0)) \<and>
       (b \<longleftrightarrow> False \<or> (\<exists>i t. 0 < i \<and> i \<le> NR_TASKS - 1 \<and> i \<noteq> me \<and> tk i = Some t \<and>
          waits_for p (the (tk me)) t \<and> tstate t \<noteq> TASK_STOPPED))"
  by (rule wait_loop_spec)

lemma wait_loop_reports_witness:
  "wait_loop (-1) 0 2 (task (sch small_system)) (NR_TASKS - 1) False = Dead 3 \<and>
   pid (the (task (sch small_system) 3)) = 3"
proof -
  have w: "wait_loop (-1) 0 2 (task (sch small_system)) (NR_TASKS - 1) False = Dead 3"
    by code_simp
  have "\<exists>t. task (sch small_system) 3 = Some t \<and> tstate t = TASK_ZOMBIE"
    using wait_loop_reports [where p = "-1" and options = 0 and me = 2 and
      tk = "task (sch small_system)"] unfolding w by auto
  then show ?thesis using w by (auto simp: small_system_def)
qed

text \<open>C36: No unprivileged task gains an identity with \<open>sys_setreuid\<close>: afterwards its real and its
  effective user are among the two it had, and a refused call changes neither.\<close>

theorem sys_setreuid_no_gain:
  assumes "sys_setreuid ru eu p = (r, p')" and "\<not> suser p"
  shows "{uid p', euid p'} \<subseteq> {uid p, euid p} \<and> (r \<noteq> 0 \<longrightarrow> uid p' = uid p \<and> euid p' = euid p)"
proof -
  have w: "word_of_int (uint x) = x" for x :: u16 by simp
  show ?thesis
    using assms by (auto simp: sys_setreuid_def Let_def suser_def w split: if_splits)
qed

lemma sys_setreuid_no_gain_witness:
  "fst (sys_setreuid 7 7 shell) = - EPERM \<and> uid (snd (sys_setreuid 7 7 shell)) = 5"
proof -
  obtain r p' where s: "sys_setreuid 7 7 shell = (r, p')" by fastforce
  have "\<not> suser shell" by (simp add: suser_def shell_def)
  note g = sys_setreuid_no_gain [OF s this]
  have "r = - EPERM" using s by (auto simp: sys_setreuid_def shell_def INIT_TASK_def suser_def)
  with g s show ?thesis by (auto simp: shell_def)
qed



end
