(* ===== verification/Block.thy ===== *)
theory Block
  imports Prelude "HOL-Library.Product_Lexorder"
begin

text \<open>
  Block devices: \<^verbatim>\<open>kernel/blk_drv/ll_rw_blk.c\<close> with its \<^verbatim>\<open>blk.h\<close>, and \<^verbatim>\<open>ramdisk.c\<close>. The state
  also holds what the buffer cache keeps, since requests refer to its buffers. Buffers and
  requests are indices, and \<open>buffer\<close> of a request is the place it has reached in the data of its
  buffer head; the lists that the code threads through them (a device's requests with
  \<open>current_request\<close> first, a hash chain, the circular free list) are lists of indices. Sleeping on
  something that nothing in the model will wake is the result \<open>Sleeps\<close>.
\<close>

section \<open>State\<close>

record buffer_head =
  b_data :: "u8 list"
  b_blocknr :: u32
  b_dev :: u16
  b_uptodate :: bool
  b_dirt :: bool
  b_count :: u8
  b_lock :: bool

record request =
  rq_dev :: int
  rq_cmd :: int
  rq_errors :: int
  rq_sector :: u32
  rq_nr_sectors :: u32
  rq_buffer :: nat
  rq_bh :: "nat option"

record blk =
  bufs :: "nat \<Rightarrow> buffer_head"
  nr_buffers :: nat
  hash_table :: "nat \<Rightarrow> nat list"
  free_list :: "nat list"
  null_b_prev :: "nat option"
  requests :: "nat \<Rightarrow> request"
  dev_queue :: "nat \<Rightarrow> nat list"
  rd_start :: "nat \<Rightarrow> u8"
  rd_length :: nat

text \<open>
  What the layer calls: the request function of each major device, if it has one, and
  \<open>sync_inodes\<close>.
\<close>

record 'a blk_ops =
  request_fn :: "nat \<Rightarrow> ('a blk_scheme \<Rightarrow> 'a blk_scheme res) option"
  sync_inodes_of :: "'a blk_scheme \<Rightarrow> 'a blk_scheme res"

abbreviation (input) NR_BLK_DEV :: nat where "NR_BLK_DEV \<equiv> 7"

abbreviation (input) NR_REQUEST :: nat where "NR_REQUEST \<equiv> 32"

abbreviation (input) READ :: int where "READ \<equiv> 0"

abbreviation (input) WRITE :: int where "WRITE \<equiv> 1"

abbreviation (input) READA :: int where "READA \<equiv> 2"

abbreviation (input) WRITEA :: int where "WRITEA \<equiv> 3"

definition MAJOR :: "u16 \<Rightarrow> nat" where
  "MAJOR a = unat a div 256"

definition MINOR :: "u16 \<Rightarrow> nat" where
  "MINOR a = unat a mod 256"

definition upd_buf :: "nat \<Rightarrow> (buffer_head \<Rightarrow> buffer_head) \<Rightarrow> 'a blk_scheme \<Rightarrow> 'a blk_scheme" where
  "upd_buf i f s = s\<lparr>bufs := (bufs s)(i := f (bufs s i))\<rparr>"

section \<open>Requests\<close>

definition lock_buffer :: "nat \<Rightarrow> 'a blk_scheme \<Rightarrow> 'a blk_scheme res" where
  "lock_buffer bh s =
     (if b_lock (bufs s bh) then Inl Sleeps else Inr (upd_buf bh (b_lock_update (\<lambda>_. True)) s))"

definition unlock_buffer :: "nat \<Rightarrow> 'a blk_scheme \<Rightarrow> 'a blk_scheme" where
  "unlock_buffer bh s = upd_buf bh (b_lock_update (\<lambda>_. False)) s"

definition IN_ORDER :: "request \<Rightarrow> request \<Rightarrow> bool" where
  "IN_ORDER s1 s2 \<longleftrightarrow>
     rq_cmd s1 < rq_cmd s2 \<or> rq_cmd s1 = rq_cmd s2 \<and>
     (rq_dev s1 < rq_dev s2 \<or> rq_dev s1 = rq_dev s2 \<and> rq_sector s1 < rq_sector s2)"

text \<open>The loop of \<open>add_request\<close>, from \<open>tmp\<close> to the end of the queue.\<close>

fun queue_insert :: "(nat \<Rightarrow> request) \<Rightarrow> nat \<Rightarrow> nat list \<Rightarrow> nat list" where
  "queue_insert rq req [] = [req]"
| "queue_insert rq req [tmp] = [tmp, req]"
| "queue_insert rq req (tmp # nxt # q) =
     (if (IN_ORDER (rq tmp) (rq req) \<or> \<not> IN_ORDER (rq tmp) (rq nxt)) \<and> IN_ORDER (rq req) (rq nxt)
      then tmp # req # nxt # q
      else tmp # queue_insert rq req (nxt # q))"

definition add_request :: "'a blk_ops \<Rightarrow> nat \<Rightarrow> nat \<Rightarrow> 'a blk_scheme \<Rightarrow> 'a blk_scheme res" where
  "add_request ops dev req s =
     (let s = (case rq_bh (requests s req) of
                 None \<Rightarrow> s | Some bh \<Rightarrow> upd_buf bh (b_dirt_update (\<lambda>_. False)) s)
      in if dev_queue s dev = []
         then case request_fn ops dev of
                None \<Rightarrow> Inl Undefined
              | Some f \<Rightarrow> f (s\<lparr>dev_queue := (dev_queue s)(dev := [req])\<rparr>)
         else Inr (s\<lparr>dev_queue := (dev_queue s)
                     (dev := queue_insert (requests s) req (dev_queue s dev))\<rparr>))"

text \<open>The highest free request below \<open>n\<close>.\<close>

fun free_request :: "(nat \<Rightarrow> request) \<Rightarrow> nat \<Rightarrow> nat option" where
  "free_request rq 0 = None"
| "free_request rq (Suc n) = (if rq_dev (rq n) < 0 then Some n else free_request rq n)"

definition make_request :: "'a blk_ops \<Rightarrow> nat \<Rightarrow> int \<Rightarrow> nat \<Rightarrow> 'a blk_scheme \<Rightarrow> 'a blk_scheme res" where
  "make_request ops major rw bh s =
     (let rw_ahead = (rw = READA \<or> rw = WRITEA)
      in if rw_ahead \<and> b_lock (bufs s bh) then Inr s
         else let rw = (if rw = READA then READ else if rw = WRITEA then WRITE else rw)
         in if rw \<noteq> READ \<and> rw \<noteq> WRITE
            then Inl (Panic ''Bad block dev command, must be R/W/RA/WA'')
            else kbind (lock_buffer bh s) (\<lambda>s.
              if rw = WRITE \<and> \<not> b_dirt (bufs s bh) \<or> rw = READ \<and> b_uptodate (bufs s bh)
              then Inr (unlock_buffer bh s)
              else case free_request (requests s)
                          (if rw = READ then NR_REQUEST else NR_REQUEST * 2 div 3) of
                     None \<Rightarrow> if rw_ahead then Inr (unlock_buffer bh s) else Inl Sleeps
                   | Some req \<Rightarrow>
                       add_request ops major req (s\<lparr>requests := (requests s)(req :=
                         \<lparr>rq_dev = uint (b_dev (bufs s bh)), rq_cmd = rw, rq_errors = 0,
                          rq_sector = push_bit 1 (b_blocknr (bufs s bh)), rq_nr_sectors = 2,
                          rq_buffer = 0, rq_bh = Some bh\<rparr>)\<rparr>)))"

definition ll_rw_block :: "'a blk_ops \<Rightarrow> int \<Rightarrow> nat \<Rightarrow> 'a blk_scheme \<Rightarrow> 'a blk_scheme res" where
  "ll_rw_block ops rw bh s =
     (let major = MAJOR (b_dev (bufs s bh))
      in if major \<ge> NR_BLK_DEV \<or> request_fn ops major = None then Inr s
         else make_request ops major rw bh s)"

definition blk_dev_init :: "'a blk_scheme \<Rightarrow> 'a blk_scheme" where
  "blk_dev_init s = s\<lparr>requests := (\<lambda>i. if i < NR_REQUEST then (requests s i)\<lparr>rq_dev := -1\<rparr>
                                      else requests s i)\<rparr>"

text \<open>\<open>end_request\<close> for the first request of the queue of \<open>major\<close>.\<close>

definition end_request :: "nat \<Rightarrow> bool \<Rightarrow> 'a blk_scheme \<Rightarrow> 'a blk_scheme res" where
  "end_request major uptodate s =
     (case dev_queue s major of
        [] \<Rightarrow> Inl Undefined
      | req # q \<Rightarrow>
          let s = (case rq_bh (requests s req) of
                     None \<Rightarrow> s
                   | Some bh \<Rightarrow> unlock_buffer bh (upd_buf bh (b_uptodate_update (\<lambda>_. uptodate)) s))
          in Inr (s\<lparr>requests := (requests s)(req := (requests s req)\<lparr>rq_dev := -1\<rparr>),
                   dev_queue := (dev_queue s)(major := q)\<rparr>))"

section \<open>The RAM disk\<close>

definition rd_bytes :: "nat \<Rightarrow> nat \<Rightarrow> 'a blk_scheme \<Rightarrow> u8 list" where
  "rd_bytes off n s = map (rd_start s) [off..<off + n]"

definition rd_store :: "nat \<Rightarrow> u8 list \<Rightarrow> 'a blk_scheme \<Rightarrow> 'a blk_scheme" where
  "rd_store off bs s = s\<lparr>rd_start := (\<lambda>a. if off \<le> a \<and> a < off + length bs then bs ! (a - off)
                                          else rd_start s a)\<rparr>"

text \<open>One turn of \<open>do_rd_request\<close> on the first request, and the loop.\<close>

definition rd_request :: "nat \<Rightarrow> 'a blk_scheme \<Rightarrow> 'a blk_scheme res" where
  "rd_request req s =
     (let r = requests s req;
          addr = unat (push_bit 9 (rq_sector r));
          len = unat (push_bit 9 (rq_nr_sectors r))
      in if rq_dev r div 256 \<noteq> 1 then Inl (Panic ''ramdisk: request list destroyed'')
         else case rq_bh r of
           None \<Rightarrow> Inl Undefined
         | Some bh \<Rightarrow>
             if \<not> b_lock (bufs s bh) then Inl (Panic ''ramdisk: block not locked'')
             else if rq_dev r mod 256 \<noteq> 1 \<or> addr + len > rd_length s then end_request 1 False s
             else if rq_cmd r = WRITE
             then end_request 1 True (rd_store addr (take len (drop (rq_buffer r) (b_data (bufs s bh)))) s)
             else if rq_cmd r = READ
             then end_request 1 True (upd_buf bh (b_data_update (\<lambda>d.
                      take (rq_buffer r) d @ rd_bytes addr len s @ drop (rq_buffer r + len) d)) s)
             else Inl (Panic ''unknown ramdisk-command''))"

partial_function (option) rd_loop :: "'a blk_scheme \<Rightarrow> 'a blk_scheme res option" where
  "rd_loop s =
     (case dev_queue s 1 of
        [] \<Rightarrow> Some (Inr s)
      | req # q \<Rightarrow>
          case rd_request req s of Inl e \<Rightarrow> Some (Inl e) | Inr s \<Rightarrow> rd_loop s)"

definition returns :: "'a res option \<Rightarrow> 'a res" where
  "returns r = (case r of None \<Rightarrow> Inl Diverges | Some x \<Rightarrow> x)"

definition do_rd_request :: "'a blk_scheme \<Rightarrow> 'a blk_scheme res" where
  "do_rd_request s = returns (rd_loop s)"

definition rd_init :: "nat \<Rightarrow> 'a blk_scheme \<Rightarrow> 'a blk_scheme" where
  "rd_init n s = s\<lparr>rd_length := n, rd_start := (\<lambda>a. if a < n then 0 else rd_start s a)\<rparr>"

text \<open>A kernel whose only block device is the RAM disk, with nothing in core to write back.\<close>

definition rd_ops :: "'a blk_ops" where
  "rd_ops = \<lparr>request_fn = (\<lambda>m. if m = 1 then Some do_rd_request else None),
     sync_inodes_of = Inr\<rparr>"

end
