(* ===== verification/Buffer.thy ===== *)
theory Buffer
  imports Block
begin

text \<open>
  \<^verbatim>\<open>fs/buffer.c\<close>: the buffer cache. Every buffer is in the free list, whether in use or not, in
  the order in which it was last given a block; a buffer with a device is also in the hash
  chain of its block. Putting a buffer into an empty chain, the code stores through a null
  pointer: the model keeps that store in \<open>null_b_prev\<close>.
\<close>

section \<open>Waiting, writing back and forgetting\<close>

abbreviation (input) NR_HASH :: nat where "NR_HASH \<equiv> 307"

definition wait_on_buffer :: "nat \<Rightarrow> 'a blk_scheme \<Rightarrow> 'a blk_scheme res" where
  "wait_on_buffer bh s = (if b_lock (bufs s bh) then Inl Sleeps else Inr s)"

fun sync_all :: "'a blk_ops \<Rightarrow> nat list \<Rightarrow> 'a blk_scheme \<Rightarrow> 'a blk_scheme res" where
  "sync_all ops [] s = Inr s"
| "sync_all ops (i # is) s =
     kbind (wait_on_buffer i s) (\<lambda>s.
       kbind (if b_dirt (bufs s i) then ll_rw_block ops WRITE i s else Inr s) (sync_all ops is))"

definition sys_sync :: "'a blk_ops \<Rightarrow> 'a blk_scheme \<Rightarrow> 'a blk_scheme res" where
  "sys_sync ops s = kbind (sync_inodes_of ops s) (\<lambda>s. sync_all ops [0..<nr_buffers s] s)"

fun sync_some :: "'a blk_ops \<Rightarrow> u16 \<Rightarrow> nat list \<Rightarrow> 'a blk_scheme \<Rightarrow> 'a blk_scheme res" where
  "sync_some ops dev [] s = Inr s"
| "sync_some ops dev (i # is) s =
     (if b_dev (bufs s i) \<noteq> dev then sync_some ops dev is s
      else kbind (wait_on_buffer i s) (\<lambda>s.
        kbind (if b_dev (bufs s i) = dev \<and> b_dirt (bufs s i) then ll_rw_block ops WRITE i s else Inr s)
          (sync_some ops dev is)))"

definition sync_dev :: "'a blk_ops \<Rightarrow> u16 \<Rightarrow> 'a blk_scheme \<Rightarrow> 'a blk_scheme res" where
  "sync_dev ops dev s =
     kbind (sync_some ops dev [0..<nr_buffers s] s) (\<lambda>s.
       kbind (sync_inodes_of ops s) (\<lambda>s. sync_some ops dev [0..<nr_buffers s] s))"

fun invalidate :: "u16 \<Rightarrow> nat list \<Rightarrow> 'a blk_scheme \<Rightarrow> 'a blk_scheme res" where
  "invalidate dev [] s = Inr s"
| "invalidate dev (i # is) s =
     (if b_dev (bufs s i) \<noteq> dev then invalidate dev is s
      else kbind (wait_on_buffer i s) (\<lambda>s.
        invalidate dev is
          (if b_dev (bufs s i) = dev
           then upd_buf i (\<lambda>b. b\<lparr>b_uptodate := False, b_dirt := False\<rparr>) s else s)))"

definition invalidate_buffers :: "u16 \<Rightarrow> 'a blk_scheme \<Rightarrow> 'a blk_scheme res" where
  "invalidate_buffers dev s = invalidate dev [0..<nr_buffers s] s"

text \<open>\<open>changed\<close>, \<open>put_supers\<close> and \<open>invalidate_inodes\<close> are the floppy driver's and the file system's.\<close>

definition check_disk_change ::
    "(nat \<Rightarrow> bool) \<Rightarrow> (u16 \<Rightarrow> 'a blk_scheme \<Rightarrow> 'a blk_scheme res) \<Rightarrow>
     (u16 \<Rightarrow> 'a blk_scheme \<Rightarrow> 'a blk_scheme res) \<Rightarrow> u16 \<Rightarrow> 'a blk_scheme \<Rightarrow> 'a blk_scheme res" where
  "check_disk_change changed put_supers invalidate_inodes dev s =
     (if MAJOR dev \<noteq> 2 then Inr s
      else if \<not> changed (unat dev mod 4) then Inr s
      else kbind (put_supers dev s) (\<lambda>s.
        kbind (invalidate_inodes dev s) (invalidate_buffers dev)))"

section \<open>The queues\<close>

definition hashfn :: "u16 \<Rightarrow> u32 \<Rightarrow> nat" where
  "hashfn dev block = unat (ucast dev XOR block) mod NR_HASH"

definition hash_of :: "buffer_head \<Rightarrow> nat" where
  "hash_of b = hashfn (b_dev b) (b_blocknr b)"

definition remove_from_queues :: "nat \<Rightarrow> 'a blk_scheme \<Rightarrow> 'a blk_scheme res" where
  "remove_from_queues bh s =
     (if bh \<notin> set (free_list s) then Inl (Panic ''Free block list corrupted'')
      else let h = hash_of (bufs s bh)
           in Inr (s\<lparr>hash_table := (hash_table s)(h := remove1 bh (hash_table s h)),
                    free_list := remove1 bh (free_list s)\<rparr>))"

definition insert_into_queues :: "nat \<Rightarrow> 'a blk_scheme \<Rightarrow> 'a blk_scheme" where
  "insert_into_queues bh s =
     (let s = s\<lparr>free_list := free_list s @ [bh]\<rparr>
      in if b_dev (bufs s bh) = 0 then s
         else let h = hash_of (bufs s bh)
              in s\<lparr>null_b_prev := if hash_table s h = [] then Some bh else null_b_prev s,
                  hash_table := (hash_table s)(h := bh # hash_table s h)\<rparr>)"

definition holds :: "u16 \<Rightarrow> u32 \<Rightarrow> buffer_head \<Rightarrow> bool" where
  "holds dev block b \<longleftrightarrow> b_dev b = dev \<and> b_blocknr b = block"

definition find_buffer :: "u16 \<Rightarrow> u32 \<Rightarrow> 'a blk_scheme \<Rightarrow> nat option" where
  "find_buffer dev block s =
     find (\<lambda>i. holds dev block (bufs s i)) (hash_table s (hashfn dev block))"

section \<open>Getting a buffer\<close>

partial_function (option) get_hash_loop :: "u16 \<Rightarrow> u32 \<Rightarrow> 'a blk_scheme \<Rightarrow> (nat option \<times> 'a blk_scheme) res option" where
  "get_hash_loop dev block s =
     (case find_buffer dev block s of
        None \<Rightarrow> Some (Inr (None, s))
      | Some bh \<Rightarrow>
          case wait_on_buffer bh (upd_buf bh (b_count_update (\<lambda>c. c + 1)) s) of
            Inl e \<Rightarrow> Some (Inl e)
          | Inr s \<Rightarrow>
              if holds dev block (bufs s bh) then Some (Inr (Some bh, s))
              else get_hash_loop dev block (upd_buf bh (b_count_update (\<lambda>c. c - 1)) s))"

definition get_hash_table :: "u16 \<Rightarrow> u32 \<Rightarrow> 'a blk_scheme \<Rightarrow> (nat option \<times> 'a blk_scheme) res" where
  "get_hash_table dev block s = returns (get_hash_loop dev block s)"

definition BADNESS :: "buffer_head \<Rightarrow> nat" where
  "BADNESS b = 2 * of_bool (b_dirt b) + of_bool (b_lock b)"

text \<open>The scan of the free list for an unused buffer, the best so far in \<open>bh\<close>.\<close>

fun pick_buffer :: "(nat \<Rightarrow> buffer_head) \<Rightarrow> nat list \<Rightarrow> nat option \<Rightarrow> nat option" where
  "pick_buffer bs [] bh = bh"
| "pick_buffer bs (tmp # is) bh =
     (if b_count (bs tmp) \<noteq> 0 then pick_buffer bs is bh
      else case bh of
        None \<Rightarrow> if BADNESS (bs tmp) = 0 then Some tmp else pick_buffer bs is (Some tmp)
      | Some b \<Rightarrow>
          if BADNESS (bs tmp) < BADNESS (bs b)
          then if BADNESS (bs tmp) = 0 then Some tmp else pick_buffer bs is (Some tmp)
          else pick_buffer bs is bh)"

text \<open>\<open>while (bh->b_dirt)\<close>: whether the whole search starts again.\<close>

partial_function (option) clean_buffer :: "'a blk_ops \<Rightarrow> nat \<Rightarrow> 'a blk_scheme \<Rightarrow> (bool \<times> 'a blk_scheme) res option" where
  "clean_buffer ops bh s =
     (if \<not> b_dirt (bufs s bh) then Some (Inr (False, s))
      else case kbind (sync_dev ops (b_dev (bufs s bh)) s) (wait_on_buffer bh) of
             Inl e \<Rightarrow> Some (Inl e)
           | Inr s \<Rightarrow>
               if b_count (bufs s bh) \<noteq> 0 then Some (Inr (True, s)) else clean_buffer ops bh s)"

text \<open>The end of \<open>getblk\<close>: the buffer, unused and clean, is given the block.\<close>

definition claim_buffer :: "nat \<Rightarrow> u16 \<Rightarrow> u32 \<Rightarrow> 'a blk_scheme \<Rightarrow> 'a blk_scheme res" where
  "claim_buffer bh dev block s =
     (let s = upd_buf bh (\<lambda>b. b\<lparr>b_count := 1, b_dirt := False, b_uptodate := False\<rparr>) s
      in kbind (remove_from_queues bh s) (\<lambda>s.
           Inr (insert_into_queues bh (upd_buf bh (\<lambda>b. b\<lparr>b_dev := dev, b_blocknr := block\<rparr>) s))))"

partial_function (option) getblk_loop :: "'a blk_ops \<Rightarrow> u16 \<Rightarrow> u32 \<Rightarrow> 'a blk_scheme \<Rightarrow> (nat \<times> 'a blk_scheme) res option" where
  "getblk_loop ops dev block s =
     (case get_hash_table dev block s of
        Inl e \<Rightarrow> Some (Inl e)
      | Inr (found, s) \<Rightarrow>
          case found of
            Some bh \<Rightarrow> Some (Inr (bh, s))
          | None \<Rightarrow>
              case pick_buffer (bufs s) (free_list s) None of
                None \<Rightarrow> Some (Inl Sleeps)
              | Some bh \<Rightarrow>
                  case wait_on_buffer bh s of
                    Inl e \<Rightarrow> Some (Inl e)
                  | Inr s \<Rightarrow>
                      if b_count (bufs s bh) \<noteq> 0 then getblk_loop ops dev block s
                      else case clean_buffer ops bh s of
                             None \<Rightarrow> None
                           | Some r \<Rightarrow>
                               case r of
                                 Inl e \<Rightarrow> Some (Inl e)
                               | Inr (again, s) \<Rightarrow>
                                   if again \<or> find_buffer dev block s \<noteq> None
                                   then getblk_loop ops dev block s
                                   else Some (kbind (claim_buffer bh dev block s) (\<lambda>s. Inr (bh, s))))"

declare rd_loop.simps [code] get_hash_loop.simps [code] clean_buffer.simps [code]
  getblk_loop.simps [code]

definition getblk :: "'a blk_ops \<Rightarrow> u16 \<Rightarrow> u32 \<Rightarrow> 'a blk_scheme \<Rightarrow> (nat \<times> 'a blk_scheme) res" where
  "getblk ops dev block s = returns (getblk_loop ops dev block s)"

definition brelse :: "nat \<Rightarrow> 'a blk_scheme \<Rightarrow> 'a blk_scheme res" where
  "brelse bh s =
     kbind (wait_on_buffer bh s) (\<lambda>s.
       if b_count (bufs s bh) = 0 then Inl (Panic ''Trying to free free buffer'')
       else Inr (upd_buf bh (b_count_update (\<lambda>c. c - 1)) s))"

section \<open>Reading blocks\<close>

definition wait_uptodate :: "nat \<Rightarrow> 'a blk_scheme \<Rightarrow> (nat option \<times> 'a blk_scheme) res" where
  "wait_uptodate bh s =
     kbind (wait_on_buffer bh s) (\<lambda>s.
       if b_uptodate (bufs s bh) then Inr (Some bh, s)
       else kbind (brelse bh s) (\<lambda>s. Inr (None, s)))"

definition bread :: "'a blk_ops \<Rightarrow> u16 \<Rightarrow> u32 \<Rightarrow> 'a blk_scheme \<Rightarrow> (nat option \<times> 'a blk_scheme) res" where
  "bread ops dev block s =
     kbind (getblk ops dev block s) (\<lambda>(bh, s).
       if b_uptodate (bufs s bh) then Inr (Some bh, s)
       else kbind (ll_rw_block ops READ bh s) (wait_uptodate bh))"

text \<open>\<open>bread_page\<close>: the blocks that could be read, each with its place in the page.\<close>

fun start_reads :: "'a blk_ops \<Rightarrow> u16 \<Rightarrow> u32 list \<Rightarrow> 'a blk_scheme \<Rightarrow> (nat option list \<times> 'a blk_scheme) res" where
  "start_reads ops dev [] s = Inr ([], s)"
| "start_reads ops dev (b # bs) s =
     (if b = 0 then kbind (start_reads ops dev bs s) (\<lambda>(hs, s). Inr (None # hs, s))
      else kbind (getblk ops dev b s) (\<lambda>(bh, s).
        kbind (if b_uptodate (bufs s bh) then Inr s else ll_rw_block ops READ bh s) (\<lambda>s.
          kbind (start_reads ops dev bs s) (\<lambda>(hs, s). Inr (Some bh # hs, s)))))"

fun copy_reads :: "nat option list \<Rightarrow> nat \<Rightarrow> 'a blk_scheme \<Rightarrow> ((nat \<times> u8 list) list \<times> 'a blk_scheme) res" where
  "copy_reads [] i s = Inr ([], s)"
| "copy_reads (None # hs) i s = copy_reads hs (Suc i) s"
| "copy_reads (Some bh # hs) i s =
     kbind (wait_on_buffer bh s) (\<lambda>s.
       let out = (if b_uptodate (bufs s bh) then [(1024 * i, b_data (bufs s bh))] else [])
       in kbind (brelse bh s) (\<lambda>s.
            kbind (copy_reads hs (Suc i) s) (\<lambda>(later, s). Inr (out @ later, s))))"

definition bread_page ::
    "'a blk_ops \<Rightarrow> u16 \<Rightarrow> u32 list \<Rightarrow> 'a blk_scheme \<Rightarrow> ((nat \<times> u8 list) list \<times> 'a blk_scheme) res" where
  "bread_page ops dev b s = kbind (start_reads ops dev b s) (\<lambda>(hs, s). copy_reads hs 0 s)"

text \<open>\<open>breada\<close> reads ahead: the loop over the further blocks, with the first block's buffer \<open>bh\<close>.\<close>

fun read_ahead :: "'a blk_ops \<Rightarrow> u16 \<Rightarrow> nat \<Rightarrow> u32 list \<Rightarrow> 'a blk_scheme \<Rightarrow> 'a blk_scheme res" where
  "read_ahead ops dev bh [] s = Inr s"
| "read_ahead ops dev bh (b # bs) s =
     kbind (getblk ops dev b s) (\<lambda>(tmp, s).
       kbind (if b_uptodate (bufs s tmp) then Inr s else ll_rw_block ops READA bh s) (\<lambda>s.
         read_ahead ops dev bh bs (upd_buf tmp (b_count_update (\<lambda>c. c - 1)) s)))"

definition breada :: "'a blk_ops \<Rightarrow> u16 \<Rightarrow> u32 \<Rightarrow> u32 list \<Rightarrow> 'a blk_scheme \<Rightarrow> (nat option \<times> 'a blk_scheme) res" where
  "breada ops dev first ahead s =
     kbind (getblk ops dev first s) (\<lambda>(bh, s).
       kbind (if b_uptodate (bufs s bh) then Inr s else ll_rw_block ops READ bh s) (\<lambda>s.
         kbind (read_ahead ops dev bh ahead s) (wait_uptodate bh)))"

text \<open>
  \<open>buffer_init\<close> with the buffer heads from \<open>start\<close> (20 bytes of fields and 16 of links each) and
  the blocks from \<open>buffer_end\<close> down, skipping the video memory below 1 MB: how many fit.
\<close>

abbreviation (input) BH_SIZE :: nat where "BH_SIZE \<equiv> 36"

function count_buffers :: "nat \<Rightarrow> nat \<Rightarrow> nat" where
  "count_buffers h b =
     (if b < 1024 \<or> b - 1024 < h + BH_SIZE then 0
      else Suc (count_buffers (h + BH_SIZE) (if b - 1024 = 0x100000 then 0xA0000 else b - 1024)))"
  by auto

termination by (relation "measure snd") auto

declare count_buffers.simps [simp del]

definition empty_buffer :: "u8 list \<Rightarrow> buffer_head" where
  "empty_buffer d = \<lparr>b_data = d, b_blocknr = 0, b_dev = 0, b_uptodate = False, b_dirt = False,
     b_count = 0, b_lock = False\<rparr>"

definition buffer_init :: "nat \<Rightarrow> nat \<Rightarrow> 'a blk_scheme \<Rightarrow> 'a blk_scheme" where
  "buffer_init start buffer_end s =
     (let n = count_buffers start (if buffer_end = 0x100000 then 640 * 1024 else buffer_end)
      in s\<lparr>nr_buffers := nr_buffers s + n,
           bufs := (\<lambda>i. if i < n then (empty_buffer (b_data (bufs s i)))
                          \<lparr>b_blocknr := b_blocknr (bufs s i)\<rparr> else bufs s i),
           free_list := [0..<n],
           hash_table := (\<lambda>h. if h < NR_HASH then [] else hash_table s h)\<rparr>)"

end
