(* ===== verification/Buffer_Facts.thy ===== *)
theory Buffer_Facts
  imports Buffer "HOL-Library.Multiset"
begin

text \<open>
  What the block layer promises: the elevator's two sweeps, one buffer per block with consistent
  queues, and a RAM disk that returns what was written to it.
\<close>

section \<open>The elevator\<close>

definition rq_key :: "request \<Rightarrow> int \<times> int \<times> u32" where
  "rq_key r = (rq_cmd r, rq_dev r, rq_sector r)"

lemma IN_ORDER_key: "IN_ORDER r s \<longleftrightarrow> rq_key r < rq_key s"
  by (auto simp: IN_ORDER_def rq_key_def less_prod_def')

fun elevator :: "'a::linorder \<Rightarrow> 'a list \<Rightarrow> 'a list" where
  "elevator r [] = [r]"
| "elevator r [x] = [x, r]"
| "elevator r (x # y # q) =
     (if (x < r \<or> \<not> x < y) \<and> r < y then x # r # y # q else x # elevator r (y # q))"

fun descents :: "'a::linorder list \<Rightarrow> nat" where
  "descents (x # y # q) = (if y < x then 1 else 0) + descents (y # q)"
| "descents q = 0"

lemma map_queue_insert:
  "map (rq_key \<circ> rq) (queue_insert rq req q) = elevator (rq_key (rq req)) (map (rq_key \<circ> rq) q)"
  by (induction rq req q rule: queue_insert.induct) (auto simp: IN_ORDER_key)

lemma elevator_Cons: "\<exists>q'. elevator r (x # q) = x # q'"
  by (cases q) auto

lemma elevator_ascending:
  "descents (y # q) = 0 \<Longrightarrow> y < r \<Longrightarrow> r \<notin> set q \<Longrightarrow> descents (elevator r (y # q)) = 0"
proof (induction q arbitrary: y)
  case (Cons z q)
  obtain q' where q': "elevator r (z # q) = z # q'" using elevator_Cons by blast
  from Cons.prems have "\<not> z < y" "descents (z # q) = 0" by (auto split: if_splits)
  then show ?case
    using Cons.prems Cons.IH [of z] q' by (cases "r < z") (auto simp: not_less)
qed auto

lemma elevator_descents:
  "descents q \<le> 1 \<Longrightarrow> distinct q \<Longrightarrow> r \<notin> set q \<Longrightarrow> descents (elevator r q) \<le> 1"
proof (induction r q rule: elevator.induct)
  case (3 r x y q)
  obtain q' where q': "elevator r (y # q) = y # q'" using elevator_Cons by blast
  have ne: "x \<noteq> y" "r \<noteq> x" "r \<noteq> y" using 3 by auto
  show ?case
  proof (cases "(x < r \<or> \<not> x < y) \<and> r < y")
    case True
    with 3 ne show ?thesis by (auto split: if_splits)
  next
    case False
    show ?thesis
    proof (cases "x < y")
      case True
      then have "descents (elevator r (y # q)) \<le> 1" using 3 False by (auto split: if_splits)
      with False True q' show ?thesis by auto
    next
      case desc: False
      then have "descents (y # q) = 0" "y < r" using 3 ne False by (auto split: if_splits)
      then have "descents (elevator r (y # q)) = 0"
        using 3(4) by (intro elevator_ascending) auto
      with q' show ?thesis using False by auto
    qed
  qed
qed auto

lemma queue_insert_mset: "mset (queue_insert rq req q) = add_mset req (mset q)"
  by (induction rq req q rule: queue_insert.induct) (auto simp: add_mset_commute)

lemma queue_insert_order: "req \<notin> set q \<Longrightarrow> filter (\<lambda>x. x \<noteq> req) (queue_insert rq req q) = q"
  by (induction rq req q rule: queue_insert.induct) (auto simp: filter_id_conv)

lemma queue_insert_hd: "q \<noteq> [] \<Longrightarrow> hd (queue_insert rq req q) = hd q"
  by (induction rq req q rule: queue_insert.induct) auto

section \<open>The cache\<close>

definition cache_wf :: "'a blk_scheme \<Rightarrow> bool" where
  "cache_wf s \<longleftrightarrow> distinct (free_list s) \<and> set (free_list s) = {..<nr_buffers s} \<and>
     (\<forall>h. distinct (hash_table s h)) \<and>
     (\<forall>i h. i \<in> set (hash_table s h) \<longleftrightarrow>
        i < nr_buffers s \<and> b_dev (bufs s i) \<noteq> 0 \<and> hash_of (bufs s i) = h)"

definition cache_unique :: "'a blk_scheme \<Rightarrow> bool" where
  "cache_unique s \<longleftrightarrow> (\<forall>i < nr_buffers s. \<forall>j < nr_buffers s.
     b_dev (bufs s i) \<noteq> 0 \<and> b_dev (bufs s i) = b_dev (bufs s j) \<and>
     b_blocknr (bufs s i) = b_blocknr (bufs s j) \<longrightarrow> i = j)"

definition cache_inv :: "'a blk_scheme \<Rightarrow> bool" where
  "cache_inv s \<longleftrightarrow> cache_wf s \<and> cache_unique s"

text \<open>A step that keeps the blocks the buffers hold and the queues.\<close>

definition same_blocks :: "'a blk_scheme \<Rightarrow> 'a blk_scheme \<Rightarrow> bool" where
  "same_blocks s s' \<longleftrightarrow> nr_buffers s' = nr_buffers s \<and> free_list s' = free_list s \<and>
     hash_table s' = hash_table s \<and>
     (\<forall>i. b_dev (bufs s' i) = b_dev (bufs s i) \<and> b_blocknr (bufs s' i) = b_blocknr (bufs s i))"

lemma same_blocks_refl [simp]: "same_blocks s s"
  by (simp add: same_blocks_def)

lemma same_blocks_trans: "same_blocks s t \<Longrightarrow> same_blocks t u \<Longrightarrow> same_blocks s u"
  by (simp add: same_blocks_def)

lemma same_blocks_inv:
  assumes "same_blocks s s'" and "cache_inv s"
  shows "cache_inv s'"
proof -
  have "cache_wf s'" using assms by (simp add: same_blocks_def cache_inv_def cache_wf_def hash_of_def)
  moreover have "cache_unique s'"
    using assms by (auto simp: same_blocks_def cache_inv_def cache_unique_def)
  ultimately show ?thesis by (simp add: cache_inv_def)
qed

lemma same_blocks_upd:
  "(\<And>b. b_dev (f b) = b_dev b \<and> b_blocknr (f b) = b_blocknr b) \<Longrightarrow> same_blocks s (upd_buf i f s)"
  by (simp add: same_blocks_def upd_buf_def)

lemma find_buffer_Some:
  assumes "cache_wf s" and "find_buffer dev block s = Some bh"
  shows "bh < nr_buffers s \<and> holds dev block (bufs s bh)"
  using assms unfolding find_buffer_def find_Some_iff cache_wf_def by (metis nth_mem)

lemma find_buffer_None:
  assumes "cache_wf s" and "find_buffer dev block s = None" and "dev \<noteq> 0" and "i < nr_buffers s"
  shows "\<not> holds dev block (bufs s i)"
proof
  assume h: "holds dev block (bufs s i)"
  then have "i \<in> set (hash_table s (hashfn dev block))"
    using assms by (simp add: cache_wf_def holds_def hash_of_def)
  with h assms(2) show False unfolding find_buffer_def find_None_iff by blast
qed

lemma claim_buffer_inv:
  assumes I: "cache_inv s" and bh: "bh < nr_buffers s" and dev: "dev \<noteq> 0"
    and new: "find_buffer dev block s = None"
  shows "\<exists>s'. claim_buffer bh dev block s = Inr s' \<and> cache_inv s' \<and> nr_buffers s' = nr_buffers s \<and>
    bufs s' bh = (bufs s bh)\<lparr>b_count := 1, b_dirt := False, b_uptodate := False, b_dev := dev,
                             b_blocknr := block\<rparr> \<and>
    (\<forall>i. i \<noteq> bh \<longrightarrow> bufs s' i = bufs s i)"
proof -
  let ?b = "(bufs s bh)\<lparr>b_count := 1, b_dirt := False, b_uptodate := False\<rparr>"
  let ?b' = "?b\<lparr>b_dev := dev, b_blocknr := block\<rparr>"
  let ?h = "hash_of (bufs s bh)" and ?h' = "hash_of ?b'"
  let ?t = "(hash_table s)(?h := remove1 bh (hash_table s ?h))"
  define s' where "s' = s\<lparr>bufs := (bufs s)(bh := ?b'), free_list := remove1 bh (free_list s) @ [bh],
    null_b_prev := if ?t ?h' = [] then Some bh else null_b_prev s,
    hash_table := ?t(?h' := bh # ?t ?h')\<rparr>"
  have wf: "cache_wf s" and un: "cache_unique s" using I by (auto simp: cache_inv_def)
  have mem: "bh \<in> set (free_list s)" using wf bh by (simp add: cache_wf_def)
  have run: "claim_buffer bh dev block s = Inr s'"
    using mem dev
    by (simp add: claim_buffer_def upd_buf_def remove_from_queues_def insert_into_queues_def Let_def
        hash_of_def s'_def)
  have in_hash: "i \<in> set (hash_table s h) \<longleftrightarrow>
      i < nr_buffers s \<and> b_dev (bufs s i) \<noteq> 0 \<and> hash_of (bufs s i) = h" for i h
    using wf by (simp add: cache_wf_def)
  have dh: "distinct (hash_table s h)" for h using wf by (simp add: cache_wf_def)
  have t: "set (?t h) = set (hash_table s h) - {bh}" "distinct (?t h)" for h
  proof -
    show "set (?t h) = set (hash_table s h) - {bh}"
      using dh [of h] in_hash [of bh h] by (cases "h = ?h") auto
    show "distinct (?t h)" using dh [of h] by (cases "h = ?h") (auto simp: distinct_remove1)
  qed
  have "cache_wf s'"
    unfolding cache_wf_def
  proof (intro conjI allI)
    show "distinct (free_list s')" "set (free_list s') = {..<nr_buffers s'}"
      using wf mem bh by (auto simp: s'_def cache_wf_def distinct_remove1)
    show "distinct (hash_table s' h)" for h
      using t [of h] by (cases "h = ?h'") (simp_all add: s'_def del: fun_upd_apply, simp_all)
    show "i \<in> set (hash_table s' h) \<longleftrightarrow>
        i < nr_buffers s' \<and> b_dev (bufs s' i) \<noteq> 0 \<and> hash_of (bufs s' i) = h" for i h
    proof -
      have "set (hash_table s' h) = (if h = ?h' then {bh} else {}) \<union> (set (hash_table s h) - {bh})"
        using t(1) [of h] by (cases "h = ?h'") (simp_all add: s'_def del: fun_upd_apply, simp_all)
      then show ?thesis
        using in_hash [of i h] dev bh by (cases "i = bh") (auto simp: s'_def)
    qed
  qed
  moreover have "cache_unique s'"
    using un find_buffer_None [OF wf new dev] unfolding cache_unique_def holds_def
    by (auto simp: s'_def)
  ultimately show ?thesis
    using run by (intro exI [of _ s']) (simp add: cache_inv_def s'_def)
qed

definition keeps :: "'a blk_scheme \<Rightarrow> 'a blk_scheme \<Rightarrow> bool" where
  "keeps s s' \<longleftrightarrow> (cache_inv s \<longrightarrow> cache_inv s') \<and> nr_buffers s' = nr_buffers s"

definition ops_ok :: "'a blk_ops \<Rightarrow> bool" where
  "ops_ok ops \<longleftrightarrow> (\<forall>m f s s'. request_fn ops m = Some f \<longrightarrow> f s = Inr s' \<longrightarrow> keeps s s') \<and>
     (\<forall>s s'. sync_inodes_of ops s = Inr s' \<longrightarrow> keeps s s')"

lemma keeps_refl [simp]: "keeps s s"
  by (simp add: keeps_def)

lemma keeps_trans: "keeps s t \<Longrightarrow> keeps t u \<Longrightarrow> keeps s u"
  by (simp add: keeps_def)

lemma same_blocks_keeps: "same_blocks s s' \<Longrightarrow> keeps s s'"
  using same_blocks_inv by (auto simp: keeps_def same_blocks_def)

lemma keeps_upd: "(\<And>b. b_dev (f b) = b_dev b \<and> b_blocknr (f b) = b_blocknr b) \<Longrightarrow> keeps s (upd_buf i f s)"
  by (rule same_blocks_keeps) (rule same_blocks_upd)

lemma wait_on_buffer_Inr: "wait_on_buffer bh s = Inr s' \<longleftrightarrow> s' = s \<and> \<not> b_lock (bufs s bh)"
  by (auto simp: wait_on_buffer_def)

lemma add_request_keeps:
  assumes "ops_ok ops" and "add_request ops dev req s = Inr s'"
  shows "keeps s s'"
proof -
  define s1 where "s1 = (case rq_bh (requests s req) of
     None \<Rightarrow> s | Some bh \<Rightarrow> upd_buf bh (b_dirt_update (\<lambda>_. False)) s)"
  have k: "keeps s s1" by (auto simp: s1_def keeps_upd split: option.splits)
  have q: "keeps s1 (s1\<lparr>dev_queue := q\<rparr>)" for q
    by (rule same_blocks_keeps) (simp add: same_blocks_def)
  show ?thesis
  proof (cases "dev_queue s1 dev = []")
    case True
    then obtain f where "request_fn ops dev = Some f"
      "f (s1\<lparr>dev_queue := (dev_queue s1)(dev := [req])\<rparr>) = Inr s'"
      using assms(2) by (auto simp: add_request_def s1_def [symmetric] Let_def split: option.splits)
    then have "keeps (s1\<lparr>dev_queue := (dev_queue s1)(dev := [req])\<rparr>) s'"
      using assms(1) unfolding ops_ok_def by blast
    with k q show ?thesis by (blast intro: keeps_trans)
  next
    case False
    then have "s' = s1\<lparr>dev_queue := (dev_queue s1)(dev := queue_insert (requests s1) req (dev_queue s1 dev))\<rparr>"
      using assms(2) by (simp add: add_request_def s1_def [symmetric] Let_def)
    with k q show ?thesis by (metis keeps_trans)
  qed
qed

lemma make_request_keeps:
  assumes "ops_ok ops" and "make_request ops m rw bh s = Inr s'"
  shows "keeps s s'"
proof (cases "s' = s")
  case False
  define s1 where "s1 = upd_buf bh (b_lock_update (\<lambda>_. True)) s"
  have k: "keeps s s1" by (simp add: s1_def keeps_upd)
  have u: "keeps s1 (unlock_buffer bh s1)" by (simp add: unlock_buffer_def keeps_upd)
  have r: "keeps s1 (s1\<lparr>requests := x\<rparr>)" for x
    by (rule same_blocks_keeps) (simp add: same_blocks_def)
  have "s' = unlock_buffer bh s1 \<or> (\<exists>req x. add_request ops m req (s1\<lparr>requests := x\<rparr>) = Inr s')"
    using assms(2) False
    by (auto simp: make_request_def lock_buffer_def s1_def [symmetric] Let_def
        split: if_splits option.splits)
  with k u r add_request_keeps [OF assms(1)] show ?thesis by (metis keeps_trans)
qed simp

lemma ll_rw_block_keeps: "ops_ok ops \<Longrightarrow> ll_rw_block ops rw bh s = Inr s' \<Longrightarrow> keeps s s'"
  using make_request_keeps by (auto simp: ll_rw_block_def Let_def split: if_splits)

lemma sync_some_keeps: "ops_ok ops \<Longrightarrow> sync_some ops dev is s = Inr s' \<Longrightarrow> keeps s s'"
proof (induction "is" arbitrary: s)
  case (Cons i "is")
  show ?case
  proof (cases "b_dev (bufs s i) = dev")
    case False
    with Cons show ?thesis by simp
  next
    case True
    then obtain t where "(if b_dirt (bufs s i) then ll_rw_block ops WRITE i s else Inr s) = Inr t"
      "sync_some ops dev is t = Inr s'"
      using Cons.prems(2) by (auto simp: wait_on_buffer_Inr elim!: kbind_InrE)
    then have "keeps s t" "keeps t s'"
      using Cons ll_rw_block_keeps by (auto split: if_splits)
    then show ?thesis by (rule keeps_trans)
  qed
qed simp

lemma sync_dev_keeps: 
  assumes "ops_ok ops" and "sync_dev ops dev s = Inr s'"
  shows "keeps s s'"
proof -
  obtain t u where "sync_some ops dev [0..<nr_buffers s] s = Inr t"
    "sync_inodes_of ops t = Inr u" "sync_some ops dev [0..<nr_buffers u] u = Inr s'"
    using assms(2) by (auto simp: sync_dev_def elim!: kbind_InrE)
  then have "keeps s t" "keeps t u" "keeps u s'"
    using sync_some_keeps [OF assms(1)] assms(1) unfolding ops_ok_def by blast+
  then show ?thesis by (blast intro: keeps_trans)
qed

lemma clean_buffer_keeps:
  assumes ok: "ops_ok ops" and run: "clean_buffer ops bh s = Some (Inr (again, s'))"
  shows "keeps s s'"
proof -
  let ?P = "\<lambda>ops bh s (r :: (bool \<times> 'a blk_scheme) res). ops_ok ops \<longrightarrow> (\<forall>a s'. r = Inr (a, s') \<longrightarrow> keeps s s')"
  have "?P ops bh s (Inr (again, s'))"
  proof (rule clean_buffer.raw_induct [where P = ?P, OF _ run])
    fix f :: "'a blk_ops \<Rightarrow> nat \<Rightarrow> 'a blk_scheme \<Rightarrow> (bool \<times> 'a blk_scheme) res option" and ops bh s r
    assume IH: "\<And>ops bh s r. f ops bh s = Some r \<Longrightarrow> ?P ops bh s r"
      and body: "(if \<not> b_dirt (bufs s bh) then Some (Inr (False, s))
      else case kbind (sync_dev ops (b_dev (bufs s bh)) s) (wait_on_buffer bh) of
             Inl e \<Rightarrow> Some (Inl e)
           | Inr s \<Rightarrow>
               if b_count (bufs s bh) \<noteq> 0 then Some (Inr (True, s)) else f ops bh s) = Some r"
    show "?P ops bh s r"
    proof (intro impI allI)
      fix a s' assume ok: "ops_ok ops" and r: "r = Inr (a, s')"
      show "keeps s s'"
      proof (cases "b_dirt (bufs s bh)")
        case False
        with body r show ?thesis by simp
      next
        case True
        with body r obtain t where t: "kbind (sync_dev ops (b_dev (bufs s bh)) s) (wait_on_buffer bh) = Inr t"
          and rest: "(if b_count (bufs t bh) \<noteq> 0 then Some (Inr (True, t)) else f ops bh t) = Some r"
          by (auto split: sum.split_asm)
        from t have "keeps s t"
          by (auto elim!: kbind_InrE simp: wait_on_buffer_Inr intro: sync_dev_keeps [OF ok])
        moreover have "keeps t s'"
          using rest r IH ok by (auto split: if_split_asm)
        ultimately show ?thesis by (rule keeps_trans)
      qed
    qed
  qed
  with ok show ?thesis by simp
qed

text \<open>A hit: the buffer found holds the block, and one more use is counted.\<close>

lemma get_hash_table_cases:
  assumes "get_hash_table dev block s = Inr (found, s')"
  shows "(find_buffer dev block s = None \<and> found = None \<and> s' = s) \<or>
    (\<exists>bh. find_buffer dev block s = Some bh \<and> found = Some bh \<and>
          s' = upd_buf bh (b_count_update (\<lambda>c. c + 1)) s)"
proof (cases "find_buffer dev block s")
  case None
  with assms show ?thesis
    by (subst (asm) get_hash_table_def, subst (asm) get_hash_loop.simps) (simp add: returns_def)
next
  case (Some bh)
  then have "holds dev block (bufs s bh)"
    unfolding find_buffer_def find_Some_iff by metis
  then have h: "holds dev block (bufs (upd_buf bh (b_count_update (\<lambda>c. c + 1)) s) bh)"
    by (simp add: holds_def upd_buf_def)
  show ?thesis
    using assms Some h
    by (subst (asm) get_hash_table_def, subst (asm) get_hash_loop.simps)
      (auto simp: returns_def wait_on_buffer_def split: if_split_asm)
qed

lemma pick_buffer_in:
  "pick_buffer bs is acc = Some bh \<Longrightarrow> bh \<in> set is \<or> acc = Some bh"
  by (induction bs "is" acc rule: pick_buffer.induct) (auto split: if_split_asm option.split_asm)

lemma getblk_spec:
  assumes ok: "ops_ok ops" and dev: "dev \<noteq> 0" and I: "cache_inv s"
    and run: "getblk ops dev block s = Inr (bh, s')"
  shows "cache_inv s' \<and> nr_buffers s' = nr_buffers s \<and> bh < nr_buffers s \<and>
    holds dev block (bufs s' bh)"
proof -
  let ?Q = "\<lambda>s dev block bh s'. cache_inv s' \<and> nr_buffers s' = nr_buffers s \<and> bh < nr_buffers s \<and>
    holds dev block (bufs s' bh)"
  let ?P = "\<lambda>ops dev block s (r :: (nat \<times> 'a blk_scheme) res). ops_ok ops \<longrightarrow> dev \<noteq> 0 \<longrightarrow> cache_inv s \<longrightarrow>
    (\<forall>bh s'. r = Inr (bh, s') \<longrightarrow> ?Q s dev block bh s')"
  have r: "getblk_loop ops dev block s = Some (Inr (bh, s'))"
    using run by (auto simp: getblk_def returns_def split: option.split_asm)
  have "?P ops dev block s (Inr (bh, s'))"
  proof (rule getblk_loop.raw_induct [where P = ?P, OF _ r])
    fix f :: "'a blk_ops \<Rightarrow> u16 \<Rightarrow> u32 \<Rightarrow> 'a blk_scheme \<Rightarrow> (nat \<times> 'a blk_scheme) res option" and ops dev block s r
    assume IH: "\<And>ops dev block s r. f ops dev block s = Some r \<Longrightarrow> ?P ops dev block s r"
      and body: "(case get_hash_table dev block s of
        Inl e \<Rightarrow> Some (Inl e)
      | Inr (found, s) \<Rightarrow>
          case found of
            Some bh \<Rightarrow> Some (Inr (bh, s))
          | None \<Rightarrow>
              case pick_buffer (bufs s) (free_list s) None of
                None \<Rightarrow> Some (Inl Sleeps)
              | Some bh \<Rightarrow>
                  case wait_on_buffer bh s of
                    Inl e \<Rightarrow> Some (Inl e)
                  | Inr s \<Rightarrow>
                      if b_count (bufs s bh) \<noteq> 0 then f ops dev block s
                      else case clean_buffer ops bh s of
                             None \<Rightarrow> None
                           | Some r \<Rightarrow>
                               case r of
                                 Inl e \<Rightarrow> Some (Inl e)
                               | Inr (again, s) \<Rightarrow>
                                   if again \<or> find_buffer dev block s \<noteq> None
                                   then f ops dev block s
                                   else Some (kbind (claim_buffer bh dev block s) (\<lambda>s. Inr (bh, s)))) = Some r"
    show "?P ops dev block s r"
    proof (intro impI allI)
      fix bh s' assume ok: "ops_ok ops" and dev: "dev \<noteq> 0" and I: "cache_inv s" and r: "r = Inr (bh, s')"
      have wf: "cache_wf s" using I by (simp add: cache_inv_def)
      from body r obtain found t where g: "get_hash_table dev block s = Inr (found, t)"
        by (auto split: sum.split_asm)
      from get_hash_table_cases [OF g] show "?Q s dev block bh s'"
      proof (elim disjE exE conjE)
        fix b assume b: "find_buffer dev block s = Some b" "found = Some b"
          "t = upd_buf b (b_count_update (\<lambda>c. c + 1)) s"
        have "keeps s t" using b by (simp add: keeps_upd)
        moreover have "bh = b" "s' = t" using body r g b by auto
        moreover have "b < nr_buffers s" "holds dev block (bufs t b)"
          using find_buffer_Some [OF wf b(1)] b(3) by (auto simp: holds_def upd_buf_def)
        ultimately show ?thesis using I by (auto simp: keeps_def)
      next
        assume n: "find_buffer dev block s = None" "found = None" "t = s"
        from body r g n obtain b where p: "pick_buffer (bufs s) (free_list s) None = Some b"
          and w: "wait_on_buffer b s = Inr s"
          by (auto split: option.split_asm sum.split_asm simp: wait_on_buffer_Inr)
        have bb: "b < nr_buffers s"
          using pick_buffer_in [OF p] wf by (auto simp: cache_wf_def)
        show ?thesis
        proof (cases "b_count (bufs s b) \<noteq> 0")
          case True
          then have "f ops dev block s = Some r" using body g n p w by simp
          with IH ok dev I r show ?thesis by blast
        next
          case False
          with body r g n p w obtain again u where cl: "clean_buffer ops b s = Some (Inr (again, u))"
            and rest: "(if again \<or> find_buffer dev block u \<noteq> None then f ops dev block u
               else Some (kbind (claim_buffer b dev block u) (\<lambda>s. Inr (b, s)))) = Some r"
            by (auto split: option.split_asm sum.split_asm)
          have "keeps s u" using ok cl by (rule clean_buffer_keeps)
          with I have u: "cache_inv u" "nr_buffers u = nr_buffers s" by (auto simp: keeps_def)
          show ?thesis
          proof (cases "again \<or> find_buffer dev block u \<noteq> None")
            case True
            then have "f ops dev block u = Some r" using rest by simp
            with IH ok dev u r show ?thesis by metis
          next
            case False
            then have "find_buffer dev block u = None" by simp
            from claim_buffer_inv [OF u(1) _ dev this, of b] bb u obtain v
              where v: "claim_buffer b dev block u = Inr v" "cache_inv v" "nr_buffers v = nr_buffers u"
                "holds dev block (bufs v b)"
              by (auto simp: holds_def)
            with False rest r have "bh = b" "s' = v" by auto
            with v u bb show ?thesis by simp
          qed
        qed
      qed
    qed
  qed
  with ok dev I show ?thesis by simp
qed

section \<open>The RAM disk\<close>

lemma end_request_spec:
  "dev_queue s m = req # q \<Longrightarrow> \<exists>s'. end_request m up s = Inr s' \<and> same_blocks s s' \<and>
     dev_queue s' = (dev_queue s)(m := q) \<and> rd_start s' = rd_start s \<and> rd_length s' = rd_length s"
  by (auto simp: end_request_def same_blocks_def unlock_buffer_def upd_buf_def Let_def split: option.split)

lemma rd_request_queue:
  assumes "dev_queue s 1 = req # q" and "rd_request req s = Inr s'"
  shows "same_blocks s s' \<and> dev_queue s' 1 = q"
proof -
  have "\<exists>t up. same_blocks s t \<and> dev_queue t = dev_queue s \<and> end_request 1 up t = Inr s'"
  proof -
    have id: "same_blocks s (rd_store off bs s)" "dev_queue (rd_store off bs s) = dev_queue s" for off bs
      by (simp_all add: rd_store_def same_blocks_def)
    have up: "same_blocks s (upd_buf b (b_data_update f) s)"
      "dev_queue (upd_buf b (b_data_update f) s) = dev_queue s" for b f
      by (simp_all add: same_blocks_upd, simp add: upd_buf_def)
    show ?thesis
      using assms(2) unfolding rd_request_def Let_def
      by (auto split: if_split_asm option.split_asm) (use id up same_blocks_refl in blast)+
  qed
  then obtain t up where t: "same_blocks s t" "dev_queue t = dev_queue s" "end_request 1 up t = Inr s'"
    by blast
  with end_request_spec [of t 1 req q up] assms(1) show ?thesis
    by (auto intro: same_blocks_trans)
qed

lemma rd_loop_returns:
  "\<exists>r. rd_loop s = Some r \<and> (\<forall>s'. r = Inr s' \<longrightarrow> same_blocks s s' \<and> dev_queue s' 1 = [])"
proof (induction "dev_queue s 1" arbitrary: s)
  case Nil
  then show ?case by (subst rd_loop.simps) simp
next
  case (Cons req q)
  show ?case
  proof (cases "rd_request req s")
    case (Inl e)
    then show ?thesis using Cons(2) [symmetric] by (subst rd_loop.simps) simp
  next
    case (Inr t)
    note q = rd_request_queue [OF Cons(2) [symmetric] Inr]
    from Cons(1) [of t] q obtain r where "rd_loop t = Some r"
      "\<forall>s'. r = Inr s' \<longrightarrow> same_blocks t s' \<and> dev_queue s' 1 = []" by auto
    then show ?thesis
      using q Inr Cons(2) [symmetric] by (subst rd_loop.simps) (auto intro: same_blocks_trans)
  qed
qed

lemma rd_ops_ok: "ops_ok rd_ops"
proof -
  have "same_blocks s s'" if r: "do_rd_request s = Inr s'" for s s'
    using rd_loop_returns [of s] r by (auto simp: do_rd_request_def returns_def)
  then show ?thesis
    by (auto simp: ops_ok_def rd_ops_def intro: same_blocks_keeps split: if_split_asm)
qed

text \<open>Transfers of one block: a write of a dirty buffer and a read into a stale one.\<close>

definition rd_block :: "'a blk_scheme \<Rightarrow> u32 \<Rightarrow> u8 list" where
  "rd_block s b = rd_bytes (1024 * unat b) 1024 s"

definition rd_ready :: "nat \<Rightarrow> u32 \<Rightarrow> 'a blk_scheme \<Rightarrow> bool" where
  "rd_ready bh b s \<longleftrightarrow> dev_queue s 1 = [] \<and> holds 0x101 b (bufs s bh) \<and> \<not> b_lock (bufs s bh) \<and>
     length (b_data (bufs s bh)) = 1024 \<and> 1024 * unat b + 1024 \<le> rd_length s \<and> rd_length s < 2 ^ 32 \<and>
     (\<exists>r < 21. rq_dev (requests s r) < 0)"

lemma free_request_Some:
  "(\<exists>r < n. rq_dev (rq r) < 0) \<Longrightarrow> \<exists>r < n. free_request rq n = Some r"
proof (induction n)
  case (Suc n)
  then show ?case by (auto simp: less_Suc_eq)
qed simp

lemma rd_addr:
  assumes "1024 * unat b + 1024 \<le> n" and "n < 2 ^ 32"
  shows "unat (push_bit 9 (push_bit 1 b) :: u32) = 1024 * unat b"
proof -
  have "unat (push_bit 10 b) = take_bit 32 (push_bit 10 (unat b))"
    by (simp only: unsigned_push_bit_eq) simp
  also have "\<dots> = 1024 * unat b"
    using assms by (simp add: push_bit_eq_mult take_bit_nat_eq_self)
  finally show ?thesis by (simp only: push_bit_push_bit) simp
qed

lemma rd_transfer:
  assumes rdy: "rd_ready bh b s" and rw: "rw = WRITE \<and> b_dirt (bufs s bh) \<or> rw = READ \<and> \<not> b_uptodate (bufs s bh)"
  shows "\<exists>s'. ll_rw_block rd_ops rw bh s = Inr s' \<and> dev_queue s' 1 = [] \<and> rd_length s' = rd_length s \<and>
    bufs s' = (bufs s)(bh := (bufs s bh)\<lparr>b_dirt := False, b_uptodate := True, b_lock := False,
       b_data := if rw = WRITE then b_data (bufs s bh) else rd_block s b\<rparr>) \<and>
    rd_start s' = (if rw = WRITE then rd_start (rd_store (1024 * unat b) (b_data (bufs s bh)) s)
                   else rd_start s) \<and>
    (\<forall>r. rq_dev (requests s r) < 0 \<longrightarrow> rq_dev (requests s' r) < 0)"
proof -
  let ?b = "bufs s bh"
  have h: "b_dev ?b = 0x101" "b_blocknr ?b = b" "\<not> b_lock ?b" "length (b_data ?b) = 1024"
    "dev_queue s 1 = []" "1024 * unat b + 1024 \<le> rd_length s" "rd_length s < 2 ^ 32"
    using rdy by (auto simp: rd_ready_def holds_def)
  define n where "n = (if rw = READ then NR_REQUEST else NR_REQUEST * 2 div 3 :: nat)"
  have n21: "21 \<le> n" by (simp add: n_def)
  have "\<exists>r < n. rq_dev (requests s r) < 0"
    using rdy less_le_trans [OF _ n21] unfolding rd_ready_def by blast
  then obtain req where req: "free_request (requests s) n = Some req"
    using free_request_Some by blast
  define rq where "rq = \<lparr>rq_dev = 0x101, rq_cmd = rw, rq_errors = 0, rq_sector = push_bit 1 b,
     rq_nr_sectors = 2, rq_buffer = 0, rq_bh = Some bh\<rparr>"
  let ?l = "?b\<lparr>b_lock := True\<rparr>" and ?l' = "?b\<lparr>b_lock := True, b_dirt := False\<rparr>"
  define s4 where "s4 = s\<lparr>requests := (requests s)(req := rq), bufs := (bufs s)(bh := ?l'),
     dev_queue := (dev_queue s)(1 := [req])\<rparr>"
  have maj: "MAJOR (b_dev ?b) = 1" by (simp add: MAJOR_def h)
  have "ll_rw_block rd_ops rw bh s = make_request rd_ops 1 rw bh s"
    using maj by (simp add: ll_rw_block_def rd_ops_def)
  also have "\<dots> = add_request rd_ops 1 req (s\<lparr>bufs := (bufs s)(bh := ?l), requests := (requests s)(req := rq)\<rparr>)"
    using h rw req by (auto simp: make_request_def lock_buffer_def upd_buf_def n_def rq_def)
  also have "\<dots> = do_rd_request s4"
    using h by (simp add: add_request_def rd_ops_def rq_def upd_buf_def s4_def)
  finally have run: "ll_rw_block rd_ops rw bh s = do_rd_request s4" .
  define t where "t = (if rw = WRITE then rd_store (1024 * unat b) (b_data ?b) s4
     else upd_buf bh (b_data_update (\<lambda>d. rd_block s b @ drop 1024 d)) s4)"
  have rl: "unat (push_bit 9 (2 :: u32)) = 1024" by simp
  have rb: "rd_bytes (1024 * unat b) 1024 s4 = rd_block s b"
    by (simp add: rd_bytes_def rd_block_def s4_def)
  have req4: "rd_request req s4 = end_request 1 True t"
    using h rw rd_addr [OF h(6,7)] rb
    by (auto simp: rd_request_def s4_def rq_def t_def rd_store_def upd_buf_def Let_def
        simp del: push_bit_push_bit)
  define s5 where "s5 = s\<lparr>bufs := (bufs s)(bh := ?b\<lparr>b_dirt := False, b_uptodate := True, b_lock := False,
       b_data := if rw = WRITE then b_data ?b else rd_block s b\<rparr>),
     requests := (requests s)(req := rq\<lparr>rq_dev := -1\<rparr>), dev_queue := (dev_queue s)(1 := []),
     rd_start := if rw = WRITE then rd_start (rd_store (1024 * unat b) (b_data ?b) s) else rd_start s\<rparr>"
  have fill: "b_data_update (\<lambda>d. rd_block s b @ drop 1024 d) c = c\<lparr>b_data := rd_block s b\<rparr>"
    if "length (b_data c) = 1024" for c :: buffer_head
    using that by (intro buffer_head.equality) simp_all
  have end5: "end_request 1 True t = Inr s5"
    using rw h(4) by (auto simp: fill end_request_def t_def s4_def s5_def rd_store_def upd_buf_def unlock_buffer_def
        rq_def Let_def intro!: blk.equality)
  have "dev_queue s5 1 = []" by (simp add: s5_def)
  then have l5: "rd_loop s5 = Some (Inr s5)" by (subst rd_loop.simps) simp
  have "dev_queue s4 1 = [req]" by (simp add: s4_def)
  then have "rd_loop s4 = Some (Inr s5)" 
    by (subst rd_loop.simps) (simp only: list.case req4 end5 sum.case l5)
  then have "ll_rw_block rd_ops rw bh s = Inr s5"
    by (simp add: run do_rd_request_def returns_def)
  then show ?thesis by (intro exI [of _ s5]) (simp add: s5_def)
qed

lemma rd_bytes_store:
  "length bs = n \<Longrightarrow> rd_bytes off n (rd_store off bs s) = bs"
  by (auto simp: rd_bytes_def rd_store_def intro!: nth_equalityI)


section \<open>Properties\<close>

text \<open>C37: The elevator. Adding a request to a busy device never displaces the one being served,
  keeps the order of those waiting and adds just the new one; and when all requests differ in
  command, device or sector, a queue that takes at most two sweeps over the sectors, reads before
  writes, still takes at most two.\<close>

theorem queue_insert_elevator:
  assumes "q \<noteq> []" and "req \<notin> set q" and "distinct (map (rq_key \<circ> rq) (req # q))"
    and "descents (map (rq_key \<circ> rq) q) \<le> 1"
  shows "hd (queue_insert rq req q) = hd q \<and>
    filter (\<lambda>x. x \<noteq> req) (queue_insert rq req q) = q \<and>
    mset (queue_insert rq req q) = add_mset req (mset q) \<and>
    descents (map (rq_key \<circ> rq) (queue_insert rq req q)) \<le> 1"
proof -
  have "descents (elevator (rq_key (rq req)) (map (rq_key \<circ> rq) q)) \<le> 1"
    using assms(3,4) by (intro elevator_descents) auto
  then show ?thesis
    using assms(1,2) by (simp add: map_queue_insert queue_insert_hd queue_insert_order queue_insert_mset)
qed

definition sectors :: "nat \<Rightarrow> request" where
  "sectors i = \<lparr>rq_dev = 0x301, rq_cmd = READ, rq_errors = 0, rq_sector = of_nat i,
     rq_nr_sectors = 2, rq_buffer = 0, rq_bh = Some i\<rparr>"

lemma queue_insert_elevator_witness:
  "queue_insert sectors 40 [30, 50, 10] = [30, 40, 50, 10] \<and>
   descents (map (rq_key \<circ> sectors) (queue_insert sectors 40 [30, 50, 10])) \<le> 1"
proof -
  have "distinct (map (rq_key \<circ> sectors) [40, 30, 50, 10])"
    "descents (map (rq_key \<circ> sectors) [30, 50, 10]) \<le> 1"
    by (simp_all add: rq_key_def sectors_def less_prod_def')
  from queue_insert_elevator [OF _ _ this] show ?thesis
    by (simp add: IN_ORDER_def sectors_def)
qed


definition two_buffers :: blk where
  "two_buffers = \<lparr>bufs = (\<lambda>i. (empty_buffer (replicate 1024 (of_nat i)))), nr_buffers = 2,
     hash_table = (\<lambda>_. []), free_list = [0, 1], null_b_prev = None,
     requests = (\<lambda>_. \<lparr>rq_dev = -1, rq_cmd = 0, rq_errors = 0, rq_sector = 0, rq_nr_sectors = 0, rq_buffer = 0,
       rq_bh = None\<rparr>), dev_queue = (\<lambda>_. []), rd_start = (\<lambda>_. 7), rd_length = 4096\<rparr>"

lemma two_buffers_inv: "cache_inv two_buffers"
  by (auto simp: cache_inv_def cache_wf_def cache_unique_def two_buffers_def empty_buffer_def)


text \<open>A block written to the RAM disk is the block read back. After writing a dirty buffer and
  then reading the same block into another, stale buffer, the second holds the data of the first,
  up to date and unlocked.\<close>

theorem rd_write_read:
  assumes "rd_ready i b s" and "rd_ready j b s" and "i \<noteq> j"
    and "b_dirt (bufs s i)" and "\<not> b_uptodate (bufs s j)"
  shows "\<exists>s1 s2. ll_rw_block rd_ops WRITE i s = Inr s1 \<and> ll_rw_block rd_ops READ j s1 = Inr s2 \<and>
    b_data (bufs s2 j) = b_data (bufs s i) \<and> b_uptodate (bufs s2 j) \<and> \<not> b_lock (bufs s2 j) \<and>
    \<not> b_dirt (bufs s2 i)"
proof -
  obtain s1 where s1: "ll_rw_block rd_ops WRITE i s = Inr s1" "dev_queue s1 1 = []"
    "rd_length s1 = rd_length s"
    "bufs s1 = (bufs s)(i := (bufs s i)\<lparr>b_dirt := False, b_uptodate := True, b_lock := False,
       b_data := b_data (bufs s i)\<rparr>)"
    "rd_start s1 = rd_start (rd_store (1024 * unat b) (b_data (bufs s i)) s)"
    "\<forall>r. rq_dev (requests s r) < 0 \<longrightarrow> rq_dev (requests s1 r) < 0"
    using rd_transfer [OF assms(1), of WRITE] assms(4) by auto
  have r1: "rd_ready j b s1"
    using assms(2,3) s1 by (auto simp: rd_ready_def)
  have "\<not> b_uptodate (bufs s1 j)" using assms(3,5) s1(4) by simp
  then obtain s2 where s2: "ll_rw_block rd_ops READ j s1 = Inr s2"
    "bufs s2 = (bufs s1)(j := (bufs s1 j)\<lparr>b_dirt := False, b_uptodate := True, b_lock := False,
       b_data := rd_block s1 b\<rparr>)"
    using rd_transfer [OF r1, of READ] by auto
  have len: "length (b_data (bufs s i)) = 1024" using assms(1) by (simp add: rd_ready_def)
  have "rd_block s1 b = b_data (bufs s i)"
    using rd_bytes_store [OF len, of "1024 * unat b" s] s1(5) by (simp add: rd_block_def rd_bytes_def)
  with s1 s2 assms(3) show ?thesis by (intro exI [of _ s1] exI [of _ s2]) simp
qed

lemma rd_write_read_witness:
  "\<exists>(s :: blk) s1 s2. b_data (bufs s 1) = replicate 1024 1 \<and> ll_rw_block rd_ops WRITE 1 s = Inr s1 \<and>
     ll_rw_block rd_ops READ 0 s1 = Inr s2 \<and> b_data (bufs s2 0) = replicate 1024 1"
proof -
  let ?s = "two_buffers\<lparr>bufs := (\<lambda>i. (empty_buffer (replicate 1024 (of_nat i)))
    \<lparr>b_dev := 0x101, b_blocknr := 2, b_dirt := i = 1\<rparr>)\<rparr>"
  have "rd_ready 1 2 ?s" "rd_ready 0 2 ?s"
    by (auto simp: rd_ready_def two_buffers_def empty_buffer_def holds_def intro: exI [of _ 0])
  from rd_write_read [OF this] obtain s1 s2 where "ll_rw_block rd_ops WRITE 1 ?s = Inr s1"
    "ll_rw_block rd_ops READ 0 s1 = Inr s2" "b_data (bufs s2 0) = b_data (bufs ?s 1)"
    by (auto simp: empty_buffer_def)
  then show ?thesis
    by (intro exI [of _ ?s] exI [of _ s1] exI [of _ s2]) (simp add: empty_buffer_def)
qed

end
