(* ===== verification/Bitmap.thy ===== *)
theory Bitmap
  imports Buffer Task
begin

text \<open>
  The in-core tables of the MINIX file system (\<^verbatim>\<open>include/linux/fs.h\<close>), the inode and zone bitmaps
  (\<^verbatim>\<open>fs/bitmap.c\<close>) and the lookup of a super block (\<^verbatim>\<open>fs/super.c\<close>). The state extends that of the
  block layer; inodes, open files and super blocks are numbered by their slots, a super block's
  bitmap blocks are numbers of buffers. Nobody ever waits for a lock in this state, since
  waiting for a lock that nothing in the model will release is the result \<open>Sleeps\<close>; only the
  readers and writers of a pipe sleep in an inode's queue \<open>i_wait\<close>.
\<close>

section \<open>State\<close>

record m_inode =
  i_mode :: u16
  i_uid :: u16
  i_size :: u32
  i_mtime :: u32
  i_gid :: u8
  i_nlinks :: u8
  i_zone :: "u16 list"
  i_wait :: "nat option"
  i_atime :: u32
  i_ctime :: u32
  i_dev :: u16
  i_num :: u16
  i_count :: u16
  i_lock :: bool
  i_dirt :: bool
  i_pipe :: bool
  i_mount :: bool

record super_block =
  s_ninodes :: u16
  s_nzones :: u16
  s_imap_blocks :: u16
  s_zmap_blocks :: u16
  s_firstdatazone :: u16
  s_log_zone_size :: u16
  s_max_size :: u32
  s_magic :: u16
  s_imap :: "nat \<Rightarrow> nat option"
  s_zmap :: "nat \<Rightarrow> nat option"
  s_dev :: u16
  s_isup :: "nat option"
  s_imount :: "nat option"
  s_time :: u32
  s_lock :: bool
  s_rd_only :: bool
  s_dirt :: bool

record file_t =
  f_mode :: u16
  f_flags :: u16
  f_count :: u16
  f_inode :: "nat option"
  f_pos :: int

record fs = blk +
  inode_table :: "nat \<Rightarrow> m_inode"
  last_inode :: nat
  file_table :: "nat \<Rightarrow> file_t"
  super_table :: "nat \<Rightarrow> super_block"
  root_dev :: u16

type_synonym fs_drv = "unit fs_ext blk_ops"

abbreviation (input) NR_INODE :: nat where "NR_INODE \<equiv> 32"

abbreviation (input) NR_FILE :: nat where "NR_FILE \<equiv> 64"

abbreviation (input) NR_SUPER :: nat where "NR_SUPER \<equiv> 8"

abbreviation (input) MAP_SLOTS :: nat where "MAP_SLOTS \<equiv> 8"

abbreviation (input) BLOCK_SIZE :: nat where "BLOCK_SIZE \<equiv> 1024"

definition upd_inode :: "nat \<Rightarrow> (m_inode \<Rightarrow> m_inode) \<Rightarrow> fs \<Rightarrow> fs" where
  "upd_inode i f s = s\<lparr>inode_table := (inode_table s)(i := f (inode_table s i))\<rparr>"

definition upd_super :: "nat \<Rightarrow> (super_block \<Rightarrow> super_block) \<Rightarrow> fs \<Rightarrow> fs" where
  "upd_super i f s = s\<lparr>super_table := (super_table s)(i := f (super_table s i))\<rparr>"

definition upd_file :: "nat \<Rightarrow> (file_t \<Rightarrow> file_t) \<Rightarrow> fs \<Rightarrow> fs" where
  "upd_file i f s = s\<lparr>file_table := (file_table s)(i := f (file_table s i))\<rparr>"

text \<open>\<open>memset(inode,0,sizeof(*inode))\<close>.\<close>

definition zero_inode :: m_inode where
  "zero_inode = \<lparr>i_mode = 0, i_uid = 0, i_size = 0, i_mtime = 0, i_gid = 0, i_nlinks = 0,
     i_zone = replicate 9 0, i_wait = None, i_atime = 0, i_ctime = 0, i_dev = 0, i_num = 0, i_count = 0,
     i_lock = False, i_dirt = False, i_pipe = False, i_mount = False\<rparr>"

section \<open>The super block of a device\<close>

definition wait_on_super :: "nat \<Rightarrow> fs \<Rightarrow> fs res" where
  "wait_on_super sb s = (if s_lock (super_table s sb) then Inl Sleeps else Inr s)"

definition get_super :: "u16 \<Rightarrow> fs \<Rightarrow> nat option res" where
  "get_super dev s =
     (if dev = 0 then Inr None
      else case find (\<lambda>i. s_dev (super_table s i) = dev) [0..<NR_SUPER] of
             None \<Rightarrow> Inr None
           | Some i \<Rightarrow> kbind (wait_on_super i s) (\<lambda>_. Inr (Some i)))"

section \<open>Bits of a bitmap block\<close>

definition bit_at :: "u8 list \<Rightarrow> nat \<Rightarrow> bool" where
  "bit_at d nr = bit (d ! (nr div 8)) (nr mod 8)"

text \<open>\<open>set_bit\<close> and \<open>clear_bit\<close>: the bit as it was, inverted for \<open>clear_bit\<close>, and the new block.\<close>

definition set_bit_in :: "nat \<Rightarrow> u8 list \<Rightarrow> bool \<times> u8 list" where
  "set_bit_in nr d = (bit_at d nr, d[nr div 8 := set_bit (nr mod 8) (d ! (nr div 8))])"

definition clear_bit_in :: "nat \<Rightarrow> u8 list \<Rightarrow> bool \<times> u8 list" where
  "clear_bit_in nr d = (\<not> bit_at d nr, d[nr div 8 := unset_bit (nr mod 8) (d ! (nr div 8))])"

text \<open>
  \<open>find_first_zero\<close> loads long after long, inverts it and looks for the lowest bit set
  (\<open>bsfl\<close>), counting 32 bits for each long without one, until 8192 bits are done.
\<close>

definition long_at :: "u8 list \<Rightarrow> nat \<Rightarrow> u32" where
  "long_at d k = ucast (d ! (4 * k)) OR push_bit 8 (ucast (d ! (4 * k + 1))) OR
     push_bit 16 (ucast (d ! (4 * k + 2))) OR push_bit 24 (ucast (d ! (4 * k + 3)))"

definition bsf :: "u32 \<Rightarrow> nat option" where
  "bsf w = find (bit w) [0..<32]"

fun ffz_longs :: "u8 list \<Rightarrow> nat list \<Rightarrow> nat \<Rightarrow> nat" where
  "ffz_longs d [] ecx = ecx"
| "ffz_longs d (k # ks) ecx =
     (case bsf (NOT (long_at d k)) of
        Some edx \<Rightarrow> ecx + edx
      | None \<Rightarrow> ffz_longs d ks (ecx + 32))"

definition find_first_zero :: "u8 list \<Rightarrow> nat" where
  "find_first_zero d = ffz_longs d [0..<256] 0"

section \<open>\<open>bitmap.c\<close>\<close>

text \<open>The end of \<open>free_block\<close>: the block's bit of the zone bitmap.\<close>

definition clear_zone :: "nat \<Rightarrow> int \<Rightarrow> fs \<Rightarrow> fs res" where
  "clear_zone sb block s =
     (let n = nat (block - (uint (s_firstdatazone (super_table s sb)) - 1))
      in case s_zmap (super_table s sb) (n div 8192) of
           None \<Rightarrow> Inl Undefined
         | Some bh \<Rightarrow>
             case clear_bit_in (n mod 8192) (b_data (bufs s bh)) of (was_clear, d) \<Rightarrow>
               if was_clear then Inl (Panic ''free_block: bit already cleared'')
               else Inr (upd_buf bh (\<lambda>b. b\<lparr>b_data := d, b_dirt := True\<rparr>) s))"

definition free_block :: "u16 \<Rightarrow> int \<Rightarrow> fs \<Rightarrow> fs res" where
  "free_block dev block s =
     kbind (get_super dev s) (\<lambda>found.
       case found of
         None \<Rightarrow> Inl (Panic ''trying to free block on nonexistent device'')
       | Some sb \<Rightarrow>
           if block < uint (s_firstdatazone (super_table s sb)) \<or>
              block \<ge> uint (s_nzones (super_table s sb))
           then Inl (Panic ''trying to free block not in datazone'')
           else kbind (get_hash_table dev (word_of_int block) s) (\<lambda>(found, s).
             case found of
               None \<Rightarrow> clear_zone sb block s
             | Some bh \<Rightarrow>
                 if b_count (bufs s bh) \<noteq> 1 then Inr s
                 else kbind (brelse bh (upd_buf bh (\<lambda>b. b\<lparr>b_dirt := False, b_uptodate := False\<rparr>) s))
                        (clear_zone sb block)))"

text \<open>
  The search of \<open>new_block\<close> and \<open>new_inode\<close> through the bitmap blocks of a super block: the
  first with a zero bit, as slot, buffer and bit.
\<close>

fun search_map :: "(nat \<Rightarrow> nat option) \<Rightarrow> nat list \<Rightarrow> fs \<Rightarrow> (nat \<times> nat \<times> nat) option" where
  "search_map m [] s = None"
| "search_map m (i # is) s =
     (case m i of
        None \<Rightarrow> search_map m is s
      | Some bh \<Rightarrow>
          let j = find_first_zero (b_data (bufs s bh))
          in if j < 8192 then Some (i, bh, j) else search_map m is s)"

definition new_block :: "fs_drv \<Rightarrow> u16 \<Rightarrow> fs \<Rightarrow> (int \<times> fs) res" where
  "new_block ops dev s =
     kbind (get_super dev s) (\<lambda>found.
       case found of
         None \<Rightarrow> Inl (Panic ''trying to get new block from nonexistant device'')
       | Some sb \<Rightarrow>
           case search_map (s_zmap (super_table s sb)) [0..<MAP_SLOTS] s of
             None \<Rightarrow> Inr (0, s)
           | Some (i, bh, j) \<Rightarrow>
               case set_bit_in j (b_data (bufs s bh)) of (was_set, d) \<Rightarrow>
                 if was_set then Inl (Panic ''new_block: bit already set'')
                 else let s = upd_buf bh (\<lambda>b. b\<lparr>b_data := d, b_dirt := True\<rparr>) s;
                          j = int j + int i * 8192 + uint (s_firstdatazone (super_table s sb)) - 1
                      in if j \<ge> uint (s_nzones (super_table s sb)) then Inr (0, s)
                         else kbind (getblk ops dev (word_of_int j) s) (\<lambda>(bh, s).
                           if b_count (bufs s bh) \<noteq> 1 then Inl (Panic ''new block: count is != 1'')
                           else kbind (brelse bh (upd_buf bh (\<lambda>b. b\<lparr>b_data := replicate BLOCK_SIZE 0,
                                         b_uptodate := True, b_dirt := True\<rparr>) s)) (\<lambda>s. Inr (j, s))))"

definition free_inode :: "nat option \<Rightarrow> fs \<Rightarrow> fs res" where
  "free_inode inode s =
     (case inode of
        None \<Rightarrow> Inr s
      | Some i \<Rightarrow>
          let n = inode_table s i
          in if i_dev n = 0 then Inr (upd_inode i (\<lambda>_. zero_inode) s)
             else if i_count n > 1 then Inl (Panic ''free_inode'')
             else if i_nlinks n \<noteq> 0 then Inl (Panic ''trying to free inode with links'')
             else kbind (get_super (i_dev n) s) (\<lambda>found.
               case found of
                 None \<Rightarrow> Inl (Panic ''trying to free inode on nonexistent device'')
               | Some sb \<Rightarrow>
                   if i_num n < 1 \<or> i_num n > s_ninodes (super_table s sb)
                   then Inl (Panic ''trying to free inode 0 or nonexistant inode'')
                   else case s_imap (super_table s sb) (unat (i_num n) div 8192) of
                          None \<Rightarrow> Inl (Panic ''nonexistent imap in superblock'')
                        | Some bh \<Rightarrow>
                            let d = snd (clear_bit_in (unat (i_num n) mod 8192) (b_data (bufs s bh)))
                            in Inr (upd_inode i (\<lambda>_. zero_inode)
                                     (upd_buf bh (\<lambda>b. b\<lparr>b_data := d, b_dirt := True\<rparr>) s))))"

end
