(* ===== verification/Cached_Facts.thy ===== *)
theory Cached_Facts
  imports Bitmap Buffer_Facts
begin

text \<open>
  The paths through the buffer cache that need no input or output: a block already in core, and a
  block for which an unused clean buffer is at hand. Their results are given outright, for any
  driver. The interface \<open>block_access\<close> is what the file system relies on.
\<close>

named_theorems cache_simps

lemma upd_buf_sel [cache_simps]:
  "bufs (upd_buf b f s) = (bufs s)(b := f (bufs s b))"
  "nr_buffers (upd_buf b f s) = nr_buffers s"
  "free_list (upd_buf b f s) = free_list s"
  "hash_table (upd_buf b f s) = hash_table s"
  by (simp_all add: upd_buf_def)

lemma upd_buf_upd_buf [cache_simps]: "upd_buf b f (upd_buf b g s) = upd_buf b (f \<circ> g) s"
  by (simp add: upd_buf_def)

lemma upd_buf_id: "f (bufs s b) = bufs s b \<Longrightarrow> upd_buf b f s = s"
  by (simp add: upd_buf_def)

lemma upd_buf_commute: "b \<noteq> c \<Longrightarrow> upd_buf b f (upd_buf c g s) = upd_buf c g (upd_buf b f s)"
  by (simp add: upd_buf_def fun_upd_twist)

lemma upd_buf_cong: "f (bufs s b) = g (bufs s b) \<Longrightarrow> upd_buf b f s = upd_buf b g s"
  by (simp add: upd_buf_def)

text \<open>Changes of buffers that leave their blocks alone do not matter to the search.\<close>

lemma find_buffer_same: "same_blocks s s' \<Longrightarrow> find_buffer dev n s' = find_buffer dev n s"
  by (simp add: find_buffer_def same_blocks_def holds_def)

lemma find_buffer_upd:
  "(\<And>x. b_dev (f x) = b_dev x \<and> b_blocknr (f x) = b_blocknr x) \<Longrightarrow>
   find_buffer dev n (upd_buf b f s) = find_buffer dev n s"
  by (rule find_buffer_same) (rule same_blocks_upd)

lemma find_buffer_holds: "find_buffer dev n s = Some b \<Longrightarrow> holds dev n (bufs s b)"
  unfolding find_buffer_def find_Some_iff by metis

lemma find_buffer_unique:
  assumes "cache_inv s" and "b < nr_buffers s" and "holds dev n (bufs s b)" and "dev \<noteq> 0"
  shows "find_buffer dev n s = Some b"
proof (cases "find_buffer dev n s")
  case None
  with assms show ?thesis using find_buffer_None by (auto simp: cache_inv_def)
next
  case (Some c)
  with assms have "c < nr_buffers s" "holds dev n (bufs s c)"
    using find_buffer_Some by (auto simp: cache_inv_def)
  with assms have "c = b" by (auto simp: cache_inv_def cache_unique_def holds_def)
  with Some show ?thesis by simp
qed

lemma find_buffer_absent:
  assumes "cache_inv s" and "\<forall>b < nr_buffers s. \<not> holds dev n (bufs s b)"
  shows "find_buffer dev n s = None"
  using assms find_buffer_Some [of s dev n] by (cases "find_buffer dev n s") (auto simp: cache_inv_def)

section \<open>Blocks in core\<close>

definition hold :: "nat \<Rightarrow> 'a blk_scheme \<Rightarrow> 'a blk_scheme" where
  "hold b s = upd_buf b (b_count_update (\<lambda>c. c + 1)) s"

definition edit :: "nat \<Rightarrow> (u8 list \<Rightarrow> u8 list) \<Rightarrow> 'a blk_scheme \<Rightarrow> 'a blk_scheme" where
  "edit b f s = upd_buf b (\<lambda>x. x\<lparr>b_data := f (b_data x), b_dirt := True\<rparr>) s"

definition at_hand :: "u16 \<Rightarrow> u32 \<Rightarrow> nat \<Rightarrow> 'a blk_scheme \<Rightarrow> bool" where
  "at_hand dev n b s \<longleftrightarrow> find_buffer dev n s = Some b \<and> \<not> b_lock (bufs s b) \<and>
     b_count (bufs s b) + 1 \<noteq> 0"

definition resident :: "u16 \<Rightarrow> u32 \<Rightarrow> nat \<Rightarrow> 'a blk_scheme \<Rightarrow> bool" where
  "resident dev n b s \<longleftrightarrow> at_hand dev n b s \<and> b_uptodate (bufs s b)"

lemma get_hash_table_hit:
  assumes "find_buffer dev n s = Some b" and "\<not> b_lock (bufs s b)"
  shows "get_hash_table dev n s = Inr (Some b, hold b s)"
proof -
  have "holds dev n (bufs (upd_buf b (b_count_update (\<lambda>c. c + 1)) s) b)"
    using find_buffer_holds [OF assms(1)] by (simp add: holds_def upd_buf_def)
  with assms show ?thesis
    by (subst get_hash_table_def, subst get_hash_loop.simps)
      (simp add: returns_def wait_on_buffer_def hold_def cache_simps)
qed

lemma get_hash_table_miss: "find_buffer dev n s = None \<Longrightarrow> get_hash_table dev n s = Inr (None, s)"
  by (subst get_hash_table_def, subst get_hash_loop.simps) (simp add: returns_def)

lemma getblk_hit:
  assumes "find_buffer dev n s = Some b" and "\<not> b_lock (bufs s b)"
  shows "getblk ops dev n s = Inr (b, hold b s)"
  by (subst getblk_def, subst getblk_loop.simps)
    (simp add: get_hash_table_hit [OF assms] returns_def)

lemma bread_resident:
  assumes "resident dev n b s"
  shows "bread ops dev n s = Inr (Some b, hold b s)"
proof -
  have "getblk ops dev n s = Inr (b, hold b s)"
    using assms getblk_hit by (auto simp: resident_def at_hand_def)
  with assms show ?thesis by (simp add: bread_def resident_def hold_def cache_simps)
qed

lemma brelse_hold:
  assumes "\<not> b_lock (bufs s b)" and "b_count (bufs s b) + 1 \<noteq> 0"
  shows "brelse b (hold b s) = Inr s"
  using assms by (simp add: brelse_def wait_on_buffer_def hold_def cache_simps comp_def upd_buf_id)

lemma edit_hold: "edit b f (hold c s) = hold c (edit b f s)"
  by (cases "bufs s c"; cases "b = c") (simp_all add: edit_def hold_def upd_buf_def fun_upd_twist)

lemma find_buffer_edit [simp]: "find_buffer dev n (edit b f s) = find_buffer dev n s"
  unfolding edit_def by (rule find_buffer_upd) simp

lemma find_buffer_hold [simp]: "find_buffer dev n (hold b s) = find_buffer dev n s"
  unfolding hold_def by (rule find_buffer_upd) simp

lemma bufs_edit: "bufs (edit b f s) = (bufs s)(b := (bufs s b)\<lparr>b_data := f (b_data (bufs s b)), b_dirt := True\<rparr>)"
  by (simp add: edit_def cache_simps)

lemma at_hand_edit: "at_hand dev n b (edit c f s) = at_hand dev n b s"
  by (simp add: at_hand_def bufs_edit)

lemma resident_edit: "resident dev n b (edit c f s) = resident dev n b s"
  by (simp add: resident_def at_hand_edit bufs_edit)

lemma data_edit: "b_data (bufs (edit c f s) b) = (if b = c then f (b_data (bufs s b)) else b_data (bufs s b))"
  by (simp add: bufs_edit)

lemma data_hold: "b_data (bufs (hold c s) b) = b_data (bufs s b)"
  by (simp add: hold_def cache_simps)

text \<open>
  The interface: a block named by \<open>'k\<close> can be had, edited and released again. A client that reads
  it finds its contents and leaves the state as it was, a client that edits it leaves the edited
  state.
\<close>

locale block_access =
  fixes get :: "'k \<Rightarrow> 's \<Rightarrow> (nat option \<times> 's) res"
    and release :: "nat \<Rightarrow> 's \<Rightarrow> 's res"
    and change :: "nat \<Rightarrow> (u8 list \<Rightarrow> u8 list) \<Rightarrow> 's \<Rightarrow> 's"
    and taken :: "nat \<Rightarrow> 's \<Rightarrow> 's"
    and avail :: "'k \<Rightarrow> nat \<Rightarrow> 's \<Rightarrow> bool"
    and contents :: "'s \<Rightarrow> nat \<Rightarrow> u8 list"
  assumes get_avail: "avail k b s \<Longrightarrow> get k s = Inr (Some b, taken b s)"
    and release_taken: "avail k b s \<Longrightarrow> release b (taken b s) = Inr s"
    and change_taken: "change b f (taken c s) = taken c (change b f s)"
    and avail_change: "avail k b (change c f s) = avail k b s"
    and contents_change: "contents (change c f s) b = (if b = c then f (contents s b) else contents s b)"
    and contents_taken: "contents (taken c s) b = contents s b"
begin

lemma read_block:
  assumes "avail k b s"
  shows "kbind (get k s) (\<lambda>(bh, s). case bh of None \<Rightarrow> none s
      | Some b \<Rightarrow> kbind (release b s) (f (contents s b))) = f (contents s b) s"
  using assms by (simp add: get_avail release_taken contents_taken)

lemma change_block:
  assumes "avail k b s"
  shows "kbind (get k s) (\<lambda>(bh, s). case bh of None \<Rightarrow> none s
      | Some b \<Rightarrow> kbind (release b (change b f s)) g) = g (change b f s)"
  using assms by (simp add: get_avail change_taken release_taken avail_change)

lemma change_then_read:
  assumes "avail k b s"
  shows "kbind (get k (change b f s)) (\<lambda>(bh, s). case bh of None \<Rightarrow> none s
      | Some b \<Rightarrow> kbind (release b s) (g (contents s b))) = g (f (contents s b)) (change b f s)"
  using assms by (simp add: read_block avail_change contents_change)

end

interpretation cache: block_access "\<lambda>(dev, n). bread ops dev n" brelse edit hold
  "\<lambda>(dev, n). resident dev n" "\<lambda>s b. b_data (bufs s b)"
  for ops :: "'a blk_ops"
proof unfold_locales
  show "(case k of (dev, n) \<Rightarrow> bread ops dev n) s = Inr (Some b, hold b s)"
    "brelse b (hold b s) = Inr s"
    if "(case k of (dev, n) \<Rightarrow> resident dev n) b s" for k b and s :: "'a blk_scheme"
    using that by (auto simp: bread_resident resident_def at_hand_def brelse_hold split: prod.splits)
qed (auto simp: edit_hold resident_edit data_edit data_hold split: prod.splits)

section \<open>A clean buffer for a block\<close>

definition claimed :: "nat \<Rightarrow> u16 \<Rightarrow> u32 \<Rightarrow> 'a blk_scheme \<Rightarrow> 'a blk_scheme" where
  "claimed b dev n s =
     (let h = hash_of (bufs s b);
          t = (hash_table s)(h := remove1 b (hash_table s h));
          h' = hashfn dev n
      in s\<lparr>bufs := (bufs s)(b := (bufs s b)\<lparr>b_count := 1, b_dirt := False, b_uptodate := False,
                                  b_dev := dev, b_blocknr := n\<rparr>),
           free_list := remove1 b (free_list s) @ [b],
           null_b_prev := if t h' = [] then Some b else null_b_prev s,
           hash_table := t(h' := b # t h')\<rparr>)"

lemma claim_buffer_claimed:
  "b \<in> set (free_list s) \<Longrightarrow> dev \<noteq> 0 \<Longrightarrow> claim_buffer b dev n s = Inr (claimed b dev n s)"
  by (simp add: claim_buffer_def upd_buf_def remove_from_queues_def insert_into_queues_def Let_def
      hash_of_def claimed_def)

lemma claimed_bufs [cache_simps]:
  "bufs (claimed b dev n s) = (bufs s)(b := (bufs s b)\<lparr>b_count := 1, b_dirt := False,
     b_uptodate := False, b_dev := dev, b_blocknr := n\<rparr>)"
  by (simp add: claimed_def Let_def)

lemma claimed_inv:
  assumes "cache_inv s" and "b < nr_buffers s" and "dev \<noteq> 0" and "find_buffer dev n s = None"
  shows "cache_inv (claimed b dev n s)" and "nr_buffers (claimed b dev n s) = nr_buffers s"
    and "claim_buffer b dev n s = Inr (claimed b dev n s)"
proof -
  have "b \<in> set (free_list s)" using assms(1,2) by (simp add: cache_inv_def cache_wf_def)
  then show "claim_buffer b dev n s = Inr (claimed b dev n s)"
    using assms(3) by (rule claim_buffer_claimed)
  with claim_buffer_inv [OF assms] show "cache_inv (claimed b dev n s)"
    "nr_buffers (claimed b dev n s) = nr_buffers s" by auto
qed

lemma pick_buffer_unused:
  "pick_buffer bs is acc = Some b \<Longrightarrow> (\<And>a. acc = Some a \<Longrightarrow> b_count (bs a) = 0) \<Longrightarrow> b_count (bs b) = 0"
  by (induction bs "is" acc rule: pick_buffer.induct) (auto split: if_split_asm option.split_asm)

lemma pick_buffer_held:
  "b_count (bs c) \<noteq> 0 \<Longrightarrow> b_count x \<noteq> 0 \<Longrightarrow> acc \<noteq> Some c \<Longrightarrow>
   pick_buffer (bs(c := x)) is acc = pick_buffer bs is acc"
  by (induction bs "is" acc rule: pick_buffer.induct) (auto split: option.split)

definition available :: "u16 \<Rightarrow> u32 \<Rightarrow> 'a blk_scheme \<Rightarrow> bool" where
  "available dev n s =
     (case find_buffer dev n s of
        Some b \<Rightarrow> \<not> b_lock (bufs s b) \<and> b_count (bufs s b) = 0
      | None \<Rightarrow>
          (case pick_buffer (bufs s) (free_list s) None of
             Some b \<Rightarrow> \<not> b_lock (bufs s b) \<and> \<not> b_dirt (bufs s b)
           | None \<Rightarrow> False))"

text \<open>The buffer that \<open>getblk\<close> then gives, and the state.\<close>

definition grant :: "u16 \<Rightarrow> u32 \<Rightarrow> 'a blk_scheme \<Rightarrow> nat \<times> 'a blk_scheme" where
  "grant dev n s =
     (case find_buffer dev n s of
        Some b \<Rightarrow> (b, hold b s)
      | None \<Rightarrow> let b = the (pick_buffer (bufs s) (free_list s) None) in (b, claimed b dev n s))"

lemma getblk_available:
  assumes I: "cache_inv s" and dev: "dev \<noteq> 0" and av: "available dev n s"
  shows "getblk ops dev n s = Inr (grant dev n s)"
proof (cases "find_buffer dev n s")
  case None
  then obtain b where b: "pick_buffer (bufs s) (free_list s) None = Some b"
    and free: "\<not> b_lock (bufs s b)" "\<not> b_dirt (bufs s b)"
    using av by (auto simp: available_def split: option.splits)
  have "b_count (bufs s b) = 0" using pick_buffer_unused [OF b] by simp
  moreover have "b < nr_buffers s"
    using pick_buffer_in [OF b] I by (auto simp: cache_inv_def cache_wf_def)
  ultimately show ?thesis
    using None b free claimed_inv(3) [OF I _ dev None]
    by (subst getblk_def, subst getblk_loop.simps, subst clean_buffer.simps)
      (simp add: get_hash_table_miss returns_def wait_on_buffer_def grant_def)
next
  case (Some b)
  with av have "\<not> b_lock (bufs s b)" by (simp add: available_def)
  with Some show ?thesis by (simp add: getblk_hit grant_def)
qed

lemma grant_spec:
  assumes I: "cache_inv s" and dev: "dev \<noteq> 0" and av: "available dev n s"
    and g: "grant dev n s = (b, s')"
  shows "cache_inv s'" and "nr_buffers s' = nr_buffers s" and "b < nr_buffers s"
    and "holds dev n (bufs s' b)" and "b_count (bufs s b) = 0" and "b_count (bufs s' b) = 1"
    and "\<not> b_lock (bufs s' b)" and "i \<noteq> b \<Longrightarrow> bufs s' i = bufs s i"
proof -
  have run: "getblk ops dev n s = Inr (b, s')" for ops
    using getblk_available [OF I dev av] g by simp
  have "ops_ok \<lparr>request_fn = (\<lambda>_. None), sync_inodes_of = Inr\<rparr>"
    by (simp add: ops_ok_def)
  from getblk_spec [OF this dev I run] show "cache_inv s'" "nr_buffers s' = nr_buffers s"
    "b < nr_buffers s" "holds dev n (bufs s' b)" by auto
  show "b_count (bufs s b) = 0" "b_count (bufs s' b) = 1" "\<not> b_lock (bufs s' b)"
    "i \<noteq> b \<Longrightarrow> bufs s' i = bufs s i"
    using g av pick_buffer_unused [of "bufs s" "free_list s" None b]
    by (auto simp: grant_def available_def hold_def cache_simps Let_def split: option.splits)
qed

lemma free_list_edit [simp]: "free_list (edit c f s) = free_list s"
  by (simp add: edit_def cache_simps)

lemma available_edit:
  assumes "b_count (bufs s c) \<noteq> 0"
  shows "available dev n (edit c f s) = available dev n s"
    and "available dev n s \<Longrightarrow> fst (grant dev n (edit c f s)) \<noteq> c"
proof -
  have p: "pick_buffer ((bufs s)(c := (bufs s c)\<lparr>b_data := f (b_data (bufs s c)), b_dirt := True\<rparr>))
      (free_list s) None = pick_buffer (bufs s) (free_list s) None"
    using assms by (simp add: pick_buffer_held)
  have ne: "pick_buffer (bufs s) (free_list s) None \<noteq> Some c"
    using pick_buffer_unused [of "bufs s" "free_list s" None c] assms by auto
  show "available dev n (edit c f s) = available dev n s"
    using assms ne unfolding available_def find_buffer_edit free_list_edit bufs_edit p
    by (auto split: option.splits)
  show "available dev n s \<Longrightarrow> fst (grant dev n (edit c f s)) \<noteq> c"
    using assms ne unfolding available_def grant_def find_buffer_edit free_list_edit bufs_edit p
    by (auto simp: Let_def split: option.splits)
qed

lemma edit_inv: "cache_inv s \<Longrightarrow> cache_inv (edit c f s)"
  unfolding edit_def by (rule same_blocks_inv [OF same_blocks_upd]) auto

lemma nr_buffers_edit [simp]: "nr_buffers (edit c f s) = nr_buffers s"
  by (simp add: edit_def cache_simps)

end
