(* ===== verification/Bitmap_Facts.thy ===== *)
theory Bitmap_Facts
  imports Bitmap Cached_Facts
begin

text \<open>
  The interface of a bitmap of a fixed size, proved for the bits of a bitmap block, and what the
  allocation and the release of zones do to it and to the buffer cache.
\<close>

section \<open>Bitmaps\<close>

locale bit_map =
  fixes is_set :: "'m \<Rightarrow> nat \<Rightarrow> bool"
    and set_in :: "nat \<Rightarrow> 'm \<Rightarrow> bool \<times> 'm"
    and clear_in :: "nat \<Rightarrow> 'm \<Rightarrow> bool \<times> 'm"
    and first_zero :: "'m \<Rightarrow> nat"
    and valid :: "'m \<Rightarrow> bool"
    and bits :: nat
  assumes set_fst: "fst (set_in n m) = is_set m n"
    and set_valid: "valid m \<Longrightarrow> n < bits \<Longrightarrow> valid (snd (set_in n m))"
    and set_bits: "valid m \<Longrightarrow> n < bits \<Longrightarrow> k < bits \<Longrightarrow>
      is_set (snd (set_in n m)) k \<longleftrightarrow> k = n \<or> is_set m k"
    and clear_fst: "fst (clear_in n m) \<longleftrightarrow> \<not> is_set m n"
    and clear_valid: "valid m \<Longrightarrow> n < bits \<Longrightarrow> valid (snd (clear_in n m))"
    and clear_bits: "valid m \<Longrightarrow> n < bits \<Longrightarrow> k < bits \<Longrightarrow>
      is_set (snd (clear_in n m)) k \<longleftrightarrow> k \<noteq> n \<and> is_set m k"
    and first_free: "valid m \<Longrightarrow> first_zero m < bits \<Longrightarrow> \<not> is_set m (first_zero m)"
    and first_below: "valid m \<Longrightarrow> k < first_zero m \<Longrightarrow> k < bits \<Longrightarrow> is_set m k"
    and extensional: "valid m \<Longrightarrow> valid m' \<Longrightarrow> (\<And>k. k < bits \<Longrightarrow> is_set m k = is_set m' k) \<Longrightarrow> m = m'"
begin

text \<open>Allocating the first free bit and releasing it again changes nothing.\<close>

lemma set_then_clear:
  assumes "valid m" and "n < bits" and "\<not> is_set m n"
  shows "clear_in n (snd (set_in n m)) = (False, m)"
proof -
  let ?m = "snd (set_in n m)"
  have "valid ?m" using assms set_valid by blast
  moreover have "is_set (snd (clear_in n ?m)) k = is_set m k" if "k < bits" for k
    using assms that clear_bits [OF \<open>valid ?m\<close>] set_bits by auto
  ultimately have "snd (clear_in n ?m) = m"
    using extensional clear_valid assms(1,2) by blast
  moreover have "fst (clear_in n ?m) = False"
    using assms by (simp add: clear_fst set_bits)
  ultimately show ?thesis by (simp add: prod_eq_iff)
qed

lemma clear_then_set:
  assumes "valid m" and "n < bits" and "is_set m n"
  shows "set_in n (snd (clear_in n m)) = (False, m)"
proof -
  let ?m = "snd (clear_in n m)"
  have "valid ?m" using assms clear_valid by blast
  moreover have "is_set (snd (set_in n ?m)) k = is_set m k" if "k < bits" for k
    using assms that set_bits [OF \<open>valid ?m\<close>] clear_bits by auto
  ultimately have "snd (set_in n ?m) = m"
    using extensional set_valid assms(1,2) by blast
  moreover have "fst (set_in n ?m) = False"
    using assms by (simp add: set_fst clear_bits)
  ultimately show ?thesis by (simp add: prod_eq_iff)
qed

lemma first_zero_full: "valid m \<Longrightarrow> bits \<le> first_zero m \<longleftrightarrow> (\<forall>k < bits. is_set m k)"
  using first_free first_below by (meson le_less_trans less_le_trans not_le)

text \<open>A bit just released is the highest the search can come to.\<close>

lemma first_zero_clear:
  assumes "valid m" and "n < bits"
  shows "first_zero (snd (clear_in n m)) \<le> n"
proof (rule ccontr)
  assume "\<not> first_zero (snd (clear_in n m)) \<le> n"
  then have "is_set (snd (clear_in n m)) n"
    using assms clear_valid first_below by (meson not_le)
  then show False using assms by (simp add: clear_bits)
qed

end

text \<open>The bits of a bitmap block.\<close>

lemma div_mod_8: "k div 8 = n div 8 \<Longrightarrow> k mod 8 = n mod 8 \<longleftrightarrow> k = (n :: nat)"
  by (metis div_mult_mod_eq)

lemma bit_at_set:
  assumes "n div 8 < length d"
  shows "bit_at (snd (set_bit_in n d)) k \<longleftrightarrow> k = n \<or> bit_at d k"
proof (cases "k div 8 = n div 8")
  case True
  with assms have "bit_at (snd (set_bit_in n d)) k \<longleftrightarrow> k mod 8 = n mod 8 \<or> bit_at d k"
    by (auto simp: set_bit_in_def bit_at_def bit_set_bit_iff)
  with div_mod_8 [OF True] show ?thesis by simp
qed (auto simp: set_bit_in_def bit_at_def)

lemma bit_at_clear:
  assumes "n div 8 < length d"
  shows "bit_at (snd (clear_bit_in n d)) k \<longleftrightarrow> k \<noteq> n \<and> bit_at d k"
proof (cases "k div 8 = n div 8")
  case True
  with assms have "bit_at (snd (clear_bit_in n d)) k \<longleftrightarrow> k mod 8 \<noteq> n mod 8 \<and> bit_at d k"
    by (auto simp: clear_bit_in_def bit_at_def bit_unset_bit_iff)
  with div_mod_8 [OF True] show ?thesis by simp
qed (auto simp: clear_bit_in_def bit_at_def)

lemma bit_at_ext:
  assumes "length d = length d'" and "\<And>k. k < 8 * length d \<Longrightarrow> bit_at d k = bit_at d' k"
  shows "d = d'"
proof (rule nth_equalityI [OF assms(1)])
  fix i assume i: "i < length d"
  show "d ! i = d' ! i"
  proof (rule bit_word_eqI)
    fix j assume "j < LENGTH(8)"
    with i assms(2) [of "8 * i + j"] show "bit (d ! i) j = bit (d' ! i) j"
      by (simp add: bit_at_def)
  qed
qed

text \<open>The search for a zero bit goes through the longs, but sees the same bits.\<close>

lemma bit_byte_in_long:
  assumes "r < 8" and "q < 4"
  shows "bit (push_bit (8 * p) (ucast (x :: u8)) :: u32) (8 * q + r) \<longleftrightarrow> p = q \<and> bit x r"
proof (cases "p = q")
  case True
  with assms show ?thesis by (simp add: bit_push_bit_iff bit_ucast_iff)
next
  case False
  have "8 \<le> 8 * q + r - 8 * p \<or> 8 * q + r < 8 * p" using False assms by linarith
  then show ?thesis
    using False by (auto simp: bit_push_bit_iff bit_ucast_iff dest: bit_imp_le_length)
qed

lemma bit_long_at:
  assumes "j < 32"
  shows "bit (long_at d k) j = bit_at d (32 * k + j)"
proof -
  define q r where "q = j div 8" and "r = j mod 8"
  have j: "j = 8 * q + r" and r: "r < 8" and q: "q < 4" using assms by (auto simp: q_def r_def)
  have at: "32 * k + j = 8 * (4 * k + q) + r" using j by simp
  have "(32 * k + j) div 8 = 4 * k + q" "(32 * k + j) mod 8 = r"
    unfolding at using r by (simp_all only: div_mult_self4 mod_mult_self4 div_less mod_less)
  moreover have "bit (long_at d k) (8 * q + r) = bit (d ! (4 * k + q)) r"
  proof -
    have l: "long_at d k = ((push_bit (8 * 0) (ucast (d ! (4 * k))) OR
          push_bit (8 * 1) (ucast (d ! (4 * k + 1)))) OR push_bit (8 * 2) (ucast (d ! (4 * k + 2)))) OR
          push_bit (8 * 3) (ucast (d ! (4 * k + 3)))"
      unfolding long_at_def by (simp add: or.assoc)
    have "bit (long_at d k) (8 * q + r) \<longleftrightarrow>
        ((0 = q \<and> bit (d ! (4 * k)) r \<or> 1 = q \<and> bit (d ! (4 * k + 1)) r) \<or>
         2 = q \<and> bit (d ! (4 * k + 2)) r) \<or> 3 = q \<and> bit (d ! (4 * k + 3)) r"
      unfolding l bit_or_iff bit_byte_in_long [OF r q] ..
    moreover have "q = 0 \<or> q = 1 \<or> q = 2 \<or> q = 3" using q by linarith
    ultimately show ?thesis by auto
  qed
  ultimately show ?thesis by (simp add: bit_at_def j)
qed

lemma bsf_spec:
  "case bsf w of None \<Rightarrow> w = 0 | Some n \<Rightarrow> n < 32 \<and> bit w n \<and> (\<forall>i < n. \<not> bit w i)"
proof (cases "bsf w")
  case None
  then have "\<not> bit w i" if "i < LENGTH(32)" for i
    using that by (auto simp: bsf_def find_None_iff)
  then have "w = 0" by (intro bit_word_eqI) auto
  with None show ?thesis by simp
next
  case (Some n)
  then obtain i where "i < 32" "n = i" "bit w n" "\<forall>j < i. \<not> bit w j"
    unfolding bsf_def find_Some_iff by auto
  with Some show ?thesis by simp
qed

lemma bsf_long:
  "case bsf (NOT (long_at d k)) of
     None \<Rightarrow> \<forall>j < 32. bit_at d (32 * k + j)
   | Some n \<Rightarrow> n < 32 \<and> \<not> bit_at d (32 * k + n) \<and> (\<forall>j < n. bit_at d (32 * k + j))"
proof (cases "bsf (NOT (long_at d k))")
  case None
  then have "NOT (long_at d k) = 0" using bsf_spec [of "NOT (long_at d k)"] by simp
  then have "NOT (NOT (long_at d k)) = - 1" by simp
  then have "long_at d k = - 1" by (simp only: bit.double_compl)
  then have "bit (long_at d k) j" if "j < 32" for j
    using that by simp
  with None bit_long_at show ?thesis by simp
next
  case (Some n)
  then have "n < 32" "bit (NOT (long_at d k)) n" "\<forall>i < n. \<not> bit (NOT (long_at d k)) i"
    using bsf_spec [of "NOT (long_at d k)"] by auto
  with Some show ?thesis
    using bit_long_at by (auto simp: bit_not_iff)
qed

lemma ffz_longs_spec:
  "ffz_longs d [k..<k + m] (32 * k) = r \<Longrightarrow>
   32 * k \<le> r \<and> r \<le> 32 * (k + m) \<and> (\<forall>i. 32 * k \<le> i \<and> i < r \<longrightarrow> bit_at d i) \<and>
   (r < 32 * (k + m) \<longrightarrow> \<not> bit_at d r)"
proof (induction m arbitrary: k)
  case (Suc m)
  have "[k..<k + Suc m] = k # [Suc k..<Suc k + m]" by (simp add: upt_conv_Cons del: upt_Suc)
  with Suc.prems have up: "ffz_longs d (k # [Suc k..<Suc k + m]) (32 * k) = r" by (simp only:)
  show ?case
  proof (cases "bsf (NOT (long_at d k))")
    case None
    then have all: "\<forall>j < 32. bit_at d (32 * k + j)" using bsf_long [of d k] by simp
    have "ffz_longs d [Suc k..<Suc k + m] (32 * Suc k) = r"
      using up None by (simp add: algebra_simps del: upt_Suc)
    note IH = Suc.IH [OF this]
    have "bit_at d i" if "32 * k \<le> i" "i < 32 * Suc k" for i
      using all that by (metis add_diff_inverse_nat add.commute less_diff_conv2 mult_Suc_right not_le)
    with IH show ?thesis by (auto simp: not_less) (metis leI mult_Suc_right)+
  next
    case (Some n)
    then have n: "n < 32" "\<not> bit_at d (32 * k + n)" "\<forall>j < n. bit_at d (32 * k + j)"
      using bsf_long [of d k] by auto
    have r: "r = 32 * k + n" using up Some by (simp del: upt_Suc)
    have "bit_at d i" if "32 * k \<le> i" "i < r" for i
      using n(3) that r by (metis le_add_diff_inverse nat_add_left_cancel_less)
    with n r show ?thesis by auto
  qed
qed auto

lemma find_first_zero_spec:
  "find_first_zero d \<le> 8192 \<and> (\<forall>i < find_first_zero d. bit_at d i) \<and>
   (find_first_zero d < 8192 \<longrightarrow> \<not> bit_at d (find_first_zero d))"
  using ffz_longs_spec [of d 0 256 "find_first_zero d"] by (simp add: find_first_zero_def)

lemma find_first_zero_eqI:
  assumes "\<forall>k < n. bit_at d k" and "\<not> bit_at d n" and "n < 8192"
  shows "find_first_zero d = n"
  using find_first_zero_spec [of d] assms by (meson linorder_neqE_nat order_less_trans)

interpretation zone_map: bit_map bit_at set_bit_in clear_bit_in find_first_zero
  "\<lambda>d. length d = BLOCK_SIZE" 8192
proof unfold_locales
  show "fst (set_bit_in n m) = bit_at m n" "fst (clear_bit_in n m) \<longleftrightarrow> \<not> bit_at m n" for n m
    by (simp_all add: set_bit_in_def clear_bit_in_def)
  show "length (snd (set_bit_in n m)) = 1024" "length (snd (clear_bit_in n m)) = 1024"
    if "length m = 1024" for n m
    using that by (simp_all add: set_bit_in_def clear_bit_in_def)
  show "bit_at (snd (set_bit_in n m)) k \<longleftrightarrow> k = n \<or> bit_at m k"
    "bit_at (snd (clear_bit_in n m)) k \<longleftrightarrow> k \<noteq> n \<and> bit_at m k"
    if "length m = 1024" "n < 8192" for n m k
    using that by (simp_all add: bit_at_set bit_at_clear)
  show "find_first_zero m < 8192 \<Longrightarrow> \<not> bit_at m (find_first_zero m)"
    "k < find_first_zero m \<Longrightarrow> bit_at m k" for m k
    using find_first_zero_spec [of m] by auto
  show "m = m'" if "length m = 1024" "length m' = 1024" "\<And>k. k < 8192 \<Longrightarrow> bit_at m k = bit_at m' k"
    for m m'
    using that by (intro bit_at_ext) auto
qed

section \<open>The file system's tables are not the block layer's business\<close>

named_theorems fs_simps

lemma fs_upd_buf [fs_simps]:
  "inode_table (upd_buf b f s) = inode_table s"
  "super_table (upd_buf b f s) = super_table s"
  "file_table (upd_buf b f s) = file_table s"
  "root_dev (upd_buf b f s) = root_dev s"
  by (simp_all add: upd_buf_def)

lemma fs_edit [fs_simps]:
  "inode_table (edit b g s) = inode_table s"
  "super_table (edit b g s) = super_table s"
  "file_table (edit b g s) = file_table s"
  "root_dev (edit b g s) = root_dev s"
  by (simp_all add: edit_def fs_simps)

lemma fs_hold [fs_simps]:
  "inode_table (hold b s) = inode_table s"
  "super_table (hold b s) = super_table s"
  "file_table (hold b s) = file_table s"
  "root_dev (hold b s) = root_dev s"
  by (simp_all add: hold_def fs_simps)

lemma fs_grant [fs_simps]:
  "inode_table (snd (grant dev n s)) = inode_table s"
  "super_table (snd (grant dev n s)) = super_table s"
  "file_table (snd (grant dev n s)) = file_table s"
  "root_dev (snd (grant dev n s)) = root_dev s"
  by (simp_all add: grant_def claimed_def Let_def fs_simps split: option.split)

lemma fs_upd_inode [fs_simps]:
  "inode_table (upd_inode i f s) = (inode_table s)(i := f (inode_table s i))"
  "super_table (upd_inode i f s) = super_table s"
  "file_table (upd_inode i f s) = file_table s"
  "bufs (upd_inode i f s) = bufs s"
  "nr_buffers (upd_inode i f s) = nr_buffers s"
  by (simp_all add: upd_inode_def)

lemma edit_as_upd:
  "upd_buf b (\<lambda>x. x\<lparr>b_data := f (b_data (bufs s b)), b_dirt := True\<rparr>) s = edit b f s"
  unfolding edit_def by (rule upd_buf_cong) simp

lemma get_super_cong: "super_table s' = super_table s \<Longrightarrow> get_super dev s' = get_super dev s"
  by (auto simp: get_super_def wait_on_super_def split: option.split)

section \<open>Allocating a zone\<close>

definition zone_nr :: "super_block \<Rightarrow> nat \<Rightarrow> nat \<Rightarrow> int" where
  "zone_nr sb i j = int j + int i * 8192 + uint (s_firstdatazone sb) - 1"

definition take_zone :: "nat \<Rightarrow> nat \<Rightarrow> fs \<Rightarrow> fs" where
  "take_zone bh j s = edit bh (\<lambda>d. snd (set_bit_in j d)) s"

definition zeroed :: "nat \<Rightarrow> fs \<Rightarrow> fs" where
  "zeroed b s = upd_buf b (\<lambda>x. x\<lparr>b_data := replicate BLOCK_SIZE 0, b_uptodate := True,
     b_dirt := True, b_count := 0\<rparr>) s"

lemma zone_nr_area: "0 < j + i * 8192 \<Longrightarrow> uint (s_firstdatazone sb) \<le> zone_nr sb i j"
  unfolding zone_nr_def by linarith

lemma search_map_Some:
  "search_map m is s = Some (i, bh, j) \<Longrightarrow>
   i \<in> set is \<and> m i = Some bh \<and> j = find_first_zero (b_data (bufs s bh)) \<and> j < 8192"
  by (induction "is") (auto simp: Let_def split: option.splits if_splits)

lemma search_map_None:
  "search_map m is s = None \<longleftrightarrow>
   (\<forall>i \<in> set is. \<forall>bh. m i = Some bh \<longrightarrow> 8192 \<le> find_first_zero (b_data (bufs s bh)))"
  by (induction "is") (auto simp: Let_def not_less split: option.splits if_splits)

lemma zeroed_release:
  assumes "b_count (bufs s b) = 1" and "\<not> b_lock (bufs s b)"
  shows "brelse b (upd_buf b (\<lambda>x. x\<lparr>b_data := replicate BLOCK_SIZE 0, b_uptodate := True,
    b_dirt := True\<rparr>) s) = Inr (zeroed b s)"
  using assms
  by (simp add: brelse_def wait_on_buffer_def cache_simps zeroed_def) (rule upd_buf_cong, simp)

lemma new_block_run:
  assumes sb: "get_super dev s = Inr (Some sb)" and dev: "dev \<noteq> 0" and I: "cache_inv s"
    and found: "search_map (s_zmap (super_table s sb)) [0..<MAP_SLOTS] s = Some (i, bh, j)"
    and held: "b_count (bufs s bh) \<noteq> 0"
    and r: "r = zone_nr (super_table s sb) i j" and zone: "r < uint (s_nzones (super_table s sb))"
    and av: "available dev (word_of_int r) s"
    and g: "grant dev (word_of_int r) (take_zone bh j s) = (b, s')"
  shows "new_block ops dev s = Inr (r, zeroed b s')"
proof -
  let ?s = "take_zone bh j s"
  have z: "\<not> bit_at (b_data (bufs s bh)) j"
    using search_map_Some [OF found] find_first_zero_spec by blast
  have I': "cache_inv ?s" using I by (simp add: take_zone_def edit_inv)
  have av': "available dev (word_of_int r) ?s"
    using av available_edit(1) [OF held] by (simp add: take_zone_def)
  note spec = grant_spec [OF I' dev av' g]
  have s: "upd_buf bh (\<lambda>x. x\<lparr>b_data := snd (set_bit_in j (b_data (bufs s bh))), b_dirt := True\<rparr>) s = ?s"
    unfolding take_zone_def by (rule edit_as_upd)
  have "getblk ops dev (word_of_int r) ?s = Inr (b, s')"
    using getblk_available [OF I' dev av'] g by simp
  then show ?thesis
    using sb found z zone zeroed_release [OF spec(6,7)] spec(6) r
    by (simp add: new_block_def case_prod_beta set_bit_in_def s [unfolded set_bit_in_def, simplified]
        zone_nr_def take_zone_def fs_simps Let_def)
qed

text \<open>Releasing the zone again.\<close>

lemma clear_zone_take:
  assumes sb: "s_zmap (super_table s sb) i = Some bh" and j: "j < 8192" and pos: "0 < j + i * 8192"
    and r: "r = zone_nr (super_table s sb) i j"
  shows "clear_zone sb r s =
    (if bit_at (b_data (bufs s bh)) j then Inr (edit bh (\<lambda>d. snd (clear_bit_in j d)) s)
     else Inl (Panic ''free_block: bit already cleared''))"
proof -
  have n: "nat (r - (uint (s_firstdatazone (super_table s sb)) - 1)) = j + 8192 * i"
    unfolding r zone_nr_def by simp
  have "(j + 8192 * i) div 8192 = i" "(j + 8192 * i) mod 8192 = j" using j by simp_all
  with sb show ?thesis
    unfolding clear_zone_def n
    by (simp add: clear_bit_in_def edit_as_upd [where f = "\<lambda>d. d[j div 8 := unset_bit (j mod 8) (d ! (j div 8))]"])
qed

lemma free_block_cached:
  assumes sb: "get_super dev s = Inr (Some sb)"
    and zone: "uint (s_firstdatazone (super_table s sb)) \<le> r" "r < uint (s_nzones (super_table s sb))"
    and b: "find_buffer dev (word_of_int r) s = Some b" "\<not> b_lock (bufs s b)" "b_count (bufs s b) = 0"
  shows "free_block dev r s =
    clear_zone sb r (upd_buf b (\<lambda>x. x\<lparr>b_dirt := False, b_uptodate := False\<rparr>) s)"
proof -
  have h: "b_count (bufs (hold b s) b) = 1" using b by (simp add: hold_def cache_simps)
  have "brelse b (upd_buf b (\<lambda>x. x\<lparr>b_dirt := False, b_uptodate := False\<rparr>) (hold b s)) =
      Inr (upd_buf b (\<lambda>x. x\<lparr>b_dirt := False, b_uptodate := False\<rparr>) s)"
    using b by (simp add: hold_def brelse_def wait_on_buffer_def cache_simps) (rule upd_buf_cong, simp)
  with sb zone h show ?thesis
    by (simp add: free_block_def get_hash_table_hit [OF b(1,2)])
qed

lemma free_block_absent:
  assumes "get_super dev s = Inr (Some sb)"
    and "uint (s_firstdatazone (super_table s sb)) \<le> r" "r < uint (s_nzones (super_table s sb))"
    and "find_buffer dev (word_of_int r) s = None"
  shows "free_block dev r s = clear_zone sb r s"
  using assms by (simp add: free_block_def get_hash_table_miss)

section \<open>Properties\<close>

text \<open>
  A device with a free zone, bit \<open>j\<close> of slot \<open>i\<close> of its zone bitmap, held in the buffer \<open>bh\<close>, which
  is not the bit before the first data zone; and a buffer for it to be had without output.
\<close>

definition zone_to_be_had :: "u16 \<Rightarrow> nat \<Rightarrow> nat \<Rightarrow> nat \<Rightarrow> nat \<Rightarrow> fs \<Rightarrow> bool" where
  "zone_to_be_had dev sb i bh j s \<longleftrightarrow>
     dev \<noteq> 0 \<and> cache_inv s \<and> get_super dev s = Inr (Some sb) \<and>
     search_map (s_zmap (super_table s sb)) [0..<MAP_SLOTS] s = Some (i, bh, j) \<and> 0 < j + i * 8192 \<and>
     bh < nr_buffers s \<and> b_count (bufs s bh) \<noteq> 0 \<and> length (b_data (bufs s bh)) = BLOCK_SIZE \<and>
     zone_nr (super_table s sb) i j < uint (s_nzones (super_table s sb)) \<and>
     available dev (word_of_int (zone_nr (super_table s sb) i j)) s"

lemma zone_facts:
  assumes "zone_to_be_had dev sb i bh j s"
  shows "dev \<noteq> 0" and "cache_inv s" and "get_super dev s = Inr (Some sb)"
    and "search_map (s_zmap (super_table s sb)) [0..<MAP_SLOTS] s = Some (i, bh, j)"
    and "0 < j + i * 8192" and "bh < nr_buffers s" and "b_count (bufs s bh) \<noteq> 0"
    and "length (b_data (bufs s bh)) = BLOCK_SIZE"
    and "zone_nr (super_table s sb) i j < uint (s_nzones (super_table s sb))"
    and "available dev (word_of_int (zone_nr (super_table s sb) i j)) s"
    and "s_zmap (super_table s sb) i = Some bh" and "j < 8192" and "\<not> bit_at (b_data (bufs s bh)) j"
proof -
  note z = assms [unfolded zone_to_be_had_def]
  then have f: "search_map (s_zmap (super_table s sb)) [0..<MAP_SLOTS] s = Some (i, bh, j)" by (elim conjE)
  then show "search_map (s_zmap (super_table s sb)) [0..<MAP_SLOTS] s = Some (i, bh, j)" .
  from search_map_Some [OF f] find_first_zero_spec [of "b_data (bufs s bh)"]
  show "s_zmap (super_table s sb) i = Some bh" "j < 8192" "\<not> bit_at (b_data (bufs s bh)) j" by blast+
qed (insert assms, unfold zone_to_be_had_def, (elim conjE, assumption)+)

lemma new_block_state:
  assumes z: "zone_to_be_had dev sb i bh j s" and r: "r = zone_nr (super_table s sb) i j"
  obtains b s' where "new_block ops dev s = Inr (r, zeroed b s')"
    and "grant dev (word_of_int r) (take_zone bh j s) = (b, s')" and "b \<noteq> bh"
    and "cache_inv (zeroed b s')" and "b < nr_buffers (zeroed b s')"
    and "holds dev (word_of_int r) (bufs (zeroed b s') b)" and "\<not> b_lock (bufs (zeroed b s') b)"
    and "\<forall>c. c \<noteq> b \<longrightarrow> bufs (zeroed b s') c = bufs (take_zone bh j s) c"
    and "super_table (zeroed b s') = super_table s" and "inode_table (zeroed b s') = inode_table s"
proof -
  obtain b s' where g: "grant dev (word_of_int r) (take_zone bh j s) = (b, s')"
    by (cases "grant dev (word_of_int r) (take_zone bh j s)")
  have I: "cache_inv (take_zone bh j s)"
    using z by (simp add: zone_to_be_had_def take_zone_def edit_inv)
  have av: "available dev (word_of_int r) (take_zone bh j s)"
    using z r available_edit(1) [of s bh] by (simp add: zone_to_be_had_def take_zone_def)
  have dev: "dev \<noteq> 0" using z by (simp add: zone_to_be_had_def)
  note spec = grant_spec [OF I dev av g]
  have "b \<noteq> bh"
    using available_edit(2) [of s bh dev "word_of_int r" "\<lambda>d. snd (set_bit_in j d)"] z r g
    by (simp add: zone_to_be_had_def take_zone_def)
  moreover have "new_block ops dev s = Inr (r, zeroed b s')"
    using z r g by (intro new_block_run) (auto simp: zone_to_be_had_def)
  moreover have "cache_inv (zeroed b s')"
    unfolding zeroed_def by (rule same_blocks_inv [OF same_blocks_upd spec(1)]) simp
  moreover have s': "s' = snd (grant dev (word_of_int r) (take_zone bh j s))" using g by simp
  have "super_table s' = super_table s" "inode_table s' = inode_table s"
    unfolding s' by (simp_all add: take_zone_def fs_simps)
  ultimately show ?thesis
    using that [OF _ g] spec by (simp add: zeroed_def cache_simps holds_def fs_simps)
qed


text \<open>Releasing a zone just allocated gives the bitmap back as it was: \<open>free_block\<close> returns, the
  zone's bit is clear again and no other buffer than the zone's differs from before, and the zone's
  buffer will not be written back.\<close>

theorem free_block_new_block:
  assumes "zone_to_be_had dev sb i bh j s" and "r = zone_nr (super_table s sb) i j"
    and "new_block ops dev s = Inr (r, s1)"
  shows "\<exists>b s2. free_block dev r s1 = Inr s2 \<and> b_data (bufs s2 bh) = b_data (bufs s bh) \<and>
    find_buffer dev (word_of_int r) s2 = Some b \<and> \<not> b_dirt (bufs s2 b) \<and> \<not> b_uptodate (bufs s2 b) \<and>
    (\<forall>c. c \<noteq> b \<and> c \<noteq> bh \<longrightarrow> bufs s2 c = bufs s c)"
proof -
  note z = zone_facts [OF assms(1)]
  obtain b s' where run: "new_block ops dev s = Inr (r, zeroed b s')"
    and g: "grant dev (word_of_int r) (take_zone bh j s) = (b, s')" and ne: "b \<noteq> bh"
    and I: "cache_inv (zeroed b s')" and b: "b < nr_buffers (zeroed b s')"
    "holds dev (word_of_int r) (bufs (zeroed b s') b)" "\<not> b_lock (bufs (zeroed b s') b)"
    and rest: "\<forall>c. c \<noteq> b \<longrightarrow> bufs (zeroed b s') c = bufs (take_zone bh j s) c"
    and super: "super_table (zeroed b s') = super_table s"
    and inodes: "inode_table (zeroed b s') = inode_table s"
    by (rule new_block_state [OF assms(1,2), where ops = ops])
  have s1: "s1 = zeroed b s'" using run assms(3) by simp
  note j = z(13,12)
  let ?d = "b_data (bufs s bh)"
  let ?u = "upd_buf b (\<lambda>x. x\<lparr>b_dirt := False, b_uptodate := False\<rparr>) s1"
  have find: "find_buffer dev (word_of_int r) s1 = Some b"
    unfolding s1 using find_buffer_unique [OF I b(1,2) z(1)] .
  note slot = z(11)
  have "get_super dev s1 = Inr (Some sb)" unfolding s1 using z(3) get_super_cong [OF super] by simp
  moreover have "b_count (bufs s1 b) = 0" by (simp add: s1 zeroed_def cache_simps)
  ultimately have "free_block dev r s1 = clear_zone sb r ?u"
    using find b(3) zone_nr_area [OF z(5)] z(9) unfolding assms(2)
    by (intro free_block_cached) (simp_all add: s1 super)
  moreover have data: "b_data (bufs ?u bh) = snd (set_bit_in j ?d)"
    using spec [OF rest, of bh] ne by (simp add: s1 take_zone_def data_edit cache_simps)
  moreover have "bit_at (snd (set_bit_in j ?d)) j"
    using zone_map.set_bits [OF z(8) z(12) z(12)] by simp
  ultimately have "free_block dev r s1 = Inr (edit bh (\<lambda>d. snd (clear_bit_in j d)) ?u)"
    using clear_zone_take [of ?u sb i bh j r] slot j(2) z(5) assms(2) super by (simp add: s1 fs_simps)
  moreover have "clear_bit_in j (snd (set_bit_in j ?d)) = (False, ?d)"
    using zone_map.set_then_clear [OF z(8) z(12) z(13)] .
  moreover have "find_buffer dev (word_of_int r) ?u = Some b"
    using find by (simp add: find_buffer_upd)
  ultimately show ?thesis
    using ne rest
    by (intro exI [of _ b] exI [of _ "edit bh (\<lambda>d. snd (clear_bit_in j d)) ?u"])
      (simp add: data_edit data bufs_edit cache_simps s1 take_zone_def)
qed

text \<open>
  A file system on the RAM disk for the examples: in core its zone bitmap (one zone in use), its
  inode bitmap, the block of its inodes and its first data block, and two empty buffers.
\<close>

definition cached :: "u32 \<Rightarrow> u8 \<Rightarrow> u8 list \<Rightarrow> buffer_head" where
  "cached n c d = \<lparr>b_data = d, b_blocknr = n, b_dev = 0x101, b_uptodate = True, b_dirt = False,
     b_count = c, b_lock = False\<rparr>"

definition small_bufs :: "nat \<Rightarrow> buffer_head" where
  "small_bufs = (\<lambda>i. if i = 0 then cached 3 1 (3 # replicate 1023 0)
     else if i = 1 then cached 2 1 (3 # replicate 1023 0)
     else if i = 2 then cached 4 0 (replicate 1024 0)
     else if i = 3 then cached 5 0 (replicate 1024 0)
     else empty_buffer (replicate 1024 0))"

definition small_super :: super_block where
  "small_super = \<lparr>s_ninodes = 32, s_nzones = 100, s_imap_blocks = 1, s_zmap_blocks = 1,
     s_firstdatazone = 5, s_log_zone_size = 0, s_max_size = 0x10081c00, s_magic = 0x137f,
     s_imap = (\<lambda>i. if i = 0 then Some 1 else None), s_zmap = (\<lambda>i. if i = 0 then Some 0 else None),
     s_dev = 0x101, s_isup = Some 0, s_imount = Some 0, s_time = 0, s_lock = False,
     s_rd_only = False, s_dirt = False\<rparr>"

definition small_fs :: fs where
  "small_fs = \<lparr>bufs = small_bufs, nr_buffers = 6,
     hash_table = (\<lambda>h. filter (\<lambda>i. b_dev (small_bufs i) \<noteq> 0 \<and> hash_of (small_bufs i) = h) [0..<6]),
     free_list = [0..<6], null_b_prev = None,
     requests = (\<lambda>_. \<lparr>rq_dev = -1, rq_cmd = 0, rq_errors = 0, rq_sector = 0, rq_nr_sectors = 0, rq_buffer = 0,
       rq_bh = None\<rparr>), dev_queue = (\<lambda>_. []), rd_start = (\<lambda>_. 0), rd_length = 102400,
     inode_table = (\<lambda>_. zero_inode), last_inode = 0,
     file_table = (\<lambda>_. \<lparr>f_mode = 0, f_flags = 0, f_count = 0, f_inode = None, f_pos = 0\<rparr>),
     super_table = (\<lambda>i. if i = 0 then small_super else small_super\<lparr>s_dev := 0\<rparr>), root_dev = 0x101\<rparr>"

lemma small_fs_inv: "cache_inv small_fs"
proof -
  have "i = 0 \<or> i = 1 \<or> i = 2 \<or> i = 3 \<or> i = 4 \<or> i = 5" if "i < 6" for i :: nat
    using that by auto
  then have "cache_unique small_fs"
    unfolding cache_unique_def
    by (simp add: small_fs_def) (auto simp: small_bufs_def cached_def empty_buffer_def)
  moreover have "cache_wf small_fs"
    by (auto simp: cache_wf_def small_fs_def)
  ultimately show ?thesis by (simp add: cache_inv_def)
qed

lemma small_zone_nr: "6 = zone_nr (super_table small_fs 0) 0 2"
  by (simp add: zone_nr_def small_fs_def small_super_def)

lemma small_get_super: "get_super 0x101 small_fs = Inr (Some 0)"
  by (simp add: get_super_def wait_on_super_def small_fs_def small_super_def upt_conv_Cons)

lemma small_available: "available 0x101 6 small_fs"
proof -
  have "\<forall>b < nr_buffers small_fs. \<not> holds 0x101 6 (bufs small_fs b)"
    by (auto simp: holds_def small_fs_def small_bufs_def cached_def empty_buffer_def)
  then have "find_buffer 0x101 6 small_fs = None" by (rule find_buffer_absent [OF small_fs_inv])
  moreover have "pick_buffer (bufs small_fs) (free_list small_fs) None = Some 2"
    by (simp add: small_fs_def small_bufs_def cached_def BADNESS_def upt_conv_Cons)
  moreover have "\<not> b_lock (bufs small_fs 2)" "\<not> b_dirt (bufs small_fs 2)"
    by (simp_all add: small_fs_def small_bufs_def cached_def)
  ultimately show ?thesis by (simp add: available_def)
qed

lemma small_zone: "zone_to_be_had 0x101 0 0 0 2 small_fs"
proof -
  have m: "b_data (bufs small_fs 0) = 3 # replicate 1023 0"
    by (simp add: small_fs_def small_bufs_def cached_def)
  have "find_first_zero (b_data (bufs small_fs 0)) = 2"
  proof (rule find_first_zero_eqI)
    have "bit (3 :: u8) 0" "bit (3 :: u8) 1" "\<not> bit (3 :: u8) 2" by code_simp+
    then show "\<forall>k < 2. bit_at (b_data (bufs small_fs 0)) k" "\<not> bit_at (b_data (bufs small_fs 0)) 2"
      by (auto simp: m bit_at_def numeral_2_eq_2 less_Suc_eq)
  qed simp
  moreover have "[0..<8] = (0::nat) # [1..<8]" by (simp add: upt_conv_Cons)
  moreover have "s_zmap (super_table small_fs 0) 0 = Some 0"
    by (simp add: small_fs_def small_super_def)
  ultimately have "search_map (s_zmap (super_table small_fs 0)) [0..<8] small_fs = Some (0, 0, 2)"
    by (simp del: upt_Suc)
  moreover have "get_super 0x101 small_fs = Inr (Some 0)" by (rule small_get_super)
  moreover have "available 0x101 (word_of_int (zone_nr (super_table small_fs 0) 0 2)) small_fs"
    unfolding small_zone_nr [symmetric] by (simp add: small_available)
  moreover have "zone_nr (super_table small_fs 0) 0 2 < uint (s_nzones (super_table small_fs 0))"
    unfolding small_zone_nr [symmetric] by (simp add: small_fs_def small_super_def)
  moreover have "0 < nr_buffers small_fs" "b_count (bufs small_fs 0) \<noteq> 0"
    by (simp_all add: small_fs_def small_bufs_def cached_def)
  moreover have "length (b_data (bufs small_fs 0)) = 1024" by (simp add: m)
  ultimately show ?thesis using small_fs_inv by (simp add: zone_to_be_had_def)
qed


lemma free_block_new_block_witness:
  "\<exists>s1 s2. new_block rd_ops 0x101 small_fs = Inr (6, s1) \<and> free_block 0x101 6 s1 = Inr s2 \<and>
     b_data (bufs s2 0) = 3 # replicate 1023 0"
proof -
  note r = small_zone_nr
  obtain s1 where s1: "new_block rd_ops 0x101 small_fs = Inr (6, s1)"
    by (rule new_block_state [OF small_zone r, where ops = rd_ops])
  have "b_data (bufs small_fs 0) = 3 # replicate 1023 0"
    by (simp add: small_fs_def small_bufs_def cached_def)
  moreover obtain s2 where "free_block 0x101 6 s1 = Inr s2"
    and "b_data (bufs s2 0) = b_data (bufs small_fs 0)"
    using free_block_new_block [OF small_zone r s1] by blast
  ultimately show ?thesis using s1 by (intro exI [of _ s1] exI [of _ s2]) simp
qed

end
