(* ===== verification/Inode.thy ===== *)
theory Inode
  imports Bitmap
begin

text \<open>
  The part of \<^verbatim>\<open>fs/inode.c\<close> that reads and writes inodes and maps file blocks to disk blocks, and
  \<^verbatim>\<open>fs/truncate.c\<close>. \<open>CURRENT_TIME\<close>, which the file system only reads, is the argument \<open>now\<close>.
\<close>

abbreviation (input) ROOT_INO :: u16 where "ROOT_INO \<equiv> 1"

abbreviation (input) INODES_PER_BLOCK :: u32 where "INODES_PER_BLOCK \<equiv> 32"

definition S_ISREG :: "u16 \<Rightarrow> bool" where "S_ISREG m \<longleftrightarrow> m AND 0xf000 = 0x8000"

definition S_ISDIR :: "u16 \<Rightarrow> bool" where "S_ISDIR m \<longleftrightarrow> m AND 0xf000 = 0x4000"

definition S_ISCHR :: "u16 \<Rightarrow> bool" where "S_ISCHR m \<longleftrightarrow> m AND 0xf000 = 0x2000"

definition S_ISBLK :: "u16 \<Rightarrow> bool" where "S_ISBLK m \<longleftrightarrow> m AND 0xf000 = 0x6000"

section \<open>Locks\<close>

definition wait_on_inode :: "nat \<Rightarrow> fs \<Rightarrow> fs res" where
  "wait_on_inode i s = (if i_lock (inode_table s i) then Inl Sleeps else Inr s)"

definition lock_inode :: "nat \<Rightarrow> fs \<Rightarrow> fs res" where
  "lock_inode i s =
     (if i_lock (inode_table s i) then Inl Sleeps
      else Inr (upd_inode i (i_lock_update (\<lambda>_. True)) s))"

definition unlock_inode :: "nat \<Rightarrow> fs \<Rightarrow> fs" where
  "unlock_inode i s = upd_inode i (i_lock_update (\<lambda>_. False)) s"

section \<open>Disk inodes\<close>

text \<open>The 32 bytes of a \<open>struct d_inode\<close>, least significant bytes first.\<close>

definition u16_bytes :: "u16 \<Rightarrow> u8 list" where
  "u16_bytes w = [ucast w, ucast (drop_bit 8 w)]"

definition u32_bytes :: "u32 \<Rightarrow> u8 list" where
  "u32_bytes w = [ucast w, ucast (drop_bit 8 w), ucast (drop_bit 16 w), ucast (drop_bit 24 w)]"

definition u16_at :: "u8 list \<Rightarrow> nat \<Rightarrow> u16" where
  "u16_at d a = ucast (d ! a) OR push_bit 8 (ucast (d ! (a + 1)))"

definition u32_at :: "u8 list \<Rightarrow> nat \<Rightarrow> u32" where
  "u32_at d a = ucast (d ! a) OR push_bit 8 (ucast (d ! (a + 1))) OR
     push_bit 16 (ucast (d ! (a + 2))) OR push_bit 24 (ucast (d ! (a + 3)))"

definition put_bytes :: "nat \<Rightarrow> u8 list \<Rightarrow> u8 list \<Rightarrow> u8 list" where
  "put_bytes a bs d = take a d @ bs @ drop (a + length bs) d"

definition d_inode_bytes :: "m_inode \<Rightarrow> u8 list" where
  "d_inode_bytes n = u16_bytes (i_mode n) @ u16_bytes (i_uid n) @ u32_bytes (i_size n) @
     u32_bytes (i_mtime n) @ [i_gid n, i_nlinks n] @ concat (map u16_bytes (i_zone n))"

definition load_d_inode :: "u8 list \<Rightarrow> m_inode \<Rightarrow> m_inode" where
  "load_d_inode d n = n\<lparr>i_mode := u16_at d 0, i_uid := u16_at d 2, i_size := u32_at d 4,
     i_mtime := u32_at d 8, i_gid := d ! 12, i_nlinks := d ! 13,
     i_zone := map (\<lambda>k. u16_at d (14 + 2 * k)) [0..<9]\<rparr>"

text \<open>The block of an inode, in the unsigned arithmetic that \<open>sizeof\<close> brings in.\<close>

definition inode_block :: "super_block \<Rightarrow> u16 \<Rightarrow> u32" where
  "inode_block sb num = 2 + ucast (s_imap_blocks sb) + ucast (s_zmap_blocks sb) +
     (ucast num - 1) div INODES_PER_BLOCK"

definition inode_offset :: "u16 \<Rightarrow> nat" where
  "inode_offset num = 32 * unat ((ucast num - 1 :: u32) mod INODES_PER_BLOCK)"

definition read_inode :: "fs_drv \<Rightarrow> nat \<Rightarrow> fs \<Rightarrow> fs res" where
  "read_inode ops i s =
     kbind (lock_inode i s) (\<lambda>s.
       let n = inode_table s i
       in kbind (get_super (i_dev n) s) (\<lambda>found.
         case found of
           None \<Rightarrow> Inl (Panic ''trying to read inode without dev'')
         | Some sb \<Rightarrow>
             kbind (bread ops (i_dev n) (inode_block (super_table s sb) (i_num n)) s) (\<lambda>(bh, s).
               case bh of
                 None \<Rightarrow> Inl (Panic ''unable to read i-node block'')
               | Some bh \<Rightarrow>
                   let d = take 32 (drop (inode_offset (i_num n)) (b_data (bufs s bh)))
                   in kbind (brelse bh (upd_inode i (load_d_inode d) s)) (\<lambda>s.
                        Inr (unlock_inode i s)))))"

definition write_inode :: "fs_drv \<Rightarrow> nat \<Rightarrow> fs \<Rightarrow> fs res" where
  "write_inode ops i s =
     kbind (lock_inode i s) (\<lambda>s.
       let n = inode_table s i
       in if \<not> i_dirt n \<or> i_dev n = 0 then Inr (unlock_inode i s)
          else kbind (get_super (i_dev n) s) (\<lambda>found.
            case found of
              None \<Rightarrow> Inl (Panic ''trying to write inode without device'')
            | Some sb \<Rightarrow>
                kbind (bread ops (i_dev n) (inode_block (super_table s sb) (i_num n)) s) (\<lambda>(bh, s).
                  case bh of
                    None \<Rightarrow> Inl (Panic ''unable to read i-node block'')
                  | Some bh \<Rightarrow>
                      let s = upd_buf bh (\<lambda>b. b\<lparr>b_data := put_bytes (inode_offset (i_num n))
                                (d_inode_bytes (inode_table s i)) (b_data b), b_dirt := True\<rparr>) s;
                          s = upd_inode i (i_dirt_update (\<lambda>_. False)) s
                      in kbind (brelse bh s) (\<lambda>s. Inr (unlock_inode i s)))))"

fun sync_inode_list :: "fs_drv \<Rightarrow> nat list \<Rightarrow> fs \<Rightarrow> fs res" where
  "sync_inode_list ops [] s = Inr s"
| "sync_inode_list ops (i # is) s =
     kbind (wait_on_inode i s) (\<lambda>s.
       kbind (if i_dirt (inode_table s i) \<and> \<not> i_pipe (inode_table s i) then write_inode ops i s
              else Inr s) (sync_inode_list ops is))"

definition sync_inodes :: "fs_drv \<Rightarrow> fs \<Rightarrow> fs res" where
  "sync_inodes ops s = sync_inode_list ops [0..<NR_INODE] s"

fun invalidate_inode_list :: "u16 \<Rightarrow> nat list \<Rightarrow> fs \<Rightarrow> fs res" where
  "invalidate_inode_list dev [] s = Inr s"
| "invalidate_inode_list dev (i # is) s =
     kbind (wait_on_inode i s) (\<lambda>s.
       invalidate_inode_list dev is
         (if i_dev (inode_table s i) = dev
          then upd_inode i (\<lambda>n. n\<lparr>i_dev := 0, i_dirt := False\<rparr>) s else s))"

definition invalidate_inodes :: "u16 \<Rightarrow> fs \<Rightarrow> fs res" where
  "invalidate_inodes dev s = invalidate_inode_list dev [0..<NR_INODE] s"

text \<open>
  The block layer calls back into \<open>sync_inodes\<close> when it runs out of clean buffers, and
  \<open>sync_inodes\<close> reads blocks again. The depth of that recursion is the argument \<open>n\<close>: a kernel that
  needs more than \<open>n\<close> levels is said to diverge.
\<close>

primrec kernel_ops :: "(nat \<Rightarrow> (fs \<Rightarrow> fs res) option) \<Rightarrow> nat \<Rightarrow> fs_drv" where
  "kernel_ops drv 0 = \<lparr>request_fn = drv, sync_inodes_of = (\<lambda>_. Inl Diverges)\<rparr>"
| "kernel_ops drv (Suc n) =
     \<lparr>request_fn = drv, sync_inodes_of = sync_inodes (kernel_ops drv n)\<rparr>"

section \<open>Mapping file blocks\<close>

text \<open>Entry \<open>k\<close> of the block of the inode's zone \<open>z\<close>, given a block when asked to and it has none.\<close>

definition zone_entry :: "fs_drv \<Rightarrow> u32 \<Rightarrow> bool \<Rightarrow> nat \<Rightarrow> nat \<Rightarrow> fs \<Rightarrow> fs res" where
  "zone_entry ops now create i z s =
     (if create \<and> i_zone (inode_table s i) ! z = 0
      then kbind (new_block ops (i_dev (inode_table s i)) s) (\<lambda>(b, s).
        let s = upd_inode i (\<lambda>n. n\<lparr>i_zone := (i_zone n)[z := word_of_int b]\<rparr>) s
        in if b = 0 then Inr s
           else Inr (upd_inode i (\<lambda>n. n\<lparr>i_ctime := now, i_dirt := True\<rparr>) s))
      else Inr s)"

definition block_entry :: "fs_drv \<Rightarrow> bool \<Rightarrow> u16 \<Rightarrow> u32 \<Rightarrow> nat \<Rightarrow> fs \<Rightarrow> (int \<times> fs) res" where
  "block_entry ops create dev blk k s =
     kbind (bread ops dev blk s) (\<lambda>(bh, s).
       case bh of
         None \<Rightarrow> Inr (0, s)
       | Some bh \<Rightarrow>
           let e = uint (u16_at (b_data (bufs s bh)) (2 * k))
           in kbind (if create \<and> e = 0
                     then kbind (new_block ops dev s) (\<lambda>(b, s).
                       Inr (b, if b = 0 then s
                               else upd_buf bh (\<lambda>x. x\<lparr>b_data := put_bytes (2 * k)
                                      (u16_bytes (word_of_int b)) (b_data x), b_dirt := True\<rparr>) s))
                     else Inr (e, s)) (\<lambda>(e, s).
                kbind (brelse bh s) (\<lambda>s. Inr (e, s))))"

definition bmap_create :: "fs_drv \<Rightarrow> u32 \<Rightarrow> nat \<Rightarrow> int \<Rightarrow> bool \<Rightarrow> fs \<Rightarrow> (int \<times> fs) res" where
  "bmap_create ops now i block create s =
     (if block < 0 then Inl (Panic ''_bmap: block<0'')
      else if block \<ge> 7 + 512 + 512 * 512 then Inl (Panic ''_bmap: block>big'')
      else if block < 7
      then kbind (zone_entry ops now create i (nat block) s) (\<lambda>s.
             Inr (uint (i_zone (inode_table s i) ! nat block), s))
      else if block - 7 < 512
      then kbind (zone_entry ops now create i 7 s) (\<lambda>s.
             let n = inode_table s i
             in if i_zone n ! 7 = 0 then Inr (0, s)
                else block_entry ops create (i_dev n) (ucast (i_zone n ! 7)) (nat (block - 7)) s)
      else kbind (zone_entry ops now create i 8 s) (\<lambda>s.
             let n = inode_table s i;
                 k = nat (block - 519)
             in if i_zone n ! 8 = 0 then Inr (0, s)
                else kbind (block_entry ops create (i_dev n) (ucast (i_zone n ! 8)) (k div 512) s)
                  (\<lambda>(e, s).
                     if e = 0 then Inr (0, s)
                     else block_entry ops create (i_dev (inode_table s i)) (word_of_int e)
                            (k mod 512) s)))"

definition bmap :: "fs_drv \<Rightarrow> u32 \<Rightarrow> nat \<Rightarrow> int \<Rightarrow> fs \<Rightarrow> (int \<times> fs) res" where
  "bmap ops now i block s = bmap_create ops now i block False s"

definition create_block :: "fs_drv \<Rightarrow> u32 \<Rightarrow> nat \<Rightarrow> int \<Rightarrow> fs \<Rightarrow> (int \<times> fs) res" where
  "create_block ops now i block s = bmap_create ops now i block True s"

section \<open>\<open>truncate.c\<close>\<close>

text \<open>
  The loops over the 512 entries of a block read each entry when they come to it, from the buffer
  \<open>bh\<close>, which they hold; \<open>f\<close> frees one entry.
\<close>

fun free_entries :: "(int \<Rightarrow> fs \<Rightarrow> fs res) \<Rightarrow> nat \<Rightarrow> nat list \<Rightarrow> fs \<Rightarrow> fs res" where
  "free_entries f bh [] s = Inr s"
| "free_entries f bh (k # ks) s =
     (let e = u16_at (b_data (bufs s bh)) (2 * k)
      in kbind (if e = 0 then Inr s else f (uint e) s) (free_entries f bh ks))"

definition free_ind :: "fs_drv \<Rightarrow> u16 \<Rightarrow> int \<Rightarrow> fs \<Rightarrow> fs res" where
  "free_ind ops dev block s =
     (if block = 0 then Inr s
      else kbind (bread ops dev (word_of_int block) s) (\<lambda>(bh, s).
        kbind (case bh of
                 None \<Rightarrow> Inr s
               | Some bh \<Rightarrow> kbind (free_entries (free_block dev) bh [0..<512] s) (brelse bh))
          (free_block dev block)))"

definition free_dind :: "fs_drv \<Rightarrow> u16 \<Rightarrow> int \<Rightarrow> fs \<Rightarrow> fs res" where
  "free_dind ops dev block s =
     (if block = 0 then Inr s
      else kbind (bread ops dev (word_of_int block) s) (\<lambda>(bh, s).
        kbind (case bh of
                 None \<Rightarrow> Inr s
               | Some bh \<Rightarrow> kbind (free_entries (free_ind ops dev) bh [0..<512] s) (brelse bh))
          (free_block dev block)))"

fun free_direct :: "nat \<Rightarrow> nat list \<Rightarrow> fs \<Rightarrow> fs res" where
  "free_direct i [] s = Inr s"
| "free_direct i (z # zs) s =
     (let n = inode_table s i
      in if i_zone n ! z = 0 then free_direct i zs s
         else kbind (free_block (i_dev n) (uint (i_zone n ! z)) s) (\<lambda>s.
           free_direct i zs (upd_inode i (\<lambda>n. n\<lparr>i_zone := (i_zone n)[z := 0]\<rparr>) s)))"

definition truncate_inode :: "fs_drv \<Rightarrow> u32 \<Rightarrow> nat \<Rightarrow> fs \<Rightarrow> fs res" where
  "truncate_inode ops now i s =
     (let n = inode_table s i
      in if \<not> (S_ISREG (i_mode n) \<or> S_ISDIR (i_mode n)) then Inr s
         else kbind (free_direct i [0..<7] s) (\<lambda>s.
           kbind (free_ind ops (i_dev n) (uint (i_zone n ! 7)) s) (\<lambda>s.
             kbind (free_dind ops (i_dev n) (uint (i_zone n ! 8)) s) (\<lambda>s.
               Inr (upd_inode i (\<lambda>n. n\<lparr>i_zone := (i_zone n)[7 := 0, 8 := 0], i_size := 0,
                      i_dirt := True, i_mtime := now, i_ctime := now\<rparr>) s)))))"

end
