(* ===== verification/Inode_Facts.thy ===== *)
theory Inode_Facts
  imports Inode Bitmap_Facts
begin

text \<open>
  What is promised of inodes on disk and of the map from file blocks to zones, on the paths where
  the blocks concerned are in core.
\<close>

section \<open>Numbers as bytes\<close>

lemma u16_of_bytes [simp]:
  "ucast (ucast w :: u8) OR push_bit 8 (ucast (ucast (drop_bit 8 w) :: u8)) = (w :: u16)"
  by (rule bit_word_eqI) (auto simp: bit_or_iff bit_ucast_iff bit_push_bit_iff bit_drop_bit_eq)

lemma u32_of_bytes [simp]:
  "ucast (ucast w :: u8) OR push_bit 8 (ucast (ucast (drop_bit 8 w) :: u8)) OR
   push_bit 16 (ucast (ucast (drop_bit 16 w) :: u8)) OR
   push_bit 24 (ucast (ucast (drop_bit 24 w) :: u8)) = (w :: u32)"
proof (rule bit_word_eqI)
  fix n assume "n < LENGTH(32)"
  then consider "n < 8" | "8 \<le> n" "n < 16" | "16 \<le> n" "n < 24" | "24 \<le> n" "n < 32" by fastforce
  then show "bit (ucast (ucast w :: u8) OR push_bit 8 (ucast (ucast (drop_bit 8 w) :: u8)) OR
      push_bit 16 (ucast (ucast (drop_bit 16 w) :: u8)) OR
      push_bit 24 (ucast (ucast (drop_bit 24 w) :: u8)) :: u32) n = bit w n"
    by cases (auto simp: bit_or_iff bit_ucast_iff bit_push_bit_iff bit_drop_bit_eq)
qed

lemma length_put_bytes [simp]: "a + length bs \<le> length d \<Longrightarrow> length (put_bytes a bs d) = length d"
  by (simp add: put_bytes_def)

lemma put_bytes_get: "a + length bs \<le> length d \<Longrightarrow> take (length bs) (drop a (put_bytes a bs d)) = bs"
  by (simp add: put_bytes_def)

lemma nth_put_bytes:
  assumes "a + length bs \<le> length d" and "p < length d"
  shows "put_bytes a bs d ! p = (if a \<le> p \<and> p < a + length bs then bs ! (p - a) else d ! p)"
proof -
  have "length (take a d) = a" using assms by simp
  with assms show ?thesis by (auto simp: put_bytes_def nth_append)
qed

lemma u16_at_put: "a + 2 \<le> length d \<Longrightarrow> u16_at (put_bytes a (u16_bytes w) d) a = w"
  by (simp add: u16_at_def nth_put_bytes u16_bytes_def nth_Cons')

lemma u16_at_put_other:
  assumes "a + 2 \<le> length d" and "c + 2 \<le> length d" and "c + 2 \<le> a \<or> a + 2 \<le> c"
  shows "u16_at (put_bytes a (u16_bytes w) d) c = u16_at d c"
  using assms by (auto simp: u16_at_def nth_put_bytes u16_bytes_def)

section \<open>Disk inodes\<close>

lemma length_d_inode_bytes: "length (i_zone n) = 9 \<Longrightarrow> length (d_inode_bytes n) = 32"
  by (auto simp: d_inode_bytes_def u16_bytes_def u32_bytes_def length_concat comp_def
      sum_list_triv)

text \<open>The fields that are kept on disk.\<close>

definition with_disk_part :: "m_inode \<Rightarrow> m_inode \<Rightarrow> m_inode" where
  "with_disk_part n m = m\<lparr>i_mode := i_mode n, i_uid := i_uid n, i_size := i_size n,
     i_mtime := i_mtime n, i_gid := i_gid n, i_nlinks := i_nlinks n, i_zone := i_zone n\<rparr>"

lemma load_d_inode_bytes:
  assumes "length (i_zone n) = 9"
  shows "load_d_inode (d_inode_bytes n) m = with_disk_part n m"
proof -
  obtain z0 z1 z2 z3 z4 z5 z6 z7 z8 where z: "i_zone n = [z0, z1, z2, z3, z4, z5, z6, z7, z8]"
    using assms by (auto simp: numeral_eq_Suc length_Suc_conv)
  have u: "[0..<9] = [0, 1, 2, 3, 4, 5, 6, 7, 8 :: nat]" by (simp add: upt_conv_Cons)
  show ?thesis
    by (simp add: load_d_inode_def with_disk_part_def d_inode_bytes_def u16_bytes_def u32_bytes_def
        u16_at_def u32_at_def z u)
qed

lemma inode_offset_bound: "inode_offset num + 32 \<le> 1024"
proof -
  have "unat ((ucast num - 1 :: u32) mod 32) < 32" by (simp add: unat_mod)
  then show ?thesis unfolding inode_offset_def by linarith
qed

lemma upd_inode_hold: "upd_inode i f (hold b s) = hold b (upd_inode i f s)"
  by (simp add: upd_inode_def hold_def upd_buf_def)

lemma upd_inode_edit: "upd_inode i f (edit b g s) = edit b g (upd_inode i f s)"
  by (simp add: upd_inode_def edit_def upd_buf_def)

lemma upd_inode_upd_inode [simp]: "upd_inode i f (upd_inode i g s) = upd_inode i (f \<circ> g) s"
  by (simp add: upd_inode_def)

lemma resident_upd_inode [simp]: "resident dev n b (upd_inode i f s) = resident dev n b s"
  by (simp add: resident_def at_hand_def find_buffer_def upd_inode_def)

lemma get_super_upd_inode [simp]: "get_super dev (upd_inode i f s) = get_super dev s"
  by (rule get_super_cong) (simp add: fs_simps)

lemma brelse_resident: "resident dev n b s \<Longrightarrow> brelse b (hold b s) = Inr s"
  by (rule brelse_hold) (auto simp: resident_def at_hand_def)

lemma lock_inode_free: "\<not> i_lock (inode_table s i) \<Longrightarrow>
   lock_inode i s = Inr (upd_inode i (i_lock_update (\<lambda>_. True)) s)"
  by (simp add: lock_inode_def)

text \<open>An inode ready to be read or written: not locked, on a mounted device, with its block in core.\<close>

definition inode_ready :: "nat \<Rightarrow> nat \<Rightarrow> fs \<Rightarrow> bool" where
  "inode_ready i b s \<longleftrightarrow>
     (\<exists>sb. let n = inode_table s i in
       \<not> i_lock n \<and> i_dev n \<noteq> 0 \<and> get_super (i_dev n) s = Inr (Some sb) \<and>
       resident (i_dev n) (inode_block (super_table s sb) (i_num n)) b s \<and>
       length (b_data (bufs s b)) = BLOCK_SIZE)"

definition inode_slot :: "nat \<Rightarrow> nat \<Rightarrow> fs \<Rightarrow> u8 list" where
  "inode_slot i b s = take 32 (drop (inode_offset (i_num (inode_table s i))) (b_data (bufs s b)))"

lemma read_inode_ready:
  assumes "inode_ready i b s"
  shows "read_inode ops i s = Inr (upd_inode i (load_d_inode (inode_slot i b s)) s)"
proof -
  obtain sb where r: "\<not> i_lock (inode_table s i)" "i_dev (inode_table s i) \<noteq> 0"
    "get_super (i_dev (inode_table s i)) s = Inr (Some sb)"
    "resident (i_dev (inode_table s i)) (inode_block (super_table s sb) (i_num (inode_table s i))) b s"
    using assms by (auto simp: inode_ready_def Let_def)
  have u: "upd_inode i (i_lock_update (\<lambda>_. False) \<circ> (load_d_inode d \<circ> i_lock_update (\<lambda>_. True))) s =
      upd_inode i (load_d_inode d) s" for d
    using r(1) by (cases "inode_table s i") (simp add: upd_inode_def load_d_inode_def)
  have b: "bread ops (i_dev (inode_table s i)) (inode_block (super_table s sb) (i_num (inode_table s i)))
      (upd_inode i (i_lock_update (\<lambda>_. True)) s) =
      Inr (Some b, hold b (upd_inode i (i_lock_update (\<lambda>_. True)) s))"
    using r(4) by (intro bread_resident) simp
  show ?thesis
    using r b u brelse_resident [of _ _ b "upd_inode i f s" for f]
    by (simp add: read_inode_def lock_inode_free Let_def fs_simps upd_inode_hold unlock_inode_def
        inode_slot_def data_hold)
qed

lemma write_inode_ready:
  assumes "inode_ready i b s" and "i_dirt (inode_table s i)"
  shows "write_inode ops i s = Inr (upd_inode i (i_dirt_update (\<lambda>_. False))
    (edit b (put_bytes (inode_offset (i_num (inode_table s i))) (d_inode_bytes (inode_table s i))) s))"
proof -
  obtain sb where r: "\<not> i_lock (inode_table s i)" "i_dev (inode_table s i) \<noteq> 0"
    "get_super (i_dev (inode_table s i)) s = Inr (Some sb)"
    "resident (i_dev (inode_table s i)) (inode_block (super_table s sb) (i_num (inode_table s i))) b s"
    using assms by (auto simp: inode_ready_def Let_def)
  let ?l = "upd_inode i (i_lock_update (\<lambda>_. True)) s"
  let ?f = "put_bytes (inode_offset (i_num (inode_table s i))) (d_inode_bytes (inode_table s i))"
  have b: "bread ops (i_dev (inode_table s i)) (inode_block (super_table s sb) (i_num (inode_table s i))) ?l =
      Inr (Some b, hold b ?l)"
    using r(4) by (intro bread_resident) simp
  have d: "d_inode_bytes ((inode_table s i)\<lparr>i_lock := True\<rparr>) = d_inode_bytes (inode_table s i)"
    by (simp add: d_inode_bytes_def)
  have e: "upd_buf b (\<lambda>x. x\<lparr>b_data := ?f (b_data x), b_dirt := True\<rparr>) = edit b ?f"
    by (rule ext) (simp add: edit_def)
  have rel: "brelse b (hold b (edit b ?f (upd_inode i g s))) = Inr (edit b ?f (upd_inode i g s))" for g
  proof (rule brelse_resident)
    show "resident (i_dev (inode_table s i)) (inode_block (super_table s sb) (i_num (inode_table s i))) b
        (edit b ?f (upd_inode i g s))" using r(4) by (simp add: resident_edit)
  qed
  have u: "upd_inode i (i_lock_update (\<lambda>_. False) \<circ> (i_dirt_update (\<lambda>_. False) \<circ> i_lock_update (\<lambda>_. True))) s =
      upd_inode i (i_dirt_update (\<lambda>_. False)) s"
    using r(1) by (cases "inode_table s i") (simp add: upd_inode_def)
  show ?thesis
    using r b assms(2)
    by (simp add: write_inode_def lock_inode_free Let_def fs_simps e d edit_hold upd_inode_hold
        upd_inode_edit rel unlock_inode_def u)
qed

text \<open>The slots of a block of inodes do not overlap.\<close>

lemma other_slot:
  assumes "length bs = 32" and "length d = BLOCK_SIZE" and "inode_offset m \<noteq> inode_offset num"
  shows "take 32 (drop (inode_offset m) (put_bytes (inode_offset num) bs d)) =
    take 32 (drop (inode_offset m) d)"
proof (rule nth_equalityI)
  have b: "inode_offset m + 32 \<le> 1024" "inode_offset num + 32 \<le> 1024"
    by (rule inode_offset_bound)+
  have apart: "inode_offset m + 32 \<le> inode_offset num \<or> inode_offset num + 32 \<le> inode_offset m"
  proof -
    obtain x y where xy: "inode_offset m = 32 * x" "inode_offset num = 32 * y"
      by (simp add: inode_offset_def)
    with assms(3) have "x < y \<or> y < x" by auto
    then show ?thesis unfolding xy by linarith
  qed
  show "length (take 32 (drop (inode_offset m) (put_bytes (inode_offset num) bs d))) =
      length (take 32 (drop (inode_offset m) d))"
    using assms b by simp
  fix p assume "p < length (take 32 (drop (inode_offset m) (put_bytes (inode_offset num) bs d)))"
  then have "p < 32" by simp
  then show "take 32 (drop (inode_offset m) (put_bytes (inode_offset num) bs d)) ! p =
      take 32 (drop (inode_offset m) d) ! p"
    using assms b apart by (auto simp: nth_put_bytes)
qed

section \<open>The zones of a file\<close>

text \<open>
  What the zone numbers of an inode mean: block \<open>n\<close> of the file is disk block \<open>r\<close>, found directly,
  through the indirect block in buffer \<open>b\<close>, or through two indirect blocks. The list has the
  buffers of the indirect blocks.
\<close>

definition entry_at :: "nat \<Rightarrow> nat \<Rightarrow> fs \<Rightarrow> int" where
  "entry_at b k s = uint (u16_at (b_data (bufs s b)) (2 * k))"

definition mapped :: "nat \<Rightarrow> int \<Rightarrow> nat list \<Rightarrow> int \<Rightarrow> fs \<Rightarrow> bool" where
  "mapped i n ix r s \<longleftrightarrow>
     (let z = i_zone (inode_table s i);
          dev = i_dev (inode_table s i)
      in 0 \<le> n \<and> n < 7 \<and> ix = [] \<and> r = uint (z ! nat n) \<or>
         7 \<le> n \<and> n < 519 \<and> z ! 7 \<noteq> 0 \<and>
           (\<exists>b. ix = [b] \<and> resident dev (ucast (z ! 7)) b s \<and> r = entry_at b (nat (n - 7)) s) \<or>
         519 \<le> n \<and> n < 519 + 512 * 512 \<and> z ! 8 \<noteq> 0 \<and>
           (\<exists>b c. let e = entry_at b (nat (n - 519) div 512) s
             in ix = [b, c] \<and> resident dev (ucast (z ! 8)) b s \<and> e \<noteq> 0 \<and>
                resident dev (word_of_int e) c s \<and> r = entry_at c (nat (n - 519) mod 512) s))"

lemma block_entry_read:
  assumes "resident dev blk b s" and "create \<Longrightarrow> entry_at b k s \<noteq> 0"
  shows "block_entry ops create dev blk k s = Inr (entry_at b k s, s)"
  using assms
  by (auto simp: block_entry_def bread_resident Let_def data_hold entry_at_def brelse_resident)

lemma zone_entry_present:
  assumes "create \<Longrightarrow> i_zone (inode_table s i) ! z \<noteq> 0"
  shows "zone_entry ops now create i z s = Inr s"
  using assms by (cases create) (simp_all add: zone_entry_def)

lemma bmap_create_mapped:
  assumes m: "mapped i n ix r s" and c: "create \<Longrightarrow> r \<noteq> 0"
  shows "bmap_create ops now i n create s = Inr (r, s)"
proof -
  let ?z = "i_zone (inode_table s i)" and ?dev = "i_dev (inode_table s i)"
  consider "0 \<le> n" "n < 7" "r = uint (?z ! nat n)"
    | b where "7 \<le> n" "n < 519" "?z ! 7 \<noteq> 0" "resident ?dev (ucast (?z ! 7)) b s"
        "r = entry_at b (nat (n - 7)) s"
    | b d where "519 \<le> n" "n < 519 + 512 * 512" "?z ! 8 \<noteq> 0" "resident ?dev (ucast (?z ! 8)) b s"
        "entry_at b (nat (n - 519) div 512) s \<noteq> 0"
        "resident ?dev (word_of_int (entry_at b (nat (n - 519) div 512) s)) d s"
        "r = entry_at d (nat (n - 519) mod 512) s"
    using m unfolding mapped_def Let_def by blast
  then show ?thesis
  proof cases
    case 1
    have "zone_entry ops now create i (nat n) s = Inr s"
      using 1 c by (intro zone_entry_present) auto
    with 1 show ?thesis by (simp add: bmap_create_def)
  next
    case 2
    have "block_entry ops create ?dev (ucast (?z ! 7)) (nat (n - 7)) s = Inr (r, s)"
      using 2 c block_entry_read by auto
    with 2 show ?thesis by (simp add: bmap_create_def zone_entry_present Let_def)
  next
    case 3
    have "block_entry ops create ?dev (ucast (?z ! 8)) (nat (n - 519) div 512) s =
        Inr (entry_at b (nat (n - 519) div 512) s, s)"
      using 3 block_entry_read by blast
    moreover have "block_entry ops create ?dev (word_of_int (entry_at b (nat (n - 519) div 512) s))
        (nat (n - 519) mod 512) s = Inr (r, s)"
      using 3 c block_entry_read by auto
    ultimately show ?thesis using 3 by (simp add: bmap_create_def zone_entry_present Let_def)
  qed
qed

text \<open>Editing a buffer that is none of the map's leaves the map alone.\<close>

lemma entry_at_edit: "b \<noteq> c \<Longrightarrow> entry_at b k (edit c f s) = entry_at b k s"
  by (simp add: entry_at_def data_edit)

lemma mapped_edit:
  assumes "mapped i n ix r s" and "c \<notin> set ix"
  shows "mapped i n ix r (edit c f s)"
  using assms unfolding mapped_def Let_def
  by (auto simp: fs_simps resident_edit entry_at_edit)

lemma mapped_inode_cong:
  assumes "mapped i n ix r s" and "i_zone (f (inode_table s i)) = i_zone (inode_table s i)"
    and "i_dev (f (inode_table s i)) = i_dev (inode_table s i)"
  shows "mapped i n ix r (upd_inode i f s)"
  using assms unfolding mapped_def Let_def by (simp add: fs_simps entry_at_def)

lemma mapped_zone_bound: "mapped i n ix r s \<Longrightarrow> 0 \<le> r \<and> r < 65536"
  unfolding mapped_def entry_at_def Let_def by (auto simp: uint_lt2p [where 'a = 16, simplified])

section \<open>Properties\<close>

text \<open>An inode survives the disk. With its block in core, \<open>write_inode\<close> of a dirty inode returns
  with the inode clean and the block to be written back, leaves every other inode of the block
  alone, and reading the inode again, into whatever slot, gives all its disk fields back.\<close>

theorem write_read_inode:
  assumes "inode_ready i b s" and "i_dirt (inode_table s i)" and "length (i_zone (inode_table s i)) = 9"
    and "i_dev (inode_table s k) = i_dev (inode_table s i)"
    and "i_num (inode_table s k) = i_num (inode_table s i)" and "\<not> i_lock (inode_table s k)"
  shows "\<exists>s1 s2. write_inode ops i s = Inr s1 \<and> \<not> i_dirt (inode_table s1 i) \<and> b_dirt (bufs s1 b) \<and>
    (\<forall>m. inode_offset m \<noteq> inode_offset (i_num (inode_table s i)) \<longrightarrow>
       take 32 (drop (inode_offset m) (b_data (bufs s1 b))) =
       take 32 (drop (inode_offset m) (b_data (bufs s b)))) \<and>
    read_inode ops k s1 = Inr s2 \<and>
    inode_table s2 k = with_disk_part (inode_table s i) (inode_table s1 k)"
proof -
  let ?n = "inode_table s i"
  let ?o = "inode_offset (i_num ?n)"
  define s1 where "s1 = upd_inode i (i_dirt_update (\<lambda>_. False)) (edit b (put_bytes ?o (d_inode_bytes ?n)) s)"
  have len: "length (d_inode_bytes ?n) = 32" by (rule length_d_inode_bytes [OF assms(3)])
  obtain sb where r: "\<not> i_lock ?n" "i_dev ?n \<noteq> 0" "get_super (i_dev ?n) s = Inr (Some sb)"
    "resident (i_dev ?n) (inode_block (super_table s sb) (i_num ?n)) b s"
    "length (b_data (bufs s b)) = BLOCK_SIZE"
    using assms(1) by (auto simp: inode_ready_def Let_def)
  have off: "?o + 32 \<le> 1024" by (rule inode_offset_bound)
  have k: "i_dev (inode_table s1 k) = i_dev ?n" "i_num (inode_table s1 k) = i_num ?n"
    "\<not> i_lock (inode_table s1 k)"
    using assms(4-6) r(1) by (auto simp: s1_def fs_simps)
  have "get_super (i_dev ?n) s1 = Inr (Some sb)"
    using r(3) get_super_cong [of s1 s] by (simp add: s1_def fs_simps)
  moreover have "super_table s1 = super_table s" by (simp add: s1_def fs_simps)
  moreover have "resident (i_dev ?n) (inode_block (super_table s sb) (i_num ?n)) b s1"
    using r(4) by (simp add: s1_def resident_edit)
  moreover have "b_data (bufs s1 b) = put_bytes ?o (d_inode_bytes ?n) (b_data (bufs s b))"
    by (simp add: s1_def fs_simps data_edit)
  ultimately have "inode_ready k b s1" and d: "inode_slot k b s1 = d_inode_bytes ?n"
    using k r(2,5) len off put_bytes_get [of ?o "d_inode_bytes ?n" "b_data (bufs s b)"]
    by (auto simp: inode_ready_def inode_slot_def Let_def)
  then have "read_inode ops k s1 = Inr (upd_inode k (load_d_inode (d_inode_bytes ?n)) s1)"
    by (simp add: read_inode_ready)
  moreover have "write_inode ops i s = Inr s1"
    using write_inode_ready [OF assms(1,2)] by (simp add: s1_def)
  moreover have "b_dirt (bufs s1 b)" "\<not> i_dirt (inode_table s1 i)"
    by (simp_all add: s1_def fs_simps bufs_edit)
  moreover have "b_data (bufs s1 b) = put_bytes ?o (d_inode_bytes ?n) (b_data (bufs s b))"
    by (simp add: s1_def fs_simps data_edit)
  ultimately show ?thesis
    using other_slot [OF len r(5)]
    by (intro exI [of _ s1] exI [of _ "upd_inode k (load_d_inode (d_inode_bytes ?n)) s1"])
      (simp add: load_d_inode_bytes [OF assms(3)] fs_simps)
qed

lemma small_resident:
  "resident 0x101 4 2 small_fs" "resident 0x101 5 3 small_fs"
proof -
  have "find_buffer 0x101 4 small_fs = Some 2" "find_buffer 0x101 5 small_fs = Some 3"
    by (rule find_buffer_unique [OF small_fs_inv];
        simp add: holds_def small_fs_def small_bufs_def cached_def)+
  then show "resident 0x101 4 2 small_fs" "resident 0x101 5 3 small_fs"
    by (simp_all add: resident_def at_hand_def small_fs_def small_bufs_def cached_def)
qed

definition small_inode :: m_inode where
  "small_inode = zero_inode\<lparr>i_mode := 0x81a4, i_uid := 7, i_size := 100, i_nlinks := 1,
     i_zone := [5, 0, 0, 0, 0, 0, 0, 5, 0], i_dev := 0x101, i_num := 3, i_count := 1, i_dirt := True\<rparr>"

definition file_fs :: fs where
  "file_fs = small_fs\<lparr>inode_table := (\<lambda>i. if i = 0 then small_inode
     else if i = 1 then zero_inode\<lparr>i_dev := 0x101, i_num := 3\<rparr> else zero_inode)\<rparr>"

lemma file_fs_cache:
  "bufs file_fs = small_bufs" "resident dev n b file_fs = resident dev n b small_fs"
  "get_super dev file_fs = get_super dev small_fs" "super_table file_fs = super_table small_fs"
  "find_buffer dev n file_fs = find_buffer dev n small_fs"
  by (simp_all add: file_fs_def resident_def at_hand_def find_buffer_def small_fs_def get_super_def
      wait_on_super_def cong: option.case_cong split: option.split)

lemma file_fs_ready: "inode_ready 0 2 file_fs"
proof -
  have "inode_block (super_table small_fs 0) 3 = 4"
    by (simp add: inode_block_def small_fs_def small_super_def)
  then show ?thesis
    using small_resident small_get_super
    by (simp add: inode_ready_def file_fs_cache Let_def)
      (simp add: file_fs_def small_inode_def zero_inode_def small_bufs_def cached_def)
qed

lemma write_read_inode_witness:
  "\<exists>s1 s2. write_inode rd_ops 0 file_fs = Inr s1 \<and> read_inode rd_ops 1 s1 = Inr s2 \<and>
     i_uid (inode_table s2 1) = 7 \<and> i_size (inode_table s2 1) = 100"
proof -
  have f: "i_dirt (inode_table file_fs 0)" "length (i_zone (inode_table file_fs 0)) = 9"
    "i_dev (inode_table file_fs 1) = i_dev (inode_table file_fs 0)"
    "i_num (inode_table file_fs 1) = i_num (inode_table file_fs 0)" "\<not> i_lock (inode_table file_fs 1)"
    "i_uid (inode_table file_fs 0) = 7" "i_size (inode_table file_fs 0) = 100"
    by (simp_all add: file_fs_def small_inode_def zero_inode_def)
  from write_read_inode [OF file_fs_ready f(1-5), of rd_ops] obtain s1 s2
    where "write_inode rd_ops 0 file_fs = Inr s1" "read_inode rd_ops 1 s1 = Inr s2"
      "inode_table s2 1 = with_disk_part (inode_table file_fs 0) (inode_table s1 1)"
    by blast
  then show ?thesis using f(6,7) by (auto simp: with_disk_part_def)
qed



end
