(* ===== verification/Inode_Table.thy ===== *)
theory Inode_Table
  imports Inode Process
begin

text \<open>
  The table of in-core inodes: the rest of \<^verbatim>\<open>fs/inode.c\<close> and \<open>new_inode\<close> of \<^verbatim>\<open>fs/bitmap.c\<close>. These
  work on the whole kernel, whose file system part is the state of \<^verbatim>\<open>Bitmap\<close>.
\<close>

type_synonym kernel = "fs kstate"

definition on_fs :: "(fs \<Rightarrow> fs res) \<Rightarrow> kernel \<Rightarrow> kernel res" where
  "on_fs f k = kbind (f (fsys k)) (\<lambda>s. Inr (k\<lparr>fsys := s\<rparr>))"

definition on_fs_val :: "(fs \<Rightarrow> ('a \<times> fs) res) \<Rightarrow> kernel \<Rightarrow> ('a \<times> kernel) res" where
  "on_fs_val f k = kbind (f (fsys k)) (\<lambda>(x, s). Inr (x, k\<lparr>fsys := s\<rparr>))"

definition upd_fs :: "(fs \<Rightarrow> fs) \<Rightarrow> kernel \<Rightarrow> kernel" where
  "upd_fs f k = k\<lparr>fsys := f (fsys k)\<rparr>"

definition the_inode :: "nat \<Rightarrow> kernel \<Rightarrow> m_inode" where
  "the_inode i k = inode_table (fsys k) i"

definition set_inode :: "nat \<Rightarrow> (m_inode \<Rightarrow> m_inode) \<Rightarrow> kernel \<Rightarrow> kernel" where
  "set_inode i f k = upd_fs (upd_inode i f) k"

definition CURRENT_TIME :: "kernel \<Rightarrow> u32" where
  "CURRENT_TIME k = word_of_int (current_time k)"

text \<open>\<open>wake_up(&inode->i_wait)\<close>.\<close>

definition wake_inode :: "nat \<Rightarrow> kernel \<Rightarrow> kernel" where
  "wake_inode i k =
     (case wake_up (i_wait (the_inode i k)) (sch k) of
        (q, sc) \<Rightarrow> set_inode i (i_wait_update (\<lambda>_. q)) (k\<lparr>sch := sc\<rparr>))"

section \<open>Empty slots\<close>

text \<open>
  The loop of \<open>get_empty_inode\<close> over the table, from the slot after \<open>at\<close>: the slot where it
  stops and the last unused one it saw.
\<close>

fun scan_inodes :: "(nat \<Rightarrow> m_inode) \<Rightarrow> nat \<Rightarrow> nat \<Rightarrow> nat option \<Rightarrow> nat \<times> nat option" where
  "scan_inodes tab 0 at inode = (at, inode)"
| "scan_inodes tab (Suc n) at inode =
     (let at = (if Suc at \<ge> NR_INODE then 0 else Suc at)
      in if i_count (tab at) \<noteq> 0 then scan_inodes tab n at inode
         else if \<not> i_dirt (tab at) \<and> \<not> i_lock (tab at) then (at, Some at)
         else scan_inodes tab n at (Some at))"

text \<open>\<open>while (inode->i_dirt)\<close>.\<close>

partial_function (option) clean_inode :: "fs_drv \<Rightarrow> nat \<Rightarrow> fs \<Rightarrow> fs res option" where
  "clean_inode ops i s =
     (if \<not> i_dirt (inode_table s i) then Some (Inr s)
      else case kbind (write_inode ops i s) (wait_on_inode i) of
             Inl e \<Rightarrow> Some (Inl e)
           | Inr s \<Rightarrow> clean_inode ops i s)"

partial_function (option) empty_inode_loop :: "fs_drv \<Rightarrow> fs \<Rightarrow> (nat \<times> fs) res option" where
  "empty_inode_loop ops s =
     (case scan_inodes (inode_table s) NR_INODE (last_inode s) None of
        (at, inode) \<Rightarrow>
          let s = s\<lparr>last_inode := at\<rparr>
          in case inode of
               None \<Rightarrow> Some (Inl (Panic ''No free inodes in mem''))
             | Some i \<Rightarrow>
                 case wait_on_inode i s of
                   Inl e \<Rightarrow> Some (Inl e)
                 | Inr s \<Rightarrow>
                     case clean_inode ops i s of
                       None \<Rightarrow> None
                     | Some r \<Rightarrow>
                         case r of
                           Inl e \<Rightarrow> Some (Inl e)
                         | Inr s \<Rightarrow>
                             if i_count (inode_table s i) \<noteq> 0 then empty_inode_loop ops s
                             else Some (Inr (i, upd_inode i (\<lambda>_. zero_inode\<lparr>i_count := 1\<rparr>) s)))"

definition get_empty_inode :: "fs_drv \<Rightarrow> fs \<Rightarrow> (nat \<times> fs) res" where
  "get_empty_inode ops s = returns (empty_inode_loop ops s)"

definition get_pipe_inode :: "fs_drv \<Rightarrow> kernel \<Rightarrow> (nat option \<times> kernel) res" where
  "get_pipe_inode ops k =
     kbind (on_fs_val (get_empty_inode ops) k) (\<lambda>(i, k).
       case get_free_page (mem k) of
         (page, m) \<Rightarrow>
           let k = set_inode i (i_size_update (\<lambda>_. page)) (k\<lparr>mem := m\<rparr>)
           in if page = 0 then Inr (None, set_inode i (i_count_update (\<lambda>_. 0)) k)
              else Inr (Some i, set_inode i (\<lambda>n. n\<lparr>i_count := 2, i_zone := (i_zone n)[0 := 0, 1 := 0],
                                      i_pipe := True\<rparr>) k))"

section \<open>Releasing an inode\<close>

text \<open>From the label \<open>repeat\<close> on.\<close>

partial_function (option) iput_loop :: "fs_drv \<Rightarrow> u32 \<Rightarrow> nat \<Rightarrow> fs \<Rightarrow> fs res option" where
  "iput_loop ops now i s =
     (let n = inode_table s i
      in if i_count n > 1 then Some (Inr (upd_inode i (i_count_update (\<lambda>c. c - 1)) s))
         else if i_nlinks n = 0
         then Some (kbind (truncate_inode ops now i s) (free_inode (Some i)))
         else if i_dirt n
         then case kbind (write_inode ops i s) (wait_on_inode i) of
                Inl e \<Rightarrow> Some (Inl e)
              | Inr s \<Rightarrow> iput_loop ops now i s
         else Some (Inr (upd_inode i (i_count_update (\<lambda>c. c - 1)) s)))"

declare clean_inode.simps [code] empty_inode_loop.simps [code] iput_loop.simps [code]

definition iput :: "fs_drv \<Rightarrow> nat option \<Rightarrow> kernel \<Rightarrow> kernel res" where
  "iput ops inode k =
     (case inode of
        None \<Rightarrow> Inr k
      | Some i \<Rightarrow>
          kbind (on_fs (wait_on_inode i) k) (\<lambda>k.
            let n = the_inode i k
            in if i_count n = 0 then Inl (Panic ''iput: trying to free free inode'')
               else if i_pipe n
               then let k = set_inode i (i_count_update (\<lambda>c. c - 1)) (wake_inode i k)
                    in if i_count (the_inode i k) \<noteq> 0 then Inr k
                       else kbind (free_page (i_size (the_inode i k)) (mem k)) (\<lambda>m.
                         Inr (set_inode i (\<lambda>n. n\<lparr>i_count := 0, i_dirt := False, i_pipe := False\<rparr>)
                                (k\<lparr>mem := m\<rparr>)))
               else if i_dev n = 0 then Inr (set_inode i (i_count_update (\<lambda>c. c - 1)) k)
               else kbind (if S_ISBLK (i_mode n)
                           then on_fs (\<lambda>s. kbind (sync_dev ops (i_zone n ! 0) s) (wait_on_inode i)) k
                           else Inr k)
                      (\<lambda>k. on_fs (\<lambda>s. returns (iput_loop ops (CURRENT_TIME k) i s)) k)))"

section \<open>Getting an inode\<close>

definition find_inode :: "u16 \<Rightarrow> u16 \<Rightarrow> fs \<Rightarrow> nat option" where
  "find_inode dev nr s =
     find (\<lambda>i. i_dev (inode_table s i) = dev \<and> i_num (inode_table s i) = nr) [0..<NR_INODE]"

text \<open>
  The loop of \<open>iget\<close> over the table. Where something is mounted it starts again with the root of
  the mounted device; the result is the slot, if any, and the inode looked for in the end.
\<close>

partial_function (option) iget_loop ::
    "fs_drv \<Rightarrow> u16 \<Rightarrow> u16 \<Rightarrow> kernel \<Rightarrow> ((nat option \<times> u16 \<times> u16) \<times> kernel) res option" where
  "iget_loop ops dev nr k =
     (case find_inode dev nr (fsys k) of
        None \<Rightarrow> Some (Inr ((None, dev, nr), k))
      | Some i \<Rightarrow>
          case on_fs (wait_on_inode i) k of
            Inl e \<Rightarrow> Some (Inl e)
          | Inr k \<Rightarrow>
              let k = set_inode i (i_count_update (\<lambda>c. c + 1)) k
              in if \<not> i_mount (the_inode i k) then Some (Inr ((Some i, dev, nr), k))
                 else case find (\<lambda>j. s_imount (super_table (fsys k) j) = Some i) [0..<NR_SUPER] of
                        None \<Rightarrow> Some (Inr ((Some i, dev, nr), k))
                      | Some j \<Rightarrow>
                          case iput ops (Some i) k of
                            Inl e \<Rightarrow> Some (Inl e)
                          | Inr k \<Rightarrow> iget_loop ops (s_dev (super_table (fsys k) j)) ROOT_INO k)"

declare iget_loop.simps [code]

definition iget :: "fs_drv \<Rightarrow> u16 \<Rightarrow> u16 \<Rightarrow> kernel \<Rightarrow> (nat \<times> kernel) res" where
  "iget ops dev nr k =
     (if dev = 0 then Inl (Panic ''iget with dev==0'')
      else kbind (on_fs_val (get_empty_inode ops) k) (\<lambda>(empty, k).
        kbind (returns (iget_loop ops dev nr k)) (\<lambda>((found, dev, nr), k).
          case found of
            Some i \<Rightarrow> kbind (iput ops (Some empty) k) (\<lambda>k. Inr (i, k))
          | None \<Rightarrow>
              let k = set_inode empty (\<lambda>n. n\<lparr>i_dev := dev, i_num := nr\<rparr>) k
              in kbind (on_fs (read_inode ops empty) k) (\<lambda>k. Inr (empty, k)))))"

section \<open>\<open>new_inode\<close>\<close>

definition new_inode :: "fs_drv \<Rightarrow> u16 \<Rightarrow> kernel \<Rightarrow> (nat option \<times> kernel) res" where
  "new_inode ops dev k =
     kbind (on_fs_val (get_empty_inode ops) k) (\<lambda>(inode, k).
       kbind (get_super dev (fsys k)) (\<lambda>found.
         case found of
           None \<Rightarrow> Inl (Panic ''new_inode with unknown device'')
         | Some sb \<Rightarrow>
             let full = kbind (iput ops (Some inode) k) (\<lambda>k. Inr (None, k))
             in case search_map (s_imap (super_table (fsys k) sb)) [0..<MAP_SLOTS] (fsys k) of
                  None \<Rightarrow> full
                | Some (i, bh, j) \<Rightarrow>
                    if j + i * 8192 > unat (s_ninodes (super_table (fsys k) sb)) then full
                    else case set_bit_in j (b_data (bufs (fsys k) bh)) of (was_set, d) \<Rightarrow>
                      if was_set then Inl (Panic ''new_inode: bit already set'')
                      else let k = upd_fs (upd_buf bh (\<lambda>b. b\<lparr>b_data := d, b_dirt := True\<rparr>)) k;
                               p = cur k;
                               now = CURRENT_TIME k
                           in Inr (Some inode, set_inode inode (\<lambda>n. n\<lparr>i_count := 1, i_nlinks := 1,
                                i_dev := dev, i_uid := euid p, i_gid := ucast (egid p), i_dirt := True,
                                i_num := of_nat (j + i * 8192), i_mtime := now, i_atime := now,
                                i_ctime := now\<rparr>) k)))"

end
