(* ===== verification/Pipe.thy ===== *)
theory Pipe
  imports Inode_Table
begin

text \<open>
  \<^verbatim>\<open>fs/pipe.c\<close>. A pipe is an inode whose page holds a circular buffer, with the head and the tail in
  the first two zones. A call that has to sleep in the middle ends with what it has still to do,
  the address and the count left and the bytes already moved; going on once the queue is woken
  is calling the same loop with these.
\<close>

datatype io = Done int | Blocks u32 int int

abbreviation (input) PAGE_SIZE :: int where "PAGE_SIZE \<equiv> 4096"

abbreviation (input) SIGPIPE :: nat where "SIGPIPE \<equiv> 13"

definition PIPE_SIZE :: "m_inode \<Rightarrow> int" where
  "PIPE_SIZE n = (uint (i_zone n ! 0) - uint (i_zone n ! 1)) AND (PAGE_SIZE - 1)"

text \<open>The byte at a physical address, and a store there. Memory is held as \<open>long\<close>s.\<close>

definition byte_of :: "mm \<Rightarrow> u32 \<Rightarrow> u8" where
  "byte_of m a = ucast (drop_bit (8 * (unat a mod 4)) (phys m (a AND NOT 3)))"

definition put_byte :: "u32 \<Rightarrow> u8 \<Rightarrow> mm \<Rightarrow> mm" where
  "put_byte a v m =
     (let w = a AND NOT 3;
          k = 8 * (unat a mod 4)
      in m\<lparr>phys := (phys m)(w := (phys m w AND NOT (push_bit k 0xff)) OR push_bit k (ucast v))\<rparr>)"

definition get_fs_byte :: "u32 \<Rightarrow> kernel \<Rightarrow> u8" where
  "get_fs_byte a k = user k a"

text \<open>The two inner loops, from \<open>size\<close> on in the page.\<close>

fun copy_out :: "nat \<Rightarrow> u32 \<Rightarrow> u32 \<Rightarrow> kernel \<Rightarrow> kernel" where
  "copy_out 0 p buf k = k"
| "copy_out (Suc n) p buf k = copy_out n (p + 1) (buf + 1) (put_fs_byte (byte_of (mem k) p) buf k)"

fun copy_in :: "nat \<Rightarrow> u32 \<Rightarrow> u32 \<Rightarrow> kernel \<Rightarrow> kernel" where
  "copy_in 0 p buf k = k"
| "copy_in (Suc n) p buf k =
     copy_in n (p + 1) (buf + 1) (k\<lparr>mem := put_byte p (get_fs_byte buf k) (mem k)\<rparr>)"

definition advance_zone :: "nat \<Rightarrow> int \<Rightarrow> m_inode \<Rightarrow> m_inode" where
  "advance_zone z chars n =
     n\<lparr>i_zone := (i_zone n)[z := (i_zone n ! z + word_of_int chars) AND 4095]\<rparr>"

partial_function (option) read_pipe_loop ::
    "nat \<Rightarrow> u32 \<Rightarrow> int \<Rightarrow> int \<Rightarrow> kernel \<Rightarrow> (io \<times> kernel) option" where
  "read_pipe_loop i buf count done k =
     (if count \<le> 0 then Some (Done done, wake_inode i k)
      else let n = the_inode i k;
               size = PIPE_SIZE n
      in if size = 0
         then let k = wake_inode i k
              in if i_count (the_inode i k) \<noteq> 2 then Some (Done done, k)
                 else Some (Blocks buf count done, k)
         else let tail = i_zone n ! 1;
                  chars = min (min (PAGE_SIZE - uint tail) count) size
              in read_pipe_loop i (buf + of_nat (nat chars)) (count - chars) (done + chars)
                   (copy_out (nat chars) (i_size n + ucast tail) buf
                     (set_inode i (advance_zone 1 chars) k)))"

partial_function (option) write_pipe_loop ::
    "nat \<Rightarrow> u32 \<Rightarrow> int \<Rightarrow> int \<Rightarrow> kernel \<Rightarrow> (io \<times> kernel) option" where
  "write_pipe_loop i buf count done k =
     (if count \<le> 0 then Some (Done done, wake_inode i k)
      else let n = the_inode i k;
               size = PAGE_SIZE - 1 - PIPE_SIZE n
      in if size = 0
         then let k = wake_inode i k
              in if i_count (the_inode i k) \<noteq> 2
                 then Some (Done (if done \<noteq> 0 then done else - 1),
                            upd_cur (\<lambda>p. p\<lparr>signal := signal p OR sig_bit SIGPIPE\<rparr>) k)
                 else Some (Blocks buf count done, k)
         else let head = i_zone n ! 0;
                  chars = min (min (PAGE_SIZE - uint head) count) size
              in write_pipe_loop i (buf + of_nat (nat chars)) (count - chars) (done + chars)
                   (copy_in (nat chars) (i_size n + ucast head) buf
                     (set_inode i (advance_zone 0 chars) k)))"

declare read_pipe_loop.simps [code] write_pipe_loop.simps [code]

definition loops :: "'a option \<Rightarrow> 'a res" where
  "loops r = (case r of None \<Rightarrow> Inl Diverges | Some x \<Rightarrow> Inr x)"

definition read_pipe :: "nat \<Rightarrow> u32 \<Rightarrow> int \<Rightarrow> kernel \<Rightarrow> (io \<times> kernel) res" where
  "read_pipe i buf count k = loops (read_pipe_loop i buf count 0 k)"

definition write_pipe :: "nat \<Rightarrow> u32 \<Rightarrow> int \<Rightarrow> kernel \<Rightarrow> (io \<times> kernel) res" where
  "write_pipe i buf count k = loops (write_pipe_loop i buf count 0 k)"

section \<open>\<open>sys_pipe\<close>\<close>

text \<open>The first two unused entries of a table of \<open>n\<close>, or fewer.\<close>

definition first_two :: "(nat \<Rightarrow> bool) \<Rightarrow> nat \<Rightarrow> nat list" where
  "first_two unused n = take 2 (filter unused [0..<n])"

definition sys_pipe :: "fs_drv \<Rightarrow> u32 \<Rightarrow> kernel \<Rightarrow> (int \<times> kernel) res" where
  "sys_pipe ops fildes k =
     (case first_two (\<lambda>i. f_count (file_table (fsys k) i) = 0) NR_FILE of
        [f0, f1] \<Rightarrow>
          (let count = (\<lambda>c k. upd_fs (upd_file f1 (f_count_update (\<lambda>_. c))
                 \<circ> upd_file f0 (f_count_update (\<lambda>_. c))) k);
               k = count 1 k
           in case first_two (\<lambda>i. filp (cur k) i = None) NR_OPEN of
                [d0, d1] \<Rightarrow>
                  let files = (\<lambda>a b k. upd_cur (\<lambda>p. p\<lparr>filp := (filp p)(d0 := a, d1 := b)\<rparr>) k)
                  in kbind (get_pipe_inode ops (files (Some f0) (Some f1) k)) (\<lambda>(inode, k).
                       case inode of
                         None \<Rightarrow> Inr (- 1, count 0 (files None None k))
                       | Some i \<Rightarrow>
                           let open_as = (\<lambda>mode f. f\<lparr>f_inode := Some i, f_pos := 0, f_mode := mode\<rparr>);
                               k = upd_fs (upd_file f1 (open_as 2) \<circ> upd_file f0 (open_as 1)) k
                           in Inr (0, put_fs_long (of_nat d1) (fildes + 4)
                                        (put_fs_long (of_nat d0) fildes k)))
              | _ \<Rightarrow> Inr (- 1, count 0 k))
      | _ \<Rightarrow> Inr (- 1, k))"

end
