(* ===== verification/File_IO.thy ===== *)
theory File_IO
  imports Pipe
begin

text \<open>
  Reading and writing: \<^verbatim>\<open>fs/read_write.c\<close> and what it dispatches to, \<^verbatim>\<open>fs/file_dev.c\<close>,
  \<^verbatim>\<open>fs/block_dev.c\<close> and \<^verbatim>\<open>fs/char_dev.c\<close>. A pointer to an open file's position is the number of
  the file. The terminals' read and write and the input ports are in the record \<open>chr_ops\<close>.
\<close>

record chr_ops =
  tty_rw :: "int \<Rightarrow> nat \<Rightarrow> u32 \<Rightarrow> int \<Rightarrow> kernel \<Rightarrow> (int \<times> kernel) res"
  inb_of :: "nat \<Rightarrow> kernel \<Rightarrow> u8"

abbreviation (input) O_APPEND :: u16 where "O_APPEND \<equiv> 0x400"

abbreviation (input) ENODEV :: int where "ENODEV \<equiv> 19"

definition the_file :: "nat \<Rightarrow> kernel \<Rightarrow> file_t" where
  "the_file f k = file_table (fsys k) f"

definition set_file :: "nat \<Rightarrow> (file_t \<Rightarrow> file_t) \<Rightarrow> kernel \<Rightarrow> kernel" where
  "set_file f g k = upd_fs (upd_file f g) k"

definition the_buf :: "nat \<Rightarrow> kernel \<Rightarrow> buffer_head" where
  "the_buf b k = bufs (fsys k) b"

definition set_buf :: "nat \<Rightarrow> (buffer_head \<Rightarrow> buffer_head) \<Rightarrow> kernel \<Rightarrow> kernel" where
  "set_buf b g k = upd_fs (upd_buf b g) k"

text \<open>The loops that copy between a buffer and the user.\<close>

fun put_fs_bytes :: "u8 list \<Rightarrow> u32 \<Rightarrow> kernel \<Rightarrow> kernel" where
  "put_fs_bytes [] a k = k"
| "put_fs_bytes (v # vs) a k = put_fs_bytes vs (a + 1) (put_fs_byte v a k)"

definition get_fs_bytes :: "nat \<Rightarrow> u32 \<Rightarrow> kernel \<Rightarrow> u8 list" where
  "get_fs_bytes n a k = map (\<lambda>j. get_fs_byte (a + of_nat j) k) [0..<n]"

section \<open>Regular files\<close>

text \<open>The loop of \<open>file_read\<close>: what is left when it ends.\<close>

partial_function (option) file_read_loop ::
    "fs_drv \<Rightarrow> nat \<Rightarrow> nat \<Rightarrow> u32 \<Rightarrow> int \<Rightarrow> kernel \<Rightarrow> (int \<times> kernel) res option" where
  "file_read_loop ops i f buf left k =
     (if left = 0 then Some (Inr (0, k))
      else case on_fs_val (bmap ops (CURRENT_TIME k) i (c_div (f_pos (the_file f k)) 1024)) k of
        Inl e \<Rightarrow> Some (Inl e)
      | Inr (nr, k) \<Rightarrow>
          case (if nr = 0 then Inr (None, k)
                else on_fs_val (bread ops (i_dev (the_inode i k)) (word_of_int nr)) k) of
            Inl e \<Rightarrow> Some (Inl e)
          | Inr (bh, k) \<Rightarrow>
              if nr \<noteq> 0 \<and> bh = None then Some (Inr (left, k))
              else let at = c_mod (f_pos (the_file f k)) 1024;
                       chars = min (1024 - at) left;
                       k = set_file f (f_pos_update (\<lambda>p. p + chars)) k
              in case (case bh of
                         Some b \<Rightarrow>
                           on_fs (brelse b) (put_fs_bytes
                             (take (nat chars) (drop (nat at) (b_data (the_buf b k)))) buf k)
                       | None \<Rightarrow> Inr (put_fs_bytes (replicate (nat chars) 0) buf k)) of
                   Inl e \<Rightarrow> Some (Inl e)
                 | Inr k \<Rightarrow>
                     file_read_loop ops i f (buf + word_of_int chars) (left - chars) k)"

definition file_read ::
    "fs_drv \<Rightarrow> nat \<Rightarrow> nat \<Rightarrow> u32 \<Rightarrow> int \<Rightarrow> kernel \<Rightarrow> (int \<times> kernel) res" where
  "file_read ops i f buf count k =
     (if count \<le> 0 then Inr (0, k)
      else kbind (returns (file_read_loop ops i f buf count k)) (\<lambda>(left, k).
        Inr (if count - left \<noteq> 0 then count - left else - ERROR,
             set_inode i (i_atime_update (\<lambda>_. CURRENT_TIME k)) k)))"

text \<open>The loop of \<open>file_write\<close>: the bytes written so far in \<open>done\<close>, and the position.\<close>

definition grow_to :: "int \<Rightarrow> m_inode \<Rightarrow> m_inode" where
  "grow_to pos n = (if (word_of_int pos :: u32) > i_size n
                    then n\<lparr>i_size := word_of_int pos, i_dirt := True\<rparr> else n)"

partial_function (option) file_write_loop ::
    "fs_drv \<Rightarrow> nat \<Rightarrow> u32 \<Rightarrow> int \<Rightarrow> int \<Rightarrow> int \<Rightarrow> kernel \<Rightarrow> ((int \<times> int) \<times> kernel) res option" where
  "file_write_loop ops i buf count done pos k =
     (if done \<ge> count then Some (Inr ((done, pos), k))
      else case on_fs_val (create_block ops (CURRENT_TIME k) i (c_div pos 1024)) k of
        Inl e \<Rightarrow> Some (Inl e)
      | Inr (block, k) \<Rightarrow>
          if block = 0 then Some (Inr ((done, pos), k))
          else case on_fs_val (bread ops (i_dev (the_inode i k)) (word_of_int block)) k of
            Inl e \<Rightarrow> Some (Inl e)
          | Inr (bh, k) \<Rightarrow>
              case bh of
                None \<Rightarrow> Some (Inr ((done, pos), k))
              | Some b \<Rightarrow>
                  let at = c_mod pos 1024;
                      c = min (1024 - at) (count - done);
                      k = set_inode i (grow_to (pos + c)) k;
                      bs = get_fs_bytes (nat c) buf k
                  in case on_fs (brelse b) (set_buf b (\<lambda>x. x\<lparr>b_dirt := True,
                            b_data := put_bytes (nat at) bs (b_data x)\<rparr>) k) of
                       Inl e \<Rightarrow> Some (Inl e)
                     | Inr k \<Rightarrow>
                         file_write_loop ops i (buf + word_of_int c) count (done + c) (pos + c) k)"

declare file_read_loop.simps [code] file_write_loop.simps [code]

definition file_write ::
    "fs_drv \<Rightarrow> nat \<Rightarrow> nat \<Rightarrow> u32 \<Rightarrow> int \<Rightarrow> kernel \<Rightarrow> (int \<times> kernel) res" where
  "file_write ops i f buf count k =
     (let append = (f_flags (the_file f k) AND O_APPEND \<noteq> 0);
          pos = (if append then sint (i_size (the_inode i k)) else f_pos (the_file f k))
      in kbind (returns (file_write_loop ops i buf count 0 pos k)) (\<lambda>((done, pos), k).
           let now = CURRENT_TIME k;
               k = set_inode i (i_mtime_update (\<lambda>_. now)) k;
               k = (if append then k
                    else set_inode i (i_ctime_update (\<lambda>_. now)) (set_file f (f_pos_update (\<lambda>_. pos)) k))
           in Inr (if done \<noteq> 0 then done else - 1, k)))"

section \<open>Block devices\<close>

partial_function (option) block_write_loop ::
    "fs_drv \<Rightarrow> u16 \<Rightarrow> nat \<Rightarrow> int \<Rightarrow> int \<Rightarrow> u32 \<Rightarrow> int \<Rightarrow> int \<Rightarrow> kernel \<Rightarrow> (int \<times> kernel) res option"
  where
  "block_write_loop ops dev f block offset buf count written k =
     (if count \<le> 0 then Some (Inr (written, k))
      else let chars = min (1024 - offset) count
      in case (if chars = 1024
               then kbind (on_fs_val (getblk ops dev (word_of_int block)) k) (\<lambda>(b, k). Inr (Some b, k))
               else on_fs_val (breada ops dev (word_of_int block)
                      [word_of_int (block + 1), word_of_int (block + 2)]) k) of
           Inl e \<Rightarrow> Some (Inl e)
         | Inr (bh, k) \<Rightarrow>
             case bh of
               None \<Rightarrow> Some (Inr (if written \<noteq> 0 then written else - EIO, k))
             | Some b \<Rightarrow>
                 let k = set_file f (f_pos_update (\<lambda>p. p + chars)) k;
                     bs = get_fs_bytes (nat chars) buf k
                 in case on_fs (brelse b) (set_buf b (\<lambda>x. x\<lparr>b_dirt := True,
                           b_data := put_bytes (nat offset) bs (b_data x)\<rparr>) k) of
                      Inl e \<Rightarrow> Some (Inl e)
                    | Inr k \<Rightarrow>
                        block_write_loop ops dev f (block + 1) 0 (buf + word_of_int chars)
                          (count - chars) (written + chars) k)"

definition block_write ::
    "fs_drv \<Rightarrow> u16 \<Rightarrow> nat \<Rightarrow> u32 \<Rightarrow> int \<Rightarrow> kernel \<Rightarrow> (int \<times> kernel) res" where
  "block_write ops dev f buf count k =
     (let pos = f_pos (the_file f k)
      in returns (block_write_loop ops dev f (drop_bit 10 pos) (pos AND 1023) buf count 0 k))"

partial_function (option) block_read_loop ::
    "fs_drv \<Rightarrow> u16 \<Rightarrow> nat \<Rightarrow> int \<Rightarrow> int \<Rightarrow> u32 \<Rightarrow> int \<Rightarrow> int \<Rightarrow> kernel \<Rightarrow> (int \<times> kernel) res option"
  where
  "block_read_loop ops dev f block offset buf count done k =
     (if count \<le> 0 then Some (Inr (done, k))
      else let chars = min (1024 - offset) count
      in case on_fs_val (breada ops dev (word_of_int block)
                [word_of_int (block + 1), word_of_int (block + 2)]) k of
           Inl e \<Rightarrow> Some (Inl e)
         | Inr (bh, k) \<Rightarrow>
             case bh of
               None \<Rightarrow> Some (Inr (if done \<noteq> 0 then done else - EIO, k))
             | Some b \<Rightarrow>
                 let k = set_file f (f_pos_update (\<lambda>p. p + chars)) k
                 in case on_fs (brelse b) (put_fs_bytes
                           (take (nat chars) (drop (nat offset) (b_data (the_buf b k)))) buf k) of
                      Inl e \<Rightarrow> Some (Inl e)
                    | Inr k \<Rightarrow>
                        block_read_loop ops dev f (block + 1) 0 (buf + word_of_int chars)
                          (count - chars) (done + chars) k)"

declare block_write_loop.simps [code] block_read_loop.simps [code]

text \<open>Here the position is read as an \<open>unsigned long\<close>.\<close>

definition block_read ::
    "fs_drv \<Rightarrow> u16 \<Rightarrow> nat \<Rightarrow> u32 \<Rightarrow> int \<Rightarrow> kernel \<Rightarrow> (int \<times> kernel) res" where
  "block_read ops dev f buf count k =
     (let pos = uint (word_of_int (f_pos (the_file f k)) :: u32)
      in returns (block_read_loop ops dev f (drop_bit 10 pos) (pos AND 1023) buf count 0 k))"

section \<open>Character devices\<close>

definition rw_tty :: "chr_ops \<Rightarrow> int \<Rightarrow> nat \<Rightarrow> u32 \<Rightarrow> int \<Rightarrow> kernel \<Rightarrow> (int \<times> kernel) res" where
  "rw_tty cops rw minor buf count k =
     (if tty (cur k) < 0 then Inr (- EPERM, k)
      else tty_rw cops rw (nat (tty (cur k))) buf count k)"

fun rw_port_loop :: "chr_ops \<Rightarrow> int \<Rightarrow> nat \<Rightarrow> nat \<Rightarrow> u32 \<Rightarrow> kernel \<Rightarrow> kernel" where
  "rw_port_loop cops rw 0 p buf k = k"
| "rw_port_loop cops rw (Suc n) p buf k =
     rw_port_loop cops rw n (Suc p) (buf + 1)
       (if rw = READ then put_fs_byte (inb_of cops p k) buf k
        else k\<lparr>sch := (sch k)\<lparr>ports := ports (sch k) @ [(p, get_fs_byte buf k)]\<rparr>\<rparr>)"

text \<open>\<open>count-- > 0 && i < 65536\<close> bounds the loop of \<open>rw_port\<close> by the ports left.\<close>

definition rw_port :: "chr_ops \<Rightarrow> int \<Rightarrow> u32 \<Rightarrow> int \<Rightarrow> nat \<Rightarrow> kernel \<Rightarrow> (int \<times> kernel) res" where
  "rw_port cops rw buf count f k =
     (let pos = f_pos (the_file f k);
          n = nat (min count (65536 - pos))
      in if pos < 0 \<and> 0 < n then Inl Undefined
         else Inr (int n, set_file f (f_pos_update (\<lambda>p. p + int n))
                            (rw_port_loop cops rw n (nat pos) buf k)))"

definition rw_memory ::
    "chr_ops \<Rightarrow> int \<Rightarrow> nat \<Rightarrow> u32 \<Rightarrow> int \<Rightarrow> nat \<Rightarrow> kernel \<Rightarrow> (int \<times> kernel) res" where
  "rw_memory cops rw minor buf count f k =
     (if minor = 3 then Inr (if rw = READ then 0 else count, k)
      else if minor = 4 then rw_port cops rw buf count f k
      else Inr (- EIO, k))"

definition rw_char ::
    "chr_ops \<Rightarrow> int \<Rightarrow> u16 \<Rightarrow> u32 \<Rightarrow> int \<Rightarrow> nat \<Rightarrow> kernel \<Rightarrow> (int \<times> kernel) res" where
  "rw_char cops rw dev buf count f k =
     (if MAJOR dev = 1 then rw_memory cops rw (MINOR dev) buf count f k
      else if MAJOR dev = 4 then tty_rw cops rw (MINOR dev) buf count k
      else if MAJOR dev = 5 then rw_tty cops rw (MINOR dev) buf count k
      else Inr (- ENODEV, k))"

section \<open>\<open>read_write.c\<close>\<close>

definition IS_SEEKABLE :: "nat \<Rightarrow> bool" where
  "IS_SEEKABLE x \<longleftrightarrow> 1 \<le> x \<and> x \<le> 3"

definition sys_lseek :: "nat \<Rightarrow> int \<Rightarrow> int \<Rightarrow> kernel \<Rightarrow> int \<times> kernel" where
  "sys_lseek fd offset origin k =
     (case (if fd < NR_OPEN then filp (cur k) fd else None) of
        None \<Rightarrow> (- EBADF, k)
      | Some f \<Rightarrow>
          case f_inode (the_file f k) of
            None \<Rightarrow> (- EBADF, k)
          | Some i \<Rightarrow>
              if \<not> IS_SEEKABLE (MAJOR (i_dev (the_inode i k))) then (- EBADF, k)
              else if i_pipe (the_inode i k) then (- ESPIPE, k)
              else let pos = (if origin = 0 then offset
                              else if origin = 1 then to_s32 (f_pos (the_file f k) + offset)
                              else sint (i_size (the_inode i k) + word_of_int offset))
              in if origin < 0 \<or> origin > 2 \<or> pos < 0 then (- EINVAL, k)
                 else (pos, set_file f (f_pos_update (\<lambda>_. pos)) k))"

definition finished :: "(int \<times> kernel) res \<Rightarrow> (io \<times> kernel) res" where
  "finished r = kbind r (\<lambda>(x, k). Inr (Done x, k))"

definition sys_read ::
    "fs_drv \<Rightarrow> chr_ops \<Rightarrow> nat \<Rightarrow> u32 \<Rightarrow> int \<Rightarrow> kernel \<Rightarrow> (io \<times> kernel) res" where
  "sys_read ops cops fd buf count k =
     (case (if fd < NR_OPEN \<and> count \<ge> 0 then filp (cur k) fd else None) of
        None \<Rightarrow> Inr (Done (- EINVAL), k)
      | Some f \<Rightarrow>
          if count = 0 then Inr (Done 0, k)
          else kbind (verify_area buf count k) (\<lambda>k.
            case f_inode (the_file f k) of
              None \<Rightarrow> Inl Undefined
            | Some i \<Rightarrow>
                let n = the_inode i k
                in if i_pipe n
                   then if f_mode (the_file f k) AND 1 \<noteq> 0 then read_pipe i buf count k
                        else Inr (Done (- EIO), k)
                   else if S_ISCHR (i_mode n) then finished (rw_char cops READ (i_zone n ! 0) buf count f k)
                   else if S_ISBLK (i_mode n) then finished (block_read ops (i_zone n ! 0) f buf count k)
                   else if S_ISDIR (i_mode n) \<or> S_ISREG (i_mode n)
                   then let pos = f_pos (the_file f k);
                            count = (if (word_of_int (count + pos) :: u32) > i_size n
                                     then sint (i_size n - word_of_int pos) else count)
                        in if count \<le> 0 then Inr (Done 0, k)
                           else finished (file_read ops i f buf count k)
                   else Inr (Done (- EINVAL), k)))"

definition sys_write ::
    "fs_drv \<Rightarrow> chr_ops \<Rightarrow> nat \<Rightarrow> u32 \<Rightarrow> int \<Rightarrow> kernel \<Rightarrow> (io \<times> kernel) res" where
  "sys_write ops cops fd buf count k =
     (case (if fd < NR_OPEN \<and> count \<ge> 0 then filp (cur k) fd else None) of
        None \<Rightarrow> Inr (Done (- EINVAL), k)
      | Some f \<Rightarrow>
          if count = 0 then Inr (Done 0, k)
          else case f_inode (the_file f k) of
              None \<Rightarrow> Inl Undefined
            | Some i \<Rightarrow>
                let n = the_inode i k
                in if i_pipe n
                   then if f_mode (the_file f k) AND 2 \<noteq> 0 then write_pipe i buf count k
                        else Inr (Done (- EIO), k)
                   else if S_ISCHR (i_mode n) then finished (rw_char cops WRITE (i_zone n ! 0) buf count f k)
                   else if S_ISBLK (i_mode n) then finished (block_write ops (i_zone n ! 0) f buf count k)
                   else if S_ISREG (i_mode n) then finished (file_write ops i f buf count k)
                   else Inr (Done (- EINVAL), k))"

end
