(* ===== verification/File_Facts.thy ===== *)
theory File_Facts
  imports File_IO Inode_Facts
begin

text \<open>
  Regular files as arrays of bytes: reading and writing through the map of zones and the buffer
  cache refines reading and writing the array, as long as the blocks concerned have zones and are
  in core.
\<close>

section \<open>The kernel's view of the cache\<close>

named_theorems kernel_simps

lemma on_fs_Inr [kernel_simps]: "f (fsys k) = Inr s \<Longrightarrow> on_fs f k = Inr (k\<lparr>fsys := s\<rparr>)"
  by (simp add: on_fs_def)

lemma on_fs_val_Inr [kernel_simps]: "f (fsys k) = Inr (x, s) \<Longrightarrow> on_fs_val f k = Inr (x, k\<lparr>fsys := s\<rparr>)"
  by (simp add: on_fs_val_def)

lemma upd_fs_upd_fs [kernel_simps]: "upd_fs f (upd_fs g k) = upd_fs (f \<circ> g) k"
  by (simp add: upd_fs_def)

lemma fsys_upd_fs [simp]: "fsys (upd_fs f k) = f (fsys k)"
  by (simp add: upd_fs_def)

lemma user_upd_fs [simp]: "user (upd_fs f k) = user k" "sch (upd_fs f k) = sch k"
  "mem (upd_fs f k) = mem k" "startup_time (upd_fs f k) = startup_time k"
  by (simp_all add: upd_fs_def)

lemma the_inode_upd_fs: "the_inode i (upd_fs f k) = inode_table (f (fsys k)) i"
  by (simp add: the_inode_def)

definition k_resident :: "u16 \<Rightarrow> u32 \<Rightarrow> nat \<Rightarrow> kernel \<Rightarrow> bool" where
  "k_resident dev n b k \<longleftrightarrow> resident dev n b (fsys k)"

interpretation kcache: block_access "\<lambda>(dev, n). on_fs_val (bread ops dev n)" "\<lambda>b. on_fs (brelse b)"
  "\<lambda>b f. upd_fs (edit b f)" "\<lambda>b. upd_fs (hold b)" "\<lambda>(dev, n). k_resident dev n"
  "\<lambda>k b. b_data (the_buf b k)" for ops :: fs_drv
proof unfold_locales
  show "(case key of (dev, n) \<Rightarrow> on_fs_val (bread ops dev n)) k = Inr (Some b, upd_fs (hold b) k)"
    "on_fs (brelse b) (upd_fs (hold b) k) = Inr k"
    if "(case key of (dev, n) \<Rightarrow> k_resident dev n) b k" for key b k
    using that
    by (auto simp: k_resident_def on_fs_val_def on_fs_def upd_fs_def bread_resident brelse_resident
        split: prod.splits)
  show "upd_fs (edit b f) (upd_fs (hold c) k) = upd_fs (hold c) (upd_fs (edit b f) k)" for b f c k
    by (simp add: upd_fs_def edit_hold)
qed (auto simp: the_buf_def upd_fs_def data_edit data_hold k_resident_def resident_edit
      split: prod.splits)

section \<open>The user's memory\<close>

lemma fsys_put_fs_bytes [simp]: "fsys (put_fs_bytes bs a k) = fsys k"
  by (induction bs a k rule: put_fs_bytes.induct) (simp_all add: put_fs_byte_def)

lemma put_fs_bytes_append:
  "put_fs_bytes (bs @ cs) a k = put_fs_bytes cs (a + of_nat (length bs)) (put_fs_bytes bs a k)"
  by (induction bs a k rule: put_fs_bytes.induct) (simp_all add: algebra_simps)

lemma user_fsys_commute: "k\<lparr>fsys := s, user := u\<rparr> = k\<lparr>user := u, fsys := s\<rparr>"
  by (cases k) simp

lemma put_fs_bytes_upd_fs: "put_fs_bytes bs a (upd_fs f k) = upd_fs f (put_fs_bytes bs a k)"
  by (induction bs a k rule: put_fs_bytes.induct)
    (simp_all add: put_fs_byte_def upd_fs_def user_fsys_commute)

lemma put_fs_bytes_keeps [simp]:
  "sch (put_fs_bytes bs a k) = sch k" "startup_time (put_fs_bytes bs a k) = startup_time k"
  "mem (put_fs_bytes bs a k) = mem k"
  by (induction bs a k rule: put_fs_bytes.induct) (simp_all add: put_fs_byte_def)

lemma user_put_fs_bytes_other:
  "(\<And>j. j < length bs \<Longrightarrow> a + of_nat j \<noteq> x) \<Longrightarrow> user (put_fs_bytes bs a k) x = user k x"
proof (induction bs a k rule: put_fs_bytes.induct)
  case (2 v vs a k)
  have "a + 1 + of_nat j \<noteq> x" if "j < length vs" for j
    using 2(2) [of "Suc j"] that by (simp add: algebra_simps)
  moreover have "a \<noteq> x" using 2(2) [of 0] by simp
  ultimately show ?case using 2(1) by (simp add: put_fs_byte_def)
qed simp

lemma user_put_fs_bytes:
  assumes "length bs \<le> 2 ^ 32" and "j < length bs"
  shows "user (put_fs_bytes bs a k) (a + of_nat j) = bs ! j"
  using assms
proof (induction bs arbitrary: a k j)
  case (Cons v vs)
  show ?case
  proof (cases j)
    case 0
    have "a + 1 + of_nat i \<noteq> a" if "i < length vs" for i
    proof
      assume "a + 1 + of_nat i = a"
      then have "of_nat (Suc i) = (0 :: u32)" by (simp add: algebra_simps)
      then have "2 ^ LENGTH(32) dvd Suc i" unfolding word_of_nat_eq_0_iff .
      then have "2 ^ 32 \<le> Suc i" by (simp only: len_num1 len_bit0) (rule dvd_imp_le, simp_all)
      moreover have "Suc (length vs) \<le> 2 ^ 32" using Cons.prems(1) by simp
      ultimately show False using that by linarith
    qed
    then show ?thesis
      using 0 user_put_fs_bytes_other [of vs "a + 1" a] by (simp add: put_fs_byte_def)
  next
    case (Suc i)
    then show ?thesis
      using Cons.IH [of i "a + 1"] Cons.prems by (simp add: algebra_simps)
  qed
qed simp

section \<open>Files in core\<close>

text \<open>
  Blocks \<open>lo\<close> to \<open>hi\<close> of the file of inode \<open>i\<close> have zones and are in core, block \<open>n\<close> in buffer
  \<open>bf n\<close>; the buffers differ from each other and from those of the indirect blocks.
\<close>

definition in_core :: "nat \<Rightarrow> int \<Rightarrow> int \<Rightarrow> (int \<Rightarrow> nat) \<Rightarrow> fs \<Rightarrow> bool" where
  "in_core i lo hi bf s \<longleftrightarrow> 0 \<le> lo \<and> inj_on bf {lo..hi} \<and>
     (\<forall>n \<in> {lo..hi}. length (b_data (bufs s (bf n))) = BLOCK_SIZE \<and>
        (\<exists>ix r. mapped i n ix r s \<and> r \<noteq> 0 \<and> bf ` {lo..hi} \<inter> set ix = {} \<and>
           resident (i_dev (inode_table s i)) (word_of_int r) (bf n) s))"

definition file_byte :: "(int \<Rightarrow> nat) \<Rightarrow> fs \<Rightarrow> int \<Rightarrow> u8" where
  "file_byte bf s p = b_data (bufs s (bf (p div 1024))) ! nat (p mod 1024)"

definition file_bytes :: "(int \<Rightarrow> nat) \<Rightarrow> fs \<Rightarrow> int \<Rightarrow> nat \<Rightarrow> u8 list" where
  "file_bytes bf s p n = map (\<lambda>j. file_byte bf s (p + int j)) [0..<n]"

lemma length_file_bytes [simp]: "length (file_bytes bf s p n) = n"
  by (simp add: file_bytes_def)

lemma file_bytes_split:
  "file_bytes bf s p (m + n) = file_bytes bf s p m @ file_bytes bf s (p + int m) n"
  by (rule nth_equalityI) (auto simp: file_bytes_def nth_append)

lemma in_core_block:
  assumes "in_core i lo hi bf s" and "n \<in> {lo..hi}"
  obtains ix r where "mapped i n ix r s" and "r \<noteq> 0" and "\<forall>m \<in> {lo..hi}. bf m \<notin> set ix"
    and "resident (i_dev (inode_table s i)) (word_of_int r) (bf n) s"
    and "length (b_data (bufs s (bf n))) = BLOCK_SIZE"
  using assms unfolding in_core_def by blast

lemma div_mod_within:
  assumes "0 \<le> j" and "p mod 1024 + j < (1024 :: int)"
  shows "(p + j) div 1024 = p div 1024" and "(p + j) mod 1024 = p mod 1024 + j"
proof -
  have e: "p + j = (p mod 1024 + j) + 1024 * (p div 1024)" by simp
  have n: "0 \<le> p mod 1024 + j" using assms by simp
  show "(p + j) div 1024 = p div 1024"
    by (subst e, subst div_mult_self2) (use n assms in simp_all)
  show "(p + j) mod 1024 = p mod 1024 + j"
    by (subst e, subst mod_mult_self2) (use n assms in simp)
qed

text \<open>The bytes of a file that lie in one block.\<close>

lemma file_bytes_block:
  assumes "0 \<le> p" and "p mod 1024 + int n \<le> 1024" and "length (b_data (bufs s (bf (p div 1024)))) = BLOCK_SIZE"
  shows "take n (drop (nat (p mod 1024)) (b_data (bufs s (bf (p div 1024))))) = file_bytes bf s p n"
proof (rule nth_equalityI)
  show "length (take n (drop (nat (p mod 1024)) (b_data (bufs s (bf (p div 1024)))))) =
      length (file_bytes bf s p n)"
    using assms by simp
  fix j assume "j < length (take n (drop (nat (p mod 1024)) (b_data (bufs s (bf (p div 1024))))))"
  then have j: "j < n" by simp
  then have "p mod 1024 + int j < 1024" using assms(2) by linarith
  then have "(p + int j) div 1024 = p div 1024" "(p + int j) mod 1024 = p mod 1024 + int j"
    using div_mod_within [of "int j" p] by simp_all
  then show "take n (drop (nat (p mod 1024)) (b_data (bufs s (bf (p div 1024))))) ! j =
      file_bytes bf s p n ! j"
    using j assms by (simp add: file_bytes_def file_byte_def nat_add_distrib)
qed

section \<open>Reading\<close>

lemma upd_file_hold: "upd_file f g (hold b s) = hold b (upd_file f g s)"
  by (simp add: upd_file_def hold_def upd_buf_def)

lemma upd_file_edit: "upd_file f g (edit b h s) = edit b h (upd_file f g s)"
  by (simp add: upd_file_def edit_def upd_buf_def)

lemma fs_upd_file [simp]:
  "bufs (upd_file f g s) = bufs s" "inode_table (upd_file f g s) = inode_table s"
  "file_table (upd_file f g s) = (file_table s)(f := g (file_table s f))"
  "find_buffer dev n (upd_file f g s) = find_buffer dev n s"
  by (simp_all add: upd_file_def find_buffer_def)

lemma resident_upd_file [simp]: "resident dev n b (upd_file f g s) = resident dev n b s"
  by (simp add: resident_def at_hand_def)

lemma mapped_upd_file [simp]: "mapped i n ix r (upd_file f g s) = mapped i n ix r s"
  by (simp add: mapped_def entry_at_def)

lemma in_core_upd_file [simp]: "in_core i lo hi bf (upd_file f g s) = in_core i lo hi bf s"
  by (simp add: in_core_def)

lemma file_bytes_upd_file [simp]: "file_bytes bf (upd_file f g s) p n = file_bytes bf s p n"
  by (simp add: file_bytes_def file_byte_def)

definition advance :: "nat \<Rightarrow> int \<Rightarrow> kernel \<Rightarrow> kernel" where
  "advance f n k = upd_fs (upd_file f (f_pos_update (\<lambda>p. p + n))) k"

lemma f_pos_update_id: "f_pos_update (\<lambda>p. p) x = x"
  by (cases x) simp

lemma advance_0 [simp]: "advance f 0 k = k"
  by (simp add: advance_def upd_fs_def upd_file_def f_pos_update_id)

lemma advance_advance [simp]: "advance f m (advance f n k) = advance f (n + m) k"
  by (simp add: advance_def upd_fs_def upd_file_def add.assoc comp_def)

lemma advance_sel [simp]:
  "in_core i lo hi bf (fsys (advance f n k)) = in_core i lo hi bf (fsys k)"
  "file_bytes bf (fsys (advance f n k)) p m = file_bytes bf (fsys k) p m"
  "f_pos (the_file f (advance f n k)) = f_pos (the_file f k) + n"
  "put_fs_bytes bs a (advance f n k) = advance f n (put_fs_bytes bs a k)"
  by (simp_all add: advance_def the_file_def put_fs_bytes_upd_fs)

lemma the_file_put [simp]: "the_file f (put_fs_bytes bs a k) = the_file f k"
  by (simp add: the_file_def)

lemma on_fs_val_same: "f (fsys k) = Inr (x, fsys k) \<Longrightarrow> on_fs_val f k = Inr (x, k)"
  by (simp add: on_fs_val_def)

lemma on_fs_upd_fs:
  "f (h (fsys k)) = Inr (h' (fsys k)) \<Longrightarrow> on_fs f (upd_fs h k) = Inr (upd_fs h' k)"
  by (simp add: on_fs_def upd_fs_def)

lemma block_of_pos:
  assumes "0 \<le> lo" and "lo * 1024 \<le> p" and "p < (hi + 1) * (1024 :: int)"
  shows "p div 1024 \<in> {lo..hi}" and "0 \<le> p"
    and "c_div p 1024 = p div 1024" and "c_mod p 1024 = p mod 1024"
proof -
  have "lo \<le> p div 1024" using zdiv_mono1 [OF assms(2), of 1024] by simp
  moreover have "p div 1024 < hi + 1"
    using assms(3) by (simp add: div_less_iff_less_mult)
  ultimately show "p div 1024 \<in> {lo..hi}" by simp
  show p: "0 \<le> p" using assms(1,2) by linarith
  then show "c_div p 1024 = p div 1024" "c_mod p 1024 = p mod 1024"
    by (simp_all add: c_div_nonneg c_mod_nonneg)
qed

text \<open>One turn of the loop, for a block in core.\<close>

lemma file_read_step:
  assumes core: "in_core i lo hi bf (fsys k)" and left: "0 < left"
    and pos: "lo * 1024 \<le> f_pos (the_file f k)" "f_pos (the_file f k) + left \<le> (hi + 1) * 1024"
    and chars: "chars = min (1024 - f_pos (the_file f k) mod 1024) left"
  shows "file_read_loop ops i f buf left k = file_read_loop ops i f (buf + word_of_int chars) (left - chars)
    (advance f chars (put_fs_bytes (file_bytes bf (fsys k) (f_pos (the_file f k)) (nat chars)) buf k))"
proof -
  define p where "p = f_pos (the_file f k)"
  have lo: "0 \<le> lo" using core by (simp add: in_core_def)
  have lt: "p < (hi + 1) * 1024" using pos(2) left by (simp add: p_def)
  note b = block_of_pos [OF lo pos(1) [folded p_def] lt]
  obtain ix r where m: "mapped i (p div 1024) ix r (fsys k)" and r: "r \<noteq> 0"
    and res: "resident (i_dev (inode_table (fsys k) i)) (word_of_int r) (bf (p div 1024)) (fsys k)"
    and len: "length (b_data (bufs (fsys k) (bf (p div 1024)))) = BLOCK_SIZE"
    using in_core_block [OF core b(1)] by metis
  let ?b = "bf (p div 1024)"
  have bm: "on_fs_val (bmap ops (CURRENT_TIME k) i (p div 1024)) k = Inr (r, k)"
    using m by (intro on_fs_val_same) (simp add: bmap_def bmap_create_mapped)
  have br: "on_fs_val (bread ops (i_dev (the_inode i k)) (word_of_int r)) k = Inr (Some ?b, upd_fs (hold ?b) k)"
    using bread_resident [OF res] by (simp add: on_fs_val_def the_inode_def upd_fs_def)
  have bytes: "take (nat chars) (drop (nat (p mod 1024)) (b_data (bufs (fsys k) ?b))) =
      file_bytes bf (fsys k) p (nat chars)"
  proof (rule file_bytes_block)
    have "p mod 1024 + chars \<le> 1024" "0 \<le> chars"
      using chars left pos_mod_bound [of 1024 p] by (simp_all add: p_def)
    then show "p mod 1024 + int (nat chars) \<le> 1024" by simp
  qed (use b(2) len in simp_all)
  have rel: "on_fs (brelse ?b) (put_fs_bytes bs buf (set_file f g (upd_fs (hold ?b) k))) =
      Inr (upd_fs (upd_file f g) (put_fs_bytes bs buf k))" for bs g
  proof -
    have "brelse ?b (hold ?b (upd_file f g (fsys k))) = Inr (upd_file f g (fsys k))"
      by (rule brelse_resident) (use res in simp)
    then show ?thesis
      by (simp add: set_file_def kernel_simps put_fs_bytes_upd_fs) (rule on_fs_upd_fs, simp add: upd_file_hold)
  qed
  have bd: "b_data (bufs (fsys (set_file f g (upd_fs (hold ?b) k))) c) = b_data (bufs (fsys k) c)" for g c
    by (simp add: set_file_def data_hold)
  have fp: "f_pos (the_file f (upd_fs (hold ?b) k)) = p"
    by (simp add: the_file_def p_def fs_simps)
  show ?thesis
    using left r chars bytes
    by (subst file_read_loop.simps)
      (simp add: bm br p_def [symmetric] fp bd rel the_buf_def data_hold Let_def b advance_def)
qed

lemma file_read_loop_core:
  assumes "in_core i lo hi bf (fsys k)" and "0 \<le> left" and "lo * 1024 \<le> f_pos (the_file f k)"
    and "f_pos (the_file f k) + left \<le> (hi + 1) * 1024"
  shows "file_read_loop ops i f buf left k = Some (Inr (0, advance f left
    (put_fs_bytes (file_bytes bf (fsys k) (f_pos (the_file f k)) (nat left)) buf k)))"
  using assms
proof (induction "nat left" arbitrary: left buf k rule: less_induct)
  case less
  show ?case
  proof (cases "left = 0")
    case True
    then show ?thesis by (subst file_read_loop.simps) (simp add: file_bytes_def)
  next
    case False
    let ?p = "f_pos (the_file f k)"
    define chars where "chars = min (1024 - ?p mod 1024) left"
    have c: "0 < chars" "chars \<le> left"
      using False less.prems(2) pos_mod_bound [of 1024 ?p] by (auto simp: chars_def)
    let ?k = "advance f chars (put_fs_bytes (file_bytes bf (fsys k) ?p (nat chars)) buf k)"
    have "file_read_loop ops i f buf left k =
        file_read_loop ops i f (buf + word_of_int chars) (left - chars) ?k"
      using less.prems False by (intro file_read_step) (simp_all add: chars_def)
    also have "\<dots> = Some (Inr (0, advance f (left - chars) (put_fs_bytes
        (file_bytes bf (fsys ?k) (f_pos (the_file f ?k)) (nat (left - chars))) (buf + word_of_int chars) ?k)))"
      using less.prems c by (intro less.hyps) simp_all
    finally show ?thesis
      using c file_bytes_split [of bf "fsys k" ?p "nat chars" "nat (left - chars)"]
      by (simp add: put_fs_bytes_append nat_add_distrib [symmetric])
  qed
qed

section \<open>Writing\<close>

lemma dirty_edit: "set_buf b (\<lambda>x. x\<lparr>b_dirt := True, b_data := g (b_data x)\<rparr>) k = upd_fs (edit b g) k"
proof -
  have "(\<lambda>x :: buffer_head. x\<lparr>b_dirt := True, b_data := g (b_data x)\<rparr>) = (\<lambda>x. x\<lparr>b_data := g (b_data x), b_dirt := True\<rparr>)"
  proof
    fix x :: buffer_head
    show "x\<lparr>b_dirt := True, b_data := g (b_data x)\<rparr> = x\<lparr>b_data := g (b_data x), b_dirt := True\<rparr>"
      by (cases x) simp
  qed
  then show ?thesis by (simp add: set_buf_def edit_def upd_fs_def)
qed

lemma grow_to_keeps [simp]:
  "i_zone (grow_to p n) = i_zone n" "i_dev (grow_to p n) = i_dev n" "i_lock (grow_to p n) = i_lock n"
  by (simp_all add: grow_to_def)

text \<open>The state after \<open>c\<close> bytes from \<open>buf\<close> were written into one block, at position \<open>p\<close>.\<close>

definition written :: "nat \<Rightarrow> (int \<Rightarrow> nat) \<Rightarrow> int \<Rightarrow> int \<Rightarrow> u32 \<Rightarrow> kernel \<Rightarrow> kernel" where
  "written i bf p c buf k =
     upd_fs (edit (bf (p div 1024)) (put_bytes (nat (p mod 1024)) (get_fs_bytes (nat c) buf k)) \<circ>
             upd_inode i (grow_to (p + c))) k"

lemma written_sel [simp]:
  "user (written i bf p c buf k) = user k" "sch (written i bf p c buf k) = sch k"
  "startup_time (written i bf p c buf k) = startup_time k"
  "file_table (fsys (written i bf p c buf k)) = file_table (fsys k)"
  "the_inode i (written i bf p c buf k) = grow_to (p + c) (the_inode i k)"
  by (simp_all add: written_def fs_simps the_inode_def)

lemma length_get_fs_bytes [simp]: "length (get_fs_bytes n a k) = n"
  by (simp add: get_fs_bytes_def)

lemma written_core:
  assumes core: "in_core i lo hi bf (fsys k)" and p: "p div 1024 \<in> {lo..hi}" "0 \<le> p"
    and c: "0 \<le> c" "p mod 1024 + c \<le> 1024"
  shows "in_core i lo hi bf (fsys (written i bf p c buf k))"
proof -
  let ?b = "bf (p div 1024)" and ?k = "written i bf p c buf k"
  have lo: "0 \<le> lo" "inj_on bf {lo..hi}" using core by (auto simp: in_core_def)
  moreover have "length (b_data (bufs (fsys ?k) (bf n))) = BLOCK_SIZE \<and>
      (\<exists>ix r. mapped i n ix r (fsys ?k) \<and> r \<noteq> 0 \<and> bf ` {lo..hi} \<inter> set ix = {} \<and>
        resident (i_dev (inode_table (fsys ?k) i)) (word_of_int r) (bf n) (fsys ?k))"
    if n: "n \<in> {lo..hi}" for n
  proof -
    obtain ix r where m: "mapped i n ix r (fsys k)" "r \<noteq> 0" "\<forall>m \<in> {lo..hi}. bf m \<notin> set ix"
      "resident (i_dev (inode_table (fsys k) i)) (word_of_int r) (bf n) (fsys k)"
      "length (b_data (bufs (fsys k) (bf n))) = BLOCK_SIZE"
      by (rule in_core_block [OF core n])
    have "mapped i n ix r (fsys ?k)"
      unfolding written_def fsys_upd_fs comp_apply
      using m(1,3) p(1) by (intro mapped_edit mapped_inode_cong) simp_all
    moreover have "resident (i_dev (inode_table (fsys ?k) i)) (word_of_int r) (bf n) (fsys ?k)"
      using m(4) by (simp add: written_def fs_simps resident_edit)
    moreover have "length (b_data (bufs (fsys ?k) (bf n))) = BLOCK_SIZE"
      using m(5) c p(2) nat_le_iff
      by (auto simp: written_def fs_simps data_edit nat_add_distrib [symmetric])
    ultimately show ?thesis using m(2,3) by blast
  qed
  ultimately show ?thesis unfolding in_core_def by blast
qed

lemma written_bytes:
  assumes core: "in_core i lo hi bf (fsys k)" and p: "p div 1024 \<in> {lo..hi}" "0 \<le> p"
    and c: "0 \<le> c" "p mod 1024 + c \<le> 1024" and q: "q div 1024 \<in> {lo..hi}" "0 \<le> q"
  shows "file_byte bf (fsys (written i bf p c buf k)) q =
    (if p \<le> q \<and> q < p + c then user k (buf + word_of_int (q - p)) else file_byte bf (fsys k) q)"
proof (cases "q div 1024 = p div 1024")
  case True
  have len: "length (b_data (bufs (fsys k) (bf (p div 1024)))) = BLOCK_SIZE"
    using in_core_block [OF core p(1)] by metis
  have q1: "q = 1024 * (p div 1024) + q mod 1024" using True by (metis mult_div_mod_eq)
  have p1: "p = 1024 * (p div 1024) + p mod 1024" by simp
  have inside: "nat (p mod 1024) \<le> nat (q mod 1024) \<and> nat (q mod 1024) < nat (p mod 1024) + nat c \<longleftrightarrow>
      p \<le> q \<and> q < p + c" and diff: "q mod 1024 - p mod 1024 = q - p"
    using q1 p1 c by linarith+
  have "file_byte bf (fsys (written i bf p c buf k)) q =
      put_bytes (nat (p mod 1024)) (get_fs_bytes (nat c) buf k)
        (b_data (bufs (fsys k) (bf (p div 1024)))) ! nat (q mod 1024)"
    unfolding file_byte_def True by (simp add: written_def data_edit fs_simps)
  also have "\<dots> = (if p \<le> q \<and> q < p + c then get_fs_bytes (nat c) buf k ! (nat (q mod 1024) - nat (p mod 1024))
      else b_data (bufs (fsys k) (bf (p div 1024))) ! nat (q mod 1024))"
    using len c by (subst nth_put_bytes) (auto simp: inside)
  also have "\<dots> = (if p \<le> q \<and> q < p + c then user k (buf + word_of_int (q - p)) else file_byte bf (fsys k) q)"
  proof (cases "p \<le> q \<and> q < p + c")
    case True
    then have "nat (q mod 1024) - nat (p mod 1024) = nat (q - p)" "nat (q - p) < nat c"
      using diff by (auto simp: nat_diff_distrib' [symmetric])
    with True show ?thesis by (simp add: get_fs_bytes_def get_fs_byte_def of_nat_nat)
  qed (auto simp: file_byte_def \<open>q div 1024 = p div 1024\<close>)
  finally show ?thesis .
next
  case False
  have "bf (q div 1024) \<noteq> bf (p div 1024)"
    using False core p(1) q(1) by (meson in_core_def inj_onD)
  moreover have "\<not> (p \<le> q \<and> q < p + c)"
  proof
    assume "p \<le> q \<and> q < p + c"
    with c have "p mod 1024 + (q - p) < 1024" "0 \<le> q - p" by linarith+
    then have "(p + (q - p)) div 1024 = p div 1024" using div_mod_within by blast
    with False show False by simp
  qed
  ultimately show ?thesis
    by (auto simp: file_byte_def written_def data_edit fs_simps)
qed

lemma file_write_step:
  assumes core: "in_core i lo hi bf (fsys k)" and n: "n0 < cnt"
    and pos: "lo * 1024 \<le> p" "p + (cnt - n0) \<le> (hi + 1) * 1024"
    and c: "c = min (1024 - p mod 1024) (cnt - n0)"
  shows "file_write_loop ops i buf cnt n0 p k = file_write_loop ops i (buf + word_of_int c) cnt
    (n0 + c) (p + c) (written i bf p c buf k)"
proof -
  have lo: "0 \<le> lo" using core by (simp add: in_core_def)
  have lt: "p < (hi + 1) * 1024" using pos(2) n by simp
  note b = block_of_pos [OF lo pos(1) lt]
  obtain ix r where m: "mapped i (p div 1024) ix r (fsys k)" and r: "r \<noteq> 0"
    and res: "resident (i_dev (inode_table (fsys k) i)) (word_of_int r) (bf (p div 1024)) (fsys k)"
    by (rule in_core_block [OF core b(1)])
  let ?b = "bf (p div 1024)"
  have bm: "on_fs_val (create_block ops (CURRENT_TIME k) i (p div 1024)) k = Inr (r, k)"
    using m r by (intro on_fs_val_same) (simp add: create_block_def bmap_create_mapped)
  have br: "on_fs_val (bread ops (i_dev (the_inode i k)) (word_of_int r)) k = Inr (Some ?b, upd_fs (hold ?b) k)"
    using bread_resident [OF res] by (simp add: on_fs_val_def the_inode_def upd_fs_def)
  have get: "get_fs_bytes m a (set_inode i g (upd_fs h k)) = get_fs_bytes m a k" for m a g h
    by (simp add: get_fs_bytes_def get_fs_byte_def set_inode_def)
  have rel: "on_fs (brelse ?b) (upd_fs (edit ?b g) (set_inode i h (upd_fs (hold ?b) k))) =
      Inr (upd_fs (edit ?b g \<circ> upd_inode i h) k)" for g h
  proof -
    have "brelse ?b (hold ?b (edit ?b g (upd_inode i h (fsys k)))) = Inr (edit ?b g (upd_inode i h (fsys k)))"
      by (rule brelse_resident) (use res in \<open>simp add: resident_edit\<close>)
    then show ?thesis
      by (simp add: set_inode_def kernel_simps) (rule on_fs_upd_fs, simp add: upd_inode_hold edit_hold)
  qed
  show ?thesis
    using n r c
    by (subst file_write_loop.simps)
      (simp add: bm br b get dirty_edit rel Let_def written_def)
qed

lemma mapped_small: "mapped i n ix r s \<Longrightarrow> n < 519 + 512 * 512"
  unfolding mapped_def Let_def by auto

lemma grow_to_size:
  assumes "0 \<le> p" and "p < 2 ^ 32"
  shows "uint (i_size (grow_to p n)) = max p (uint (i_size n))"
proof -
  have "uint (word_of_int p :: u32) = p" using assms by (simp add: uint_word_of_int)
  then show ?thesis by (simp add: grow_to_def word_less_def max_def)
qed

text \<open>What \<open>n\<close> bytes from \<open>buf\<close> written at position \<open>p\<close> do to the file.\<close>

definition wrote :: "nat \<Rightarrow> int \<Rightarrow> int \<Rightarrow> (int \<Rightarrow> nat) \<Rightarrow> int \<Rightarrow> int \<Rightarrow> u32 \<Rightarrow> kernel \<Rightarrow> kernel \<Rightarrow> bool" where
  "wrote i lo hi bf p n buf k k' \<longleftrightarrow>
     in_core i lo hi bf (fsys k') \<and> user k' = user k \<and> sch k' = sch k \<and>
     startup_time k' = startup_time k \<and> file_table (fsys k') = file_table (fsys k) \<and>
     uint (i_size (the_inode i k')) = (if 0 < n then max (p + n) (uint (i_size (the_inode i k)))
                                       else uint (i_size (the_inode i k))) \<and>
     (\<forall>q. lo * 1024 \<le> q \<and> q < (hi + 1) * 1024 \<longrightarrow> file_byte bf (fsys k') q =
        (if p \<le> q \<and> q < p + n then user k (buf + word_of_int (q - p)) else file_byte bf (fsys k) q))"

lemma wrote_0: "in_core i lo hi bf (fsys k) \<Longrightarrow> wrote i lo hi bf p 0 buf k k"
  by (auto simp: wrote_def)

lemma wrote_step:
  assumes core: "in_core i lo hi bf (fsys k)" and n: "0 < n"
    and pos: "lo * 1024 \<le> p" "p + n \<le> (hi + 1) * 1024"
    and c: "c = min (1024 - p mod 1024) n"
    and rest: "wrote i lo hi bf (p + c) (n - c) (buf + word_of_int c) (written i bf p c buf k) k'"
  shows "wrote i lo hi bf p n buf k k'"
proof -
  have lo: "0 \<le> lo" using core by (simp add: in_core_def)
  have lt: "p < (hi + 1) * 1024" using pos(2) n by simp
  note b = block_of_pos [OF lo pos(1) lt]
  have cb: "0 < c" "c \<le> n" "p mod 1024 + c \<le> 1024" using c n by (auto simp: min_def)
  obtain ix r where "mapped i hi ix r (fsys k)"
    using in_core_block [OF core, of hi] b(1) by (metis atLeastAtMost_iff order_refl order_trans)
  then have "p + n < 2 ^ 32" using mapped_small pos(2) by fastforce
  then have size: "uint (i_size (grow_to (p + c) (the_inode i k))) = max (p + c) (uint (i_size (the_inode i k)))"
    using cb b(2) by (intro grow_to_size) simp_all
  have "file_byte bf (fsys k') q =
      (if p \<le> q \<and> q < p + n then user k (buf + word_of_int (q - p)) else file_byte bf (fsys k) q)"
    if q: "lo * 1024 \<le> q" "q < (hi + 1) * 1024" for q
  proof -
    have "file_byte bf (fsys (written i bf p c buf k)) q =
        (if p \<le> q \<and> q < p + c then user k (buf + word_of_int (q - p)) else file_byte bf (fsys k) q)"
      using block_of_pos [OF lo q] b cb by (intro written_bytes [OF core]) simp_all
    moreover have "file_byte bf (fsys k') q = (if p + c \<le> q \<and> q < p + c + (n - c)
        then user k (buf + word_of_int c + word_of_int (q - (p + c)))
        else file_byte bf (fsys (written i bf p c buf k)) q)"
      using rest q by (simp add: wrote_def)
    moreover have "buf + word_of_int c + word_of_int (q - (p + c)) = buf + word_of_int (q - p)"
      by (simp add: algebra_simps)
    ultimately show ?thesis using cb by auto
  qed
  then show ?thesis using rest size cb n by (auto simp: wrote_def)
qed

lemma file_write_loop_core:
  assumes "in_core i lo hi bf (fsys k)" and "n0 \<le> cnt" and "lo * 1024 \<le> p"
    and "p + (cnt - n0) \<le> (hi + 1) * 1024"
  shows "\<exists>k'. file_write_loop ops i buf cnt n0 p k = Some (Inr ((cnt, p + (cnt - n0)), k')) \<and>
    wrote i lo hi bf p (cnt - n0) buf k k'"
  using assms
proof (induction "nat (cnt - n0)" arbitrary: buf n0 p k rule: less_induct)
  case less
  show ?case
  proof (cases "n0 = cnt")
    case True
    then show ?thesis
      using less.prems by (subst file_write_loop.simps) (simp add: wrote_0)
  next
    case False
    define c where "c = min (1024 - p mod 1024) (cnt - n0)"
    have c: "0 < c" "c \<le> cnt - n0" "p mod 1024 + c \<le> 1024"
      using False less.prems(2) by (auto simp: c_def)
    have lo: "0 \<le> lo" using less.prems(1) by (simp add: in_core_def)
    have lt: "p < (hi + 1) * 1024" using less.prems(2,4) False by simp
    note b = block_of_pos [OF lo less.prems(3) lt]
    let ?k = "written i bf p c buf k"
    have step: "file_write_loop ops i buf cnt n0 p k =
        file_write_loop ops i (buf + word_of_int c) cnt (n0 + c) (p + c) ?k"
      using less.prems False by (intro file_write_step) (simp_all add: c_def)
    have "in_core i lo hi bf (fsys ?k)"
      using less.prems(1) b c by (intro written_core) simp_all
    moreover have "nat (cnt - (n0 + c)) < nat (cnt - n0)" "n0 + c \<le> cnt" "lo * 1024 \<le> p + c"
        "p + c + (cnt - (n0 + c)) \<le> (hi + 1) * 1024"
      using less.prems(2-4) c by simp_all
    ultimately obtain k' where r: "file_write_loop ops i (buf + word_of_int c) cnt (n0 + c) (p + c) ?k =
        Some (Inr ((cnt, p + c + (cnt - (n0 + c))), k'))"
      and w: "wrote i lo hi bf (p + c) (cnt - (n0 + c)) (buf + word_of_int c) ?k k'"
      using less.hyps by blast
    have pos: "0 < cnt - n0" "p + (cnt - n0) \<le> (hi + 1) * 1024" using less.prems(2,4) False by simp_all
    have "wrote i lo hi bf p (cnt - n0) buf k k'"
      using w by (intro wrote_step [OF less.prems(1) pos(1) less.prems(3) pos(2) c_def])
        (simp add: diff_diff_eq)
    then show ?thesis unfolding step r by (intro exI [of _ k']) simp
  qed
qed

end
