(* ===== verification/File_Props.thy ===== *)
theory File_Props
  imports File_Facts Process_Facts
begin

text \<open>
  Reading and writing regular files: the properties of \<open>file_read\<close> and \<open>file_write\<close> over the lemmas
  on their loops, with a kernel whose inode 0 is a file of one block.
\<close>

lemma the_file_set_inode [simp]: "the_file f (set_inode i g k) = the_file f k"
  by (simp add: the_file_def set_inode_def upd_inode_def)

lemma the_file_set_file [simp]:
  "the_file f (set_file g h k) = (if f = g then h (the_file f k) else the_file f k)"
  by (simp add: the_file_def set_file_def)

lemma file_byte_set [simp]:
  "file_byte bf (fsys (set_inode i g k)) p = file_byte bf (fsys k) p"
  "file_byte bf (fsys (set_file f h k)) p = file_byte bf (fsys k) p"
  "user (set_inode i g k) = user k" "user (set_file f h k) = user k"
  by (simp_all add: file_byte_def set_inode_def set_file_def upd_inode_def)

lemma in_core_set [simp]:
  "in_core i lo hi bf (fsys (set_file f h k)) = in_core i lo hi bf (fsys k)"
  by (simp add: set_file_def)

lemma in_core_set_inode:
  assumes "in_core i lo hi bf (fsys k)" and "\<And>n. i_zone (g n) = i_zone n" "\<And>n. i_dev (g n) = i_dev n"
  shows "in_core i lo hi bf (fsys (set_inode i g k))"
proof -
  let ?k = "set_inode i g k"
  have "length (b_data (bufs (fsys ?k) (bf n))) = BLOCK_SIZE \<and>
      (\<exists>ix r. mapped i n ix r (fsys ?k) \<and> r \<noteq> 0 \<and> bf ` {lo..hi} \<inter> set ix = {} \<and>
        resident (i_dev (inode_table (fsys ?k) i)) (word_of_int r) (bf n) (fsys ?k))"
    if n: "n \<in> {lo..hi}" for n
  proof -
    obtain ix r where m: "mapped i n ix r (fsys k)" "r \<noteq> 0" "\<forall>m \<in> {lo..hi}. bf m \<notin> set ix"
      "resident (i_dev (inode_table (fsys k) i)) (word_of_int r) (bf n) (fsys k)"
      "length (b_data (bufs (fsys k) (bf n))) = BLOCK_SIZE"
      by (rule in_core_block [OF assms(1) n])
    have "mapped i n ix r (fsys ?k)"
      using m(1) assms(2,3) by (simp add: set_inode_def mapped_inode_cong)
    then show ?thesis using m assms by (auto simp: set_inode_def fs_simps)
  qed
  then show ?thesis using assms(1) by (simp add: in_core_def)
qed

lemma the_inode_set [simp]:
  "the_inode i (set_inode i g k) = g (the_inode i k)"
  "the_inode i (set_file f h k) = the_inode i k"
  by (simp_all add: the_inode_def set_inode_def set_file_def fs_simps)

lemma user_advance [simp]: "user (advance f n k) = user k"
  by (simp add: advance_def)

lemma file_read_core:
  assumes "in_core i lo hi bf (fsys k)" and "0 < n" and "lo * 1024 \<le> f_pos (the_file f k)"
    and "f_pos (the_file f k) + n \<le> (hi + 1) * 1024"
  shows "\<exists>k'. file_read ops i f buf n k = Inr (n, k') \<and>
    user k' = user (put_fs_bytes (file_bytes bf (fsys k) (f_pos (the_file f k)) (nat n)) buf k) \<and>
    f_pos (the_file f k') = f_pos (the_file f k) + n"
  using assms by (simp add: file_read_def file_read_loop_core returns_def)

lemma file_write_core:
  assumes "in_core i lo hi bf (fsys k)" and "f_flags (the_file f k) AND O_APPEND = 0"
    and "0 < n" and "lo * 1024 \<le> f_pos (the_file f k)" and "f_pos (the_file f k) + n \<le> (hi + 1) * 1024"
  shows "\<exists>k'. file_write ops i f buf n k = Inr (n, k') \<and> in_core i lo hi bf (fsys k') \<and>
    user k' = user k \<and>
    the_file f k' = (the_file f k)\<lparr>f_pos := f_pos (the_file f k) + n\<rparr> \<and>
    (\<forall>g. g \<noteq> f \<longrightarrow> the_file g k' = the_file g k) \<and>
    uint (i_size (the_inode i k')) = max (f_pos (the_file f k) + n) (uint (i_size (the_inode i k))) \<and>
    (\<forall>q. lo * 1024 \<le> q \<and> q < (hi + 1) * 1024 \<longrightarrow> file_byte bf (fsys k') q =
      (if f_pos (the_file f k) \<le> q \<and> q < f_pos (the_file f k) + n
       then user k (buf + word_of_int (q - f_pos (the_file f k))) else file_byte bf (fsys k) q))"
proof -
  let ?p = "f_pos (the_file f k)"
  obtain k1 where l: "file_write_loop ops i buf n 0 ?p k = Some (Inr ((n, ?p + n), k1))"
    and w: "wrote i lo hi bf ?p n buf k k1"
    using file_write_loop_core [of i lo hi bf k 0 n ?p ops buf] assms by auto
  have "the_file g k1 = the_file g k" for g using w by (simp add: wrote_def the_file_def)
  then show ?thesis
    using w assms(2,3) l
    by (auto simp: file_write_def returns_def Let_def wrote_def in_core_set_inode)
qed



section \<open>A file in core\<close>

definition file_kernel :: kernel where
  "file_kernel = \<lparr>sch = sch small_system, mem = mem small_system, task_page = (\<lambda>_. 0), last_pid = 3,
     startup_time = 0, user = ucast, tty_pgrp = (\<lambda>_. 0),
     fsys = file_fs\<lparr>file_table := (\<lambda>_. \<lparr>f_mode = 3, f_flags = 0, f_count = 1, f_inode = Some 0,
       f_pos = 1000\<rparr>)\<rparr>\<rparr>"

lemma file_kernel_core: "in_core 0 0 0 (\<lambda>_. 3) (fsys file_kernel)"
proof -
  have z: "i_zone (inode_table file_fs 0) = [5, 0, 0, 0, 0, 0, 0, 5, 0]"
    "i_dev (inode_table file_fs 0) = 0x101"
    by (simp_all add: file_fs_def small_inode_def)
  have "mapped 0 0 [] 5 (fsys file_kernel)" by (simp add: mapped_def file_kernel_def z)
  moreover have "resident 0x101 (word_of_int 5) 3 (fsys file_kernel)"
    using small_resident(2)
    by (simp add: file_kernel_def resident_def at_hand_def find_buffer_def file_fs_def)
  moreover have "length (b_data (bufs (fsys file_kernel) 3)) = BLOCK_SIZE"
    by (simp add: file_kernel_def file_fs_cache small_bufs_def cached_def)
  ultimately show ?thesis by (simp add: in_core_def file_kernel_def z) (intro exI [of _ "[]"] exI [of _ 5], simp)
qed

lemma file_kernel_file: "the_file f file_kernel =
    \<lparr>f_mode = 3, f_flags = 0, f_count = 1, f_inode = Some 0, f_pos = 1000\<rparr>"
  by (simp add: the_file_def file_kernel_def)



end
