(* ===== verification/Byte_Queue.thy ===== *)
theory Byte_Queue
  imports Prelude "HOL-Library.Sublist"
begin

text \<open>
  The contract of a queue that two sides share: one side puts at the back, the other takes from the
  front, and whatever else happens leaves the queue alone. A run of such steps, in whatever order,
  delivers what was put, in order, less what is still in the queue.
\<close>

datatype 'b event = Put "'b list" | Get "'b list" | Skip

fun sent :: "'b event list \<Rightarrow> 'b list" where
  "sent [] = []"
| "sent (Put bs # es) = bs @ sent es"
| "sent (e # es) = sent es"

fun received :: "'b event list \<Rightarrow> 'b list" where
  "received [] = []"
| "received (Get bs # es) = bs @ received es"
| "received (e # es) = received es"

inductive run :: "('b list \<Rightarrow> 's \<Rightarrow> 's \<Rightarrow> bool) \<Rightarrow> ('b list \<Rightarrow> 's \<Rightarrow> 's \<Rightarrow> bool) \<Rightarrow> ('s \<Rightarrow> 's \<Rightarrow> bool) \<Rightarrow>
    's \<Rightarrow> 'b event list \<Rightarrow> 's \<Rightarrow> bool"
  for put get skip where
  run_nil: "run put get skip s [] s"
| run_put: "put bs s s' \<Longrightarrow> run put get skip s' es s'' \<Longrightarrow> run put get skip s (Put bs # es) s''"
| run_get: "get bs s s' \<Longrightarrow> run put get skip s' es s'' \<Longrightarrow> run put get skip s (Get bs # es) s''"
| run_skip: "skip s s' \<Longrightarrow> run put get skip s' es s'' \<Longrightarrow> run put get skip s (Skip # es) s''"

inductive_simps run_simps:
  "run put get skip s [] s'"
  "run put get skip s (Put bs # es) s'"
  "run put get skip s (Get bs # es) s'"
  "run put get skip s (Skip # es) s'"

locale byte_queue =
  fixes ok :: "'s \<Rightarrow> bool"
    and contents :: "'s \<Rightarrow> 'b list"
    and put :: "'b list \<Rightarrow> 's \<Rightarrow> 's \<Rightarrow> bool"
    and get :: "'b list \<Rightarrow> 's \<Rightarrow> 's \<Rightarrow> bool"
    and skip :: "'s \<Rightarrow> 's \<Rightarrow> bool"
  assumes put_back: "ok s \<Longrightarrow> put bs s s' \<Longrightarrow> ok s' \<and> contents s' = contents s @ bs"
    and get_front: "ok s \<Longrightarrow> get bs s s' \<Longrightarrow> ok s' \<and> contents s = bs @ contents s'"
    and skip_same: "ok s \<Longrightarrow> skip s s' \<Longrightarrow> ok s' \<and> contents s' = contents s"
begin

lemma run_fifo:
  assumes "run put get skip s es s'" and "ok s"
  shows "ok s' \<and> contents s @ sent es = received es @ contents s'"
  using assms
proof (induction s es s' rule: run.induct)
  case (run_put bs s s' es s'')
  then show ?case using put_back [OF run_put.prems run_put.hyps(1)] by simp
next
  case (run_get bs s s' es s'')
  then show ?case using get_front [OF run_get.prems run_get.hyps(1)] by simp
next
  case (run_skip s s' es s'')
  then show ?case using skip_same [OF run_skip.prems run_skip.hyps(1)] by simp
qed simp

lemma run_prefix:
  assumes "run put get skip s es s'" and "ok s" and "contents s = []"
  shows "sent es = received es @ contents s'" and "prefix (received es) (sent es)"
  using run_fifo [OF assms(1,2)] assms(3) by (auto simp: prefix_def)

end

end
