(* ===== verification/Pipe_Facts.thy ===== *)
theory Pipe_Facts
  imports File_Props Pipe Byte_Queue
begin

text \<open>
  Pipes as queues of bytes. The contents of a pipe are the bytes of its page from the tail to the
  head, round the end of the page. Writing appends to them and reading takes from their front,
  whatever the count and wherever the calls have to wait, so what the reader gets is what the
  writer put, in order.
\<close>

section \<open>Bytes of physical memory\<close>

lemma bit_put_long:
  fixes w :: u32 and v :: u8
  assumes "k + 8 \<le> 32"
  shows "bit ((w AND NOT (push_bit k 0xff)) OR push_bit k (ucast v)) n \<longleftrightarrow>
    n < 32 \<and> (if k \<le> n \<and> n < k + 8 then bit v (n - k) else bit w n)"
proof -
  have "bit (0xff :: u32) m \<longleftrightarrow> m < 8" for m
  proof -
    have "(0xff :: u32) = mask 8" by (simp add: mask_eq_exp_minus_1)
    then show ?thesis by (simp only: bit_mask_iff) auto
  qed
  moreover have "\<not> bit v m" if "8 \<le> m" for m using that bit_imp_le_length by fastforce
  ultimately show ?thesis
    using assms by (auto simp: bit_simps dest: bit_imp_le_length)
qed

lemma word_split_low: "a AND NOT 3 = b AND NOT 3 \<Longrightarrow> unat a mod 4 = unat b mod 4 \<Longrightarrow> a = (b :: u32)"
proof -
  assume h: "a AND NOT 3 = b AND NOT 3" and l: "unat a mod 4 = unat b mod 4"
  have m: "x AND 3 = take_bit 2 x" for x :: u32
    by (simp add: take_bit_eq_mask mask_eq_exp_minus_1)
  have "take_bit 2 a = take_bit 2 b"
    using l by (simp add: word_unat_eq_iff take_bit_eq_mod unat_mod)
  then have "(a AND 3) OR (a AND NOT 3) = (b AND 3) OR (b AND NOT 3)" using h by (simp add: m)
  then show "a = b" by (simp add: bit.conj_disj_distrib [symmetric])
qed

lemma byte_of_put [simp]: "byte_of (put_byte a v m) b = (if a = b then v else byte_of m b)"
proof (rule bit_word_eqI)
  fix n assume n: "n < LENGTH(8)"
  let ?w = "phys m (a AND NOT 3)" and ?k = "8 * (unat a mod 4)" and ?l = "8 * (unat b mod 4)"
  have k: "?k + 8 \<le> 32" "?l + 8 \<le> 32" by simp_all
  have byte: "bit (byte_of M b) n \<longleftrightarrow> bit (phys M (b AND NOT 3)) (?l + n)" for M
    using n by (simp add: byte_of_def bit_ucast_iff bit_drop_bit_eq)
  show "bit (byte_of (put_byte a v m) b) n = bit (if a = b then v else byte_of m b) n"
  proof (cases "a AND NOT 3 = b AND NOT 3")
    case True
    have "phys (put_byte a v m) (b AND NOT 3) =
        (?w AND NOT (push_bit ?k 0xff)) OR push_bit ?k (ucast v)"
      by (simp only: put_byte_def Let_def True) simp
    then have "bit (byte_of (put_byte a v m) b) n \<longleftrightarrow>
        (if ?k \<le> ?l + n \<and> ?l + n < ?k + 8 then bit v (?l + n - ?k) else bit ?w (?l + n))"
      using n k by (simp only: byte bit_put_long [OF k(1)]) simp
    moreover have "?k \<le> ?l + n \<and> ?l + n < ?k + 8 \<longleftrightarrow> a = b"
    proof
      assume "?k \<le> ?l + n \<and> ?l + n < ?k + 8"
      then have "unat a mod 4 = unat b mod 4" using n by simp
      then show "a = b" using True word_split_low by blast
    qed (use n in simp)
    ultimately show ?thesis using True byte [of m] by auto
  next
    case False
    then show ?thesis by (auto simp: byte_of_def put_byte_def Let_def)
  qed
qed

section \<open>Round the end of the page\<close>

definition ring :: "(nat \<Rightarrow> 'a) \<Rightarrow> nat \<Rightarrow> nat \<Rightarrow> 'a list" where
  "ring rd t n = map (\<lambda>j. rd ((t + j) mod 4096)) [0..<n]"

lemma length_ring [simp]: "length (ring rd t n) = n"
  by (simp add: ring_def)

lemma ring_append: "ring rd t (m + n) = ring rd t m @ ring rd ((t + m) mod 4096) n"
  by (rule nth_equalityI) (auto simp: ring_def nth_append mod_simps add.assoc [symmetric])

lemma ring_straight: "t + n \<le> 4096 \<Longrightarrow> ring rd t n = map (\<lambda>j. rd (t + j)) [0..<n]"
  by (auto simp: ring_def)

lemma ring_store:
  assumes "t < 4096" and "m + n \<le> 4095" and "h = (t + m) mod 4096" and "h + n \<le> 4096"
    and "\<And>q. q < 4096 \<Longrightarrow> rd' q = (if h \<le> q \<and> q < h + n then v (q - h) else rd q)"
  shows "ring rd' t (m + n) = ring rd t m @ map v [0..<n]"
proof -
  have "rd' ((t + j) mod 4096) = rd ((t + j) mod 4096)" if "j < m" for j
  proof -
    have "\<not> (h \<le> (t + j) mod 4096 \<and> (t + j) mod 4096 < h + n)"
    proof
      assume "h \<le> (t + j) mod 4096 \<and> (t + j) mod 4096 < h + n"
      then obtain i where i: "(t + j) mod 4096 = h + i" "i < n" by (metis le_Suc_ex nat_add_left_cancel_less)
      then show False using that assms(1-4) by (auto simp: mod_if split: if_splits)
    qed
    then show ?thesis using assms(5) [of "(t + j) mod 4096"] by auto
  qed
  then have "ring rd' t m = ring rd t m" by (auto simp: ring_def)
  moreover have "ring rd' h n = map v [0..<n]"
    using assms(4,5) by (subst ring_straight) (auto simp: assms(3))
  ultimately show ?thesis by (simp add: ring_append assms(3))
qed

section \<open>The contents of a pipe\<close>

definition head_of :: "m_inode \<Rightarrow> nat" where "head_of n = unat (i_zone n ! 0)"
definition tail_of :: "m_inode \<Rightarrow> nat" where "tail_of n = unat (i_zone n ! 1)"

text \<open>The number of bytes in the pipe, and the bytes.\<close>

definition fill :: "m_inode \<Rightarrow> nat" where
  "fill n = (head_of n + 4096 - tail_of n) mod 4096"

definition page_byte :: "m_inode \<Rightarrow> mm \<Rightarrow> nat \<Rightarrow> u8" where
  "page_byte n m q = byte_of m (i_size n + of_nat q)"

definition pipe_bytes :: "nat \<Rightarrow> kernel \<Rightarrow> u8 list" where
  "pipe_bytes i k =
     (let n = the_inode i k in ring (page_byte n (mem k)) (tail_of n) (fill n))"

definition pipe_ok :: "m_inode \<Rightarrow> bool" where
  "pipe_ok n \<longleftrightarrow> 2 \<le> length (i_zone n) \<and> head_of n < 4096 \<and> tail_of n < 4096"

definition user_bytes :: "nat \<Rightarrow> u32 \<Rightarrow> kernel \<Rightarrow> u8 list" where
  "user_bytes n a k = map (\<lambda>j. user k (a + of_nat j)) [0..<n]"

lemma length_user_bytes [simp]: "length (user_bytes n a k) = n"
  by (simp add: user_bytes_def)

lemma user_bytes_split: "user_bytes (m + n) a k = user_bytes m a k @ user_bytes n (a + of_nat m) k"
  by (rule nth_equalityI) (auto simp: user_bytes_def nth_append algebra_simps)

lemma length_pipe_bytes [simp]: "length (pipe_bytes i k) = fill (the_inode i k)"
  by (simp add: pipe_bytes_def Let_def)

lemma and_4095: "x AND 4095 = x mod (4096 :: int)"
  using take_bit_eq_mask [of 12 x] by (simp add: take_bit_eq_mod mask_eq_exp_minus_1)

lemma and_4095_word: "unat ((x :: u16) AND 4095) = unat x mod 4096"
proof -
  have "x AND 4095 = take_bit 12 x" by (simp add: take_bit_eq_mask mask_eq_exp_minus_1)
  then show ?thesis by (simp add: take_bit_eq_mod unat_mod)
qed

lemma PIPE_SIZE_fill:
  assumes "pipe_ok n"
  shows "PIPE_SIZE n = int (fill n)"
proof -
  have t: "tail_of n < 4096" using assms by (simp add: pipe_ok_def)
  have "PIPE_SIZE n = (int (head_of n) - int (tail_of n)) mod 4096"
    by (simp add: PIPE_SIZE_def and_4095 head_of_def tail_of_def)
  also have "\<dots> = (int (head_of n) - int (tail_of n) + 4096) mod 4096" by simp
  also have "\<dots> = int (fill n)" using t by (simp add: fill_def zmod_int of_nat_diff algebra_simps)
  finally show ?thesis .
qed

lemma fill_bound: "fill n \<le> 4095"
  by (simp add: fill_def)

lemma head_ring: "pipe_ok n \<Longrightarrow> head_of n = (tail_of n + fill n) mod 4096"
  by (simp add: pipe_ok_def fill_def mod_simps)

lemma fill_if:
  "pipe_ok n \<Longrightarrow> fill n = (if tail_of n \<le> head_of n then head_of n - tail_of n
                          else head_of n + 4096 - tail_of n)"
  by (auto simp: pipe_ok_def fill_def mod_if)

lemma round_if: "x < 4096 \<Longrightarrow> c \<le> 4095 \<Longrightarrow> (x + c) mod 4096 = (if x + c < 4096 then x + c else x + c - (4096 :: nat))"
  by (auto simp: mod_if)

text \<open>Moving an end of the pipe.\<close>

lemma advance_zone_sel [simp]:
  "i_size (advance_zone z c n) = i_size n" "i_count (advance_zone z c n) = i_count n"
  "i_wait (advance_zone z c n) = i_wait n" "length (i_zone (advance_zone z c n)) = length (i_zone n)"
  by (simp_all add: advance_zone_def)

lemma advance_ends:
  assumes "pipe_ok n" and "c \<le> 4096"
  shows "head_of (advance_zone 0 (int c) n) = (head_of n + c) mod 4096"
    and "tail_of (advance_zone 0 (int c) n) = tail_of n"
    and "head_of (advance_zone 1 (int c) n) = head_of n"
    and "tail_of (advance_zone 1 (int c) n) = (tail_of n + c) mod 4096"
proof -
  have "unat (w + word_of_nat c) = unat w + c" if "unat w < 4096" for w :: u16
    using that assms(2) by (subst unat_add_lem [THEN iffD1]) (simp_all add: unat_of_nat)
  moreover have ends: "0 < length (i_zone n)" "Suc 0 < length (i_zone n)"
    using assms(1) by (auto simp: pipe_ok_def)
  ultimately show "head_of (advance_zone 0 (int c) n) = (head_of n + c) mod 4096"
    "tail_of (advance_zone 0 (int c) n) = tail_of n"
    "head_of (advance_zone 1 (int c) n) = head_of n"
    "tail_of (advance_zone 1 (int c) n) = (tail_of n + c) mod 4096"
    using assms(1) ends by (simp_all add: head_of_def tail_of_def pipe_ok_def advance_zone_def and_4095_word)
qed

lemma advance_fill:
  assumes "pipe_ok n"
  shows "c + fill n \<le> 4095 \<Longrightarrow> fill (advance_zone 0 (int c) n) = fill n + c"
    and "c \<le> fill n \<Longrightarrow> fill (advance_zone 1 (int c) n) = fill n - c"
    and "c \<le> 4096 \<Longrightarrow> pipe_ok (advance_zone 0 (int c) n) \<and> pipe_ok (advance_zone 1 (int c) n)"
proof -
  have b: "head_of n < 4096" "tail_of n < 4096" using assms by (simp_all add: pipe_ok_def)
  have ok: "pipe_ok (advance_zone 0 (int c) n) \<and> pipe_ok (advance_zone 1 (int c) n)" if "c \<le> 4096"
    using assms advance_ends [OF assms that] by (simp add: pipe_ok_def)
  then show "c \<le> 4096 \<Longrightarrow> pipe_ok (advance_zone 0 (int c) n) \<and> pipe_ok (advance_zone 1 (int c) n)" .
  show "fill (advance_zone 0 (int c) n) = fill n + c" if c: "c + fill n \<le> 4095"
    using c b ok by (auto simp: fill_if assms advance_ends round_if split: if_splits)
  show "fill (advance_zone 1 (int c) n) = fill n - c" if c: "c \<le> fill n"
  proof -
    have "c \<le> 4095" using c fill_bound [of n] by linarith
    then show ?thesis
      using c b ok advance_ends [OF assms, of c] by (auto simp: fill_if assms round_if split: if_splits)
  qed
qed

section \<open>The inner loops\<close>

lemma map_upt_0_Suc: "map f [0..<Suc n] = f 0 # map (\<lambda>j. f (Suc j)) [0..<n]"
  by (simp add: upt_conv_Cons map_Suc_upt [symmetric] comp_def del: upt_Suc)

lemma copy_out_bytes:
  "copy_out n p buf k = put_fs_bytes (map (\<lambda>j. byte_of (mem k) (p + of_nat j)) [0..<n]) buf k"
proof (induction n arbitrary: p buf k)
  case (Suc n)
  have "mem (put_fs_byte v buf k) = mem k" for v by (simp add: put_fs_byte_def)
  then show ?case
    unfolding map_upt_0_Suc by (simp add: Suc algebra_simps)
qed simp

lemma copy_in_sel [simp]:
  "fsys (copy_in n p buf k) = fsys k" "user (copy_in n p buf k) = user k" "sch (copy_in n p buf k) = sch k"
  by (induction n arbitrary: p buf k) simp_all

lemma copy_in_bytes:
  "n \<le> 4096 \<Longrightarrow> byte_of (mem (copy_in n p buf k)) a =
    (if unat (a - p) < n then user k (buf + (a - p)) else byte_of (mem k) a)"
proof (induction n arbitrary: p buf k)
  case (Suc n)
  let ?k = "k\<lparr>mem := put_byte p (get_fs_byte buf k) (mem k)\<rparr>"
  have IH: "byte_of (mem (copy_in n (p + 1) (buf + 1) ?k)) a =
      (if unat (a - (p + 1)) < n then user k (buf + 1 + (a - (p + 1))) else byte_of (mem ?k) a)"
    using Suc by simp
  show ?case
  proof (cases "a = p")
    case True
    have "a - (p + 1) = - 1" using True by simp
    then have "unat (a - (p + 1)) = 4294967295" by (simp add: unsigned_minus_1_eq_mask mask_eq_exp_minus_1)
    then show ?thesis using IH True Suc.prems by (simp add: get_fs_byte_def)
  next
    case False
    then have "unat (a - p - 1) = unat (a - p) - 1" "unat (a - p) \<noteq> 0"
      by (simp_all add: unat_minus_one unat_eq_0)
    then have "unat (a - (p + 1)) < n \<longleftrightarrow> unat (a - p) < Suc n" by (simp add: diff_diff_eq) linarith
    moreover have "buf + 1 + (a - (p + 1)) = buf + (a - p)" by simp
    ultimately show ?thesis using IH False by (simp del: add_diff_cancel_left)
  qed
qed simp

lemma unat_offset:
  assumes "q < 4096" and "h \<le> 4096" and "c \<le> 4096"
  shows "unat ((s + of_nat q) - (s + of_nat h) :: u32) < c \<longleftrightarrow> h \<le> q \<and> q < h + c"
    and "h \<le> q \<Longrightarrow> (s + of_nat q) - (s + of_nat h) = (of_nat (q - h) :: u32)"
proof -
  have "unat (of_nat m :: u32) = m" if "m \<le> 4096" for m
    using that by (simp add: unat_of_nat)
  then show "unat ((s + of_nat q) - (s + of_nat h) :: u32) < c \<longleftrightarrow> h \<le> q \<and> q < h + c"
    using assms by (simp add: unat_sub_if' word_size) linarith
qed (simp add: of_nat_diff)

section \<open>One turn of each loop\<close>

lemma ucast_of_nat: "(ucast (w :: u16) :: u32) = of_nat (unat w)"
  by (simp add: word_unat_eq_iff unsigned_ucast_eq unat_of_nat)

lemma the_inode_copy [simp]:
  "the_inode i (copy_in n p buf k) = the_inode i k" "the_inode i (put_fs_bytes bs a k) = the_inode i k"
  by (simp_all add: the_inode_def)

lemma set_inode_sel [simp]:
  "user (set_inode i g k) = user k" "mem (set_inode i g k) = mem k" "sch (set_inode i g k) = sch k"
  by (simp_all add: set_inode_def)

definition put_chars :: "nat \<Rightarrow> nat \<Rightarrow> u32 \<Rightarrow> kernel \<Rightarrow> kernel" where
  "put_chars i c buf k = copy_in c (i_size (the_inode i k) + ucast (i_zone (the_inode i k) ! 0)) buf
     (set_inode i (advance_zone 0 (int c)) k)"

definition get_chars :: "nat \<Rightarrow> nat \<Rightarrow> u32 \<Rightarrow> kernel \<Rightarrow> kernel" where
  "get_chars i c buf k = copy_out c (i_size (the_inode i k) + ucast (i_zone (the_inode i k) ! 1)) buf
     (set_inode i (advance_zone 1 (int c)) k)"

lemma put_chars_sel [simp]:
  "the_inode i (put_chars i c buf k) = advance_zone 0 (int c) (the_inode i k)"
  "user (put_chars i c buf k) = user k" "sch (put_chars i c buf k) = sch k"
  by (simp_all add: put_chars_def)

lemma put_chars_bytes:
  assumes ok: "pipe_ok (the_inode i k)"
    and c: "c \<le> 4096 - head_of (the_inode i k)" "c + fill (the_inode i k) \<le> 4095"
  shows "pipe_bytes i (put_chars i c buf k) = pipe_bytes i k @ user_bytes c buf k"
proof -
  let ?n = "the_inode i k" and ?k = "put_chars i c buf k"
  have h: "head_of ?n < 4096" and t: "tail_of ?n < 4096" using ok by (simp_all add: pipe_ok_def)
  have s: "i_size ?n + ucast (i_zone ?n ! 0) = i_size ?n + of_nat (head_of ?n)"
    by (simp only: ucast_of_nat head_of_def)
  have p: "page_byte (advance_zone 0 (int c) ?n) (mem ?k) q =
      (if head_of ?n \<le> q \<and> q < head_of ?n + c then user k (buf + of_nat (q - head_of ?n))
       else page_byte ?n (mem k) q)" if q: "q < 4096" for q
  proof -
    have "page_byte (advance_zone 0 (int c) ?n) (mem ?k) q =
        byte_of (mem (copy_in c (i_size ?n + of_nat (head_of ?n)) buf (set_inode i (advance_zone 0 (int c)) k)))
          (i_size ?n + of_nat q)"
      by (simp only: page_byte_def put_chars_def s advance_zone_sel)
    also have "\<dots> = (if head_of ?n \<le> q \<and> q < head_of ?n + c
        then user k (buf + ((i_size ?n + of_nat q) - (i_size ?n + of_nat (head_of ?n))))
        else byte_of (mem k) (i_size ?n + of_nat q))"
      using q h c(1) by (subst copy_in_bytes) (simp_all only: unat_offset set_inode_sel)
    finally show ?thesis
      using q h c(1) unat_offset(2) [of q "head_of ?n" c] by (simp only: page_byte_def) auto
  qed
  have "ring (page_byte (advance_zone 0 (int c) ?n) (mem ?k)) (tail_of ?n) (fill ?n + c) =
      ring (page_byte ?n (mem k)) (tail_of ?n) (fill ?n) @ map (\<lambda>j. user k (buf + of_nat j)) [0..<c]"
    using c h by (intro ring_store [OF t _ head_ring [OF ok] _ p]) simp_all
  then show ?thesis
    using c by (simp add: pipe_bytes_def Let_def user_bytes_def advance_fill ok advance_ends)
qed

lemma get_chars_bytes:
  assumes ok: "pipe_ok (the_inode i k)"
    and c: "c \<le> 4096 - tail_of (the_inode i k)" "c \<le> fill (the_inode i k)"
  shows "get_chars i c buf k = put_fs_bytes (take c (pipe_bytes i k)) buf (set_inode i (advance_zone 1 (int c)) k)"
    and "pipe_bytes i (get_chars i c buf k) = drop c (pipe_bytes i k)"
proof -
  let ?n = "the_inode i k"
  have t: "tail_of ?n < 4096" using ok by (simp add: pipe_ok_def)
  have s: "i_size ?n + ucast (i_zone ?n ! 1) = i_size ?n + of_nat (tail_of ?n)"
    by (simp only: ucast_of_nat tail_of_def)
  obtain r where r: "fill ?n = c + r" using c(2) le_Suc_ex by blast
  have split: "pipe_bytes i k = ring (page_byte ?n (mem k)) (tail_of ?n) c @
      ring (page_byte ?n (mem k)) ((tail_of ?n + c) mod 4096) r"
    by (simp add: pipe_bytes_def Let_def r ring_append)
  have "ring (page_byte ?n (mem k)) (tail_of ?n) c =
      map (\<lambda>j. byte_of (mem k) (i_size ?n + of_nat (tail_of ?n) + of_nat j)) [0..<c]"
    using c(1) t by (simp add: ring_straight page_byte_def add.assoc)
  then show g: "get_chars i c buf k =
      put_fs_bytes (take c (pipe_bytes i k)) buf (set_inode i (advance_zone 1 (int c)) k)"
    unfolding get_chars_def copy_out_bytes s using split by simp
  have "page_byte (advance_zone 1 (int c) ?n) = page_byte ?n"
    by (simp add: fun_eq_iff page_byte_def)
  moreover have "tail_of (advance_zone 1 (int c) ?n) = (tail_of ?n + c) mod 4096"
      "fill (advance_zone 1 (int c) ?n) = r"
    using c r fill_bound [of ?n] advance_ends(4) [OF ok, of c] advance_fill(2) [OF ok, of c] by simp_all
  ultimately show "pipe_bytes i (get_chars i c buf k) = drop c (pipe_bytes i k)"
    unfolding g using split by (simp add: pipe_bytes_def Let_def)
qed

section \<open>The loops\<close>

text \<open>What a call leaves alone, and what \<open>wake_up\<close> does.\<close>

lemma wake_inode_sel [simp]:
  "user (wake_inode i k) = user k" "mem (wake_inode i k) = mem k"
  "i_zone (the_inode i (wake_inode i k)) = i_zone (the_inode i k)"
  "i_size (the_inode i (wake_inode i k)) = i_size (the_inode i k)"
  "i_count (the_inode i (wake_inode i k)) = i_count (the_inode i k)"
  by (simp_all add: wake_inode_def the_inode_def set_inode_def fs_simps split: prod.split)

lemma pipe_inode_cong:
  assumes "i_zone n' = i_zone n"
  shows "head_of n' = head_of n" "tail_of n' = tail_of n" "fill n' = fill n" "pipe_ok n' = pipe_ok n"
  using assms by (simp_all add: head_of_def tail_of_def fill_def pipe_ok_def)

lemma pipe_bytes_cong:
  assumes "i_zone (the_inode i k') = i_zone (the_inode i k)"
    and "i_size (the_inode i k') = i_size (the_inode i k)" and "mem k' = mem k"
  shows "pipe_bytes i k' = pipe_bytes i k"
  using assms by (simp add: pipe_bytes_def Let_def pipe_inode_cong [OF assms(1)] page_byte_def [abs_def])

lemma pipe_bytes_wake [simp]: "pipe_bytes i (wake_inode i k) = pipe_bytes i k"
  by (rule pipe_bytes_cong) simp_all

lemma pipe_ok_wake [simp]: "pipe_ok (the_inode i (wake_inode i k)) = pipe_ok (the_inode i k)"
  by (rule pipe_inode_cong) simp

lemma upd_cur_sel [simp]: "user (upd_cur f k) = user k" "mem (upd_cur f k) = mem k"
  "the_inode i (upd_cur f k) = the_inode i k"
  by (simp_all add: upd_cur_def upd_def the_inode_def)

lemma pipe_bytes_empty: "fill (the_inode i k) = 0 \<Longrightarrow> pipe_bytes i k = []"
  by (metis length_0_conv length_pipe_bytes)

lemma pipe_bytes_upd_cur [simp]: "pipe_bytes i (upd_cur f k) = pipe_bytes i k"
  by (rule pipe_bytes_cong) simp_all

text \<open>Whoever waited for the pipe runs again.\<close>

definition woken :: "nat \<Rightarrow> kernel \<Rightarrow> kernel \<Rightarrow> bool" where
  "woken i k k' \<longleftrightarrow> i_wait (the_inode i k') = None \<and>
     (\<forall>t. i_wait (the_inode i k) = Some t \<and> task (sch k) t \<noteq> None \<longrightarrow>
        state_of (sch k') t = Some TASK_RUNNING)"

lemma woken_wake: "woken i k (wake_inode i k)"
  by (auto simp: woken_def wake_inode_def wake_up_def the_inode_def set_inode_def fs_simps
      split: option.split)
    (simp_all add: state_of_def set_state_def upd_task_def)

lemma woken_signal: "woken i k k' \<Longrightarrow> woken i k (upd_cur (\<lambda>p. p\<lparr>signal := f p\<rparr>) k')"
  by (auto simp: woken_def) (auto simp: state_of_def upd_cur_def upd_def upd_task_def)

lemma woken_step:
  "i_wait (the_inode i k1) = i_wait (the_inode i k) \<Longrightarrow> sch k1 = sch k \<Longrightarrow> woken i k1 k' = woken i k k'"
  by (simp add: woken_def)

text \<open>What is left of a call when it has moved \<open>m\<close> bytes and cannot go on.\<close>

definition written_by :: "nat \<Rightarrow> u32 \<Rightarrow> int \<Rightarrow> int \<Rightarrow> kernel \<Rightarrow> io \<Rightarrow> kernel \<Rightarrow> bool" where
  "written_by i buf cnt dn k r k' \<longleftrightarrow>
     (let room = 4095 - length (pipe_bytes i k);
          m = min (nat cnt) room
      in pipe_ok (the_inode i k') \<and> pipe_bytes i k' = pipe_bytes i k @ user_bytes m buf k \<and>
         i_count (the_inode i k') = i_count (the_inode i k) \<and> user k' = user k \<and>
         woken i k k' \<and> r = (if cnt \<le> int room then Done (dn + int m)
              else if i_count (the_inode i k) \<noteq> 2 then Done (if dn + int m \<noteq> 0 then dn + int m else - 1)
              else Blocks (buf + of_nat m) (cnt - int m) (dn + int m)))"

definition read_by :: "nat \<Rightarrow> u32 \<Rightarrow> int \<Rightarrow> int \<Rightarrow> kernel \<Rightarrow> io \<Rightarrow> kernel \<Rightarrow> bool" where
  "read_by i buf cnt dn k r k' \<longleftrightarrow>
     (let m = min (nat cnt) (length (pipe_bytes i k))
      in pipe_ok (the_inode i k') \<and> pipe_bytes i k' = drop m (pipe_bytes i k) \<and>
         i_count (the_inode i k') = i_count (the_inode i k) \<and>
         user k' = user (put_fs_bytes (take m (pipe_bytes i k)) buf k) \<and>
         woken i k k' \<and> r = (if cnt \<le> int (length (pipe_bytes i k)) \<or> i_count (the_inode i k) \<noteq> 2 then Done (dn + int m)
              else Blocks (buf + of_nat m) (cnt - int m) (dn + int m)))"

lemma write_pipe_step:
  assumes "pipe_ok (the_inode i k)" and "0 < cnt" and "fill (the_inode i k) < 4095"
    and c: "c = min (min (4096 - head_of (the_inode i k)) (nat cnt)) (4095 - fill (the_inode i k))"
  shows "write_pipe_loop i buf cnt dn k =
    write_pipe_loop i (buf + of_nat c) (cnt - int c) (dn + int c) (put_chars i c buf k)"
proof -
  have "min (min (4096 - uint (i_zone (the_inode i k) ! 0)) cnt) (4095 - int (fill (the_inode i k))) = int c"
  proof -
    have "uint (i_zone (the_inode i k) ! 0) = int (head_of (the_inode i k))" by (simp add: head_of_def)
    then show ?thesis using assms by (simp add: c pipe_ok_def of_nat_diff of_nat_min)
  qed
  then show ?thesis
    using assms(1-3)
    by (subst write_pipe_loop.simps) (simp add: Let_def PIPE_SIZE_fill put_chars_def)
qed

lemma read_pipe_step:
  assumes "pipe_ok (the_inode i k)" and "0 < cnt" and "0 < fill (the_inode i k)"
    and c: "c = min (min (4096 - tail_of (the_inode i k)) (nat cnt)) (fill (the_inode i k))"
  shows "read_pipe_loop i buf cnt dn k =
    read_pipe_loop i (buf + of_nat c) (cnt - int c) (dn + int c) (get_chars i c buf k)"
proof -
  have "min (min (4096 - uint (i_zone (the_inode i k) ! 1)) cnt) (int (fill (the_inode i k))) = int c"
  proof -
    have "uint (i_zone (the_inode i k) ! 1) = int (tail_of (the_inode i k))" by (simp add: tail_of_def)
    then show ?thesis using assms by (simp add: c pipe_ok_def of_nat_diff of_nat_min)
  qed
  then show ?thesis
    using assms(1-3)
    by (subst read_pipe_loop.simps) (simp add: Let_def PIPE_SIZE_fill get_chars_def)
qed

lemma user_bytes_cong: "user k' = user k \<Longrightarrow> user_bytes n a k' = user_bytes n a k"
  by (simp add: user_bytes_def)

lemma written_by_step:
  assumes ok: "pipe_ok (the_inode i k)" and c: "c \<le> 4096 - head_of (the_inode i k)"
    "c \<le> nat cnt" "c + fill (the_inode i k) \<le> 4095"
    and w: "written_by i (buf + of_nat c) (cnt - int c) (dn + int c) (put_chars i c buf k) r k'"
  shows "written_by i buf cnt dn k r k'"
proof -
  let ?k = "put_chars i c buf k" and ?room = "4095 - fill (the_inode i k)"
  define m where "m = min (nat cnt - c) (?room - c)"
  have b: "pipe_bytes i ?k = pipe_bytes i k @ user_bytes c buf k"
    by (rule put_chars_bytes [OF ok c(1,3)])
  have l: "4095 - length (pipe_bytes i ?k) = ?room - c" by (simp add: b)
  have m1: "min (nat (cnt - int c)) (4095 - length (pipe_bytes i ?k)) = m"
    unfolding l m_def using c(2) by (simp add: nat_diff_distrib')
  have m2: "min (nat cnt) (4095 - length (pipe_bytes i k)) = c + m"
    using c by (simp add: m_def min_def) linarith
  have le: "cnt - int c \<le> int (4095 - length (pipe_bytes i ?k)) \<longleftrightarrow> cnt \<le> int (4095 - length (pipe_bytes i k))"
    unfolding l using c by (simp add: of_nat_diff)
  show ?thesis
    using w woken_step [of i ?k k k']
    unfolding written_by_def Let_def m1 m2 le
    by (simp add: b user_bytes_split user_bytes_cong [of ?k k] algebra_simps)
qed

lemma write_pipe_loop_spec:
  "pipe_ok (the_inode i k) \<Longrightarrow>
    \<exists>r k'. write_pipe_loop i buf cnt dn k = Some (r, k') \<and> written_by i buf cnt dn k r k'"
proof (induction "nat cnt" arbitrary: buf cnt dn k rule: less_induct)
  case less
  consider "cnt \<le> 0" | "0 < cnt" "fill (the_inode i k) = 4095" | "0 < cnt" "fill (the_inode i k) < 4095"
    using fill_bound [of "the_inode i k"] by linarith
  then show ?case
  proof cases
    case 1
    then show ?thesis
      using less.prems by (subst write_pipe_loop.simps) (simp add: written_by_def user_bytes_def woken_wake)
  next
    case 2
    then show ?thesis
      using less.prems
      by (subst write_pipe_loop.simps) (simp add: written_by_def Let_def PIPE_SIZE_fill user_bytes_def woken_wake woken_signal)
  next
    case 3
    let ?n = "the_inode i k"
    define c where "c = min (min (4096 - head_of ?n) (nat cnt)) (4095 - fill ?n)"
    have c: "0 < c" "c \<le> 4096 - head_of ?n" "c \<le> nat cnt" "c + fill ?n \<le> 4095"
      using 3 less.prems by (auto simp: c_def pipe_ok_def)
    have "nat (cnt - int c) < nat cnt" "pipe_ok (the_inode i (put_chars i c buf k))"
      using c 3 advance_fill(3) [OF less.prems, of c] by simp_all
    then obtain r k' where "write_pipe_loop i (buf + of_nat c) (cnt - int c) (dn + int c) (put_chars i c buf k) =
        Some (r, k')" "written_by i (buf + of_nat c) (cnt - int c) (dn + int c) (put_chars i c buf k) r k'"
      using less.hyps by blast
    then show ?thesis
      using write_pipe_step [OF less.prems 3 c_def] written_by_step [OF less.prems c(2-4)] by auto
  qed
qed

lemma read_by_step:
  assumes ok: "pipe_ok (the_inode i k)" and c: "c \<le> 4096 - tail_of (the_inode i k)"
    "c \<le> nat cnt" "c \<le> fill (the_inode i k)"
    and w: "read_by i (buf + of_nat c) (cnt - int c) (dn + int c) (get_chars i c buf k) r k'"
  shows "read_by i buf cnt dn k r k'"
proof -
  let ?k = "get_chars i c buf k" and ?bs = "pipe_bytes i k"
  define m where "m = min (nat cnt - c) (fill (the_inode i k) - c)"
  note g = get_chars_bytes [OF ok c(1,3), of buf]
  have m1: "min (nat (cnt - int c)) (length (pipe_bytes i ?k)) = m"
    unfolding g(2) m_def using c(2) by (simp add: nat_diff_distrib')
  have m2: "min (nat cnt) (length ?bs) = c + m"
    using c by (simp add: m_def min_def) linarith
  have le: "cnt - int c \<le> int (length (pipe_bytes i ?k)) \<longleftrightarrow> cnt \<le> int (length ?bs)"
    unfolding g(2) using c by (simp add: of_nat_diff)
  have u: "user (put_fs_bytes (take m (drop c ?bs)) (buf + of_nat c) ?k) = user (put_fs_bytes (take (c + m) ?bs) buf k)"
    using c(3) by (simp add: take_add put_fs_bytes_append min_absorb2)
      (simp add: g(1) set_inode_def put_fs_bytes_upd_fs)
  have n: "i_count (the_inode i ?k) = i_count (the_inode i k)" "i_wait (the_inode i ?k) = i_wait (the_inode i k)"
    "sch ?k = sch k"
    by (simp_all add: g(1))
  show ?thesis
    using w woken_step [of i ?k k k']
    unfolding read_by_def Let_def m1 m2 le
    by (simp add: n g(2)) (simp add: u algebra_simps)
qed

lemma read_pipe_loop_spec:
  "pipe_ok (the_inode i k) \<Longrightarrow>
    \<exists>r k'. read_pipe_loop i buf cnt dn k = Some (r, k') \<and> read_by i buf cnt dn k r k'"
proof (induction "nat cnt" arbitrary: buf cnt dn k rule: less_induct)
  case less
  consider "cnt \<le> 0" | "0 < cnt" "fill (the_inode i k) = 0" | "0 < cnt" "0 < fill (the_inode i k)"
    by linarith
  then show ?case
  proof cases
    case 1
    then show ?thesis
      using less.prems by (subst read_pipe_loop.simps) (simp add: read_by_def woken_wake)
  next
    case 2
    then show ?thesis
      using less.prems
      by (subst read_pipe_loop.simps) (simp add: read_by_def Let_def PIPE_SIZE_fill pipe_bytes_empty woken_wake)
  next
    case 3
    let ?n = "the_inode i k"
    define c where "c = min (min (4096 - tail_of ?n) (nat cnt)) (fill ?n)"
    have c: "0 < c" "c \<le> 4096 - tail_of ?n" "c \<le> nat cnt" "c \<le> fill ?n"
      using 3 less.prems by (auto simp: c_def pipe_ok_def)
    have "nat (cnt - int c) < nat cnt" "pipe_ok (the_inode i (get_chars i c buf k))"
      using c 3 advance_fill(3) [OF less.prems, of c] by (simp_all add: get_chars_bytes(1) less.prems)
    then obtain r k' where "read_pipe_loop i (buf + of_nat c) (cnt - int c) (dn + int c) (get_chars i c buf k) =
        Some (r, k')" "read_by i (buf + of_nat c) (cnt - int c) (dn + int c) (get_chars i c buf k) r k'"
      using less.hyps by blast
    then show ?thesis
      using read_pipe_step [OF less.prems 3 c_def] read_by_step [OF less.prems c(2-4)] by auto
  qed
qed

section \<open>Pipes as byte queues\<close>

text \<open>The bytes a call has moved, from the count it started with; \<open>- 1\<close> stands for none.\<close>

definition moved :: "int \<Rightarrow> io \<Rightarrow> nat" where
  "moved dn r = (case r of Done x \<Rightarrow> nat (x - dn) | Blocks b c x \<Rightarrow> nat (x - dn))"

text \<open>
  A step of the writer is a call of its loop, the first or one that goes on after a sleep, and so
  for the reader. Between their steps anything may happen that leaves the pipe's ends and page alone.
\<close>

definition pipe_put :: "nat \<Rightarrow> u8 list \<Rightarrow> kernel \<Rightarrow> kernel \<Rightarrow> bool" where
  "pipe_put i bs k k' \<longleftrightarrow> (\<exists>buf cnt dn r. 0 \<le> dn \<and> write_pipe_loop i buf cnt dn k = Some (r, k') \<and>
     bs = user_bytes (moved dn r) buf k)"

definition pipe_get :: "nat \<Rightarrow> u8 list \<Rightarrow> kernel \<Rightarrow> kernel \<Rightarrow> bool" where
  "pipe_get i bs k k' \<longleftrightarrow> (\<exists>buf cnt dn r. read_pipe_loop i buf cnt dn k = Some (r, k') \<and>
     bs = user_bytes (moved dn r) buf k')"

definition elsewhere :: "nat \<Rightarrow> kernel \<Rightarrow> kernel \<Rightarrow> bool" where
  "elsewhere i k k' \<longleftrightarrow> i_zone (the_inode i k') = i_zone (the_inode i k) \<and>
     i_size (the_inode i k') = i_size (the_inode i k) \<and>
     (\<forall>q < 4096. byte_of (mem k') (i_size (the_inode i k) + of_nat q) =
        byte_of (mem k) (i_size (the_inode i k) + of_nat q))"

lemma written_by_moved:
  "written_by i buf cnt dn k r k' \<Longrightarrow> 0 \<le> dn \<Longrightarrow>
    moved dn r = min (nat cnt) (4095 - length (pipe_bytes i k))"
  by (auto simp: written_by_def Let_def moved_def)

lemma read_by_moved:
  "read_by i buf cnt dn k r k' \<Longrightarrow> moved dn r = min (nat cnt) (length (pipe_bytes i k))"
  by (auto simp: read_by_def Let_def moved_def)

lemma user_bytes_put: "length bs \<le> 4096 \<Longrightarrow> user_bytes (length bs) a (put_fs_bytes bs a k) = bs"
  by (rule nth_equalityI) (simp_all add: user_bytes_def user_put_fs_bytes)

lemma pipe_put_back:
  assumes "pipe_ok (the_inode i k)" and "pipe_put i bs k k'"
  shows "pipe_ok (the_inode i k') \<and> pipe_bytes i k' = pipe_bytes i k @ bs"
proof -
  obtain buf cnt dn r where p: "0 \<le> dn" "write_pipe_loop i buf cnt dn k = Some (r, k')"
      "bs = user_bytes (moved dn r) buf k"
    using assms(2) by (auto simp: pipe_put_def)
  have w: "written_by i buf cnt dn k r k'"
    using write_pipe_loop_spec [OF assms(1), of buf cnt dn] p(2) by auto
  then show ?thesis using written_by_moved [OF w p(1)] p(3) by (simp add: written_by_def Let_def)
qed

lemma pipe_get_front:
  assumes "pipe_ok (the_inode i k)" and "pipe_get i bs k k'"
  shows "pipe_ok (the_inode i k') \<and> pipe_bytes i k = bs @ pipe_bytes i k'"
proof -
  obtain buf cnt dn r where p: "read_pipe_loop i buf cnt dn k = Some (r, k')"
      "bs = user_bytes (moved dn r) buf k'"
    using assms(2) by (auto simp: pipe_get_def)
  have r: "read_by i buf cnt dn k r k'"
    using read_pipe_loop_spec [OF assms(1), of buf cnt dn] p(1) by auto
  define m where "m = min (nat cnt) (length (pipe_bytes i k))"
  have "m \<le> 4095" using fill_bound [of "the_inode i k"] by (simp add: m_def)
  then have "user_bytes m buf (put_fs_bytes (take m (pipe_bytes i k)) buf k) = take m (pipe_bytes i k)"
    using user_bytes_put [of "take m (pipe_bytes i k)" buf k] by (simp add: m_def)
  moreover have "user k' = user (put_fs_bytes (take m (pipe_bytes i k)) buf k)"
    using r by (simp add: read_by_def Let_def m_def)
  ultimately have "bs = take m (pipe_bytes i k)"
    using p(2) read_by_moved [OF r] user_bytes_cong by (metis m_def)
  then show ?thesis using r by (simp add: read_by_def Let_def m_def)
qed

lemma ring_cong: "(\<And>q. q < 4096 \<Longrightarrow> rd' q = rd q) \<Longrightarrow> ring rd' t n = ring rd t n"
  by (simp add: ring_def)

lemma elsewhere_same:
  "elsewhere i k k' \<Longrightarrow> pipe_ok (the_inode i k') = pipe_ok (the_inode i k) \<and> pipe_bytes i k' = pipe_bytes i k"
  by (auto simp: elsewhere_def pipe_bytes_def Let_def page_byte_def
      pipe_inode_cong [of "the_inode i k'" "the_inode i k"] intro!: ring_cong)

interpretation pipe: byte_queue "\<lambda>k. pipe_ok (the_inode i k)" "pipe_bytes i" "pipe_put i" "pipe_get i"
  "elsewhere i" for i
  using pipe_put_back pipe_get_front elsewhere_same by (unfold_locales; blast)

section \<open>New pipes\<close>

lemma empty_inode_loop_zero:
  assumes "empty_inode_loop ops s = Some y"
  shows "\<forall>i s'. y = Inr (i, s') \<longrightarrow> inode_table s' i = zero_inode\<lparr>i_count := 1\<rparr>"
  by (rule empty_inode_loop.raw_induct [OF _ assms])
    (fastforce simp: Let_def fs_simps split: prod.splits option.splits sum.splits if_splits)

lemma new_pipe:
  assumes "get_pipe_inode ops k0 = Inr (Some i, k)"
  shows "pipe_ok (the_inode i k)" and "pipe_bytes i k = []" and "i_count (the_inode i k) = 2"
    and "fill (the_inode i k) = 0"
proof -
  obtain page m where page: "get_free_page (mem k0) = (page, m)" by fastforce
  obtain s where e: "get_empty_inode ops (fsys k0) = Inr (i, s)"
    and k: "k = set_inode i (\<lambda>n. n\<lparr>i_count := 2, i_zone := (i_zone n)[0 := 0, 1 := 0], i_pipe := True\<rparr>)
      (set_inode i (i_size_update (\<lambda>_. page)) (k0\<lparr>fsys := s, mem := m\<rparr>))"
    using assms
    by (auto simp: get_pipe_inode_def kbind_Inr_iff on_fs_val_def Let_def page split: if_splits)
  have "inode_table s i = zero_inode\<lparr>i_count := 1\<rparr>"
    using e empty_inode_loop_zero [of ops "fsys k0"]
    by (auto simp: get_empty_inode_def returns_def split: option.splits)
  then have n: "i_zone (the_inode i k) = (replicate 9 0)[0 := 0, 1 := 0]" "i_count (the_inode i k) = 2"
    using k by (auto simp: the_inode_def set_inode_def fs_simps zero_inode_def)
  then show "pipe_ok (the_inode i k)" "i_count (the_inode i k) = 2"
    by (simp_all add: pipe_ok_def head_of_def tail_of_def)
  show "fill (the_inode i k) = 0"
    using n by (simp add: fill_def head_of_def tail_of_def)
  then show "pipe_bytes i k = []" by (rule pipe_bytes_empty)
qed

section \<open>Properties\<close>

text \<open>C7: A pipe delivers its bytes in order: from its creation on, whatever calls of the readers and
  writers follow each other, with whatever counts, split by whatever sleeps, what the writers have
  put is what the readers have got and then what the pipe still holds, at most 4095 bytes.\<close>

theorem pipe_fifo:
  assumes "get_pipe_inode ops k0 = Inr (Some i, k)"
    and "run (pipe_put i) (pipe_get i) (elsewhere i) k es k'"
  shows "sent es = received es @ pipe_bytes i k' \<and> length (pipe_bytes i k') \<le> 4095"
  using pipe.run_prefix(1) [OF assms(2) new_pipe(1,2) [OF assms(1)]] fill_bound by simp

text \<open>\<open>write_pipe\<close> ends: it has appended to the pipe the user's bytes as far as there was room,
  and either the count was reached, or it waits with the rest of the request, or, when the pipe has no
  reader, it returns what it wrote or \<open>-1\<close>.\<close>

theorem write_pipe_appends:
  assumes "pipe_ok (the_inode i k)" and "m = min (nat cnt) (4095 - length (pipe_bytes i k))"
  shows "\<exists>r k'. write_pipe i buf cnt k = Inr (r, k') \<and>
    pipe_bytes i k' = pipe_bytes i k @ map (\<lambda>j. get_fs_byte (buf + of_nat j) k) [0..<m] \<and>
    r = (if cnt \<le> int (4095 - length (pipe_bytes i k)) then Done (int m)
         else if i_count (the_inode i k) = 2 then Blocks (buf + of_nat m) (cnt - int m) (int m)
         else Done (if m = 0 then - 1 else int m))"
  using write_pipe_loop_spec [OF assms(1), of buf cnt 0] assms(2)
  by (auto simp: write_pipe_def loops_def written_by_def Let_def user_bytes_def get_fs_byte_def)

text \<open>C38: \<open>read_pipe\<close> ends: it has moved to the user the oldest bytes of the pipe as far as the count
  goes, and it waits, with the rest of the request, only when it emptied the pipe before the count was
  reached and the pipe still has a writer.\<close>

theorem read_pipe_takes:
  assumes "pipe_ok (the_inode i k)" and "m = min (nat cnt) (length (pipe_bytes i k))"
  shows "\<exists>r k'. read_pipe i buf cnt k = Inr (r, k') \<and> pipe_bytes i k' = drop m (pipe_bytes i k) \<and>
    (\<forall>j < m. user k' (buf + of_nat j) = pipe_bytes i k ! j) \<and>
    r = (if cnt \<le> int (length (pipe_bytes i k)) \<or> i_count (the_inode i k) \<noteq> 2 then Done (int m)
         else Blocks (buf + of_nat m) (cnt - int m) (int m))"
proof -
  have "user (put_fs_bytes (take m (pipe_bytes i k)) buf k) (buf + of_nat j) = pipe_bytes i k ! j"
    if "j < m" for j
    using that assms(2) fill_bound [of "the_inode i k"] by (subst user_put_fs_bytes) simp_all
  then show ?thesis
    using read_pipe_loop_spec [OF assms(1), of buf cnt 0] assms(2)
    by (auto simp: read_pipe_def loops_def read_by_def Let_def)
qed

text \<open>C39: A reader that waits on an empty pipe goes on after any write: its task is running again,
  nobody is left waiting on the inode, and when it calls its loop it gets at least one byte.\<close>

theorem pipe_write_wakes_reader:
  assumes "pipe_ok (the_inode i k)" and "pipe_bytes i k = []"
    and "i_wait (the_inode i k) = Some t" and "task (sch k) t \<noteq> None"
    and "0 < cnt" and "0 < n" and "write_pipe i buf cnt k = Inr (r, k')"
  shows "state_of (sch k') t = Some TASK_RUNNING \<and> i_wait (the_inode i k') = None \<and>
    (\<exists>r' k''. read_pipe i dst n k' = Inr (r', k'') \<and> 0 < moved 0 r')"
proof -
  have w: "written_by i buf cnt 0 k r k'"
    using write_pipe_loop_spec [OF assms(1), of buf cnt 0] assms(7)
    by (auto simp: write_pipe_def loops_def)
  then have "pipe_ok (the_inode i k')" "0 < length (pipe_bytes i k')" "woken i k k'"
    using assms(2,5) by (auto simp: written_by_def Let_def)
  moreover obtain r' k'' where "read_pipe i dst n k' = Inr (r', k'')" "read_by i dst n 0 k' r' k''"
    using read_pipe_loop_spec [of i k' dst n 0] calculation(1) by (auto simp: read_pipe_def loops_def)
  moreover have "0 < moved 0 r'"
    using read_by_moved [OF calculation(5)] calculation(2) assms(6) by simp
  ultimately show ?thesis using assms(3,4) by (auto simp: woken_def)
qed

section \<open>A pipe in use\<close>

lemma empty_slot:
  assumes "scan_inodes (inode_table s) NR_INODE (last_inode s) None = (at, Some i)"
    and "\<not> i_lock (inode_table s i)" "\<not> i_dirt (inode_table s i)" "i_count (inode_table s i) = 0"
  shows "get_empty_inode ops s = Inr (i, upd_inode i (\<lambda>_. zero_inode\<lparr>i_count := 1\<rparr>) (s\<lparr>last_inode := at\<rparr>))"
  using assms
  by (simp add: get_empty_inode_def returns_def empty_inode_loop.simps [of ops s] Let_def wait_on_inode_def
      clean_inode.simps [of ops i "s\<lparr>last_inode := at\<rparr>"])

lemma file_kernel_pipe:
  obtains i k where "get_pipe_inode rd_ops file_kernel = Inr (Some i, k)" and "user k = ucast"
    and "sch k = sch small_system"
proof -
  have free: "get_free_page (mem file_kernel) = (page_addr 3839, clear_page (page_addr 3839) (set_map 3839 1 (mem file_kernel)))"
    by (subst get_free_page_def, subst scan_free.simps) (simp add: file_kernel_def small_system_def)
  have "scan_inodes (inode_table (fsys file_kernel)) (Suc 31) (last_inode (fsys file_kernel)) None = (1, Some 1)"
    by (subst scan_inodes.simps) (simp add: file_kernel_def file_fs_def small_fs_def zero_inode_def)
  then have "\<exists>s. get_empty_inode rd_ops (fsys file_kernel) = Inr (1, s)"
    using empty_slot [of "fsys file_kernel" 1 1 rd_ops]
    by (simp add: file_kernel_def file_fs_def zero_inode_def)
  then obtain s where s: "get_empty_inode rd_ops (fsys file_kernel) = Inr (1, s)" ..
  have "page_addr 3839 \<noteq> 0" by (simp add: page_addr_def)
  then show thesis
    using that s
    by (simp add: get_pipe_inode_def on_fs_val_def free Let_def) (simp add: file_kernel_def)
qed

lemma put_some:
  assumes "pipe_ok (the_inode i k)" and "0 \<le> n" and "n + int (length (pipe_bytes i k)) \<le> 4095"
  obtains k' where "pipe_put i (user_bytes (nat n) buf k) k k'"
    and "pipe_ok (the_inode i k')" and "pipe_bytes i k' = pipe_bytes i k @ user_bytes (nat n) buf k"
proof -
  obtain r k' where w: "write_pipe_loop i buf n 0 k = Some (r, k')" "written_by i buf n 0 k r k'"
    using write_pipe_loop_spec [OF assms(1)] by blast
  have "moved 0 r = nat n" using written_by_moved [OF w(2)] assms(2,3) by simp
  then have p: "pipe_put i (user_bytes (nat n) buf k) k k'"
    using w(1) unfolding pipe_put_def by (metis order_refl)
  show thesis by (rule that [OF p]) (use pipe_put_back [OF assms(1) p] in auto)
qed

lemma get_some:
  assumes "pipe_ok (the_inode i k)" and "0 \<le> n" and "n \<le> int (length (pipe_bytes i k))"
  obtains k' bs where "pipe_get i bs k k'" and "length bs = nat n"
proof -
  obtain r k' where w: "read_pipe_loop i 0 n 0 k = Some (r, k')" "read_by i 0 n 0 k r k'"
    using read_pipe_loop_spec [OF assms(1)] by blast
  have "moved 0 r = nat n" using read_by_moved [OF w(2)] assms(2,3) by simp
  then have "pipe_get i (user_bytes (nat n) 0 k') k k'"
    using w(1) unfolding pipe_get_def by metis
  then show thesis by (rule that) simp
qed

lemma pipe_fifo_witness:
  "\<exists>i k k' es. get_pipe_inode rd_ops file_kernel = Inr (Some i, k) \<and>
    run (pipe_put i) (pipe_get i) (elsewhere i) k es k' \<and> length (received es) = 2 \<and>
    sent es = [0x80, 0x81, 0x82] \<and> pipe_bytes i k' = [0x82]"
proof -
  obtain i k where k: "get_pipe_inode rd_ops file_kernel = Inr (Some i, k)" and u: "user k = ucast"
    by (rule file_kernel_pipe)
  have "(0 :: int) \<le> 3" "3 + int (length (pipe_bytes i k)) \<le> 4095" by (simp_all add: new_pipe(2,4) [OF k])
  then obtain k1 where k1: "pipe_put i (user_bytes 3 0x80 k) k k1" "pipe_ok (the_inode i k1)"
      "pipe_bytes i k1 = pipe_bytes i k @ user_bytes 3 0x80 k"
    by (rule put_some [OF new_pipe(1) [OF k], of 3 "0x80"]) simp
  have "(0 :: int) \<le> 2" "2 \<le> int (length (pipe_bytes i k1))" by (simp_all add: k1(3))
  then obtain k2 bs where k2: "pipe_get i bs k1 k2" "length bs = 2"
    by (rule get_some [OF k1(2), of 2]) simp
  let ?es = "[Put (user_bytes 3 0x80 k), Get bs]"
  have b: "user_bytes 3 0x80 k = [0x80, 0x81, 0x82]"
    by (simp add: user_bytes_def u upt_rec)
  have r: "run (pipe_put i) (pipe_get i) (elsewhere i) k ?es k2"
    using k1(1) k2(1) by (auto simp: run_simps)
  have "sent ?es = received ?es @ pipe_bytes i k2"
    using pipe_fifo [OF k r] by simp
  then have "pipe_bytes i k2 = [0x82]"
    using k2(2) b by (auto simp: length_Suc_conv numeral_2_eq_2)
  then show ?thesis
    using k r k2(2) b by (intro exI [of _ i] exI [of _ k] exI [of _ k2] exI [of _ ?es]) simp
qed

lemma write_pipe_appends_witness:
  "\<exists>i k r k'. write_pipe i 0x80 5000 k = Inr (r, k') \<and> length (pipe_bytes i k') = 4095 \<and>
    r = Blocks 0x107f 905 4095"
proof -
  obtain i k where k: "get_pipe_inode rd_ops file_kernel = Inr (Some i, k)"
    by (rule file_kernel_pipe)
  note n = new_pipe [OF k]
  have m: "4095 = min (nat 5000) (4095 - length (pipe_bytes i k))" by (simp add: n)
  obtain k' where w: "write_pipe i 0x80 5000 k = Inr (Blocks 0x107f 905 4095, k')"
      "pipe_bytes i k' = pipe_bytes i k @ map (\<lambda>j. get_fs_byte (0x80 + of_nat j) k) [0..<4095]"
    using write_pipe_appends [OF n(1) m, of "0x80"] by (auto simp: n)
  have "length (pipe_bytes i k') = 4095" unfolding w(2) by (simp add: n)
  then show ?thesis using w(1) by blast
qed

lemma read_pipe_takes_witness:
  "\<exists>i k r k'. read_pipe i 0x2000 2 k = Inr (Done 2, k') \<and> user k' 0x2001 = 0x81"
proof -
  obtain i k where k: "get_pipe_inode rd_ops file_kernel = Inr (Some i, k)" and u: "user k = ucast"
    by (rule file_kernel_pipe)
  obtain k1 where k1: "pipe_ok (the_inode i k1)" "pipe_bytes i k1 = pipe_bytes i k @ user_bytes 3 0x80 k"
    by (rule put_some [OF new_pipe(1) [OF k], of 3 "0x80"]) (simp_all add: new_pipe(2,4) [OF k])
  have b: "pipe_bytes i k1 = [0x80, 0x81, 0x82]"
    by (simp add: k1(2) new_pipe(2,4) [OF k] user_bytes_def u upt_rec)
  have m: "2 = min (nat 2) (length (pipe_bytes i k1))" by (simp add: b)
  obtain k' where r: "read_pipe i 0x2000 2 k1 = Inr (Done 2, k')"
      "\<forall>j < 2. user k' (0x2000 + of_nat j) = [0x80, 0x81, 0x82] ! j"
    using read_pipe_takes [OF k1(1) m, of "0x2000"] by (auto simp: b)
  have "user k' 0x2001 = 0x81" using r(2) [rule_format, of 1] by simp
  then show ?thesis using r(1) by blast
qed

lemma pipe_write_wakes_reader_witness:
  "\<exists>i k r k'. i_wait (the_inode i k) = Some 1 \<and> write_pipe i 0x80 3 k = Inr (r, k') \<and>
    state_of (sch k') 1 = Some TASK_RUNNING"
proof -
  obtain i k0 where k0: "get_pipe_inode rd_ops file_kernel = Inr (Some i, k0)" and s: "sch k0 = sch small_system"
    by (rule file_kernel_pipe)
  define k where "k = set_inode i (i_wait_update (\<lambda>_. Some 1)) k0"
  have z: "i_zone (the_inode i k) = i_zone (the_inode i k0)" "i_size (the_inode i k) = i_size (the_inode i k0)"
    "mem k = mem k0"
    by (simp_all add: k_def)
  have ok: "pipe_ok (the_inode i k)"
    using new_pipe(1) [OF k0] pipe_inode_cong(4) [OF z(1)] by simp
  have e: "pipe_bytes i k = []"
    using new_pipe(2) [OF k0] pipe_bytes_cong [OF z] by simp
  have t: "i_wait (the_inode i k) = Some 1" "task (sch k) 1 \<noteq> None"
    by (simp_all add: k_def s small_system_def)
  obtain r k' where w: "write_pipe i 0x80 3 k = Inr (r, k')"
    using write_pipe_loop_spec [OF ok, of "0x80" 3 0] by (auto simp: write_pipe_def loops_def)
  have s: "state_of (sch k') 1 = Some TASK_RUNNING"
    using pipe_write_wakes_reader [OF ok e t _ _ w, of 1 0] by simp
  show ?thesis using t(1) w s by blast
qed

end
