(* ===== verification/Namei.thy ===== *)
theory Namei
  imports File_IO
begin

text \<open>
  \<^verbatim>\<open>fs/namei.c\<close>: permissions, directories, the resolution of path names and the system calls that
  create and remove names. A directory entry is a buffer and the entry's number in it. \<open>iget\<close>
  always gives an inode, so the code's tests of its result have no second branch here.
\<close>

abbreviation (input) NAME_LEN :: nat where "NAME_LEN \<equiv> 14"

abbreviation (input) DIR_ENTRIES_PER_BLOCK :: nat where "DIR_ENTRIES_PER_BLOCK \<equiv> 64"

abbreviation (input) MAY_EXEC :: int where "MAY_EXEC \<equiv> 1"

abbreviation (input) MAY_WRITE :: int where "MAY_WRITE \<equiv> 2"

abbreviation (input) MAY_READ :: int where "MAY_READ \<equiv> 4"

abbreviation (input) O_ACCMODE :: int where "O_ACCMODE \<equiv> 3"

abbreviation (input) O_WRONLY :: int where "O_WRONLY \<equiv> 1"

abbreviation (input) O_CREAT :: int where "O_CREAT \<equiv> 0x40"

abbreviation (input) O_EXCL :: int where "O_EXCL \<equiv> 0x80"

abbreviation (input) O_TRUNC :: int where "O_TRUNC \<equiv> 0x200"

abbreviation (input) I_REGULAR :: int where "I_REGULAR \<equiv> 0x8000"

abbreviation (input) I_DIRECTORY :: u16 where "I_DIRECTORY \<equiv> 0x4000"

abbreviation (input) S_ISVTX :: u16 where "S_ISVTX \<equiv> 0x200"

abbreviation (input) EXDEV :: int where "EXDEV \<equiv> 18"

abbreviation (input) ENOTEMPTY :: int where "ENOTEMPTY \<equiv> 39"

abbreviation (input) SLASH :: u8 where "SLASH \<equiv> 47"

abbreviation (input) DOT :: u8 where "DOT \<equiv> 46"

section \<open>Permissions\<close>

text \<open>The entry of a string literal that \<open>ACC_MODE\<close> picks; a \<open>char\<close> is signed.\<close>

definition ACC_MODE :: "int \<Rightarrow> int" where
  "ACC_MODE flag = [4, 2, 6, -1] ! nat (flag AND O_ACCMODE)"

definition permission :: "m_inode \<Rightarrow> int \<Rightarrow> task_struct \<Rightarrow> bool" where
  "permission n want p =
     (if i_dev n \<noteq> 0 \<and> i_nlinks n = 0 then False
      else let mode = uint (i_mode n);
               mode = (if euid p = i_uid n then drop_bit 6 mode
                       else if egid p = ucast (i_gid n) then drop_bit 3 mode else mode)
           in mode AND want AND 7 = want \<or> suser p)"

definition may :: "int \<Rightarrow> nat \<Rightarrow> kernel \<Rightarrow> bool" where
  "may want i k = permission (the_inode i k) want (cur k)"

section \<open>Directories\<close>

definition de_inode :: "nat \<Rightarrow> u8 list \<Rightarrow> u16" where
  "de_inode e d = u16_at d (16 * e)"

definition de_name :: "nat \<Rightarrow> u8 list \<Rightarrow> u8 list" where
  "de_name e d = take NAME_LEN (drop (16 * e + 2) d)"

definition set_de_inode :: "nat \<Rightarrow> u16 \<Rightarrow> u8 list \<Rightarrow> u8 list" where
  "set_de_inode e ino d = put_bytes (16 * e) (u16_bytes ino) d"

definition set_de_name :: "nat \<Rightarrow> u8 list \<Rightarrow> u8 list \<Rightarrow> u8 list" where
  "set_de_name e nm d = put_bytes (16 * e + 2) nm d"

text \<open>\<open>match\<close>: the wanted name, \<open>len\<close> bytes of it, against entry \<open>e\<close> of a block.\<close>

definition match :: "nat \<Rightarrow> u32 \<Rightarrow> nat \<Rightarrow> u8 list \<Rightarrow> kernel \<Rightarrow> bool" where
  "match len name e d k \<longleftrightarrow>
     de_inode e d \<noteq> 0 \<and> len \<le> NAME_LEN \<and>
     (len < NAME_LEN \<longrightarrow> de_name e d ! len = 0) \<and> get_fs_bytes len name k = take len (de_name e d)"

definition brelse_opt :: "nat option \<Rightarrow> kernel \<Rightarrow> kernel res" where
  "brelse_opt bh k = (case bh of None \<Rightarrow> Inr k | Some b \<Rightarrow> on_fs (brelse b) k)"

text \<open>
  The scan of \<open>find_entry\<close>, at entry \<open>i\<close> of the directory and entry \<open>e\<close> of the block in \<open>bh\<close>. A block
  that cannot be had leaves \<open>bh\<close> null, and the next turn of the loop follows the null pointer.
\<close>

function find_entry_loop ::
    "fs_drv \<Rightarrow> nat \<Rightarrow> u32 \<Rightarrow> nat \<Rightarrow> nat \<Rightarrow> nat \<Rightarrow> nat option \<Rightarrow> nat \<Rightarrow> kernel \<Rightarrow>
     ((nat \<times> nat) option \<times> kernel) res" where
  "find_entry_loop ops dir name len entries i bh e k =
     (if entries \<le> i then kbind (brelse_opt bh k) (\<lambda>k. Inr (None, k))
      else case bh of
        None \<Rightarrow> Inl Undefined
      | Some b \<Rightarrow>
          if e < DIR_ENTRIES_PER_BLOCK
          then if match len name e (b_data (the_buf b k)) k then Inr (Some (b, e), k)
               else find_entry_loop ops dir name len entries (Suc i) bh (Suc e) k
          else kbind (on_fs (brelse b) k) (\<lambda>k.
            kbind (on_fs_val (bmap ops (CURRENT_TIME k) dir (int (i div DIR_ENTRIES_PER_BLOCK))) k)
              (\<lambda>(block, k).
                kbind (if block = 0 then Inr (None, k)
                       else on_fs_val (bread ops (i_dev (the_inode dir k)) (word_of_int block)) k)
                  (\<lambda>(bh, k).
                    case bh of
                      None \<Rightarrow> find_entry_loop ops dir name len entries
                                (i + DIR_ENTRIES_PER_BLOCK) None e k
                    | Some b \<Rightarrow>
                        if match len name 0 (b_data (the_buf b k)) k then Inr (Some (b, 0), k)
                        else find_entry_loop ops dir name len entries (Suc i) (Some b) 1 k))))"
  by pat_completeness auto

termination
  by (relation "measure (\<lambda>(ops, dir, name, len, entries, i, bh, e, k). entries - i)") auto

declare find_entry_loop.simps [simp del]

text \<open>
  \<open>..\<close> at the top: in the root of the process the name is cut to \<open>.\<close>, in the root of a mounted
  device the directory is exchanged for the one it is mounted on.
\<close>

definition dotdot :: "fs_drv \<Rightarrow> nat \<Rightarrow> nat \<Rightarrow> kernel \<Rightarrow> ((nat \<times> nat) \<times> kernel) res" where
  "dotdot ops dir len k =
     (if root (cur k) = Some dir then Inr ((dir, 1), k)
      else if i_num (the_inode dir k) = ROOT_INO
      then kbind (get_super (i_dev (the_inode dir k)) (fsys k)) (\<lambda>sb.
        case sb of
          None \<Rightarrow> Inl Undefined
        | Some sb \<Rightarrow>
            case s_imount (super_table (fsys k) sb) of
              None \<Rightarrow> Inr ((dir, len), k)
            | Some m \<Rightarrow> kbind (iput ops (Some dir) k) (\<lambda>k.
                Inr ((m, len), set_inode m (i_count_update (\<lambda>c. c + 1)) k)))
      else Inr ((dir, len), k))"

text \<open>The result is the entry and the directory it was looked for in.\<close>

definition find_entry ::
    "fs_drv \<Rightarrow> nat \<Rightarrow> u32 \<Rightarrow> nat \<Rightarrow> kernel \<Rightarrow> (((nat \<times> nat) option \<times> nat) \<times> kernel) res" where
  "find_entry ops dir name len k =
     (let len = min len NAME_LEN;
          entries = unat (i_size (the_inode dir k) div 16)
      in if len = 0 then Inr ((None, dir), k)
         else kbind (if len = 2 \<and> get_fs_byte name k = DOT \<and> get_fs_byte (name + 1) k = DOT
                     then dotdot ops dir len k else Inr ((dir, len), k)) (\<lambda>((dir, len), k).
           let n = the_inode dir k
           in if i_zone n ! 0 = 0 then Inr ((None, dir), k)
              else kbind (on_fs_val (bread ops (i_dev n) (ucast (i_zone n ! 0))) k) (\<lambda>(bh, k).
                case bh of
                  None \<Rightarrow> Inr ((None, dir), k)
                | Some b \<Rightarrow>
                    kbind (find_entry_loop ops dir name len entries 0 (Some b) 0 k) (\<lambda>(r, k).
                      Inr ((r, dir), k)))))"

text \<open>The turn of the loop of \<open>add_entry\<close> with entry \<open>e\<close> of the block in \<open>b\<close> at hand.\<close>

definition entry_name :: "u32 \<Rightarrow> nat \<Rightarrow> kernel \<Rightarrow> u8 list" where
  "entry_name name len k = map (\<lambda>j. if j < len then get_fs_byte (name + of_nat j) k else 0) [0..<NAME_LEN]"

definition try_entry :: "nat \<Rightarrow> u32 \<Rightarrow> nat \<Rightarrow> nat \<Rightarrow> nat \<Rightarrow> nat \<Rightarrow> kernel \<Rightarrow> bool \<times> kernel" where
  "try_entry dir name len i b e k =
     (let k = (if (of_nat (i * 16) :: u32) \<ge> i_size (the_inode dir k)
               then set_inode dir (\<lambda>n. n\<lparr>i_size := of_nat ((i + 1) * 16), i_dirt := True,
                                        i_ctime := CURRENT_TIME k\<rparr>)
                      (set_buf b (b_data_update (set_de_inode e 0)) k)
               else k)
      in if de_inode e (b_data (the_buf b k)) \<noteq> 0 then (False, k)
         else (True, set_buf b (\<lambda>x. x\<lparr>b_data := set_de_name e (entry_name name len k) (b_data x),
                                    b_dirt := True\<rparr>)
                       (set_inode dir (i_mtime_update (\<lambda>_. CURRENT_TIME k)) k)))"

partial_function (option) add_entry_loop ::
    "fs_drv \<Rightarrow> nat \<Rightarrow> u32 \<Rightarrow> nat \<Rightarrow> nat \<Rightarrow> nat option \<Rightarrow> nat \<Rightarrow> kernel \<Rightarrow>
     ((nat \<times> nat) option \<times> kernel) res option" where
  "add_entry_loop ops dir name len i bh e k =
     (case bh of
        None \<Rightarrow> Some (Inl Undefined)
      | Some b \<Rightarrow>
          if e < DIR_ENTRIES_PER_BLOCK
          then case try_entry dir name len i b e k of
                 (found, k) \<Rightarrow>
                   if found then Some (Inr (Some (b, e), k))
                   else add_entry_loop ops dir name len (Suc i) bh (Suc e) k
          else case kbind (on_fs (brelse b) k) (\<lambda>k.
                      on_fs_val (create_block ops (CURRENT_TIME k) dir
                        (int (i div DIR_ENTRIES_PER_BLOCK))) k) of
                 Inl err \<Rightarrow> Some (Inl err)
               | Inr (block, k) \<Rightarrow>
                   if block = 0 then Some (Inr (None, k))
                   else case on_fs_val (bread ops (i_dev (the_inode dir k)) (word_of_int block)) k of
                          Inl err \<Rightarrow> Some (Inl err)
                        | Inr (bh, k) \<Rightarrow>
                            case bh of
                              None \<Rightarrow> add_entry_loop ops dir name len (i + DIR_ENTRIES_PER_BLOCK) None e k
                            | Some b \<Rightarrow>
                                case try_entry dir name len i b 0 k of
                                  (found, k) \<Rightarrow>
                                    if found then Some (Inr (Some (b, 0), k))
                                    else add_entry_loop ops dir name len (Suc i) (Some b) 1 k)"

definition add_entry ::
    "fs_drv \<Rightarrow> nat \<Rightarrow> u32 \<Rightarrow> nat \<Rightarrow> kernel \<Rightarrow> ((nat \<times> nat) option \<times> kernel) res" where
  "add_entry ops dir name len k =
     (let len = min len NAME_LEN;
          n = the_inode dir k
      in if len = 0 \<or> i_zone n ! 0 = 0 then Inr (None, k)
         else kbind (on_fs_val (bread ops (i_dev n) (ucast (i_zone n ! 0))) k) (\<lambda>(bh, k).
           case bh of
             None \<Rightarrow> Inr (None, k)
           | Some b \<Rightarrow> returns (add_entry_loop ops dir name len 0 (Some b) 0 k)))"

end
