(* ===== verification/Path.thy ===== *)
theory Path
  imports Namei
begin

text \<open>
  The second half of \<^verbatim>\<open>fs/namei.c\<close>: the resolution of path names in the user's memory and the
  system calls that make and remove names.
\<close>

section \<open>Releasing what a call holds\<close>

text \<open>The \<open>iput\<close>s and \<open>brelse\<close>s before a return, in the code's order.\<close>

datatype held = I nat | B nat

fun drop_held :: "fs_drv \<Rightarrow> held list \<Rightarrow> kernel \<Rightarrow> kernel res" where
  "drop_held ops [] k = Inr k"
| "drop_held ops (I i # hs) k = kbind (iput ops (Some i) k) (drop_held ops hs)"
| "drop_held ops (B b # hs) k = kbind (on_fs (brelse b) k) (drop_held ops hs)"

definition leave :: "fs_drv \<Rightarrow> held list \<Rightarrow> 'a \<Rightarrow> kernel \<Rightarrow> ('a \<times> kernel) res" where
  "leave ops hs r k = kbind (drop_held ops hs k) (\<lambda>k. Inr (r, k))"

section \<open>Path names\<close>

text \<open>One component: its length, the byte that ended it and the address after that byte.\<close>

partial_function (option) scan_component :: "u32 \<Rightarrow> nat \<Rightarrow> kernel \<Rightarrow> (nat \<times> u8 \<times> u32) option" where
  "scan_component pathname n k =
     (let c = get_fs_byte pathname k
      in if c = 0 \<or> c = SLASH then Some (n, c, pathname + 1)
         else scan_component (pathname + 1) (Suc n) k)"

text \<open>The last component: its address and the address of the final NUL.\<close>

partial_function (option) scan_base :: "u32 \<Rightarrow> u32 \<Rightarrow> kernel \<Rightarrow> (u32 \<times> u32) option" where
  "scan_base pathname base k =
     (let c = get_fs_byte pathname k
      in if c = 0 then Some (base, pathname)
         else scan_base (pathname + 1) (if c = SLASH then pathname + 1 else base) k)"

definition entry_inode :: "nat \<times> nat \<Rightarrow> kernel \<Rightarrow> u16" where
  "entry_inode de k = (case de of (b, e) \<Rightarrow> de_inode e (b_data (the_buf b k)))"

partial_function (option) get_dir_loop ::
    "fs_drv \<Rightarrow> nat \<Rightarrow> u32 \<Rightarrow> kernel \<Rightarrow> (nat option \<times> kernel) res option" where
  "get_dir_loop ops inode pathname k =
     (if \<not> S_ISDIR (i_mode (the_inode inode k)) \<or> \<not> may MAY_EXEC inode k
      then Some (leave ops [I inode] None k)
      else case scan_component pathname 0 k of
        None \<Rightarrow> None
      | Some (len, c, rest) \<Rightarrow>
          if c = 0 then Some (Inr (Some inode, k))
          else case find_entry ops inode pathname len k of
            Inl err \<Rightarrow> Some (Inl err)
          | Inr ((de, inode), k) \<Rightarrow>
              case de of
                None \<Rightarrow> Some (leave ops [I inode] None k)
              | Some de \<Rightarrow>
                  let inr = entry_inode de k;
                      idev = i_dev (the_inode inode k)
                  in case kbind (drop_held ops [B (fst de), I inode] k) (iget ops idev inr) of
                       Inl err \<Rightarrow> Some (Inl err)
                     | Inr (inode, k) \<Rightarrow> get_dir_loop ops inode rest k)"

declare scan_component.simps [code] scan_base.simps [code] get_dir_loop.simps [code]

definition counted :: "nat option \<Rightarrow> kernel \<Rightarrow> bool" where
  "counted i k = (case i of None \<Rightarrow> False | Some i \<Rightarrow> i_count (the_inode i k) \<noteq> 0)"

definition get_dir :: "fs_drv \<Rightarrow> u32 \<Rightarrow> kernel \<Rightarrow> (nat option \<times> kernel) res" where
  "get_dir ops pathname k =
     (if \<not> counted (root (cur k)) k then Inl (Panic ''No root inode'')
      else if \<not> counted (pwd (cur k)) k then Inl (Panic ''No cwd inode'')
      else let c = get_fs_byte pathname k
      in if c = 0 then Inr (None, k)
         else let inode = the (if c = SLASH then root (cur k) else pwd (cur k));
                  pathname = (if c = SLASH then pathname + 1 else pathname)
         in returns (get_dir_loop ops inode pathname
              (set_inode inode (i_count_update (\<lambda>c. c + 1)) k)))"

text \<open>The directory, with the length and the address of the last component.\<close>

definition dir_namei :: "fs_drv \<Rightarrow> u32 \<Rightarrow> kernel \<Rightarrow> ((nat \<times> nat \<times> u32) option \<times> kernel) res" where
  "dir_namei ops pathname k =
     kbind (get_dir ops pathname k) (\<lambda>(dir, k).
       case dir of
         None \<Rightarrow> Inr (None, k)
       | Some dir \<Rightarrow>
           kbind (loops (scan_base pathname pathname k)) (\<lambda>(base, end).
             Inr (Some (dir, unat (end - base), base), k)))"

definition namei :: "fs_drv \<Rightarrow> u32 \<Rightarrow> kernel \<Rightarrow> (nat option \<times> kernel) res" where
  "namei ops pathname k =
     kbind (dir_namei ops pathname k) (\<lambda>(r, k).
       case r of
         None \<Rightarrow> Inr (None, k)
       | Some (dir, len, base) \<Rightarrow>
           if len = 0 then Inr (Some dir, k)
           else kbind (find_entry ops dir base len k) (\<lambda>((de, dir), k).
             case de of
               None \<Rightarrow> leave ops [I dir] None k
             | Some de \<Rightarrow>
                 let inr = entry_inode de k;
                     dev = i_dev (the_inode dir k)
                 in kbind (drop_held ops [B (fst de), I dir] k) (\<lambda>k.
                      kbind (iget ops dev inr k) (\<lambda>(i, k).
                        Inr (Some i, set_inode i (\<lambda>n. n\<lparr>i_atime := CURRENT_TIME k, i_dirt := True\<rparr>) k)))))"

section \<open>Opening\<close>

definition fill_entry :: "nat \<times> nat \<Rightarrow> u16 \<Rightarrow> kernel \<Rightarrow> kernel" where
  "fill_entry de ino k =
     (case de of (b, e) \<Rightarrow> set_buf b (\<lambda>x. x\<lparr>b_data := set_de_inode e ino (b_data x), b_dirt := True\<rparr>) k)"

text \<open>The case of \<open>open_namei\<close> where the name is not there: a new file in \<open>dir\<close>.\<close>

definition open_new ::
    "fs_drv \<Rightarrow> nat \<Rightarrow> nat \<Rightarrow> u32 \<Rightarrow> int \<Rightarrow> kernel \<Rightarrow> ((int \<times> nat option) \<times> kernel) res" where
  "open_new ops dir len base mode k =
     (if \<not> may MAY_WRITE dir k then leave ops [I dir] (- EACCES, None) k
      else kbind (new_inode ops (i_dev (the_inode dir k)) k) (\<lambda>(inode, k).
        case inode of
          None \<Rightarrow> leave ops [I dir] (- ENOSPC, None) k
        | Some i \<Rightarrow>
            let k = set_inode i (\<lambda>n. n\<lparr>i_uid := euid (cur k), i_mode := word_of_int mode, i_dirt := True\<rparr>) k
            in kbind (add_entry ops dir base len k) (\<lambda>(de, k).
              case de of
                None \<Rightarrow> leave ops [I i, I dir] (- ENOSPC, None)
                          (set_inode i (i_nlinks_update (\<lambda>l. l - 1)) k)
              | Some de \<Rightarrow>
                  leave ops [B (fst de), I dir] (0, Some i)
                    (fill_entry de (i_num (the_inode i k)) k))))"

definition open_namei ::
    "fs_drv \<Rightarrow> u32 \<Rightarrow> int \<Rightarrow> int \<Rightarrow> kernel \<Rightarrow> ((int \<times> nat option) \<times> kernel) res" where
  "open_namei ops pathname flag mode k =
     (let flag = (if flag AND O_TRUNC \<noteq> 0 \<and> flag AND O_ACCMODE = 0 then flag OR O_WRONLY else flag);
          mode = (mode AND (0x1ff AND NOT (uint (umask (cur k))))) OR I_REGULAR
      in kbind (dir_namei ops pathname k) (\<lambda>(r, k).
        case r of
          None \<Rightarrow> Inr ((- ENOENT, None), k)
        | Some (dir, len, base) \<Rightarrow>
            if len = 0
            then if flag AND (O_ACCMODE OR O_CREAT OR O_TRUNC) = 0 then Inr ((0, Some dir), k)
                 else leave ops [I dir] (- EISDIR, None) k
            else kbind (find_entry ops dir base len k) (\<lambda>((de, dir), k).
              case de of
                None \<Rightarrow>
                  if flag AND O_CREAT = 0 then leave ops [I dir] (- ENOENT, None) k
                  else open_new ops dir len base mode k
              | Some de \<Rightarrow>
                  let inr = entry_inode de k;
                      dev = i_dev (the_inode dir k)
                  in kbind (drop_held ops [B (fst de), I dir] k) (\<lambda>k.
                       if flag AND O_EXCL \<noteq> 0 then Inr ((- EEXIST, None), k)
                       else kbind (iget ops dev inr k) (\<lambda>(i, k).
                         if S_ISDIR (i_mode (the_inode i k)) \<and> flag AND O_ACCMODE \<noteq> 0 \<or>
                            \<not> may (ACC_MODE flag) i k
                         then leave ops [I i] (- EPERM, None) k
                         else let k = set_inode i (i_atime_update (\<lambda>_. CURRENT_TIME k)) k
                           in kbind (if flag AND O_TRUNC \<noteq> 0
                                     then on_fs (truncate_inode ops (CURRENT_TIME k) i) k
                                     else Inr k) (\<lambda>k. Inr ((0, Some i), k)))))))"

section \<open>Making names\<close>

text \<open>
  How \<open>mknod\<close> and \<open>mkdir\<close> begin: the directory that is to hold the new name, or the error with
  everything released.
\<close>

definition new_name ::
    "fs_drv \<Rightarrow> u32 \<Rightarrow> kernel \<Rightarrow> ((int + nat \<times> nat \<times> u32) \<times> kernel) res" where
  "new_name ops filename k =
     (if \<not> suser (cur k) then Inr (Inl (- EPERM), k)
      else kbind (dir_namei ops filename k) (\<lambda>(r, k).
        case r of
          None \<Rightarrow> Inr (Inl (- ENOENT), k)
        | Some (dir, len, base) \<Rightarrow>
            if len = 0 then leave ops [I dir] (Inl (- ENOENT)) k
            else if \<not> may MAY_WRITE dir k then leave ops [I dir] (Inl (- EPERM)) k
            else kbind (find_entry ops dir base len k) (\<lambda>((de, dir), k).
              case de of
                Some de \<Rightarrow> leave ops [B (fst de), I dir] (Inl (- EEXIST)) k
              | None \<Rightarrow> Inr (Inr (dir, len, base), k))))"

definition sys_mknod :: "fs_drv \<Rightarrow> u32 \<Rightarrow> int \<Rightarrow> int \<Rightarrow> kernel \<Rightarrow> (int \<times> kernel) res" where
  "sys_mknod ops filename mode dev k =
     kbind (new_name ops filename k) (\<lambda>(r, k).
       case r of
         Inl err \<Rightarrow> Inr (err, k)
       | Inr (dir, len, base) \<Rightarrow>
           kbind (new_inode ops (i_dev (the_inode dir k)) k) (\<lambda>(inode, k).
             case inode of
               None \<Rightarrow> leave ops [I dir] (- ENOSPC) k
             | Some i \<Rightarrow>
                 let m = word_of_int mode;
                     now = CURRENT_TIME k;
                     k = set_inode i (\<lambda>n. n\<lparr>i_mode := m,
                           i_zone := (if S_ISBLK m \<or> S_ISCHR m then (i_zone n)[0 := word_of_int dev]
                                      else i_zone n),
                           i_mtime := now, i_atime := now, i_dirt := True\<rparr>) k
                 in kbind (add_entry ops dir base len k) (\<lambda>(de, k).
                      case de of
                        None \<Rightarrow>
                          kbind (iput ops (Some dir) k) (\<lambda>k.
                            leave ops [I i] (- ENOSPC) (set_inode i (i_nlinks_update (\<lambda>_. 0)) k))
                      | Some de \<Rightarrow>
                          leave ops [I dir, I i, B (fst de)] 0
                            (fill_entry de (i_num (the_inode i k)) k))))"

text \<open>The first two entries of a new directory.\<close>

definition dot_entries :: "u16 \<Rightarrow> u16 \<Rightarrow> u8 list \<Rightarrow> u8 list" where
  "dot_entries self up d =
     set_de_name 1 [DOT, DOT, 0] (set_de_inode 1 up (set_de_name 0 [DOT, 0] (set_de_inode 0 self d)))"

text \<open>\<open>mkdir\<close> once it has an inode and a block for the directory.\<close>

definition make_directory ::
    "fs_drv \<Rightarrow> nat \<Rightarrow> nat \<Rightarrow> nat \<Rightarrow> u32 \<Rightarrow> int \<Rightarrow> nat \<Rightarrow> kernel \<Rightarrow> (int \<times> kernel) res" where
  "make_directory ops dir i len base mode b k =
     (let n = the_inode i k;
          k = set_buf b (\<lambda>x. x\<lparr>b_data := dot_entries (i_num n) (i_num (the_inode dir k)) (b_data x),
                b_dirt := True\<rparr>) (set_inode i (i_nlinks_update (\<lambda>_. 2)) k)
      in kbind (on_fs (brelse b) k) (\<lambda>k.
        let k = set_inode i (\<lambda>n. n\<lparr>i_mode := I_DIRECTORY OR
                  word_of_int (mode AND 0x1ff AND NOT (uint (umask (cur k)))), i_dirt := True\<rparr>) k
        in kbind (add_entry ops dir base len k) (\<lambda>(de, k).
          case de of
            None \<Rightarrow>
              kbind (iput ops (Some dir) k) (\<lambda>k.
                let n = the_inode i k
                in kbind (on_fs (free_block (i_dev n) (uint (i_zone n ! 0))) k) (\<lambda>k.
                  leave ops [I i] (- ENOSPC) (set_inode i (i_nlinks_update (\<lambda>_. 0)) k)))
          | Some de \<Rightarrow>
              leave ops [I dir, I i, B (fst de)] 0
                (set_inode dir (\<lambda>n. n\<lparr>i_nlinks := i_nlinks n + 1, i_dirt := True\<rparr>)
                  (fill_entry de (i_num (the_inode i k)) k)))))"

definition sys_mkdir :: "fs_drv \<Rightarrow> u32 \<Rightarrow> int \<Rightarrow> kernel \<Rightarrow> (int \<times> kernel) res" where
  "sys_mkdir ops pathname mode k =
     kbind (new_name ops pathname k) (\<lambda>(r, k).
       case r of
         Inl err \<Rightarrow> Inr (err, k)
       | Inr (dir, len, base) \<Rightarrow>
           kbind (new_inode ops (i_dev (the_inode dir k)) k) (\<lambda>(inode, k).
             case inode of
               None \<Rightarrow> leave ops [I dir] (- ENOSPC) k
             | Some i \<Rightarrow>
                 let now = CURRENT_TIME k;
                     k = set_inode i (\<lambda>n. n\<lparr>i_size := 32, i_dirt := True, i_mtime := now,
                           i_atime := now\<rparr>) k
                 in kbind (on_fs_val (new_block ops (i_dev (the_inode i k))) k) (\<lambda>(block, k).
                      let k = set_inode i (\<lambda>n. n\<lparr>i_zone := (i_zone n)[0 := word_of_int block]\<rparr>) k
                      in if i_zone (the_inode i k) ! 0 = 0
                         then kbind (iput ops (Some dir) k) (\<lambda>k.
                           leave ops [I i] (- ENOSPC) (set_inode i (i_nlinks_update (\<lambda>l. l - 1)) k))
                         else let n = the_inode i k
                           in kbind (on_fs_val (bread ops (i_dev n) (ucast (i_zone n ! 0))) k) (\<lambda>(bh, k).
                             case bh of
                               None \<Rightarrow>
                                 kbind (iput ops (Some dir) k) (\<lambda>k.
                                   kbind (on_fs (free_block (i_dev n) (uint (i_zone n ! 0))) k) (\<lambda>k.
                                     leave ops [I i] (- ERROR)
                                       (set_inode i (i_nlinks_update (\<lambda>l. l - 1)) k)))
                             | Some b \<Rightarrow> make_directory ops dir i len base mode b k))))"

section \<open>Removing names\<close>

definition bad_dots :: "m_inode \<Rightarrow> u8 list \<Rightarrow> bool" where
  "bad_dots n d \<longleftrightarrow> de_inode 0 d \<noteq> i_num n \<or> de_inode 1 d = 0 \<or>
     take 2 (de_name 0 d) \<noteq> [DOT, 0] \<or> take 3 (de_name 1 d) \<noteq> [DOT, DOT, 0]"

text \<open>
  The loop of \<open>empty_dir\<close>, at entry \<open>nr\<close> of the directory and \<open>e\<close> of the block in \<open>b\<close>. Past a hole
  the code goes on with the block it has just released.
\<close>

function empty_dir_loop :: "fs_drv \<Rightarrow> nat \<Rightarrow> nat \<Rightarrow> nat \<Rightarrow> nat \<Rightarrow> nat \<Rightarrow> kernel \<Rightarrow> (bool \<times> kernel) res" where
  "empty_dir_loop ops i len nr b e k =
     (if len \<le> nr then leave ops [B b] True k
      else if e < DIR_ENTRIES_PER_BLOCK
      then if de_inode e (b_data (the_buf b k)) \<noteq> 0 then leave ops [B b] False k
           else empty_dir_loop ops i len (Suc nr) b (Suc e) k
      else kbind (on_fs (brelse b) k) (\<lambda>k.
        kbind (on_fs_val (bmap ops (CURRENT_TIME k) i (int (nr div DIR_ENTRIES_PER_BLOCK))) k)
          (\<lambda>(block, k).
            if block = 0 then empty_dir_loop ops i len (nr + DIR_ENTRIES_PER_BLOCK) b e k
            else kbind (on_fs_val (bread ops (i_dev (the_inode i k)) (word_of_int block)) k)
              (\<lambda>(bh, k).
                case bh of
                  None \<Rightarrow> Inr (False, k)
                | Some b \<Rightarrow>
                    if de_inode 0 (b_data (the_buf b k)) \<noteq> 0 then leave ops [B b] False k
                    else empty_dir_loop ops i len (Suc nr) b 1 k))))"
  by pat_completeness auto

termination by (relation "measure (\<lambda>(ops, i, len, nr, b, e, k). len - nr)") auto

declare empty_dir_loop.simps [simp del]

definition empty_dir :: "fs_drv \<Rightarrow> nat \<Rightarrow> kernel \<Rightarrow> (bool \<times> kernel) res" where
  "empty_dir ops i k =
     (let n = the_inode i k;
          len = unat (i_size n div 16)
      in if len < 2 \<or> i_zone n ! 0 = 0 then Inr (False, k)
         else kbind (on_fs_val (bread ops (i_dev n) (ucast (i_zone n ! 0))) k) (\<lambda>(bh, k).
           case bh of
             None \<Rightarrow> Inr (False, k)
           | Some b \<Rightarrow>
               if bad_dots n (b_data (the_buf b k)) then Inr (False, k)
               else empty_dir_loop ops i len 2 b 2 k))"

definition is_sticky :: "nat \<Rightarrow> kernel \<Rightarrow> bool" where
  "is_sticky dir k \<longleftrightarrow> i_mode (the_inode dir k) AND S_ISVTX \<noteq> 0"

definition sys_rmdir :: "fs_drv \<Rightarrow> u32 \<Rightarrow> kernel \<Rightarrow> (int \<times> kernel) res" where
  "sys_rmdir ops name k =
     (if \<not> suser (cur k) then Inr (- EPERM, k)
      else kbind (dir_namei ops name k) (\<lambda>(r, k).
        case r of
          None \<Rightarrow> Inr (- ENOENT, k)
        | Some (dir, len, base) \<Rightarrow>
            if len = 0 then leave ops [I dir] (- ENOENT) k
            else if \<not> may MAY_WRITE dir k then leave ops [I dir] (- EPERM) k
            else kbind (find_entry ops dir base len k) (\<lambda>((de, dir), k).
              case de of
                None \<Rightarrow> leave ops [I dir] (- ENOENT) k
              | Some de \<Rightarrow>
                  kbind (iget ops (i_dev (the_inode dir k)) (entry_inode de k) k) (\<lambda>(i, k).
                    let n = the_inode i k;
                        bh = B (fst de)
                    in if is_sticky dir k \<and> euid (cur k) \<noteq> 0 \<and> i_uid n \<noteq> euid (cur k)
                       then leave ops [I dir, I i, bh] (- EPERM) k
                       else if i_dev n \<noteq> i_dev (the_inode dir k) \<or> i_count n > 1
                       then leave ops [I dir, I i, bh] (- EPERM) k
                       else if i = dir then leave ops [I i, I dir, bh] (- EPERM) k
                       else if \<not> S_ISDIR (i_mode n) then leave ops [I i, I dir, bh] (- ENOTDIR) k
                       else kbind (empty_dir ops i k) (\<lambda>(empty, k).
                         if \<not> empty then leave ops [I i, I dir, bh] (- ENOTEMPTY) k
                         else kbind (on_fs (brelse (fst de)) (fill_entry de 0 k)) (\<lambda>k.
                           let now = CURRENT_TIME k;
                               k = set_inode dir (\<lambda>n. n\<lparr>i_nlinks := i_nlinks n - 1, i_ctime := now,
                                     i_mtime := now, i_dirt := True\<rparr>)
                                   (set_inode i (\<lambda>n. n\<lparr>i_nlinks := 0, i_dirt := True\<rparr>) k)
                           in leave ops [I dir, I i] 0 k))))))"

definition sys_unlink :: "fs_drv \<Rightarrow> u32 \<Rightarrow> kernel \<Rightarrow> (int \<times> kernel) res" where
  "sys_unlink ops name k =
     kbind (dir_namei ops name k) (\<lambda>(r, k).
       case r of
         None \<Rightarrow> Inr (- ENOENT, k)
       | Some (dir, len, base) \<Rightarrow>
           if len = 0 then leave ops [I dir] (- ENOENT) k
           else if \<not> may MAY_WRITE dir k then leave ops [I dir] (- EPERM) k
           else kbind (find_entry ops dir base len k) (\<lambda>((de, dir), k).
             case de of
               None \<Rightarrow> leave ops [I dir] (- ENOENT) k
             | Some de \<Rightarrow>
                 kbind (iget ops (i_dev (the_inode dir k)) (entry_inode de k) k) (\<lambda>(i, k).
                   let n = the_inode i k;
                       p = cur k;
                       bh = B (fst de)
                   in if is_sticky dir k \<and> \<not> suser p \<and> euid p \<noteq> i_uid n \<and>
                         euid p \<noteq> i_uid (the_inode dir k)
                      then leave ops [I dir, I i, bh] (- EPERM) k
                      else if S_ISDIR (i_mode n) then leave ops [I i, I dir, bh] (- EPERM) k
                      else let links = (if i_nlinks n = 0 then 1 else i_nlinks n)
                        in kbind (on_fs (brelse (fst de)) (fill_entry de 0 k)) (\<lambda>k.
                          leave ops [I i, I dir] 0
                            (set_inode i (\<lambda>n. n\<lparr>i_nlinks := links - 1, i_dirt := True,
                               i_ctime := CURRENT_TIME k\<rparr>) k)))))"

definition sys_link :: "fs_drv \<Rightarrow> u32 \<Rightarrow> u32 \<Rightarrow> kernel \<Rightarrow> (int \<times> kernel) res" where
  "sys_link ops oldname newname k =
     kbind (namei ops oldname k) (\<lambda>(old, k).
       case old of
         None \<Rightarrow> Inr (- ENOENT, k)
       | Some old \<Rightarrow>
           if S_ISDIR (i_mode (the_inode old k)) then leave ops [I old] (- EPERM) k
           else kbind (dir_namei ops newname k) (\<lambda>(r, k).
             case r of
               None \<Rightarrow> leave ops [I old] (- EACCES) k
             | Some (dir, len, base) \<Rightarrow>
                 if len = 0 then leave ops [I old, I dir] (- EPERM) k
                 else if i_dev (the_inode dir k) \<noteq> i_dev (the_inode old k)
                 then leave ops [I dir, I old] (- EXDEV) k
                 else if \<not> may MAY_WRITE dir k then leave ops [I dir, I old] (- EACCES) k
                 else kbind (find_entry ops dir base len k) (\<lambda>((de, dir), k).
                   case de of
                     Some de \<Rightarrow> leave ops [B (fst de), I dir, I old] (- EEXIST) k
                   | None \<Rightarrow>
                       kbind (add_entry ops dir base len k) (\<lambda>(de, k).
                         case de of
                           None \<Rightarrow> leave ops [I dir, I old] (- ENOSPC) k
                         | Some de \<Rightarrow>
                             kbind (drop_held ops [B (fst de), I dir]
                                     (fill_entry de (i_num (the_inode old k)) k)) (\<lambda>k.
                               leave ops [I old] 0
                                 (set_inode old (\<lambda>n. n\<lparr>i_nlinks := i_nlinks n + 1,
                                    i_ctime := CURRENT_TIME k, i_dirt := True\<rparr>) k))))))"

end
