(* ===== verification/Super.thy ===== *)
theory Super
  imports Path
begin

text \<open>
  \<^verbatim>\<open>fs/super.c\<close>: super blocks, mounting and unmounting. \<open>changed\<close> says which floppy the driver saw
  changed; printing and waiting for a key are left out.
\<close>

abbreviation (input) SUPER_MAGIC :: u16 where "SUPER_MAGIC \<equiv> 0x137f"

abbreviation (input) ENOTBLK :: int where "ENOTBLK \<equiv> 15"

abbreviation (input) EBUSY :: int where "EBUSY \<equiv> 16"

definition lock_super :: "nat \<Rightarrow> fs \<Rightarrow> fs res" where
  "lock_super sb s =
     (if s_lock (super_table s sb) then Inl Sleeps
      else Inr (upd_super sb (s_lock_update (\<lambda>_. True)) s))"

definition free_super :: "nat \<Rightarrow> fs \<Rightarrow> fs" where
  "free_super sb s = upd_super sb (s_lock_update (\<lambda>_. False)) s"

fun brelse_slots :: "(nat \<Rightarrow> nat option) \<Rightarrow> nat list \<Rightarrow> fs \<Rightarrow> fs res" where
  "brelse_slots m [] s = Inr s"
| "brelse_slots m (i # is) s =
     kbind (case m i of None \<Rightarrow> Inr s | Some b \<Rightarrow> brelse b s) (brelse_slots m is)"

definition put_super :: "u16 \<Rightarrow> fs \<Rightarrow> fs res" where
  "put_super dev s =
     (if dev = root_dev s then Inr s
      else kbind (get_super dev s) (\<lambda>found.
        case found of
          None \<Rightarrow> Inr s
        | Some sb \<Rightarrow>
            if s_imount (super_table s sb) \<noteq> None then Inr s
            else kbind (lock_super sb s) (\<lambda>s.
              let s = upd_super sb (s_dev_update (\<lambda>_. 0)) s
              in kbind (brelse_slots (s_imap (super_table s sb)) [0..<MAP_SLOTS] s) (\<lambda>s.
                   kbind (brelse_slots (s_zmap (super_table s sb)) [0..<MAP_SLOTS] s) (\<lambda>s.
                     Inr (free_super sb s))))))"

text \<open>The part of \<open>check_disk_change\<close> that looks for the device in the super block table.\<close>

fun put_supers_on :: "u16 \<Rightarrow> nat list \<Rightarrow> fs \<Rightarrow> fs res" where
  "put_supers_on dev [] s = Inr s"
| "put_supers_on dev (i # is) s =
     kbind (if s_dev (super_table s i) = dev then put_super dev s else Inr s) (put_supers_on dev is)"

definition disk_change :: "(nat \<Rightarrow> bool) \<Rightarrow> u16 \<Rightarrow> fs \<Rightarrow> fs res" where
  "disk_change changed =
     check_disk_change changed (\<lambda>dev. put_supers_on dev [0..<NR_SUPER]) invalidate_inodes"

section \<open>Reading a super block\<close>

definition load_d_super :: "u8 list \<Rightarrow> super_block \<Rightarrow> super_block" where
  "load_d_super d b = b\<lparr>s_ninodes := u16_at d 0, s_nzones := u16_at d 2, s_imap_blocks := u16_at d 4,
     s_zmap_blocks := u16_at d 6, s_firstdatazone := u16_at d 8, s_log_zone_size := u16_at d 10,
     s_max_size := u32_at d 12, s_magic := u16_at d 16\<rparr>"

text \<open>
  The two loops that read bitmap blocks, into the slots given: the next block afterwards and the
  slots filled. There are only \<open>MAP_SLOTS\<close> of them.
\<close>

fun read_map ::
    "fs_drv \<Rightarrow> u16 \<Rightarrow> nat list \<Rightarrow> u32 \<Rightarrow> (nat \<Rightarrow> nat option) \<Rightarrow> fs \<Rightarrow>
     ((u32 \<times> (nat \<Rightarrow> nat option)) \<times> fs) res" where
  "read_map ops dev [] block m s = Inr ((block, m), s)"
| "read_map ops dev (i # is) block m s =
     (if i \<ge> MAP_SLOTS then Inl Undefined
      else kbind (bread ops dev block s) (\<lambda>(bh, s).
        case bh of
          None \<Rightarrow> Inr ((block, m(i := None)), s)
        | Some b \<Rightarrow> read_map ops dev is (block + 1) (m(i := Some b)) s))"

text \<open>Bit 0 of both maps is taken; a super block without maps makes the code follow a null pointer.\<close>

definition mark_first :: "nat option \<Rightarrow> fs \<Rightarrow> fs res" where
  "mark_first slot s =
     (case slot of
        None \<Rightarrow> Inl Undefined
      | Some b \<Rightarrow> Inr (upd_buf b (b_data_update (\<lambda>d. d[0 := d ! 0 OR 1])) s))"

definition load_maps :: "fs_drv \<Rightarrow> u16 \<Rightarrow> nat \<Rightarrow> fs \<Rightarrow> (nat option \<times> fs) res" where
  "load_maps ops dev sb s =
     (let b = super_table s sb;
          ni = unat (s_imap_blocks b);
          nz = unat (s_zmap_blocks b)
      in kbind (read_map ops dev [0..<ni] 2 (\<lambda>_. None) s) (\<lambda>((block, im), s).
           kbind (read_map ops dev [0..<nz] block (\<lambda>_. None) s) (\<lambda>((block, zm), s).
             let s = upd_super sb (\<lambda>b. b\<lparr>s_imap := im, s_zmap := zm\<rparr>) s
             in if block \<noteq> of_nat (2 + ni + nz)
                then kbind (brelse_slots im [0..<MAP_SLOTS] s) (\<lambda>s.
                       kbind (brelse_slots zm [0..<MAP_SLOTS] s) (\<lambda>s.
                         Inr (None, free_super sb (upd_super sb (s_dev_update (\<lambda>_. 0)) s))))
                else kbind (mark_first (im 0) s) (\<lambda>s.
                       kbind (mark_first (zm 0) s) (\<lambda>s. Inr (Some sb, free_super sb s))))))"

definition read_super :: "fs_drv \<Rightarrow> (nat \<Rightarrow> bool) \<Rightarrow> u16 \<Rightarrow> fs \<Rightarrow> (nat option \<times> fs) res" where
  "read_super ops changed dev s =
     (if dev = 0 then Inr (None, s)
      else kbind (disk_change changed dev s) (\<lambda>s.
        kbind (get_super dev s) (\<lambda>found.
          if found \<noteq> None then Inr (found, s)
          else case find (\<lambda>i. s_dev (super_table s i) = 0) [0..<NR_SUPER] of
            None \<Rightarrow> Inr (None, s)
          | Some sb \<Rightarrow>
              kbind (lock_super sb (upd_super sb (\<lambda>b. b\<lparr>s_dev := dev, s_isup := None,
                       s_imount := None, s_time := 0, s_rd_only := False, s_dirt := False\<rparr>) s)) (\<lambda>s.
                let no_super = (\<lambda>s. Inr (None, free_super sb (upd_super sb (s_dev_update (\<lambda>_. 0)) s)))
                in kbind (bread ops dev 1 s) (\<lambda>(bh, s).
                     case bh of
                       None \<Rightarrow> no_super s
                     | Some b \<Rightarrow>
                         let s = upd_super sb (load_d_super (b_data (bufs s b))) s
                         in kbind (brelse b s) (\<lambda>s.
                              if s_magic (super_table s sb) \<noteq> SUPER_MAGIC then no_super s
                              else load_maps ops dev sb s))))))"

section \<open>Mounting\<close>

definition sys_umount :: "fs_drv \<Rightarrow> u32 \<Rightarrow> kernel \<Rightarrow> (int \<times> kernel) res" where
  "sys_umount ops dev_name k =
     kbind (namei ops dev_name k) (\<lambda>(inode, k).
       case inode of
         None \<Rightarrow> Inr (- ENOENT, k)
       | Some i \<Rightarrow>
           let n = the_inode i k;
               dev = i_zone n ! 0
           in if \<not> S_ISBLK (i_mode n) then leave ops [I i] (- ENOTBLK) k
              else kbind (iput ops (Some i) k) (\<lambda>k.
                if dev = root_dev (fsys k) then Inr (- EBUSY, k)
                else kbind (get_super dev (fsys k)) (\<lambda>found.
                  case found of
                    None \<Rightarrow> Inr (- ENOENT, k)
                  | Some sb \<Rightarrow>
                      case s_imount (super_table (fsys k) sb) of
                        None \<Rightarrow> Inr (- ENOENT, k)
                      | Some m \<Rightarrow>
                          if \<exists>j \<in> set [0..<NR_INODE]. i_dev (the_inode j k) = dev \<and>
                               i_count (the_inode j k) \<noteq> 0
                          then Inr (- EBUSY, k)
                          else kbind (iput ops (Some m) (set_inode m (i_mount_update (\<lambda>_. False)) k)) (\<lambda>k.
                            let k = upd_fs (upd_super sb (s_imount_update (\<lambda>_. None))) k
                            in kbind (iput ops (s_isup (super_table (fsys k) sb)) k) (\<lambda>k.
                              let k = upd_fs (upd_super sb (s_isup_update (\<lambda>_. None))) k
                              in kbind (on_fs (put_super dev) k) (\<lambda>k.
                                kbind (on_fs (sync_dev ops dev) k) (\<lambda>k. Inr (0, k))))))))"

definition sys_mount :: "fs_drv \<Rightarrow> (nat \<Rightarrow> bool) \<Rightarrow> u32 \<Rightarrow> u32 \<Rightarrow> kernel \<Rightarrow> (int \<times> kernel) res" where
  "sys_mount ops changed dev_name dir_name k =
     kbind (namei ops dev_name k) (\<lambda>(dev_i, k).
       case dev_i of
         None \<Rightarrow> Inr (- ENOENT, k)
       | Some i \<Rightarrow>
           let dev = i_zone (the_inode i k) ! 0
           in if \<not> S_ISBLK (i_mode (the_inode i k)) then leave ops [I i] (- EPERM) k
              else kbind (iput ops (Some i) k) (\<lambda>k.
                kbind (namei ops dir_name k) (\<lambda>(dir_i, k).
                  case dir_i of
                    None \<Rightarrow> Inr (- ENOENT, k)
                  | Some d \<Rightarrow>
                      let n = the_inode d k
                      in if i_count n \<noteq> 1 \<or> i_num n = ROOT_INO then leave ops [I d] (- EBUSY) k
                         else if \<not> S_ISDIR (i_mode n) then leave ops [I d] (- EPERM) k
                         else kbind (on_fs_val (read_super ops changed dev) k) (\<lambda>(sb, k).
                           case sb of
                             None \<Rightarrow> leave ops [I d] (- EBUSY) k
                           | Some sb \<Rightarrow>
                               if s_imount (super_table (fsys k) sb) \<noteq> None then leave ops [I d] (- EBUSY) k
                               else if i_mount (the_inode d k) then leave ops [I d] (- EPERM) k
                               else Inr (0, set_inode d (\<lambda>n. n\<lparr>i_mount := True, i_dirt := True\<rparr>)
                                 (upd_fs (upd_super sb (s_imount_update (\<lambda>_. Some d))) k))))))"

text \<open>\<open>mount_root\<close>, up to the counts of free zones and inodes, which it only prints.\<close>

definition mount_root :: "fs_drv \<Rightarrow> (nat \<Rightarrow> bool) \<Rightarrow> kernel \<Rightarrow> kernel res" where
  "mount_root ops changed k =
     (let k = upd_fs (\<lambda>s. s\<lparr>
            file_table := (\<lambda>i. if i < NR_FILE then (file_table s i)\<lparr>f_count := 0\<rparr> else file_table s i),
            super_table := (\<lambda>i. if i < NR_SUPER then (super_table s i)\<lparr>s_dev := 0, s_lock := False\<rparr>
                                else super_table s i)\<rparr>) k;
          dev = root_dev (fsys k)
      in kbind (on_fs_val (read_super ops changed dev) k) (\<lambda>(p, k).
           case p of
             None \<Rightarrow> Inl (Panic ''Unable to mount root'')
           | Some p \<Rightarrow>
               kbind (iget ops dev ROOT_INO k) (\<lambda>(mi, k).
                 Inr (upd_cur (\<lambda>t. t\<lparr>pwd := Some mi, root := Some mi\<rparr>)
                   (upd_fs (upd_super p (\<lambda>b. b\<lparr>s_isup := Some mi, s_imount := Some mi\<rparr>))
                     (set_inode mi (i_count_update (\<lambda>c. c + 3)) k))))))"

end
