(* ===== verification/Open.thy ===== *)
theory Open
  imports Super
begin

text \<open>
  The system calls on open files and on the attributes of files: \<^verbatim>\<open>fs/open.c\<close>, \<^verbatim>\<open>fs/fcntl.c\<close> and
  \<^verbatim>\<open>fs/stat.c\<close>; and the file system as the process system calls see it.
\<close>

section \<open>\<open>open.c\<close>: attributes\<close>

definition sys_ustat :: "int \<Rightarrow> u32 \<Rightarrow> int" where
  "sys_ustat dev ubuf = - ENOSYS"

definition sys_utime :: "fs_drv \<Rightarrow> u32 \<Rightarrow> u32 \<Rightarrow> kernel \<Rightarrow> (int \<times> kernel) res" where
  "sys_utime ops filename tp k =
     kbind (namei ops filename k) (\<lambda>(inode, k).
       case inode of
         None \<Rightarrow> Inr (- ENOENT, k)
       | Some i \<Rightarrow>
           let actime = (if tp \<noteq> 0 then get_fs_long tp k else CURRENT_TIME k);
               modtime = (if tp \<noteq> 0 then get_fs_long (tp + 4) k else CURRENT_TIME k)
           in leave ops [I i] 0
                (set_inode i (\<lambda>n. n\<lparr>i_atime := actime, i_mtime := modtime, i_dirt := True\<rparr>) k))"

text \<open>The test of \<open>sys_access\<close>, with the mode bits as they were before the inode was released.\<close>

definition access_ok :: "int \<Rightarrow> int \<Rightarrow> m_inode \<Rightarrow> task_struct \<Rightarrow> bool" where
  "access_ok mode im n p =
     (let res = (if uid p = i_uid n then drop_bit 6 im
                 else if gid p = ucast (i_gid n) then drop_bit 6 im else im)
      in res AND 7 AND mode = mode \<or>
         uid p = 0 \<and> (mode AND 1 = 0 \<or> im AND 0x49 \<noteq> 0))"

definition sys_access :: "fs_drv \<Rightarrow> u32 \<Rightarrow> int \<Rightarrow> kernel \<Rightarrow> (int \<times> kernel) res" where
  "sys_access ops filename mode k =
     kbind (namei ops filename k) (\<lambda>(inode, k).
       case inode of
         None \<Rightarrow> Inr (- EACCES, k)
       | Some i \<Rightarrow>
           let m = uint (i_mode (the_inode i k)) AND 0x1ff
           in kbind (iput ops (Some i) k) (\<lambda>k.
                Inr (if access_ok (mode AND 7) m (the_inode i k) (cur k) then 0 else - EACCES, k)))"

text \<open>\<open>chdir\<close> and \<open>chroot\<close> up to the change of the task's directory.\<close>

definition new_dir :: "fs_drv \<Rightarrow> u32 \<Rightarrow> kernel \<Rightarrow> ((int + nat) \<times> kernel) res" where
  "new_dir ops filename k =
     kbind (namei ops filename k) (\<lambda>(inode, k).
       case inode of
         None \<Rightarrow> Inr (Inl (- ENOENT), k)
       | Some i \<Rightarrow>
           if \<not> S_ISDIR (i_mode (the_inode i k)) then leave ops [I i] (Inl (- ENOTDIR)) k
           else Inr (Inr i, k))"

definition sys_chdir :: "fs_drv \<Rightarrow> u32 \<Rightarrow> kernel \<Rightarrow> (int \<times> kernel) res" where
  "sys_chdir ops filename k =
     kbind (new_dir ops filename k) (\<lambda>(r, k).
       case r of
         Inl err \<Rightarrow> Inr (err, k)
       | Inr i \<Rightarrow> kbind (iput ops (pwd (cur k)) k) (\<lambda>k. Inr (0, upd_cur (pwd_update (\<lambda>_. Some i)) k)))"

definition sys_chroot :: "fs_drv \<Rightarrow> u32 \<Rightarrow> kernel \<Rightarrow> (int \<times> kernel) res" where
  "sys_chroot ops filename k =
     kbind (new_dir ops filename k) (\<lambda>(r, k).
       case r of
         Inl err \<Rightarrow> Inr (err, k)
       | Inr i \<Rightarrow> kbind (iput ops (root (cur k)) k) (\<lambda>k. Inr (0, upd_cur (root_update (\<lambda>_. Some i)) k)))"

definition sys_chmod :: "fs_drv \<Rightarrow> u32 \<Rightarrow> int \<Rightarrow> kernel \<Rightarrow> (int \<times> kernel) res" where
  "sys_chmod ops filename mode k =
     kbind (namei ops filename k) (\<lambda>(inode, k).
       case inode of
         None \<Rightarrow> Inr (- ENOENT, k)
       | Some i \<Rightarrow>
           if euid (cur k) \<noteq> i_uid (the_inode i k) \<and> \<not> suser (cur k)
           then leave ops [I i] (- EACCES) k
           else leave ops [I i] 0 (set_inode i (\<lambda>n. n\<lparr>i_mode :=
                  (word_of_int mode AND 0xfff) OR (i_mode n AND NOT 0xfff), i_dirt := True\<rparr>) k))"

definition sys_chown :: "fs_drv \<Rightarrow> u32 \<Rightarrow> int \<Rightarrow> int \<Rightarrow> kernel \<Rightarrow> (int \<times> kernel) res" where
  "sys_chown ops filename u g k =
     kbind (namei ops filename k) (\<lambda>(inode, k).
       case inode of
         None \<Rightarrow> Inr (- ENOENT, k)
       | Some i \<Rightarrow>
           if \<not> suser (cur k) then leave ops [I i] (- EACCES) k
           else leave ops [I i] 0 (set_inode i (\<lambda>n. n\<lparr>i_uid := word_of_int u,
                  i_gid := word_of_int g, i_dirt := True\<rparr>) k))"

section \<open>\<open>open.c\<close>: opening and closing\<close>

definition set_filp :: "nat \<Rightarrow> nat option \<Rightarrow> kernel \<Rightarrow> kernel" where
  "set_filp fd f k = upd_cur (\<lambda>p. p\<lparr>filp := (filp p)(fd := f)\<rparr>) k"

definition no_close_on_exec :: "nat \<Rightarrow> kernel \<Rightarrow> kernel" where
  "no_close_on_exec fd k =
     upd_cur (\<lambda>p. p\<lparr>close_on_exec := close_on_exec p AND NOT (push_bit fd 1)\<rparr>) k"

definition free_fd :: "nat \<Rightarrow> kernel \<Rightarrow> nat option" where
  "free_fd arg k = find (\<lambda>fd. filp (cur k) fd = None) [arg..<NR_OPEN]"

definition free_file :: "kernel \<Rightarrow> nat option" where
  "free_file k = find (\<lambda>f. f_count (the_file f k) = 0) [0..<NR_FILE]"

definition unopen :: "nat \<Rightarrow> nat \<Rightarrow> kernel \<Rightarrow> kernel" where
  "unopen fd f k = set_file f (f_count_update (\<lambda>_. 0)) (set_filp fd None k)"

text \<open>The special treatment of terminals, of which there are three: whether the file may be opened.\<close>

abbreviation (input) NR_TTYS :: nat where "NR_TTYS \<equiv> 3"

definition open_tty :: "m_inode \<Rightarrow> kernel \<Rightarrow> (bool \<times> kernel) res" where
  "open_tty n k =
     (let z = i_zone n ! 0;
          p = cur k
      in if \<not> S_ISCHR (i_mode n) then Inr (True, k)
         else if MAJOR z = 4
         then if leader p = 0 \<or> tty p \<ge> 0 then Inr (True, k)
              else if MINOR z \<ge> NR_TTYS then Inl Undefined
              else Inr (True, (upd_cur (tty_update (\<lambda>_. int (MINOR z))) k)
                                \<lparr>tty_pgrp := (tty_pgrp k)(MINOR z := pgrp p)\<rparr>)
         else Inr (\<not> (MAJOR z = 5 \<and> tty p < 0), k))"

definition sys_open ::
    "fs_drv \<Rightarrow> (nat \<Rightarrow> bool) \<Rightarrow> u32 \<Rightarrow> int \<Rightarrow> int \<Rightarrow> kernel \<Rightarrow> (int \<times> kernel) res" where
  "sys_open ops changed filename flag mode k =
     (let mode = mode AND (0x1ff AND NOT (uint (umask (cur k))))
      in case free_fd 0 k of
           None \<Rightarrow> Inr (- EINVAL, k)
         | Some fd \<Rightarrow>
             let k = no_close_on_exec fd k
             in case free_file k of
                  None \<Rightarrow> Inr (- EINVAL, k)
                | Some f \<Rightarrow>
                    let k = set_file f (f_count_update (\<lambda>c. c + 1)) (set_filp fd (Some f) k)
                    in kbind (open_namei ops filename flag mode k) (\<lambda>((r, inode), k).
                         case inode of
                           None \<Rightarrow> Inr (r, unopen fd f k)
                         | Some i \<Rightarrow>
                             kbind (open_tty (the_inode i k) k) (\<lambda>(ok, k).
                                 if \<not> ok
                                 then kbind (iput ops (Some i) k) (\<lambda>k. Inr (- EPERM, unopen fd f k))
                                 else let n = the_inode i k
                                   in kbind (if S_ISBLK (i_mode n)
                                             then on_fs (disk_change changed (i_zone n ! 0)) k
                                             else Inr k) (\<lambda>k.
                                        Inr (int fd, set_file f (\<lambda>_. \<lparr>f_mode = i_mode (the_inode i k),
                                          f_flags = word_of_int flag, f_count = 1, f_inode = Some i,
                                          f_pos = 0\<rparr>) k)))))"

definition sys_creat :: "fs_drv \<Rightarrow> (nat \<Rightarrow> bool) \<Rightarrow> u32 \<Rightarrow> int \<Rightarrow> kernel \<Rightarrow> (int \<times> kernel) res" where
  "sys_creat ops changed pathname mode k = sys_open ops changed pathname (O_CREAT OR O_TRUNC) mode k"

definition sys_close :: "fs_drv \<Rightarrow> nat \<Rightarrow> kernel \<Rightarrow> (int \<times> kernel) res" where
  "sys_close ops fd k =
     (if fd \<ge> NR_OPEN then Inr (- EINVAL, k)
      else let k = no_close_on_exec fd k
      in case filp (cur k) fd of
           None \<Rightarrow> Inr (- EINVAL, k)
         | Some f \<Rightarrow>
             let k = set_filp fd None k
             in if f_count (the_file f k) = 0 then Inl (Panic ''Close: file count is 0'')
                else let k = set_file f (f_count_update (\<lambda>c. c - 1)) k
                in if f_count (the_file f k) \<noteq> 0 then Inr (0, k)
                   else kbind (iput ops (f_inode (the_file f k)) k) (\<lambda>k. Inr (0, k)))"

section \<open>\<open>fcntl.c\<close>\<close>

definition dupfd :: "nat \<Rightarrow> nat \<Rightarrow> kernel \<Rightarrow> int \<times> kernel" where
  "dupfd fd arg k =
     (case (if fd < NR_OPEN then filp (cur k) fd else None) of
        None \<Rightarrow> (- EBADF, k)
      | Some f \<Rightarrow>
          if arg \<ge> NR_OPEN then (- EINVAL, k)
          else case free_fd arg k of
                 None \<Rightarrow> (- EMFILE, k)
               | Some d \<Rightarrow>
                   (int d, set_file f (f_count_update (\<lambda>c. c + 1))
                             (set_filp d (Some f) (no_close_on_exec d k))))"

definition sys_dup2 :: "fs_drv \<Rightarrow> nat \<Rightarrow> nat \<Rightarrow> kernel \<Rightarrow> (int \<times> kernel) res" where
  "sys_dup2 ops oldfd newfd k = kbind (sys_close ops newfd k) (\<lambda>(_, k). Inr (dupfd oldfd newfd k))"

definition sys_dup :: "nat \<Rightarrow> kernel \<Rightarrow> int \<times> kernel" where
  "sys_dup fildes k = dupfd fildes 0 k"

abbreviation (input) SETFL_FLAGS :: u16 where "SETFL_FLAGS \<equiv> 0xc00"

definition sys_fcntl :: "nat \<Rightarrow> nat \<Rightarrow> u32 \<Rightarrow> kernel \<Rightarrow> int \<times> kernel" where
  "sys_fcntl fd cmd arg k =
     (case (if fd < NR_OPEN then filp (cur k) fd else None) of
        None \<Rightarrow> (- EBADF, k)
      | Some f \<Rightarrow>
          if cmd = 0 then dupfd fd (unat arg) k
          else if cmd = 1 then (uint (drop_bit fd (close_on_exec (cur k)) AND 1), k)
          else if cmd = 2
          then (0, if arg AND 1 \<noteq> 0
                   then upd_cur (\<lambda>p. p\<lparr>close_on_exec := close_on_exec p OR push_bit fd 1\<rparr>) k
                   else no_close_on_exec fd k)
          else if cmd = 3 then (uint (f_flags (the_file f k)), k)
          else if cmd = 4
          then (0, set_file f (\<lambda>x. x\<lparr>f_flags := (f_flags x AND NOT SETFL_FLAGS) OR
                                               (ucast arg AND SETFL_FLAGS)\<rparr>) k)
          else (- 1, k))"

section \<open>\<open>stat.c\<close>\<close>

text \<open>
  The 32 bytes of a \<open>struct stat\<close>. The compiler leaves four of them unused; \<open>pad\<close> is what the
  kernel's stack holds there.
\<close>

definition stat_bytes :: "(nat \<Rightarrow> u8) \<Rightarrow> m_inode \<Rightarrow> u8 list" where
  "stat_bytes pad n = u16_bytes (i_dev n) @ u16_bytes (i_num n) @ u16_bytes (i_mode n) @
     [i_nlinks n, pad 7] @ u16_bytes (i_uid n) @ [i_gid n, pad 11] @ u16_bytes (i_zone n ! 0) @
     [pad 14, pad 15] @ u32_bytes (i_size n) @ u32_bytes (i_atime n) @ u32_bytes (i_mtime n) @
     u32_bytes (i_ctime n)"

definition cp_stat :: "(nat \<Rightarrow> u8) \<Rightarrow> nat \<Rightarrow> u32 \<Rightarrow> kernel \<Rightarrow> kernel res" where
  "cp_stat pad i statbuf k =
     kbind (verify_area statbuf 32 k) (\<lambda>k. Inr (put_fs_bytes (stat_bytes pad (the_inode i k)) statbuf k))"

definition sys_stat :: "fs_drv \<Rightarrow> (nat \<Rightarrow> u8) \<Rightarrow> u32 \<Rightarrow> u32 \<Rightarrow> kernel \<Rightarrow> (int \<times> kernel) res" where
  "sys_stat ops pad filename statbuf k =
     kbind (namei ops filename k) (\<lambda>(inode, k).
       case inode of
         None \<Rightarrow> Inr (- ENOENT, k)
       | Some i \<Rightarrow> kbind (cp_stat pad i statbuf k) (leave ops [I i] 0))"

definition sys_fstat :: "(nat \<Rightarrow> u8) \<Rightarrow> nat \<Rightarrow> u32 \<Rightarrow> kernel \<Rightarrow> (int \<times> kernel) res" where
  "sys_fstat pad fd statbuf k =
     (case (if fd < NR_OPEN then filp (cur k) fd else None) of
        None \<Rightarrow> Inr (- EBADF, k)
      | Some f \<Rightarrow>
          case f_inode (the_file f k) of
            None \<Rightarrow> Inr (- EBADF, k)
          | Some i \<Rightarrow> kbind (cp_stat pad i statbuf k) (\<lambda>k. Inr (0, k)))"

section \<open>The file system of \<open>fork\<close> and \<open>exit\<close>\<close>

definition kernel_fs :: "fs_drv \<Rightarrow> fs fs_ops" where
  "kernel_fs ops = \<lparr>op_close = (\<lambda>fd k. kbind (sys_close ops fd k) (\<lambda>(_, k). Inr k)),
     op_iput = iput ops,
     op_dup_file = (\<lambda>f. upd_file f (f_count_update (\<lambda>c. c + 1))),
     op_dup_inode = (\<lambda>i. upd_inode i (i_count_update (\<lambda>c. c + 1)))\<rparr>"

end
