(* ===== verification/Dir_Facts.thy ===== *)
theory Dir_Facts
  imports File_Props Open
begin

text \<open>
  Directories: with the blocks of a directory in core, \<open>find_entry\<close> is the search for the first
  entry of the name, and what \<open>add_entry\<close> adds, once its inode number is filled in, is what
  \<open>find_entry\<close> then finds.
\<close>

section \<open>A block of a directory in hand\<close>

definition held :: "nat \<Rightarrow> kernel \<Rightarrow> kernel" where
  "held b k = upd_fs (hold b) k"

lemma held_sel [simp]:
  "user (held b k) = user k" "sch (held b k) = sch k" "startup_time (held b k) = startup_time k"
  "the_inode i (held b k) = the_inode i k" "b_data (the_buf c (held b k)) = b_data (the_buf c k)"
  by (simp_all add: held_def the_inode_def the_buf_def fs_simps data_hold)

lemma get_fs_bytes_held [simp]: "get_fs_bytes n a (held b k) = get_fs_bytes n a k"
  by (simp add: get_fs_bytes_def get_fs_byte_def)

lemma match_held [simp]: "match len name e d (held b k) = match len name e d k"
  by (simp add: match_def)

text \<open>What each step of the scans does to a block of the directory that is in core.\<close>

lemma in_core_steps:
  assumes "in_core i lo hi bf (fsys k)" and "n \<in> {lo..hi}"
  obtains r where "r \<noteq> 0" and "\<And>ops now. on_fs_val (bmap ops now i n) k = Inr (r, k)"
    and "\<And>ops now. on_fs_val (create_block ops now i n) k = Inr (r, k)"
    and "\<And>ops. on_fs_val (bread ops (i_dev (the_inode i k)) (word_of_int r)) k = Inr (Some (bf n), held (bf n) k)"
    and "on_fs (brelse (bf n)) (held (bf n) k) = Inr k"
    and "n < 7 \<Longrightarrow> r = uint (i_zone (the_inode i k) ! nat n)"
proof -
  obtain ix r where m: "mapped i n ix r (fsys k)" and r: "r \<noteq> 0"
    and res: "resident (i_dev (inode_table (fsys k) i)) (word_of_int r) (bf n) (fsys k)"
    by (rule in_core_block [OF assms])
  show thesis
  proof (rule that [OF r])
    show "on_fs_val (bmap ops now i n) k = Inr (r, k)" "on_fs_val (create_block ops now i n) k = Inr (r, k)"
      for ops now
      using m r by (simp_all add: on_fs_val_same bmap_def create_block_def bmap_create_mapped)
    show "on_fs_val (bread ops (i_dev (the_inode i k)) (word_of_int r)) k = Inr (Some (bf n), held (bf n) k)"
      for ops
      using bread_resident [OF res] by (simp add: on_fs_val_def the_inode_def held_def upd_fs_def)
    show "on_fs (brelse (bf n)) (held (bf n) k) = Inr k"
      using brelse_resident [OF res] by (simp add: on_fs_def held_def upd_fs_def)
    show "r = uint (i_zone (the_inode i k) ! nat n)" if "n < 7"
      using m that by (auto simp: mapped_def Let_def the_inode_def)
  qed
qed

section \<open>The search\<close>

definition entry_data :: "(int \<Rightarrow> nat) \<Rightarrow> kernel \<Rightarrow> nat \<Rightarrow> u8 list" where
  "entry_data bf k n = b_data (the_buf (bf (int (n div 64))) k)"

definition names :: "(int \<Rightarrow> nat) \<Rightarrow> u32 \<Rightarrow> nat \<Rightarrow> kernel \<Rightarrow> nat \<Rightarrow> bool" where
  "names bf name len k n \<longleftrightarrow> match len name (n mod 64) (entry_data bf k n) k"

definition found_at :: "(int \<Rightarrow> nat) \<Rightarrow> nat option \<Rightarrow> kernel \<Rightarrow> (nat \<times> nat) option \<times> kernel" where
  "found_at bf r k = (case r of None \<Rightarrow> (None, k)
     | Some n \<Rightarrow> (Some (bf (int (n div 64)), n mod 64), held (bf (int (n div 64))) k))"

lemma find_from:
  "i < n \<Longrightarrow> List.find P [i..<n] = (if P i then Some i else List.find P [Suc i..<n])"
  by (simp add: upt_conv_Cons)

lemma find_entry_loop_core:
  assumes core: "in_core dir 0 hi bf (fsys k)" and hi: "int entries \<le> 64 * (hi + 1)"
    and i: "i = 64 * j + e" "e \<le> 64" "int j \<le> hi"
  shows "find_entry_loop ops dir name len entries i (Some (bf (int j))) e (held (bf (int j)) k) =
    Inr (found_at bf (List.find (names bf name len k) [i..<entries]) k)"
  using i
proof (induction "entries - i" arbitrary: i j e rule: less_induct)
  case less
  obtain r where rel: "on_fs (brelse (bf (int j))) (held (bf (int j)) k) = Inr k"
    using in_core_steps [OF core, of "int j"] less.prems(3) by (metis atLeastAtMost_iff of_nat_0_le_iff)
  consider "entries \<le> i" | "i < entries" "e < 64" | "i < entries" "e = 64" using less.prems(2) by linarith
  then show ?case
  proof cases
    case 1
    then show ?thesis by (subst find_entry_loop.simps) (simp add: brelse_opt_def rel found_at_def)
  next
    case 2
    have d: "i div 64 = j" "i mod 64 = e" using 2 less.prems(1) by simp_all
    have IH: "find_entry_loop ops dir name len entries (Suc i) (Some (bf (int j))) (Suc e) (held (bf (int j)) k) =
        Inr (found_at bf (List.find (names bf name len k) [Suc i..<entries]) k)"
      using less.prems 2 by (intro less.hyps) simp_all
    show ?thesis
      using 2 IH
      by (subst find_entry_loop.simps) (simp add: find_from names_def entry_data_def d found_at_def)
  next
    case 3
    have d: "i div 64 = Suc j" "i mod 64 = 0" using 3 less.prems(1) by simp_all
    then have j: "int (Suc j) \<in> {0..hi}" using 3 hi less.prems(1) by simp
    obtain r where s: "r \<noteq> 0" "\<And>ops now. on_fs_val (bmap ops now dir (int (Suc j))) k = Inr (r, k)"
      "\<And>ops. on_fs_val (bread ops (i_dev (the_inode dir k)) (word_of_int r)) k =
        Inr (Some (bf (int (Suc j))), held (bf (int (Suc j))) k)"
      by (rule in_core_steps [OF core j]) blast
    have IH: "find_entry_loop ops dir name len entries (Suc i) (Some (bf (int (Suc j)))) 1 (held (bf (int (Suc j))) k) =
        Inr (found_at bf (List.find (names bf name len k) [Suc i..<entries]) k)"
      using less.prems 3 j by (intro less.hyps) simp_all
    show ?thesis
      using 3 IH s
      by (subst find_entry_loop.simps) (simp add: rel find_from names_def entry_data_def d found_at_def)
  qed
qed

lemma find_entry_core:
  assumes core: "in_core dir 0 hi bf (fsys k)" and hi: "0 \<le> hi" "uint (i_size (the_inode dir k)) \<le> 1024 * (hi + 1)"
    and len: "0 < len" and dots: "\<not> (min len NAME_LEN = 2 \<and> get_fs_byte name k = DOT \<and> get_fs_byte (name + 1) k = DOT)"
  shows "find_entry ops dir name len k =
    (case found_at bf (List.find (names bf name (min len NAME_LEN) k) [0..<unat (i_size (the_inode dir k) div 16)]) k
     of (r, k) \<Rightarrow> Inr ((r, dir), k))"
proof -
  let ?n = "unat (i_size (the_inode dir k) div 16)"
  have "(0 :: int) \<in> {0..hi}" using hi(1) by simp
  then obtain r where r: "r \<noteq> 0" "r = uint (i_zone (the_inode dir k) ! 0)"
    "\<And>ops. on_fs_val (bread ops (i_dev (the_inode dir k)) (word_of_int r)) k = Inr (Some (bf 0), held (bf 0) k)"
    by (rule in_core_steps [OF core]) auto
  have "int ?n \<le> 64 * (hi + 1)"
    using hi(2) by (simp add: unat_div zdiv_int)
  then have "find_entry_loop ops dir name (min len NAME_LEN) ?n 0 (Some (bf 0)) 0 (held (bf 0) k) =
      Inr (found_at bf (List.find (names bf name (min len NAME_LEN) k) [0..<?n]) k)"
    using find_entry_loop_core [OF core, of ?n 0 0 0] hi(1) by simp
  moreover have "(ucast (i_zone (the_inode dir k) ! 0) :: u32) = word_of_int r" "i_zone (the_inode dir k) ! 0 \<noteq> 0"
    using r(1,2) by (auto simp: unsigned_eq_0_iff)
  ultimately show ?thesis
    using len dots r(3) by (auto simp: find_entry_def Let_def split: prod.split)
qed

section \<open>Adding an entry\<close>

definition slot :: "(int \<Rightarrow> nat) \<Rightarrow> nat \<Rightarrow> nat \<Rightarrow> kernel \<Rightarrow> nat" where
  "slot bf i entries k =
     (case List.find (\<lambda>n. de_inode (n mod 64) (entry_data bf k n) = 0) [i..<entries] of
        None \<Rightarrow> entries | Some n \<Rightarrow> n)"

text \<open>The edits of the block and of the inode when entry \<open>n\<close> of \<open>entries\<close> is taken for a name.\<close>

definition slot_edit :: "u32 \<Rightarrow> nat \<Rightarrow> nat \<Rightarrow> nat \<Rightarrow> kernel \<Rightarrow> u8 list \<Rightarrow> u8 list" where
  "slot_edit name len entries n k d = set_de_name (n mod 64) (entry_name name len k)
     (if n < entries then d else set_de_inode (n mod 64) 0 d)"

definition slot_inode :: "nat \<Rightarrow> nat \<Rightarrow> kernel \<Rightarrow> m_inode \<Rightarrow> m_inode" where
  "slot_inode entries n k m = (if n < entries then m else m\<lparr>i_size := of_nat ((n + 1) * 16), i_dirt := True,
     i_ctime := CURRENT_TIME k\<rparr>)\<lparr>i_mtime := CURRENT_TIME k\<rparr>"

definition named :: "(int \<Rightarrow> nat) \<Rightarrow> nat \<Rightarrow> u32 \<Rightarrow> nat \<Rightarrow> nat \<Rightarrow> nat \<Rightarrow> kernel \<Rightarrow> kernel" where
  "named bf dir name len entries n k =
     upd_fs (edit (bf (int (n div 64))) (slot_edit name len entries n k)) (set_inode dir (slot_inode entries n k) k)"

lemma entry_name_cong: "user k' = user k \<Longrightarrow> entry_name name len k' = entry_name name len k"
  by (simp add: entry_name_def get_fs_byte_def)

lemma CURRENT_TIME_upd_fs [simp]: "CURRENT_TIME (upd_fs f k) = CURRENT_TIME k"
  by (simp add: CURRENT_TIME_def current_time_def)

lemma set_buf_sel [simp]:
  "CURRENT_TIME (set_inode i g k) = CURRENT_TIME k" "CURRENT_TIME (set_buf b h k) = CURRENT_TIME k"
  "the_buf c (set_inode i g k) = the_buf c k" "the_buf b (set_buf b h k) = h (the_buf b k)"
  by (simp_all add: set_inode_def set_buf_def the_buf_def fs_simps upd_buf_def)

lemma take_slot:
  "set_buf b (\<lambda>x. x\<lparr>b_data := f (b_data x), b_dirt := True\<rparr>) (set_inode i g (held b k)) =
     held b (upd_fs (edit b f) (set_inode i g k))"
  "set_buf b (\<lambda>x. x\<lparr>b_data := f (b_data x), b_dirt := True\<rparr>)
     (set_inode i g (set_inode i h (set_buf b (b_data_update f') (held b k)))) =
     held b (upd_fs (edit b (\<lambda>d. f (f' d))) (set_inode i (\<lambda>n. g (h n)) k))"
  by (cases "bufs (fsys k) b",
      simp add: set_buf_def set_inode_def held_def upd_fs_def edit_def hold_def upd_buf_def upd_inode_def)+

lemma try_entry_held:
  assumes size: "uint (i_size (the_inode dir k)) = 16 * int entries" and small: "16 * (entries + 1) < 2 ^ 32"
    and n: "n \<le> entries" and b: "b = bf (int (n div 64))" and len: "length (entry_data bf k n) = BLOCK_SIZE"
  shows "try_entry dir name len n b (n mod 64) (held b k) =
    (if n < entries \<and> de_inode (n mod 64) (entry_data bf k n) \<noteq> 0 then (False, held b k)
     else (True, held b (named bf dir name len entries n k)))"
proof -
  have "unat (i_size (the_inode dir k)) = 16 * entries"
    using size by (simp flip: of_nat_eq_iff [where 'a = int])
  moreover have u: "unat (of_nat m :: u32) = m" if "m < 2 ^ 32" for m
    using that by (simp add: unat_of_nat)
  have "unat (of_nat (n * 16) :: u32) = n * 16"
    by (rule u) (use small n in simp)
  ultimately have ge: "i_size (the_inode dir k) \<le> of_nat (n * 16) \<longleftrightarrow> n = entries"
    using n by (simp add: word_le_nat_alt) linarith
  have time: "CURRENT_TIME (held c k) = CURRENT_TIME k" for c by (simp add: held_def)
  have nm: "entry_name name len (set_inode dir g (set_buf c f (held c k))) = entry_name name len k"
    "entry_name name len (held c k) = entry_name name len k"
    "entry_name name len (set_inode dir g (held c k)) = entry_name name len k" for f g c
    by (rule entry_name_cong, simp add: set_buf_def)+
  show ?thesis
  proof (cases "n < entries")
    case True
    then show ?thesis
      using ge by (simp add: try_entry_def Let_def nm time take_slot named_def slot_edit_def [abs_def]
          slot_inode_def [abs_def] entry_data_def b)
  next
    case False
    have z: "de_inode e (set_de_inode e 0 d) = 0" if "16 * e + 2 \<le> length d" for e d
      using that by (simp add: de_inode_def set_de_inode_def u16_at_put)
    have "16 * (n mod 64) + 2 \<le> BLOCK_SIZE" using mod_less_divisor [of 64 n] by linarith
    then show ?thesis
      using False n ge z [of "n mod 64" "entry_data bf k n"] len by (simp add: try_entry_def Let_def nm time take_slot named_def slot_edit_def [abs_def]
          slot_inode_def [abs_def] entry_data_def b)
  qed
qed

lemma slot_step:
  "i < entries \<Longrightarrow> slot bf i entries k =
    (if de_inode (i mod 64) (entry_data bf k i) = 0 then i else slot bf (Suc i) entries k)"
  "slot bf entries entries k = entries"
  by (simp_all add: slot_def find_from)

lemma slot_bound: "i \<le> entries \<Longrightarrow> i \<le> slot bf i entries k \<and> slot bf i entries k \<le> entries"
  by (auto simp: slot_def find_Some_iff split: option.split)

lemma in_core_len:
  assumes "in_core dir 0 hi bf (fsys k)" and "int (n div 64) \<le> hi"
  shows "length (entry_data bf k n) = BLOCK_SIZE"
  using in_core_block [OF assms(1), of "int (n div 64)"] assms(2)
  by (auto simp: entry_data_def the_buf_def)

definition taken_at :: "(int \<Rightarrow> nat) \<Rightarrow> nat \<Rightarrow> u32 \<Rightarrow> nat \<Rightarrow> nat \<Rightarrow> nat \<Rightarrow> kernel \<Rightarrow> (nat \<times> nat) option \<times> kernel" where
  "taken_at bf dir name len entries n k =
     (Some (bf (int (n div 64)), n mod 64), held (bf (int (n div 64))) (named bf dir name len entries n k))"

lemma add_entry_loop_core:
  assumes core: "in_core dir 0 hi bf (fsys k)"
    and size: "uint (i_size (the_inode dir k)) = 16 * int entries" and small: "16 * (entries + 1) < 2 ^ 32"
    and room: "int entries < 64 * (hi + 1)"
    and i: "i = 64 * j + e" "e \<le> 64" "int j \<le> hi" "i \<le> entries"
  shows "add_entry_loop ops dir name len i (Some (bf (int j))) e (held (bf (int j)) k) =
    Some (Inr (taken_at bf dir name len entries (slot bf i entries k) k))"
  using i
proof (induction "entries - i" arbitrary: i j e rule: less_induct)
  case less
  let ?tr = "\<lambda>n. try_entry dir name len n (bf (int (n div 64))) (n mod 64) (held (bf (int (n div 64))) k)"
  have "int (i div 64) \<le> hi" using less.prems(4) room by simp
  then have tr: "?tr i = (if i < entries \<and> de_inode (i mod 64) (entry_data bf k i) \<noteq> 0
      then (False, held (bf (int (i div 64))) k)
      else (True, held (bf (int (i div 64))) (named bf dir name len entries i k)))"
    using less.prems(4) in_core_len [OF core] by (intro try_entry_held [OF size small]) simp_all
  have stop: "slot bf i entries k = i" if "\<not> (i < entries \<and> de_inode (i mod 64) (entry_data bf k i) \<noteq> 0)"
    using that less.prems(4) slot_step by (cases "i < entries") auto
  show ?case
  proof (cases "e < 64")
    case True
    have d: "i div 64 = j" "i mod 64 = e" using True less.prems(1) by simp_all
    have IH: "add_entry_loop ops dir name len (Suc i) (Some (bf (int j))) (Suc e) (held (bf (int j)) k) =
        Some (Inr (taken_at bf dir name len entries (slot bf (Suc i) entries k) k))" if "i < entries"
      using less.prems True that by (intro less.hyps) simp_all
    show ?thesis
      using True IH stop slot_step(1) [of i entries bf k] tr
      by (subst add_entry_loop.simps) (auto simp: d taken_at_def)
  next
    case False
    then have d: "i div 64 = Suc j" "i mod 64 = 0" "e = 64" using less.prems(1,2) by simp_all
    have j: "int j \<in> {0..hi}" "int (Suc j) \<in> {0..hi}"
      using \<open>int (i div 64) \<le> hi\<close> less.prems(3) by (simp_all add: d)
    obtain r0 where rel: "on_fs (brelse (bf (int j))) (held (bf (int j)) k) = Inr k"
      using in_core_steps [OF core j(1)] by metis
    obtain r where s: "r \<noteq> 0" "\<And>ops now. on_fs_val (create_block ops now dir (int (Suc j))) k = Inr (r, k)"
      "\<And>ops. on_fs_val (bread ops (i_dev (the_inode dir k)) (word_of_int r)) k =
        Inr (Some (bf (int (Suc j))), held (bf (int (Suc j))) k)"
      by (rule in_core_steps [OF core j(2)]) blast
    have IH: "add_entry_loop ops dir name len (Suc i) (Some (bf (int (Suc j)))) 1 (held (bf (int (Suc j))) k) =
        Some (Inr (taken_at bf dir name len entries (slot bf (Suc i) entries k) k))" if "i < entries"
      using less.prems False j that by (intro less.hyps) (simp_all add: d(3))
    show ?thesis
      using False IH stop slot_step(1) [of i entries bf k] tr s
      by (subst add_entry_loop.simps) (auto simp: rel d taken_at_def)
  qed
qed

section \<open>The entries afterwards\<close>

lemma length_set_de [simp]:
  "e < 64 \<Longrightarrow> length d = BLOCK_SIZE \<Longrightarrow> length (set_de_inode e x d) = BLOCK_SIZE"
  "e < 64 \<Longrightarrow> length d = BLOCK_SIZE \<Longrightarrow> length nm = NAME_LEN \<Longrightarrow> length (set_de_name e nm d) = BLOCK_SIZE"
  by (simp_all add: set_de_inode_def set_de_name_def u16_bytes_def)

lemma nth_set_de:
  "e < 64 \<Longrightarrow> length d = BLOCK_SIZE \<Longrightarrow> p < BLOCK_SIZE \<Longrightarrow> p < 16 * e \<or> 16 * e + 2 \<le> p \<Longrightarrow>
    set_de_inode e x d ! p = d ! p"
  "e < 64 \<Longrightarrow> length d = BLOCK_SIZE \<Longrightarrow> length nm = NAME_LEN \<Longrightarrow> p < BLOCK_SIZE \<Longrightarrow>
    set_de_name e nm d ! p = (if 16 * e + 2 \<le> p \<and> p < 16 * e + 16 then nm ! (p - (16 * e + 2)) else d ! p)"
  by (auto simp: set_de_inode_def set_de_name_def nth_put_bytes u16_bytes_def)

lemma de_inode_set:
  assumes "e < 64" and "length d = BLOCK_SIZE"
  shows "de_inode e (set_de_inode e x d) = x"
  using assms by (simp add: de_inode_def set_de_inode_def u16_at_put)

lemma de_name_nth:
  "e < 64 \<Longrightarrow> length d = BLOCK_SIZE \<Longrightarrow> j < NAME_LEN \<Longrightarrow> de_name e d ! j = d ! (16 * e + 2 + j)"
  "e < 64 \<Longrightarrow> length d = BLOCK_SIZE \<Longrightarrow> length (de_name e d) = NAME_LEN"
  by (simp_all add: de_name_def)

lemma de_name_set:
  assumes "e < 64" and "length d = BLOCK_SIZE" and "length nm = NAME_LEN"
  shows "de_name e (set_de_inode e x (set_de_name e nm d)) = nm"
proof (rule nth_equalityI)
  fix j assume "j < length (de_name e (set_de_inode e x (set_de_name e nm d)))"
  then have j: "j < NAME_LEN" using assms de_name_nth(2) by simp
  then show "de_name e (set_de_inode e x (set_de_name e nm d)) ! j = nm ! j"
    using assms by (simp add: de_name_nth nth_set_de)
qed (use assms de_name_nth(2) in simp)

lemma length_entry_name [simp]: "length (entry_name name len k) = NAME_LEN"
  by (simp add: entry_name_def)

text \<open>The entry just filled in has the name.\<close>

lemma match_named:
  assumes "e < 64" and "length d = BLOCK_SIZE" and "len \<le> NAME_LEN" and "x \<noteq> 0"
  shows "match len name e (set_de_inode e x (set_de_name e (entry_name name len k) d)) k"
proof -
  have "get_fs_bytes len name k = take len (entry_name name len k)"
    using assms(3) by (intro nth_equalityI) (auto simp: get_fs_bytes_def entry_name_def)
  moreover have "entry_name name len k ! len = 0" if "len < NAME_LEN"
    using that by (simp add: entry_name_def)
  ultimately show ?thesis
    using assms by (auto simp: match_def de_inode_set de_name_set)
qed

text \<open>An entry whose bytes are as they were has the name it had.\<close>

lemma match_cong:
  assumes "e < 64" and "length d = BLOCK_SIZE" and "length d' = BLOCK_SIZE" and "user k' = user k"
    and "\<And>p. 16 * e \<le> p \<Longrightarrow> p < 16 * e + 16 \<Longrightarrow> d' ! p = d ! p"
  shows "match len name e d' k' = match len name e d k"
proof -
  have "de_inode e d' = de_inode e d"
    using assms(5) [of "16 * e"] assms(5) [of "16 * e + 1"] by (simp add: de_inode_def u16_at_def)
  moreover have "de_name e d' = de_name e d"
    using assms by (intro nth_equalityI) (simp_all add: de_name_nth)
  moreover have "get_fs_bytes len name k' = get_fs_bytes len name k"
    by (simp add: get_fs_bytes_def get_fs_byte_def assms(4))
  ultimately show ?thesis by (simp add: match_def)
qed

lemma slot_edit_props:
  assumes "length d = BLOCK_SIZE"
  shows "length (slot_edit name len entries n k d) = BLOCK_SIZE"
    and "p < BLOCK_SIZE \<Longrightarrow> p < 16 * (n mod 64) \<or> 16 * (n mod 64) + 16 \<le> p \<Longrightarrow>
      set_de_inode (n mod 64) x (slot_edit name len entries n k d) ! p = d ! p"
    and "len \<le> NAME_LEN \<Longrightarrow> x \<noteq> 0 \<Longrightarrow>
      match len name (n mod 64) (set_de_inode (n mod 64) x (slot_edit name len entries n k d)) k"
proof -
  have e: "n mod 64 < 64" by simp
  have z: "length (set_de_inode (n mod 64) 0 d) = BLOCK_SIZE" using e assms by (rule length_set_de)
  show l: "length (slot_edit name len entries n k d) = BLOCK_SIZE"
    using assms z e by (simp add: slot_edit_def)
  show "set_de_inode (n mod 64) x (slot_edit name len entries n k d) ! p = d ! p"
    if "p < BLOCK_SIZE" "p < 16 * (n mod 64) \<or> 16 * (n mod 64) + 16 \<le> p"
    using that assms z e l by (auto simp: nth_set_de) (auto simp: slot_edit_def nth_set_de)
  show "match len name (n mod 64) (set_de_inode (n mod 64) x (slot_edit name len entries n k d)) k"
    if "len \<le> NAME_LEN" "x \<noteq> 0"
    unfolding slot_edit_def using that assms z e by (intro match_named) auto
qed

section \<open>The directory with the new entry\<close>

lemma in_core_change:
  assumes core: "in_core i lo hi bf (fsys k)" and m: "m \<in> {lo..hi}"
    and F: "\<And>d. length d = BLOCK_SIZE \<Longrightarrow> length (F d) = BLOCK_SIZE"
    and g: "\<And>n. i_zone (g n) = i_zone n" "\<And>n. i_dev (g n) = i_dev n"
  shows "in_core i lo hi bf (fsys (upd_fs (edit (bf m) F) (set_inode i g k)))"
proof -
  let ?k = "upd_fs (edit (bf m) F) (set_inode i g k)"
  have "length (b_data (bufs (fsys ?k) (bf n))) = BLOCK_SIZE \<and>
      (\<exists>ix r. mapped i n ix r (fsys ?k) \<and> r \<noteq> 0 \<and> bf ` {lo..hi} \<inter> set ix = {} \<and>
        resident (i_dev (inode_table (fsys ?k) i)) (word_of_int r) (bf n) (fsys ?k))"
    if n: "n \<in> {lo..hi}" for n
  proof -
    obtain ix r where a: "mapped i n ix r (fsys k)" "r \<noteq> 0" "\<forall>m \<in> {lo..hi}. bf m \<notin> set ix"
      "resident (i_dev (inode_table (fsys k) i)) (word_of_int r) (bf n) (fsys k)"
      "length (b_data (bufs (fsys k) (bf n))) = BLOCK_SIZE"
      by (rule in_core_block [OF core n])
    have "mapped i n ix r (fsys ?k)"
      unfolding set_inode_def fsys_upd_fs comp_apply
      using a(1,3) m g by (intro mapped_edit mapped_inode_cong) simp_all
    moreover have "resident (i_dev (inode_table (fsys ?k) i)) (word_of_int r) (bf n) (fsys ?k)"
      using a(4) g by (simp add: set_inode_def fs_simps resident_edit)
    moreover have "length (b_data (bufs (fsys ?k) (bf n))) = BLOCK_SIZE"
      using a(5) F by (auto simp: set_inode_def fs_simps data_edit)
    ultimately show ?thesis using a(2,3) by blast
  qed
  then show ?thesis using core by (simp add: in_core_def)
qed

definition filled :: "(int \<Rightarrow> nat) \<Rightarrow> nat \<Rightarrow> u32 \<Rightarrow> nat \<Rightarrow> nat \<Rightarrow> nat \<Rightarrow> u16 \<Rightarrow> kernel \<Rightarrow> kernel" where
  "filled bf dir name len entries n ino k =
     upd_fs (edit (bf (int (n div 64))) (\<lambda>d. set_de_inode (n mod 64) ino (slot_edit name len entries n k d)))
       (set_inode dir (slot_inode entries n k) k)"

lemma fill_named:
  "fill_entry (bf (int (n div 64)), n mod 64) ino (held (bf (int (n div 64))) (named bf dir name len entries n k)) =
     held (bf (int (n div 64))) (filled bf dir name len entries n ino k)"
  unfolding fill_entry_def named_def filled_def
  by (cases "bufs (fsys k) (bf (int (n div 64)))")
    (simp add: set_buf_def set_inode_def held_def upd_fs_def edit_def hold_def upd_buf_def upd_inode_def)

lemma filled_sel [simp]:
  "user (filled bf dir name len entries n ino k) = user k"
  "the_inode dir (filled bf dir name len entries n ino k) = slot_inode entries n k (the_inode dir k)"
  by (simp_all add: filled_def set_inode_def the_inode_def fs_simps)

lemma filled_core:
  assumes "in_core dir 0 hi bf (fsys k)" and "int (n div 64) \<le> hi"
  shows "in_core dir 0 hi bf (fsys (filled bf dir name len entries n ino k))"
  unfolding filled_def
  using assms slot_edit_props(1) by (intro in_core_change) (simp_all add: slot_inode_def)

lemma filled_data:
  assumes core: "in_core dir 0 hi bf (fsys k)" and "int (n div 64) \<le> hi" and "int (m div 64) \<le> hi"
  shows "entry_data bf (filled bf dir name len entries n ino k) m =
    (if m div 64 = n div 64 then set_de_inode (n mod 64) ino (slot_edit name len entries n k (entry_data bf k m))
     else entry_data bf k m)"
proof -
  have "bf (int (m div 64)) = bf (int (n div 64)) \<longleftrightarrow> m div 64 = n div 64"
    using core assms(2,3) inj_onD [of bf "{0..hi}" "int (m div 64)" "int (n div 64)"] by (auto simp: in_core_def)
  then show ?thesis
    by (simp add: entry_data_def filled_def the_buf_def set_inode_def data_edit fs_simps)
qed

lemma names_filled:
  assumes core: "in_core dir 0 hi bf (fsys k)" and n: "int (n div 64) \<le> hi" and m: "int (m div 64) \<le> hi"
    and len: "len \<le> NAME_LEN" and ino: "ino \<noteq> 0"
  shows "names bf name len (filled bf dir name len entries n ino k) m = (m = n \<or> names bf name len k m)"
proof -
  let ?k = "filled bf dir name len entries n ino k"
  note dl = in_core_len [OF core]
  have same: "match len name e d ?k = match len name e d k" for e d
    by (simp add: match_def get_fs_bytes_def get_fs_byte_def)
  show ?thesis
  proof (cases "m = n")
    case True
    then show ?thesis
      using slot_edit_props(3) [OF dl [OF n] len ino] by (simp add: names_def same filled_data [OF core n n])
  next
    case False
    have "entry_data bf ?k m ! p = entry_data bf k m ! p"
      if p: "16 * (m mod 64) \<le> p" "p < 16 * (m mod 64) + 16" for p
    proof (cases "m div 64 = n div 64")
      case True
      then have "m mod 64 \<noteq> n mod 64" using False by (metis mult_div_mod_eq)
      then have "p < 16 * (n mod 64) \<or> 16 * (n mod 64) + 16 \<le> p" using p by linarith
      moreover have "p < BLOCK_SIZE" using p(2) mod_less_divisor [of 64 m] by linarith
      ultimately show ?thesis
        using p True slot_edit_props(2) [OF dl [OF m], of p n] by (simp add: filled_data [OF core n m])
    qed (simp add: filled_data [OF core n m])
    moreover have "length (entry_data bf ?k m) = BLOCK_SIZE"
      by (rule in_core_len [OF filled_core [OF core n] m])
    ultimately have "match len name (m mod 64) (entry_data bf ?k m) ?k =
        match len name (m mod 64) (entry_data bf k m) k"
      using dl [OF m] by (intro match_cong) simp_all
    with False show ?thesis by (simp add: names_def)
  qed
qed

section \<open>Properties\<close>

lemma add_entry_core:
  assumes core: "in_core dir 0 hi bf (fsys k)" and hi: "0 \<le> hi"
    and size: "uint (i_size (the_inode dir k)) = 16 * int entries" and small: "16 * (entries + 1) < 2 ^ 32"
    and room: "int entries < 64 * (hi + 1)" and len: "0 < len" "len \<le> NAME_LEN"
  shows "add_entry ops dir name len k = Inr (taken_at bf dir name len entries (slot bf 0 entries k) k)"
proof -
  have "(0 :: int) \<in> {0..hi}" using hi by simp
  then obtain r where r: "r \<noteq> 0" "r = uint (i_zone (the_inode dir k) ! 0)"
    "\<And>ops. on_fs_val (bread ops (i_dev (the_inode dir k)) (word_of_int r)) k = Inr (Some (bf 0), held (bf 0) k)"
    by (rule in_core_steps [OF core]) auto
  then have "(ucast (i_zone (the_inode dir k) ! 0) :: u32) = word_of_int r" "i_zone (the_inode dir k) ! 0 \<noteq> 0"
    by (auto simp: unsigned_eq_0_iff)
  moreover have "add_entry_loop ops dir name len 0 (Some (bf (int 0))) 0 (held (bf (int 0)) k) =
      Some (Inr (taken_at bf dir name len entries (slot bf 0 entries k) k))"
    by (rule add_entry_loop_core [OF core size small room]) (use hi in simp_all)
  moreover have "min len NAME_LEN = len" using len(2) by simp
  ultimately show ?thesis using r(3) len(1) by (simp add: add_entry_def Let_def returns_def)
qed

lemma slot_inode_size:
  assumes "uint (i_size m) = 16 * int entries" and "16 * (entries + 1) < 2 ^ 32" and "n \<le> entries"
  shows "unat (i_size (slot_inode entries n k m)) = 16 * max entries (n + 1)"
proof -
  have u: "unat (of_nat j :: u32) = j" if "j < 2 ^ 32" for j
    using that by (simp add: unat_of_nat)
  have "unat (of_nat ((n + 1) * 16) :: u32) = (n + 1) * 16" by (rule u) (use assms(2,3) in simp)
  moreover have "unat (i_size m) = 16 * entries"
    using assms(1) by (simp flip: of_nat_eq_iff [where 'a = int])
  ultimately show ?thesis
    using assms(3) by (auto simp: slot_inode_def simp del: of_nat_mult of_nat_add)
qed

text \<open>\<open>find_entry\<close> finds the first entry of the name: with the blocks of the directory in core it
  returns the buffer and number of the first entry that matches, held, or none, for every name but
  \<open>..\<close>, and changes nothing else.\<close>

theorem find_entry_first:
  assumes "in_core dir 0 hi bf (fsys k)" and "0 \<le> hi" and "uint (i_size (the_inode dir k)) \<le> 1024 * (hi + 1)"
    and "0 < len" and "len \<le> NAME_LEN"
    and "\<not> (len = 2 \<and> get_fs_byte name k = DOT \<and> get_fs_byte (name + 1) k = DOT)"
    and "entries = unat (i_size (the_inode dir k) div 16)"
  shows "(\<forall>n < entries. (\<forall>m < n. \<not> match len name (m mod 64) (b_data (the_buf (bf (int (m div 64))) k)) k) \<and>
        match len name (n mod 64) (b_data (the_buf (bf (int (n div 64))) k)) k \<longrightarrow>
      find_entry ops dir name len k =
        Inr ((Some (bf (int (n div 64)), n mod 64), dir), upd_fs (hold (bf (int (n div 64)))) k)) \<and>
    ((\<forall>n < entries. \<not> match len name (n mod 64) (b_data (the_buf (bf (int (n div 64))) k)) k) \<longrightarrow>
      find_entry ops dir name len k = Inr ((None, dir), k))"
proof -
  have f: "find_entry ops dir name len k = (case found_at bf (List.find (names bf name len k) [0..<entries]) k
      of (r, k) \<Rightarrow> Inr ((r, dir), k))"
    using find_entry_core [OF assms(1-4), of name ops] assms(5-7) by (simp add: min_absorb1)
  have some: "List.find (names bf name len k) [0..<entries] = Some n"
    if "n < entries" "\<forall>m < n. \<not> names bf name len k m" "names bf name len k n" for n
    using that by (auto simp: find_Some_iff intro!: exI [of _ n])
  have none: "List.find (names bf name len k) [0..<entries] = None"
    if "\<forall>n < entries. \<not> names bf name len k n"
    using that by (auto simp: find_None_iff)
  show ?thesis
    using some none f by (simp add: found_at_def held_def names_def entry_data_def)
qed


section \<open>A small directory\<close>

text \<open>Inode 0 of the small file system as a directory whose one block is all zero but for the entry
  \<open>.\<close>; the user's memory has the name \<open>ab\<close> at 0x100.\<close>

definition dir_kernel :: kernel where
  "dir_kernel = file_kernel\<lparr>user := (\<lambda>a. if a = 0x100 then 97 else if a = 0x101 then 98 else 0),
     fsys := upd_inode 0 (i_size_update (\<lambda>_. 16)) (upd_buf 3 (b_data_update (\<lambda>_.
       [1, 0, 46] @ replicate 1021 0)) (fsys file_kernel))\<rparr>"

lemma dir_kernel_core: "in_core 0 0 0 (\<lambda>_. 3) (fsys dir_kernel)"
proof -
  let ?F = "\<lambda>_ :: u8 list. [1, 0, 46] @ replicate 1021 0"
  have z: "i_zone (inode_table file_fs 0) = [5, 0, 0, 0, 0, 0, 0, 5, 0]"
    "i_dev (inode_table file_fs 0) = 0x101"
    by (simp_all add: file_fs_def small_inode_def)
  have "mapped 0 0 [] 5 (fsys dir_kernel)"
    by (simp add: mapped_def dir_kernel_def file_kernel_def z fs_simps)
  moreover have "resident 0x101 (word_of_int 5) 3 (fsys dir_kernel)"
  proof -
    have "find_buffer 0x101 5 (upd_buf 3 (b_data_update ?F) (fsys file_kernel)) = find_buffer 0x101 5 (fsys file_kernel)"
      by (rule find_buffer_upd) simp
    then show ?thesis
      using small_resident(2)
      by (simp add: dir_kernel_def file_kernel_def resident_def at_hand_def find_buffer_def file_fs_def
          upd_inode_def upd_buf_def)
  qed
  moreover have "length (b_data (bufs (fsys dir_kernel) 3)) = BLOCK_SIZE"
      "i_dev (inode_table (fsys dir_kernel) 0) = 0x101"
    by (simp_all add: dir_kernel_def file_kernel_def z fs_simps upd_buf_def)
  ultimately show ?thesis
    by (simp add: in_core_def) (intro exI [of _ "[]"] exI [of _ 5], simp)
qed

lemma dir_kernel_facts:
  "i_size (the_inode 0 dir_kernel) = 16" "get_fs_byte 0x100 dir_kernel = 97"
  "b_data (the_buf 3 dir_kernel) = [1, 0, 46] @ replicate 1021 0"
  by (simp_all add: dir_kernel_def the_inode_def fs_simps get_fs_byte_def the_buf_def upd_buf_def)

lemma dir_kernel_no_ab: "\<not> match 2 0x100 0 (b_data (the_buf 3 dir_kernel)) dir_kernel"
proof
  let ?d = "b_data (the_buf 3 dir_kernel)"
  assume "match 2 0x100 0 ?d dir_kernel"
  then have "get_fs_bytes 2 0x100 dir_kernel ! 0 = take 2 (de_name 0 ?d) ! 0" by (simp add: match_def)
  then have "get_fs_byte 0x100 dir_kernel = ?d ! 2"
    by (simp add: get_fs_bytes_def de_name_nth dir_kernel_facts(3))
  then show False by (simp add: dir_kernel_facts nth_append)
qed

lemma find_entry_first_witness:
  "find_entry rd_ops 0 0x100 2 dir_kernel = Inr ((None, 0), dir_kernel)"
proof -
  have h: "(0 :: int) \<le> 0" "uint (i_size (the_inode 0 dir_kernel)) \<le> 1024 * (0 + 1)" "0 < (2 :: nat)" "2 \<le> NAME_LEN"
    "\<not> (2 = (2 :: nat) \<and> get_fs_byte 0x100 dir_kernel = DOT \<and> get_fs_byte (0x100 + 1) dir_kernel = DOT)"
    "1 = unat (i_size (the_inode 0 dir_kernel) div 16)"
    by (simp_all add: dir_kernel_facts unat_div)
  show ?thesis
    using find_entry_first [OF dir_kernel_core h] dir_kernel_no_ab by simp
qed


end
