(* ===== verification/Open_Facts.thy ===== *)
theory Open_Facts
  imports Dir_Facts
begin

text \<open>
  The table of open files: each file's use count is the number of descriptors of all the tasks
  that name it, and duplicating or closing a descriptor keeps it so. And what \<open>access\<close> tests.
\<close>

section \<open>Descriptors\<close>

definition descriptors :: "nat \<Rightarrow> kernel \<Rightarrow> (nat \<times> nat) set" where
  "descriptors f k =
     {(t, d). t < NR_TASKS \<and> d < NR_OPEN \<and> (\<exists>p. task (sch k) t = Some p \<and> filp p d = Some f)}"

definition refs_ok :: "kernel \<Rightarrow> bool" where
  "refs_ok k \<longleftrightarrow> current (sch k) < NR_TASKS \<and> task (sch k) (current (sch k)) \<noteq> None \<and>
     (\<forall>f. f_count (the_file f k) = of_nat (card (descriptors f k)))"

lemma descriptors_finite [simp]: "finite (descriptors f k)"
  by (rule finite_subset [of _ "{..<NR_TASKS} \<times> {..<NR_OPEN}"]) (auto simp: descriptors_def)

lemma descriptors_bound: "card (descriptors f k) \<le> 1280"
proof -
  have "card (descriptors f k) \<le> card ({..<NR_TASKS} \<times> {..<NR_OPEN})"
    by (rule card_mono) (auto simp: descriptors_def)
  then show ?thesis by simp
qed

lemma descriptors_set_filp:
  assumes "current (sch k) < NR_TASKS" and "task (sch k) (current (sch k)) \<noteq> None" and "d < NR_OPEN"
  shows "descriptors f (set_filp d x k) = (if x = Some f then insert (current (sch k), d) (descriptors f k)
    else descriptors f k - {(current (sch k), d)})"
  using assms
  by (auto simp: descriptors_def set_filp_def upd_cur_def upd_def upd_task_def split: if_splits)

lemma descriptors_cong [simp]:
  "descriptors f (no_close_on_exec d k) = descriptors f k" "descriptors f (set_file g h k) = descriptors f k"
  by (auto simp: descriptors_def no_close_on_exec_def upd_cur_def upd_def upd_task_def set_file_def split: if_splits)

lemma files_kept [simp]:
  "the_file f (set_filp d x k) = the_file f k" "the_file f (no_close_on_exec d k) = the_file f k"
  "current (sch (set_filp d x k)) = current (sch k)" "current (sch (no_close_on_exec d k)) = current (sch k)"
  "current (sch (set_file g h k)) = current (sch k)"
  "task (sch (set_file g h k)) = task (sch k)"
  "(task (sch (set_filp d x k)) t = None) = (task (sch k) t = None)"
  "(task (sch (no_close_on_exec d k)) t = None) = (task (sch k) t = None)"
  by (simp_all add: the_file_def set_filp_def no_close_on_exec_def upd_cur_def upd_def upd_task_def set_file_def)

lemma free_fd_Some:
  assumes "free_fd arg k = Some d"
  shows "arg \<le> d" "d < NR_OPEN" "filp (cur k) d = None" "\<forall>e. arg \<le> e \<and> e < d \<longrightarrow> filp (cur k) e \<noteq> None"
proof -
  obtain j where j: "j < NR_OPEN - arg" "d = arg + j" "filp (cur k) d = None"
    "\<forall>i < j. filp (cur k) (arg + i) \<noteq> None"
    using assms by (auto simp: free_fd_def find_Some_iff)
  then show "arg \<le> d" "d < NR_OPEN" "filp (cur k) d = None" by auto
  show "\<forall>e. arg \<le> e \<and> e < d \<longrightarrow> filp (cur k) e \<noteq> None"
    using j(2,4) by (metis add_diff_inverse_nat linorder_not_le nat_add_left_cancel_less)
qed

lemma not_a_descriptor:
  "filp (cur k) d \<noteq> Some f \<Longrightarrow> task (sch k) (current (sch k)) \<noteq> None \<Longrightarrow> (current (sch k), d) \<notin> descriptors f k"
  by (auto simp: descriptors_def cur_def)

lemma a_descriptor:
  "filp (cur k) d = Some f \<Longrightarrow> task (sch k) (current (sch k)) \<noteq> None \<Longrightarrow> current (sch k) < NR_TASKS \<Longrightarrow>
    d < NR_OPEN \<Longrightarrow> (current (sch k), d) \<in> descriptors f k"
  by (auto simp: descriptors_def cur_def)

lemma refs_ok_dup:
  assumes ok: "refs_ok k" and d: "d < NR_OPEN" "filp (cur k) d = None"
  shows "refs_ok (set_file f (f_count_update (\<lambda>c. c + 1)) (set_filp d (Some f) (no_close_on_exec d k)))"
proof -
  have c: "current (sch k) < NR_TASKS" "task (sch k) (current (sch k)) \<noteq> None"
    using ok by (simp_all add: refs_ok_def)
  have "(current (sch k), d) \<notin> descriptors g k" for g using not_a_descriptor d(2) c(2) by simp
  then show ?thesis
    using ok c d by (simp add: refs_ok_def descriptors_set_filp)
qed

lemma refs_ok_close:
  assumes ok: "refs_ok k" and d: "d < NR_OPEN" "filp (cur k) d = Some f"
  shows "refs_ok (set_file f (f_count_update (\<lambda>c. c - 1)) (set_filp d None (no_close_on_exec d k)))"
    and "f_count (the_file f k) \<noteq> 0"
proof -
  have c: "current (sch k) < NR_TASKS" "task (sch k) (current (sch k)) \<noteq> None"
    using ok by (simp_all add: refs_ok_def)
  have i: "(current (sch k), d) \<in> descriptors f k" by (rule a_descriptor [OF d(2) c(2,1) d(1)])
  then obtain n where n: "card (descriptors f k) = Suc n" by (metis card_Suc_Diff1 descriptors_finite)
  have n': "card (descriptors f k - {(current (sch k), d)}) = n" using i n by simp
  have o: "descriptors g k - {(current (sch k), d)} = descriptors g k" if "g \<noteq> f" for g
    using not_a_descriptor [of k d g] d(2) c(2) that by auto
  show "refs_ok (set_file f (f_count_update (\<lambda>c. c - 1)) (set_filp d None (no_close_on_exec d k)))"
    using ok c d n n' o by (simp add: refs_ok_def descriptors_set_filp)
  have "Suc n \<le> 1280" using descriptors_bound [of f k] n by simp
  then have "unat (of_nat (Suc n) :: u16) = Suc n" by (simp add: unat_of_nat del: of_nat_Suc)
  then show "f_count (the_file f k) \<noteq> 0"
    using ok n by (metis refs_ok_def unat_0 nat.distinct(2))
qed

lemma cur_files [simp]:
  assumes "task (sch k) (current (sch k)) \<noteq> None"
  shows "filp (cur (set_filp d x k)) e = (if e = d then x else filp (cur k) e)"
    and "filp (cur (no_close_on_exec d k)) e = filp (cur k) e"
    and "filp (cur (set_file g h k)) e = filp (cur k) e"
  using assms by (auto simp: cur_def set_filp_def no_close_on_exec_def upd_cur_def upd_def upd_task_def set_file_def)

lemma dupfd_cases:
  assumes "dupfd fd arg k = (r, k')"
  obtains "r < 0" "k' = k" | g d where "r = int d" "free_fd arg k = Some d" "filp (cur k) fd = Some g"
      "k' = set_file g (f_count_update (\<lambda>c. c + 1)) (set_filp d (Some g) (no_close_on_exec d k))"
proof (cases "if fd < NR_OPEN then filp (cur k) fd else None")
  case None
  then show ?thesis using assms that(1) by (auto simp: dupfd_def)
next
  case (Some g)
  then have g: "filp (cur k) fd = Some g" by (simp split: if_splits)
  show ?thesis
  proof (cases "NR_OPEN \<le> arg")
    case True
    then show ?thesis using assms that(1) Some by (simp add: dupfd_def)
  next
    case False
    show ?thesis
    proof (cases "free_fd arg k")
      case None
      then show ?thesis using assms that(1) Some False by (simp add: dupfd_def)
    next
      case d: (Some d)
      then have "r = int d"
        "k' = set_file g (f_count_update (\<lambda>c. c + 1)) (set_filp d (Some g) (no_close_on_exec d k))"
        using assms Some False by (simp_all add: dupfd_def)
      then show ?thesis by (rule that(2) [OF _ d g])
    qed
  qed
qed

lemma close_shared:
  assumes "fd < NR_OPEN" and "filp (cur k) fd = Some f" and "f_count (the_file f k) \<noteq> 0" "f_count (the_file f k) \<noteq> 1"
    and "task (sch k) (current (sch k)) \<noteq> None"
  shows "sys_close ops fd k =
    Inr (0, set_file f (f_count_update (\<lambda>c. c - 1)) (set_filp fd None (no_close_on_exec fd k)))"
proof -
  have "f_count (the_file f k) - 1 \<noteq> 0" using assms(4) by simp
  then show ?thesis using assms by (simp add: sys_close_def Let_def)
qed

section \<open>Properties\<close>

text \<open>Every descriptor is counted: duplicating a descriptor keeps each file's use count equal to the
  number of descriptors of all tasks that name it; the duplicate is the lowest free descriptor from
  the one asked for, and names the same file.\<close>

theorem dupfd_counts:
  assumes "refs_ok k" and "dupfd fd arg k = (r, k')"
  shows "refs_ok k' \<and> (r < 0 \<and> k' = k \<or> (\<exists>d. r = int d \<and> arg \<le> d \<and> d < NR_OPEN \<and>
    filp (cur k) d = None \<and> (\<forall>e. arg \<le> e \<and> e < d \<longrightarrow> filp (cur k) e \<noteq> None) \<and>
    filp (cur k') d = filp (cur k) fd \<and> filp (cur k) fd \<noteq> None))"
  using assms(2)
proof (cases rule: dupfd_cases)
  case 1
  then show ?thesis using assms(1) by simp
next
  case (2 g d)
  have c: "task (sch k) (current (sch k)) \<noteq> None" using assms(1) by (simp add: refs_ok_def)
  note d = free_fd_Some [OF 2(2)]
  have "refs_ok k'" unfolding 2(4) by (rule refs_ok_dup [OF assms(1) d(2,3)])
  moreover have "filp (cur k') d = filp (cur k) fd" unfolding 2(4) using c 2(3) by simp
  ultimately show ?thesis using 2(1,3) d by blast
qed

text \<open>C40: Closing a descriptor never meets the panic on a use count of 0, and closing one of several
  descriptors for a file keeps the counts right and leaves that descriptor unused.\<close>

theorem sys_close_counts:
  assumes "refs_ok k" and "fd < NR_OPEN" and "filp (cur k) fd = Some f"
  shows "f_count (the_file f k) \<noteq> 0 \<and> (f_count (the_file f k) \<noteq> 1 \<longrightarrow>
    (\<exists>k'. sys_close ops fd k = Inr (0, k') \<and> refs_ok k' \<and> filp (cur k') fd = None))"
proof -
  have c: "task (sch k) (current (sch k)) \<noteq> None" using assms(1) by (simp add: refs_ok_def)
  note r = refs_ok_close [OF assms]
  show ?thesis using r(2) close_shared [OF assms(2,3) r(2) _ c] r(1) c by auto
qed

text \<open>\<open>access\<close> and the kernel's own check part ways for the group of a file: where \<open>permission\<close> tests the
  group's bits, \<open>access\<close> tests the owner's, so it grants what will be refused, and refuses what will be
  granted, whenever the two differ.\<close>

theorem access_tests_owner_bits:
  assumes "uid p \<noteq> i_uid n" and "gid p = ucast (i_gid n)" and "uid p \<noteq> 0"
    and "euid p = uid p" and "egid p = gid p" and "i_nlinks n \<noteq> 0" and "0 \<le> want" and "want \<le> 7"
  shows "access_ok want (uint (i_mode n) AND 0x1ff) n p = (drop_bit 6 (uint (i_mode n)) AND want = want) \<and>
    permission n want p = (drop_bit 3 (uint (i_mode n)) AND want = want)"
proof (rule conjI)
  have w: "want AND 7 = want"
    using assms(7,8) take_bit_eq_mask [of 3 want] by (simp add: take_bit_eq_mod mask_eq_exp_minus_1)
  have "drop_bit 6 (0x1ff :: int) = 7" by (simp add: drop_bit_eq_div)
  then have "drop_bit 6 (uint (i_mode n) AND 0x1ff) AND 7 AND want = drop_bit 6 (uint (i_mode n)) AND want"
    by (simp add: and.assoc w) (metis and.assoc and.commute w)
  then show "access_ok want (uint (i_mode n) AND 0x1ff) n p = (drop_bit 6 (uint (i_mode n)) AND want = want)"
    using assms(1-3) by (simp add: access_ok_def Let_def)
  have "drop_bit 3 (uint (i_mode n)) AND want AND 7 = drop_bit 3 (uint (i_mode n)) AND want"
    by (simp add: w and.assoc)
  then show "permission n want p = (drop_bit 3 (uint (i_mode n)) AND want = want)"
    using assms by (simp add: permission_def suser_def Let_def)
qed

section \<open>A kernel with an open file\<close>

definition closed_kernel :: kernel where
  "closed_kernel = upd_fs (\<lambda>s. s\<lparr>file_table := (\<lambda>_. \<lparr>f_mode = 3, f_flags = 0, f_count = 0,
     f_inode = Some 0, f_pos = 0\<rparr>)\<rparr>) file_kernel"

definition open_kernel :: kernel where
  "open_kernel = set_file 5 (f_count_update (\<lambda>c. c + 1)) (set_filp 0 (Some 5) (no_close_on_exec 0 closed_kernel))"

lemma closed_kernel_files:
  "filp (cur closed_kernel) d = None" "task (sch closed_kernel) (current (sch closed_kernel)) \<noteq> None"
  "refs_ok closed_kernel"
proof -
  have none: "descriptors f closed_kernel = {}" for f
    by (auto simp: descriptors_def closed_kernel_def file_kernel_def small_system_def shell_def INIT_TASK_def
        split: if_splits)
  show "filp (cur closed_kernel) d = None" "task (sch closed_kernel) (current (sch closed_kernel)) \<noteq> None"
    by (simp_all add: closed_kernel_def file_kernel_def small_system_def cur_def shell_def INIT_TASK_def)
  show "refs_ok closed_kernel"
    by (simp add: refs_ok_def none)
      (simp add: closed_kernel_def file_kernel_def small_system_def the_file_def)
qed

lemma open_kernel_files:
  "refs_ok open_kernel" "filp (cur open_kernel) d = (if d = 0 then Some 5 else None)"
  "f_count (the_file 5 open_kernel) = 1" "task (sch open_kernel) (current (sch open_kernel)) \<noteq> None"
  unfolding open_kernel_def
  by (rule refs_ok_dup)
    (simp_all add: closed_kernel_files, simp add: closed_kernel_def the_file_def)

lemma dupfd_counts_witness:
  "\<exists>k'. dupfd 0 0 open_kernel = (1, k') \<and> refs_ok k' \<and> filp (cur k') 1 = Some 5"
proof -
  have "free_fd 0 open_kernel = Some 1"
    by (simp add: free_fd_def open_kernel_files upt_rec)
  then obtain k' where k: "dupfd 0 0 open_kernel = (1, k')"
    by (simp add: dupfd_def open_kernel_files)
  show ?thesis using dupfd_counts [OF open_kernel_files(1) k] k by (auto simp: open_kernel_files)
qed

lemma sys_close_counts_witness:
  "\<exists>k k'. f_count (the_file 5 k) = 2 \<and> sys_close rd_ops 1 k = Inr (0, k') \<and> refs_ok k' \<and> filp (cur k') 1 = None"
proof -
  let ?k = "set_file 5 (f_count_update (\<lambda>c. c + 1)) (set_filp 1 (Some 5) (no_close_on_exec 1 open_kernel))"
  have ok: "refs_ok ?k" by (rule refs_ok_dup) (simp_all add: open_kernel_files)
  have f: "filp (cur ?k) 1 = Some 5" "f_count (the_file 5 ?k) = 2"
    by (simp_all add: open_kernel_files)
  have "(1 :: nat) < NR_OPEN" by simp
  from sys_close_counts [OF ok this f(1), of rd_ops] obtain k'
    where "sys_close rd_ops 1 ?k = Inr (0, k')" "refs_ok k'" "filp (cur k') 1 = None"
    unfolding f(2) by auto
  with f(2) show ?thesis by blast
qed

lemma access_tests_owner_bits_witness:
  "access_ok 4 (uint (i_mode (small_inode\<lparr>i_mode := 0x8120, i_gid := 3\<rparr>)) AND 0x1ff)
     (small_inode\<lparr>i_mode := 0x8120, i_gid := 3\<rparr>) (shell\<lparr>gid := 3, egid := 3\<rparr>) \<and>
   permission (small_inode\<lparr>i_mode := 0x8120, i_gid := 3\<rparr>) 2 (shell\<lparr>gid := 3, egid := 3\<rparr>) = False"
proof -
  let ?n = "small_inode\<lparr>i_mode := 0x8120, i_gid := 3\<rparr>" and ?p = "shell\<lparr>gid := 3, egid := 3\<rparr>"
  have h: "uid ?p \<noteq> i_uid ?n" "gid ?p = ucast (i_gid ?n)" "uid ?p \<noteq> 0" "euid ?p = uid ?p" "egid ?p = gid ?p"
    "i_nlinks ?n \<noteq> 0"
    by (simp_all add: small_inode_def shell_def)
  show ?thesis
    using access_tests_owner_bits [OF h, of 4] access_tests_owner_bits [OF h, of 2]
    by (simp add: drop_bit_eq_div)
qed

end
