(* ===== verification/Tty.thy ===== *)
theory Tty
  imports Process Block
begin

text \<open>
  \<^verbatim>\<open>kernel/chr_drv/tty_io.c\<close> with the queues of \<^verbatim>\<open>include/linux/tty.h\<close>: the line discipline between
  the drivers and the tasks. A terminal's driver is reached through its \<open>write\<close> routine, which the
  definitions take as an argument; a call that has to wait ends with what it has still to do.
\<close>

section \<open>Queues\<close>

record tty_queue =
  q_data :: u32
  q_head :: u32
  q_tail :: u32
  proc_list :: "nat option"
  q_buf :: "nat \<Rightarrow> u8"

definition INC :: "u32 \<Rightarrow> u32" where "INC a = (a + 1) AND 1023"
definition DEC :: "u32 \<Rightarrow> u32" where "DEC a = (a - 1) AND 1023"
definition EMPTY :: "tty_queue \<Rightarrow> bool" where "EMPTY q \<longleftrightarrow> q_head q = q_tail q"
definition LEFT :: "tty_queue \<Rightarrow> u32" where "LEFT q = (q_tail q - q_head q - 1) AND 1023"
definition LAST :: "tty_queue \<Rightarrow> u8" where "LAST q = q_buf q (unat (1023 AND (q_head q - 1)))"
definition FULL :: "tty_queue \<Rightarrow> bool" where "FULL q \<longleftrightarrow> LEFT q = 0"
definition CHARS :: "tty_queue \<Rightarrow> u32" where "CHARS q = (q_head q - q_tail q) AND 1023"

definition GETCH :: "tty_queue \<Rightarrow> u8 \<times> tty_queue" where
  "GETCH q = (q_buf q (unat (q_tail q)), q\<lparr>q_tail := INC (q_tail q)\<rparr>)"

definition PUTCH :: "u8 \<Rightarrow> tty_queue \<Rightarrow> tty_queue" where
  "PUTCH c q = q\<lparr>q_buf := (q_buf q)(unat (q_head q) := c), q_head := INC (q_head q)\<rparr>"

section \<open>Terminals\<close>

text \<open>\<open>c_pad\<close> are the two bytes that fill the C structure.\<close>

record termios =
  c_iflag :: u32
  c_oflag :: u32
  c_cflag :: u32
  c_lflag :: u32
  c_line :: u8
  c_cc :: "u8 list"
  c_pad :: "u8 list"

datatype tty_driver = con_driver | rs_driver

text \<open>The process group of terminal \<open>i\<close> is \<open>tty_pgrp k i\<close> of the kernel's state.\<close>

record tty_struct =
  termios :: termios
  stopped :: bool
  tty_drv :: tty_driver
  read_q :: tty_queue
  write_q :: tty_queue
  secondary :: tty_queue

text \<open>The state: the kernel, the terminals, the static variable of \<open>tty_write\<close>, and the console.\<close>

record ('f, 'c) ttys =
  kern :: "'f kstate"
  tty_table :: "nat \<Rightarrow> tty_struct"
  cr_flag :: bool
  con :: 'c

type_synonym ('f, 'c) tty_writer = "nat \<Rightarrow> ('f, 'c) ttys \<Rightarrow> ('f, 'c) ttys res"

definition upd_tty :: "nat \<Rightarrow> (tty_struct \<Rightarrow> tty_struct) \<Rightarrow> ('f, 'c) ttys \<Rightarrow> ('f, 'c) ttys" where
  "upd_tty i f s = s\<lparr>tty_table := (tty_table s)(i := f (tty_table s i))\<rparr>"

definition on_kern :: "('f kstate \<Rightarrow> 'f kstate) \<Rightarrow> ('f, 'c) ttys \<Rightarrow> ('f, 'c) ttys" where
  "on_kern f s = s\<lparr>kern := f (kern s)\<rparr>"

abbreviation (input) VINTR :: nat where "VINTR \<equiv> 0"
abbreviation (input) VQUIT :: nat where "VQUIT \<equiv> 1"
abbreviation (input) VERASE :: nat where "VERASE \<equiv> 2"
abbreviation (input) VKILL :: nat where "VKILL \<equiv> 3"
abbreviation (input) VEOF :: nat where "VEOF \<equiv> 4"
abbreviation (input) VTIME :: nat where "VTIME \<equiv> 5"
abbreviation (input) VMIN :: nat where "VMIN \<equiv> 6"
abbreviation (input) VSTART :: nat where "VSTART \<equiv> 8"
abbreviation (input) VSTOP :: nat where "VSTOP \<equiv> 9"

definition cc :: "nat \<Rightarrow> tty_struct \<Rightarrow> u8" where "cc n t = c_cc (termios t) ! n"

text \<open>A \<open>signed char\<close> against an \<open>unsigned char\<close>, both promoted to \<open>int\<close>.\<close>

definition same_char :: "u8 \<Rightarrow> u8 \<Rightarrow> bool" where "same_char c d \<longleftrightarrow> sint c = uint d"

definition L_FLAG :: "u32 \<Rightarrow> tty_struct \<Rightarrow> bool" where "L_FLAG f t \<longleftrightarrow> c_lflag (termios t) AND f \<noteq> 0"
definition I_FLAG :: "u32 \<Rightarrow> tty_struct \<Rightarrow> bool" where "I_FLAG f t \<longleftrightarrow> c_iflag (termios t) AND f \<noteq> 0"
definition O_FLAG :: "u32 \<Rightarrow> tty_struct \<Rightarrow> bool" where "O_FLAG f t \<longleftrightarrow> c_oflag (termios t) AND f \<noteq> 0"

abbreviation (input) ISIG :: u32 where "ISIG \<equiv> 1"
abbreviation (input) ICANON :: u32 where "ICANON \<equiv> 2"
abbreviation (input) ECHO :: u32 where "ECHO \<equiv> 8"
abbreviation (input) ECHOCTL :: u32 where "ECHOCTL \<equiv> 0x200"
abbreviation (input) ECHOKE :: u32 where "ECHOKE \<equiv> 0x800"
abbreviation (input) INLCR :: u32 where "INLCR \<equiv> 0x40"
abbreviation (input) IGNCR :: u32 where "IGNCR \<equiv> 0x80"
abbreviation (input) ICRNL :: u32 where "ICRNL \<equiv> 0x100"
abbreviation (input) IUCLC :: u32 where "IUCLC \<equiv> 0x200"
abbreviation (input) OPOST :: u32 where "OPOST \<equiv> 1"
abbreviation (input) OLCUC :: u32 where "OLCUC \<equiv> 2"
abbreviation (input) ONLCR :: u32 where "ONLCR \<equiv> 4"
abbreviation (input) OCRNL :: u32 where "OCRNL \<equiv> 8"
abbreviation (input) ONLRET :: u32 where "ONLRET \<equiv> 0x20"
abbreviation (input) B2400 :: u32 where "B2400 \<equiv> 11"
abbreviation (input) CS8 :: u32 where "CS8 \<equiv> 0x30"

section \<open>Initial state\<close>

definition INIT_C_CC :: "u8 list" where
  "INIT_C_CC = [3, 28, 127, 21, 4, 0, 1, 0, 17, 19, 26, 0, 18, 15, 23, 22, 0]"

definition new_queue :: "u32 \<Rightarrow> tty_queue" where
  "new_queue d = \<lparr>q_data = d, q_head = 0, q_tail = 0, proc_list = None, q_buf = (\<lambda>_. 0)\<rparr>"

definition console_tty :: tty_struct where
  "console_tty = \<lparr>termios = \<lparr>c_iflag = ICRNL, c_oflag = OPOST OR ONLCR, c_cflag = 0,
       c_lflag = ISIG OR ICANON OR ECHO OR ECHOCTL OR ECHOKE, c_line = 0, c_cc = INIT_C_CC, c_pad = [0, 0]\<rparr>,
     stopped = False, tty_drv = con_driver, read_q = new_queue 0, write_q = new_queue 0,
     secondary = new_queue 0\<rparr>"

definition serial_tty :: "u32 \<Rightarrow> tty_struct" where
  "serial_tty port = \<lparr>termios = \<lparr>c_iflag = 0, c_oflag = 0, c_cflag = B2400 OR CS8, c_lflag = 0,
       c_line = 0, c_cc = INIT_C_CC, c_pad = [0, 0]\<rparr>,
     stopped = False, tty_drv = rs_driver, read_q = new_queue port, write_q = new_queue port,
     secondary = new_queue 0\<rparr>"

definition init_ttys :: "nat \<Rightarrow> tty_struct" where
  "init_ttys i = (if i = 0 then console_tty else serial_tty (if i = 1 then 0x3f8 else 0x2f8))"

section \<open>Signals from the keyboard\<close>

abbreviation (input) SIGINT :: nat where "SIGINT \<equiv> 2"
abbreviation (input) SIGQUIT :: nat where "SIGQUIT \<equiv> 3"

definition tty_intr :: "nat \<Rightarrow> u32 \<Rightarrow> 'f kstate \<Rightarrow> 'f kstate" where
  "tty_intr i msk k =
     (if tty_pgrp k i \<le> 0 then k
      else k\<lparr>sch := (sch k)\<lparr>task := (\<lambda>j. map_option (\<lambda>p.
             if j < NR_TASKS \<and> pgrp p = tty_pgrp k i then p\<lparr>signal := signal p OR msk\<rparr> else p)
             (task (sch k) j))\<rparr>\<rparr>)"

section \<open>From the driver to the reader\<close>

text \<open>
  \<open>tolower\<close> and \<open>toupper\<close> of \<^verbatim>\<open>include/ctype.h\<close> go through a table indexed with a \<open>char\<close>; below
  \<open>-1\<close> the index is outside it.
\<close>

definition ctype_ok :: "u8 \<Rightarrow> bool" where "ctype_ok c \<longleftrightarrow> - 1 \<le> sint c"

definition tolower :: "u8 \<Rightarrow> u8 res" where
  "tolower c = (if ctype_ok c then Inr (if 65 \<le> c \<and> c \<le> 90 then c + 32 else c) else Inl Undefined)"

definition toupper :: "u8 \<Rightarrow> u8 res" where
  "toupper c = (if ctype_ok c then Inr (if 97 \<le> c \<and> c \<le> 122 then c - 32 else c) else Inl Undefined)"

text \<open>The character the line discipline sees, if any.\<close>

definition translate :: "tty_struct \<Rightarrow> u8 \<Rightarrow> u8 option" where
  "translate t c =
     (if c = 13 then if I_FLAG ICRNL t then Some 10 else if I_FLAG IGNCR t then None else Some c
      else if c = 10 \<and> I_FLAG INLCR t then Some 13 else Some c)"

definition put_all :: "u8 list \<Rightarrow> tty_queue \<Rightarrow> tty_queue" where
  "put_all cs q = fold PUTCH cs q"

text \<open>What stops the erasing of a line: the queue is empty or ends with a line end.\<close>

definition line_end :: "tty_struct \<Rightarrow> u8 \<Rightarrow> bool" where
  "line_end t c \<longleftrightarrow> c = 10 \<or> same_char c (cc VEOF t)"

definition nothing_to_erase :: "tty_struct \<Rightarrow> bool" where
  "nothing_to_erase t \<longleftrightarrow> EMPTY (secondary t) \<or> line_end t (LAST (secondary t))"

definition echo_erase :: "('f, 'c) tty_writer \<Rightarrow> nat \<Rightarrow> ('f, 'c) ttys \<Rightarrow> ('f, 'c) ttys res" where
  "echo_erase wr i s =
     (let t = tty_table s i
      in if L_FLAG ECHO t
         then wr i (upd_tty i (write_q_update
                (put_all (if sint (LAST (secondary t)) < 32 then [127, 127] else [127]))) s)
         else Inr s)"

definition drop_last :: "nat \<Rightarrow> ('f, 'c) ttys \<Rightarrow> ('f, 'c) ttys" where
  "drop_last i s = upd_tty i (secondary_update (q_head_update DEC)) s"

partial_function (option) kill_line ::
    "('f, 'c) tty_writer \<Rightarrow> nat \<Rightarrow> ('f, 'c) ttys \<Rightarrow> ('f, 'c) ttys res option" where
  "kill_line wr i s =
     (if nothing_to_erase (tty_table s i) then Some (Inr s)
      else case echo_erase wr i s of
             Inl e \<Rightarrow> Some (Inl e)
           | Inr s \<Rightarrow> kill_line wr i (drop_last i s))"

definition echo_chars :: "tty_struct \<Rightarrow> u8 \<Rightarrow> u8 list" where
  "echo_chars t c =
     (if c = 10 then [10, 13]
      else if sint c < 32 then if L_FLAG ECHOCTL t then [94, c + 64] else []
      else [c])"

text \<open>The end of the loop's body: an ordinary character.\<close>

definition take_char :: "('f, 'c) tty_writer \<Rightarrow> nat \<Rightarrow> u8 \<Rightarrow> ('f, 'c) ttys \<Rightarrow> ('f, 'c) ttys res" where
  "take_char wr i c s =
     (let t = tty_table s i;
          s = (if line_end t c then upd_tty i (secondary_update (q_data_update (\<lambda>d. d + 1))) s else s)
      in kbind (if L_FLAG ECHO t
                then wr i (upd_tty i (write_q_update (put_all (echo_chars t c))) s)
                else Inr s) (\<lambda>s.
           Inr (upd_tty i (secondary_update (PUTCH c)) s)))"

definition cook_char :: "('f, 'c) tty_writer \<Rightarrow> nat \<Rightarrow> u8 \<Rightarrow> ('f, 'c) ttys \<Rightarrow> ('f, 'c) ttys res" where
  "cook_char wr i c s =
     (let t = tty_table s i
      in case translate t c of
           None \<Rightarrow> Inr s
         | Some c \<Rightarrow>
             kbind (if I_FLAG IUCLC t then tolower c else Inr c) (\<lambda>c.
               if L_FLAG ICANON t \<and> same_char c (cc VKILL t) then returns (kill_line wr i s)
               else if L_FLAG ICANON t \<and> same_char c (cc VERASE t)
               then if nothing_to_erase t then Inr s
                    else kbind (echo_erase wr i s) (\<lambda>s. Inr (drop_last i s))
               else if L_FLAG ICANON t \<and> same_char c (cc VSTOP t)
               then Inr (upd_tty i (stopped_update (\<lambda>_. True)) s)
               else if L_FLAG ICANON t \<and> same_char c (cc VSTART t)
               then Inr (upd_tty i (stopped_update (\<lambda>_. False)) s)
               else if L_FLAG ISIG t \<and> same_char c (cc VINTR t)
               then Inr (on_kern (tty_intr i (sig_bit SIGINT)) s)
               else if L_FLAG ISIG t \<and> same_char c (cc VQUIT t)
               then Inr (on_kern (tty_intr i (sig_bit SIGQUIT)) s)
               else take_char wr i c s))"

partial_function (option) cook_loop ::
    "('f, 'c) tty_writer \<Rightarrow> nat \<Rightarrow> ('f, 'c) ttys \<Rightarrow> ('f, 'c) ttys res option" where
  "cook_loop wr i s =
     (let t = tty_table s i
      in if EMPTY (read_q t) \<or> FULL (secondary t) then Some (Inr s)
         else case GETCH (read_q t) of
           (c, q) \<Rightarrow>
             case cook_char wr i c (upd_tty i (read_q_update (\<lambda>_. q)) s) of
               Inl e \<Rightarrow> Some (Inl e)
             | Inr s \<Rightarrow> cook_loop wr i s)"

declare kill_line.simps [code] cook_loop.simps [code]

definition wake_secondary :: "nat \<Rightarrow> ('f, 'c) ttys \<Rightarrow> ('f, 'c) ttys" where
  "wake_secondary i s =
     (case wake_up (proc_list (secondary (tty_table s i))) (sch (kern s)) of
        (q, sc) \<Rightarrow> upd_tty i (secondary_update (proc_list_update (\<lambda>_. q)))
                     (on_kern (sch_update (\<lambda>_. sc)) s))"

definition copy_to_cooked :: "('f, 'c) tty_writer \<Rightarrow> nat \<Rightarrow> ('f, 'c) ttys \<Rightarrow> ('f, 'c) ttys res" where
  "copy_to_cooked wr i s = kbind (returns (cook_loop wr i s)) (\<lambda>s. Inr (wake_secondary i s))"

definition do_tty_interrupt :: "('f, 'c) tty_writer \<Rightarrow> nat \<Rightarrow> ('f, 'c) ttys \<Rightarrow> ('f, 'c) ttys res" where
  "do_tty_interrupt wr i s = copy_to_cooked wr i s"

section \<open>Reading\<close>

text \<open>
  A call ends with its result, or with what it has still to do: bytes left and bytes moved, and
  whether the task sleeps or only polls (\<open>sleep_if_empty\<close> returns at once when the queue has
  characters but no complete line). \<open>flag\<close> says that the call has set its own alarm.
\<close>

datatype tty_io = TDone int | TWaits bool nat nat bool

record tty_req =
  rq_buf :: u32
  oldalarm :: int
  rq_time :: int
  minimum :: int

abbreviation (input) SIGALRM :: nat where "SIGALRM \<equiv> 14"

text \<open>The inner loop: end-of-file met, bytes left, bytes moved.\<close>

fun drain :: "nat \<Rightarrow> u32 \<Rightarrow> nat \<Rightarrow> nat \<Rightarrow> ('f, 'c) ttys \<Rightarrow> bool \<times> nat \<times> nat \<times> ('f, 'c) ttys" where
  "drain i buf 0 n s = (False, 0, n, s)"
| "drain i buf (Suc nr) n s =
     (case GETCH (secondary (tty_table s i)) of
        (c, q) \<Rightarrow>
          let t = tty_table s i;
              q = (if line_end t c then q\<lparr>q_data := q_data q - 1\<rparr> else q);
              s = upd_tty i (secondary_update (\<lambda>_. q)) s
          in if same_char c (cc VEOF t) \<and> L_FLAG ICANON t then (True, Suc nr, n, s)
             else let s = on_kern (put_fs_byte c (buf + of_nat n)) s
             in if nr = 0 \<or> EMPTY q then (False, nr, Suc n, s) else drain i buf nr (Suc n) s)"

text \<open>\<open>flag=(!oldalarm || time+jiffies<oldalarm)\<close>, and the alarm that goes with it.\<close>

definition own_alarm :: "tty_req \<Rightarrow> ('f, 'c) ttys \<Rightarrow> bool" where
  "own_alarm r s \<longleftrightarrow> oldalarm r = 0 \<or> rq_time r + jiffies (sch (kern s)) < oldalarm r"

definition set_alarm :: "int \<Rightarrow> ('f, 'c) ttys \<Rightarrow> ('f, 'c) ttys" where
  "set_alarm a s = on_kern (upd_cur (\<lambda>p. p\<lparr>alarm := a\<rparr>)) s"

definition read_end :: "tty_req \<Rightarrow> nat \<Rightarrow> ('f, 'c) ttys \<Rightarrow> tty_io \<times> ('f, 'c) ttys" where
  "read_end r n s =
     (let s = set_alarm (oldalarm r) s
      in (TDone (if signal (cur (kern s)) \<noteq> 0 \<and> n = 0 then - EINTR else int n), s))"

lemma drain_left: "drain i buf nr n s = (e, nr', n', s') \<Longrightarrow> 0 < nr \<Longrightarrow> e \<or> nr' < nr"
  by (induction i buf nr n s rule: drain.induct) (auto simp: Let_def split: prod.splits if_splits)

function tty_read_loop ::
    "nat \<Rightarrow> tty_req \<Rightarrow> nat \<Rightarrow> nat \<Rightarrow> bool \<Rightarrow> ('f, 'c) ttys \<Rightarrow> tty_io \<times> ('f, 'c) ttys" where
  "tty_read_loop i r nr n flag s =
     (let p = cur (kern s);
          t = tty_table s i
      in if nr = 0 then read_end r n s
         else if flag \<and> signal p AND sig_bit SIGALRM \<noteq> 0
         then read_end r n (on_kern (upd_cur (\<lambda>p. p\<lparr>signal := signal p AND NOT (sig_bit SIGALRM)\<rparr>)) s)
         else if signal p \<noteq> 0 then read_end r n s
         else if EMPTY (secondary t) \<or>
           L_FLAG ICANON t \<and> q_data (secondary t) = 0 \<and> LEFT (secondary t) > 20
         then (TWaits (EMPTY (secondary t)) nr n flag, s)
         else case drain i (rq_buf r) nr n s of
           (eof, nr', n', s) \<Rightarrow>
             if eof then (TDone (int n'), s)
             else let timed = (rq_time r \<noteq> 0 \<and> \<not> L_FLAG ICANON t);
                      flag = (if timed then own_alarm r s else flag);
                      s = (if timed then set_alarm (if flag then rq_time r + jiffies (sch (kern s))
                                                    else oldalarm r) s
                           else s)
             in if (if L_FLAG ICANON t then n' \<noteq> 0 else int n' \<ge> minimum r) then read_end r n' s
                else tty_read_loop i r nr' n' flag s)"
  by pat_completeness auto

termination
  by (relation "measure (\<lambda>(i, r, nr, n, flag, s). nr)") (auto dest: drain_left [OF sym])

declare tty_read_loop.simps [simp del]

definition tty_read ::
    "nat \<Rightarrow> u32 \<Rightarrow> int \<Rightarrow> ('f, 'c) ttys \<Rightarrow> tty_io \<times> ('f, 'c) ttys" where
  "tty_read channel buf nr s =
     (if channel > 2 \<or> nr < 0 then (TDone (- 1), s)
      else let t = tty_table s channel;
               time = 10 * uint (cc VTIME t);
               vmin = uint (cc VMIN t);
               r = \<lparr>rq_buf = buf, oldalarm = alarm (cur (kern s)), rq_time = time, minimum = vmin\<rparr>;
               timed = (time \<noteq> 0 \<and> vmin = 0);
               flag = (timed \<and> own_alarm r s);
               s = (if flag then set_alarm (time + jiffies (sch (kern s))) s else s);
               vmin = min (if timed then 1 else vmin) nr
           in tty_read_loop channel (r\<lparr>minimum := vmin\<rparr>) (nat nr) 0 flag s)"

section \<open>Writing\<close>

text \<open>
  The inner loop of \<open>tty_write\<close>, until the queue is full or all is taken. A carriage return put
  in front of a newline leaves the newline for the next turn.
\<close>

definition out_char :: "tty_struct \<Rightarrow> u8 \<Rightarrow> u8" where
  "out_char t c = (if c = 13 \<and> O_FLAG OCRNL t then 10
                   else if c = 10 \<and> O_FLAG ONLRET t then 13 else c)"

partial_function (option) fill_loop ::
    "nat \<Rightarrow> u32 \<Rightarrow> nat \<Rightarrow> nat \<Rightarrow> ('f, 'c) ttys \<Rightarrow> (nat \<times> nat \<times> ('f, 'c) ttys) res option" where
  "fill_loop i buf nr n s =
     (let t = tty_table s i
      in if nr = 0 \<or> FULL (write_q t) then Some (Inr (nr, n, s))
         else let c = user (kern s) (buf + of_nat n);
                  c' = (if O_FLAG OPOST t then out_char t c else c)
         in if O_FLAG OPOST t \<and> c' = 10 \<and> \<not> cr_flag s \<and> O_FLAG ONLCR t
            then fill_loop i buf nr n (upd_tty i (write_q_update (PUTCH 13)) (s\<lparr>cr_flag := True\<rparr>))
            else case (if O_FLAG OPOST t \<and> O_FLAG OLCUC t then toupper c' else Inr c') of
                   Inl e \<Rightarrow> Some (Inl e)
                 | Inr c \<Rightarrow>
                     fill_loop i buf (nr - 1) (Suc n)
                       (upd_tty i (write_q_update (PUTCH c)) (s\<lparr>cr_flag := False\<rparr>)))"

declare fill_loop.simps [code]

text \<open>
  One turn of the outer loop. It waits in \<open>sleep_if_full\<close>, where a task that slept goes on only when
  128 bytes are free, or, with bytes left, ends in \<open>schedule\<close>.
\<close>

definition tty_write_turn ::
    "('f, 'c) tty_writer \<Rightarrow> nat \<Rightarrow> u32 \<Rightarrow> bool \<Rightarrow> nat \<Rightarrow> nat \<Rightarrow> ('f, 'c) ttys \<Rightarrow> (tty_io \<times> ('f, 'c) ttys) res"
  where
  "tty_write_turn wr i buf slept nr n s =
     (let p = cur (kern s);
          q = write_q (tty_table s i)
      in if nr = 0 then Inr (TDone (int n), s)
         else if signal p = 0 \<and> (if slept then LEFT q < 128 else FULL q)
         then Inr (TWaits True nr n False, s)
         else if signal p \<noteq> 0 then Inr (TDone (int n), s)
         else kbind (returns (fill_loop i buf nr n s)) (\<lambda>(nr, n, s).
              kbind (wr i s) (\<lambda>s.
                Inr (if nr > 0 then TWaits False nr n False else TDone (int n), s))))"

definition tty_write ::
    "('f, 'c) tty_writer \<Rightarrow> nat \<Rightarrow> u32 \<Rightarrow> int \<Rightarrow> ('f, 'c) ttys \<Rightarrow> (tty_io \<times> ('f, 'c) ttys) res" where
  "tty_write wr channel buf nr s =
     (if channel > 2 \<or> nr < 0 then Inr (TDone (- 1), s)
      else tty_write_turn wr channel buf False (nat nr) 0 s)"

text \<open>\<open>wait_for_keypress\<close>: whether the task has to sleep.\<close>

definition wait_for_keypress :: "('f, 'c) ttys \<Rightarrow> bool" where
  "wait_for_keypress s \<longleftrightarrow> signal (cur (kern s)) = 0 \<and> EMPTY (secondary (tty_table s 0))"

end
