(* ===== verification/Tty_Ioctl.thy ===== *)
theory Tty_Ioctl
  imports Tty File_IO
begin

text \<open>
  Control of the terminals: \<^verbatim>\<open>kernel/chr_drv/tty_ioctl.c\<close>, the C part of the serial lines'
  driver \<^verbatim>\<open>kernel/chr_drv/serial.c\<close>, and \<^verbatim>\<open>fs/ioctl.c\<close>, which dispatches to it. What a read of
  an input port gives is an argument; writes to ports go to the trace of the scheduler's state.
\<close>

section \<open>Ports\<close>

definition out_port :: "u8 \<Rightarrow> nat \<Rightarrow> ('f, 'c) ttys \<Rightarrow> ('f, 'c) ttys" where
  "out_port v port s = on_kern (sch_update (outb v port)) s"

abbreviation (input) CBAUD :: u32 where "CBAUD \<equiv> 15"

definition quotient :: "u16 list" where
  "quotient = [0, 2304, 1536, 1047, 857, 768, 576, 384, 192, 96, 64, 48, 24, 12, 6, 3]"

definition change_speed :: "nat \<Rightarrow> ('f, 'c) ttys \<Rightarrow> ('f, 'c) ttys" where
  "change_speed i s =
     (let t = tty_table s i;
          port = unat (ucast (q_data (read_q t)) :: u16);
          quot = quotient ! unat (c_cflag (termios t) AND CBAUD)
      in if port = 0 then s
         else out_port 0x03 (port + 3)
               (out_port (ucast (drop_bit 8 quot)) (port + 1)
               (out_port (ucast quot) port
               (out_port 0x80 (port + 3) s))))"

definition flush :: "tty_queue \<Rightarrow> tty_queue" where
  "flush q = q\<lparr>q_head := q_tail q\<rparr>"

section \<open>Terminal parameters\<close>

text \<open>The bytes of a \<open>struct termios\<close> as the compiler lays it out, and back.\<close>

definition termios_bytes :: "termios \<Rightarrow> u8 list" where
  "termios_bytes t = u32_bytes (c_iflag t) @ u32_bytes (c_oflag t) @ u32_bytes (c_cflag t) @
     u32_bytes (c_lflag t) @ [c_line t] @ c_cc t @ c_pad t"

definition bytes_termios :: "u8 list \<Rightarrow> termios" where
  "bytes_termios d = \<lparr>c_iflag = u32_at d 0, c_oflag = u32_at d 4, c_cflag = u32_at d 8,
     c_lflag = u32_at d 12, c_line = d ! 16, c_cc = take 17 (drop 17 d), c_pad = drop 34 d\<rparr>"

fun put_user :: "u8 list \<Rightarrow> u32 \<Rightarrow> 'f kstate \<Rightarrow> 'f kstate" where
  "put_user [] a k = k"
| "put_user (v # vs) a k = put_user vs (a + 1) (put_fs_byte v a k)"

definition get_user :: "nat \<Rightarrow> u32 \<Rightarrow> 'f kstate \<Rightarrow> u8 list" where
  "get_user n a k = map (\<lambda>j. user k (a + of_nat j)) [0..<n]"

definition verified :: "u32 \<Rightarrow> int \<Rightarrow> ('f kstate \<Rightarrow> 'f kstate) \<Rightarrow> ('f, 'c) ttys \<Rightarrow> ('f, 'c) ttys res" where
  "verified a sz f s = kbind (verify_area a sz (kern s)) (\<lambda>k. Inr (s\<lparr>kern := f k\<rparr>))"

definition get_termios :: "nat \<Rightarrow> u32 \<Rightarrow> ('f, 'c) ttys \<Rightarrow> ('f, 'c) ttys res" where
  "get_termios i a s = verified a 36 (put_user (termios_bytes (termios (tty_table s i))) a) s"

definition set_termios :: "nat \<Rightarrow> u32 \<Rightarrow> ('f, 'c) ttys \<Rightarrow> ('f, 'c) ttys" where
  "set_termios i a s =
     change_speed i (upd_tty i (termios_update (\<lambda>_. bytes_termios (get_user 36 a (kern s)))) s)"

text \<open>
  The older \<open>struct termio\<close>: the low halves of the flags and eight control characters. The last
  byte of the structure is padding; what the stack holds there is the argument \<open>pad\<close>.
\<close>

definition termio_bytes :: "u8 \<Rightarrow> termios \<Rightarrow> u8 list" where
  "termio_bytes pad t = u16_bytes (ucast (c_iflag t)) @ u16_bytes (ucast (c_oflag t)) @
     u16_bytes (ucast (c_cflag t)) @ u16_bytes (ucast (c_lflag t)) @ [c_line t] @
     take 8 (c_cc t) @ [pad]"

definition low_half :: "u16 \<Rightarrow> u32 \<Rightarrow> u32" where
  "low_half v w = (w AND 0xffff0000) OR ucast v"

definition bytes_termio :: "u8 list \<Rightarrow> termios \<Rightarrow> termios" where
  "bytes_termio d t = t\<lparr>c_iflag := low_half (u16_at d 0) (c_iflag t),
     c_oflag := low_half (u16_at d 2) (c_oflag t), c_cflag := low_half (u16_at d 4) (c_cflag t),
     c_lflag := low_half (u16_at d 6) (c_lflag t), c_line := d ! 8,
     c_cc := take 8 (drop 9 d) @ drop 8 (c_cc t)\<rparr>"

definition get_termio :: "u8 \<Rightarrow> nat \<Rightarrow> u32 \<Rightarrow> ('f, 'c) ttys \<Rightarrow> ('f, 'c) ttys res" where
  "get_termio pad i a s = verified a 18 (put_user (termio_bytes pad (termios (tty_table s i))) a) s"

definition set_termio :: "nat \<Rightarrow> u32 \<Rightarrow> ('f, 'c) ttys \<Rightarrow> ('f, 'c) ttys" where
  "set_termio i a s =
     change_speed i (upd_tty i (termios_update (bytes_termio (get_user 18 a (kern s)))) s)"

section \<open>\<open>tty_ioctl\<close>\<close>

text \<open>The commands that reach into the terminal's structure; the table has three.\<close>

definition touches_tty :: "u32 \<Rightarrow> u32 \<Rightarrow> bool" where
  "touches_tty cmd arg \<longleftrightarrow>
     cmd \<in> {0x5401, 0x5402, 0x5403, 0x5404, 0x5405, 0x5406, 0x5407, 0x5408, 0x540F, 0x5410, 0x5411, 0x541B}
     \<or> cmd = 0x540B \<and> arg \<le> 2"

definition tty_command :: "u8 \<Rightarrow> nat \<Rightarrow> u32 \<Rightarrow> u32 \<Rightarrow> ('f, 'c) ttys \<Rightarrow> (int \<times> ('f, 'c) ttys) res" where
  "tty_command pad i cmd arg s =
     (let t = tty_table s i;
          ok = (\<lambda>r. kbind r (\<lambda>s. Inr (0, s)));
          flush_read = upd_tty i (read_q_update flush) s;
          flush_write = upd_tty i (write_q_update flush)
      in if cmd = 0x5401 then ok (get_termios i arg s)
         else if cmd = 0x5404 then ok (Inr (set_termios i arg flush_read))
         else if cmd = 0x5403 \<or> cmd = 0x5402 then ok (Inr (set_termios i arg s))
         else if cmd = 0x5405 then ok (get_termio pad i arg s)
         else if cmd = 0x5408 then ok (Inr (set_termio i arg flush_read))
         else if cmd = 0x5407 \<or> cmd = 0x5406 then ok (Inr (set_termio i arg s))
         else if cmd = 0x5409 then Inr (0, s)
         else if cmd = 0x540B
         then if arg = 0 then ok (Inr flush_read)
              else if arg = 1 then ok (Inr (flush_write s))
              else if arg = 2 then ok (Inr (flush_write flush_read))
              else Inr (- EINVAL, s)
         else if cmd = 0x540F
         then ok (verified arg 4 (put_fs_long (word_of_int (tty_pgrp (kern s) i)) arg) s)
         else if cmd = 0x5410
         then ok (Inr (on_kern (\<lambda>k. k\<lparr>tty_pgrp := (tty_pgrp k)(i := sint (get_fs_long arg k))\<rparr>) s))
         else if cmd = 0x5411 then ok (verified arg 4 (put_fs_long (CHARS (write_q t)) arg) s)
         else if cmd = 0x541B then ok (verified arg 4 (put_fs_long (CHARS (secondary t)) arg) s)
         else Inr (- EINVAL, s))"

definition tty_ioctl :: "u8 \<Rightarrow> u16 \<Rightarrow> u32 \<Rightarrow> u32 \<Rightarrow> ('f, 'c) ttys \<Rightarrow> (int \<times> ('f, 'c) ttys) res" where
  "tty_ioctl pad dev cmd arg s =
     (let i = (if MAJOR dev = 5 then tty (cur (kern s)) else int (MINOR dev))
      in if i < 0 then Inl (Panic ''tty_ioctl: dev<0'')
         else if i > 2 \<and> touches_tty cmd arg then Inl Undefined
         else tty_command pad (nat i) cmd arg s)"

section \<open>\<open>fs/ioctl.c\<close>\<close>

abbreviation (input) NRDEVS :: nat where "NRDEVS \<equiv> 8"
abbreviation (input) ENOTTY :: int where "ENOTTY \<equiv> 25"

definition sys_ioctl :: "u8 \<Rightarrow> nat \<Rightarrow> u32 \<Rightarrow> u32 \<Rightarrow> (fs, 'c) ttys \<Rightarrow> (int \<times> (fs, 'c) ttys) res" where
  "sys_ioctl pad fd cmd arg s =
     (let k = kern s
      in case (if fd < NR_OPEN then filp (cur k) fd else None) of
           None \<Rightarrow> Inr (- EBADF, s)
         | Some f \<Rightarrow>
             case f_inode (the_file f k) of
               None \<Rightarrow> Inl Undefined
             | Some n \<Rightarrow>
                 let mode = i_mode (the_inode n k);
                     dev = i_zone (the_inode n k) ! 0
                 in if \<not> S_ISCHR mode \<and> \<not> S_ISBLK mode then Inr (- EINVAL, s)
                    else if MAJOR dev \<ge> NRDEVS then Inr (- ENODEV, s)
                    else if MAJOR dev \<noteq> 4 \<and> MAJOR dev \<noteq> 5 then Inr (- ENOTTY, s)
                    else tty_ioctl pad dev cmd arg s)"

section \<open>Serial lines\<close>

text \<open>
  \<open>rs_init\<close> also sets the two interrupt gates. The read of the data port in \<open>init\<close> only resets the
  device; \<open>inb\<close> says what a port gives.
\<close>

definition init_port :: "nat \<Rightarrow> ('f, 'c) ttys \<Rightarrow> ('f, 'c) ttys" where
  "init_port port s =
     fold (\<lambda>(v, p). out_port v p)
       [(0x80, port + 3), (0x30, port), (0, port + 1), (0x03, port + 3), (0x0b, port + 4), (0x0d, port + 1)] s"

definition rs_init :: "(nat \<Rightarrow> ('f, 'c) ttys \<Rightarrow> u8) \<Rightarrow> ('f, 'c) ttys \<Rightarrow> ('f, 'c) ttys" where
  "rs_init inb s =
     (let s = init_port (unat (q_data (read_q (tty_table s 1)))) s;
          s = init_port (unat (q_data (read_q (tty_table s 2)))) s
      in out_port (inb 0x21 s AND 0xE7) 0x21 s)"

definition rs_write :: "(nat \<Rightarrow> ('f, 'c) ttys \<Rightarrow> u8) \<Rightarrow> nat \<Rightarrow> ('f, 'c) ttys \<Rightarrow> ('f, 'c) ttys" where
  "rs_write inb i s =
     (let q = write_q (tty_table s i);
          port = unat (q_data q) + 1
      in if EMPTY q then s else out_port (inb port s OR 2) port s)"

end
