(* ===== verification/Console.thy ===== *)
theory Console
  imports Tty_Ioctl
begin

text \<open>
  The console's output side, \<^verbatim>\<open>kernel/chr_drv/console.c\<close>: the screen in the adaptor's memory, the
  cursor, scrolling, and the state machine that reads escape sequences. The static variables of
  the file are the record \<open>console\<close>; the writes to the adaptor's registers are in its trace.
  The string instructions of the inline assembly are loops over memory.
\<close>

section \<open>State\<close>

datatype video = VIDEO_TYPE_MDA | VIDEO_TYPE_CGA | VIDEO_TYPE_EGAM | VIDEO_TYPE_EGAC

record console =
  video_type :: video
  video_num_columns :: u32
  video_size_row :: u32
  video_num_lines :: u32
  video_mem_start :: u32
  video_mem_end :: u32
  video_port_reg :: u16
  video_port_val :: u16
  video_erase_char :: u16
  origin :: u32
  scr_end :: u32
  pos :: u32
  cur_x :: u32
  cur_y :: u32
  scr_top :: u32
  scr_bottom :: u32
  con_state :: nat
  npar :: nat
  par :: "u32 list"
  ques :: bool
  attr :: u8
  saved_x :: u32
  saved_y :: u32
  vmem :: "u32 \<Rightarrow> u8"
  con_ports :: "(nat \<times> u8) list"

abbreviation (input) NPAR :: nat where "NPAR \<equiv> 16"

definition con_out :: "u8 \<Rightarrow> u16 \<Rightarrow> console \<Rightarrow> console" where
  "con_out v port c = c\<lparr>con_ports := con_ports c @ [(unat port, v)]\<rparr>"

section \<open>Memory\<close>

definition put_short :: "u32 \<Rightarrow> u16 \<Rightarrow> (u32 \<Rightarrow> u8) \<Rightarrow> u32 \<Rightarrow> u8" where
  "put_short a w m = m(a := ucast w, a + 1 := ucast (drop_bit 8 w))"

definition get_short :: "u32 \<Rightarrow> (u32 \<Rightarrow> u8) \<Rightarrow> u16" where
  "get_short a m = ucast (m a) OR push_bit 8 (ucast (m (a + 1)))"

definition move_long :: "u32 \<Rightarrow> u32 \<Rightarrow> (u32 \<Rightarrow> u8) \<Rightarrow> u32 \<Rightarrow> u8" where
  "move_long d s m = m(d := m s, d + 1 := m (s + 1), d + 2 := m (s + 2), d + 3 := m (s + 3))"

text \<open>\<open>rep movsl\<close> and \<open>rep stosw\<close>, with the direction flag clear and set.\<close>

fun movsl :: "nat \<Rightarrow> u32 \<Rightarrow> u32 \<Rightarrow> (u32 \<Rightarrow> u8) \<Rightarrow> u32 \<Rightarrow> u8" where
  "movsl 0 d s m = m"
| "movsl (Suc n) d s m = movsl n (d + 4) (s + 4) (move_long d s m)"

fun movsl_down :: "nat \<Rightarrow> u32 \<Rightarrow> u32 \<Rightarrow> (u32 \<Rightarrow> u8) \<Rightarrow> u32 \<Rightarrow> u8" where
  "movsl_down 0 d s m = m"
| "movsl_down (Suc n) d s m = movsl_down n (d - 4) (s - 4) (move_long d s m)"

fun stosw :: "nat \<Rightarrow> u32 \<Rightarrow> u16 \<Rightarrow> (u32 \<Rightarrow> u8) \<Rightarrow> u32 \<Rightarrow> u8" where
  "stosw 0 d w m = m"
| "stosw (Suc n) d w m = stosw n (d + 2) w (put_short d w m)"

fun stosw_down :: "nat \<Rightarrow> u32 \<Rightarrow> u16 \<Rightarrow> (u32 \<Rightarrow> u8) \<Rightarrow> u32 \<Rightarrow> u8" where
  "stosw_down 0 d w m = m"
| "stosw_down (Suc n) d w m = stosw_down n (d - 2) w (put_short d w m)"

definition erase_words :: "u32 \<Rightarrow> u32 \<Rightarrow> console \<Rightarrow> console" where
  "erase_words n d c = c\<lparr>vmem := stosw (unat n) d (video_erase_char c) (vmem c)\<rparr>"

section \<open>Cursor and scrolling\<close>

definition gotoxy :: "u32 \<Rightarrow> u32 \<Rightarrow> console \<Rightarrow> console" where
  "gotoxy nx ny c =
     (if nx > video_num_columns c \<or> ny \<ge> video_num_lines c then c
      else c\<lparr>cur_x := nx, cur_y := ny, pos := origin c + ny * video_size_row c + push_bit 1 nx\<rparr>)"

definition set_origin :: "console \<Rightarrow> console" where
  "set_origin c =
     (let d = origin c - video_mem_start c
      in con_out (ucast (drop_bit 1 d)) (video_port_val c)
        (con_out 13 (video_port_reg c)
        (con_out (ucast (drop_bit 9 d)) (video_port_val c)
        (con_out 12 (video_port_reg c) c))))"

definition set_cursor :: "console \<Rightarrow> console" where
  "set_cursor c =
     (let d = pos c - video_mem_start c
      in con_out (ucast (drop_bit 1 d)) (video_port_val c)
        (con_out 15 (video_port_reg c)
        (con_out (ucast (drop_bit 9 d)) (video_port_val c)
        (con_out 14 (video_port_reg c) c))))"

definition is_ega :: "console \<Rightarrow> bool" where
  "is_ega c \<longleftrightarrow> video_type c = VIDEO_TYPE_EGAC \<or> video_type c = VIDEO_TYPE_EGAM"

text \<open>The lines from \<open>top\<close> to \<open>bottom\<close> move up in memory and the last of them is erased.\<close>

definition region_up :: "console \<Rightarrow> console" where
  "region_up c =
     (let n = unat (drop_bit 1 ((scr_bottom c - scr_top c - 1) * video_num_columns c));
          d = origin c + video_size_row c * scr_top c;
          s = origin c + video_size_row c * (scr_top c + 1)
      in erase_words (video_num_columns c) (d + 4 * of_nat n) (c\<lparr>vmem := movsl n d s (vmem c)\<rparr>))"

text \<open>Scrolling the whole screen of an EGA moves the origin, and the screen back to the start of
  the memory when it would run over its end.\<close>

definition screen_up :: "console \<Rightarrow> console" where
  "screen_up c =
     (let c = c\<lparr>origin := origin c + video_size_row c, pos := pos c + video_size_row c,
                scr_end := scr_end c + video_size_row c\<rparr>;
          c = (if scr_end c > video_mem_end c
               then let n = unat (drop_bit 1 ((video_num_lines c - 1) * video_num_columns c));
                        d = video_mem_start c;
                        c = erase_words (video_num_columns c) (d + 4 * of_nat n)
                              (c\<lparr>vmem := movsl n d (origin c) (vmem c)\<rparr>);
                        off = origin c - video_mem_start c
                    in c\<lparr>scr_end := scr_end c - off, pos := pos c - off, origin := video_mem_start c\<rparr>
               else erase_words (video_num_columns c) (scr_end c - video_size_row c) c)
      in set_origin c)"

definition scrup :: "console \<Rightarrow> console" where
  "scrup c =
     (if is_ega c
      then if scr_top c = 0 \<and> scr_bottom c = video_num_lines c then screen_up c else region_up c
      else region_up c)"

definition scrdown :: "console \<Rightarrow> console" where
  "scrdown c =
     (let n = unat (drop_bit 1 ((scr_bottom c - scr_top c - 1) * video_num_columns c));
          d = origin c + video_size_row c * scr_bottom c - 4;
          s = origin c + video_size_row c * (scr_bottom c - 1) - 4
      in c\<lparr>vmem := stosw_down (unat (video_num_columns c)) (d - 4 * of_nat n + 2) (video_erase_char c)
                    (movsl_down n d s (vmem c))\<rparr>)"

definition lf :: "console \<Rightarrow> console" where
  "lf c = (if cur_y c + 1 < scr_bottom c
           then c\<lparr>cur_y := cur_y c + 1, pos := pos c + video_size_row c\<rparr> else scrup c)"

definition ri :: "console \<Rightarrow> console" where
  "ri c = (if cur_y c > scr_top c
           then c\<lparr>cur_y := cur_y c - 1, pos := pos c - video_size_row c\<rparr> else scrdown c)"

definition cr :: "console \<Rightarrow> console" where
  "cr c = c\<lparr>pos := pos c - push_bit 1 (cur_x c), cur_x := 0\<rparr>"

definition del :: "console \<Rightarrow> console" where
  "del c = (if cur_x c \<noteq> 0
            then c\<lparr>pos := pos c - 2, cur_x := cur_x c - 1,
                   vmem := put_short (pos c - 2) (video_erase_char c) (vmem c)\<rparr>
            else c)"

section \<open>Erasing, inserting and deleting\<close>

definition csi_J :: "u32 \<Rightarrow> console \<Rightarrow> console" where
  "csi_J p c =
     (if p = 0 then erase_words (drop_bit 1 (scr_end c - pos c)) (pos c) c
      else if p = 1 then erase_words (drop_bit 1 (pos c - origin c)) (origin c) c
      else if p = 2 then erase_words (video_num_columns c * video_num_lines c) (origin c) c
      else c)"

definition csi_K :: "u32 \<Rightarrow> console \<Rightarrow> console" where
  "csi_K p c =
     (if p = 0
      then if cur_x c \<ge> video_num_columns c then c
           else erase_words (video_num_columns c - cur_x c) (pos c) c
      else if p = 1
      then erase_words (if cur_x c < video_num_columns c then cur_x c else video_num_columns c)
             (pos c - push_bit 1 (cur_x c)) c
      else if p = 2 then erase_words (video_num_columns c) (pos c - push_bit 1 (cur_x c)) c
      else c)"

definition set_attr :: "u32 \<Rightarrow> u8 \<Rightarrow> u8" where
  "set_attr p a = (if p = 0 then 0x07 else if p = 1 then 0x0f else if p = 4 then 0x0f
                   else if p = 7 then 0x70 else if p = 27 then 0x07 else a)"

definition csi_m :: "console \<Rightarrow> console" where
  "csi_m c = c\<lparr>attr := fold (\<lambda>i. set_attr (par c ! i)) [0..<Suc (npar c)] (attr c)\<rparr>"

text \<open>The loops over the rest of the cursor's line.\<close>

fun shift_right :: "nat \<Rightarrow> u32 \<Rightarrow> u16 \<Rightarrow> (u32 \<Rightarrow> u8) \<Rightarrow> u32 \<Rightarrow> u8" where
  "shift_right 0 p old m = m"
| "shift_right (Suc n) p old m = shift_right n (p + 2) (get_short p m) (put_short p old m)"

fun shift_left :: "nat \<Rightarrow> u32 \<Rightarrow> u16 \<Rightarrow> (u32 \<Rightarrow> u8) \<Rightarrow> u32 \<Rightarrow> u8" where
  "shift_left 0 p new m = put_short p new m"
| "shift_left (Suc n) p new m = shift_left n (p + 2) new (put_short p (get_short (p + 2) m) m)"

definition insert_char :: "console \<Rightarrow> console" where
  "insert_char c = c\<lparr>vmem := shift_right (unat (video_num_columns c) - unat (cur_x c)) (pos c)
                              (video_erase_char c) (vmem c)\<rparr>"

definition delete_char :: "console \<Rightarrow> console" where
  "delete_char c =
     (if cur_x c \<ge> video_num_columns c then c
      else c\<lparr>vmem := shift_left (unat (video_num_columns c) - unat (cur_x c) - 1) (pos c)
                       (video_erase_char c) (vmem c)\<rparr>)"

text \<open>A routine run with the scrolling region from the cursor's line to the last one.\<close>

definition from_cursor :: "(console \<Rightarrow> console) \<Rightarrow> console \<Rightarrow> console" where
  "from_cursor f c =
     (f (c\<lparr>scr_top := cur_y c, scr_bottom := video_num_lines c\<rparr>))
       \<lparr>scr_top := scr_top c, scr_bottom := scr_bottom c\<rparr>"

definition insert_line :: "console \<Rightarrow> console" where
  "insert_line = from_cursor scrdown"

definition delete_line :: "console \<Rightarrow> console" where
  "delete_line = from_cursor scrup"

definition clamp :: "u32 \<Rightarrow> u32 \<Rightarrow> nat" where
  "clamp most nr = unat (if nr > most then most else if nr = 0 then 1 else nr)"

definition csi_at :: "u32 \<Rightarrow> console \<Rightarrow> console" where
  "csi_at nr c = (insert_char ^^ clamp (video_num_columns c) nr) c"

definition csi_L :: "u32 \<Rightarrow> console \<Rightarrow> console" where
  "csi_L nr c = (insert_line ^^ clamp (video_num_lines c) nr) c"

definition csi_P :: "u32 \<Rightarrow> console \<Rightarrow> console" where
  "csi_P nr c = (delete_char ^^ clamp (video_num_columns c) nr) c"

definition csi_M :: "u32 \<Rightarrow> console \<Rightarrow> console" where
  "csi_M nr c = (delete_line ^^ clamp (video_num_lines c) nr) c"

definition save_cur :: "console \<Rightarrow> console" where
  "save_cur c = c\<lparr>saved_x := cur_x c, saved_y := cur_y c\<rparr>"

definition restore_cur :: "console \<Rightarrow> console" where
  "restore_cur c = gotoxy (saved_x c) (saved_y c) c"

section \<open>Escape sequences\<close>

text \<open>\<open>if (par[k]) par[k]--\<close> and \<open>if (!par[k]) par[k]++\<close>.\<close>

definition par_dec :: "nat \<Rightarrow> console \<Rightarrow> console" where
  "par_dec k c = (if par c ! k \<noteq> 0 then c\<lparr>par := (par c)[k := par c ! k - 1]\<rparr> else c)"

definition par_one :: "nat \<Rightarrow> console \<Rightarrow> console" where
  "par_one k c = (if par c ! k = 0 then c\<lparr>par := (par c)[k := 1]\<rparr> else c)"

definition goto_by :: "(u32 \<Rightarrow> console \<Rightarrow> u32 \<times> u32) \<Rightarrow> console \<Rightarrow> console" where
  "goto_by f c = (case f (par c ! 0) c of (nx, ny) \<Rightarrow> gotoxy nx ny c)"

definition set_region :: "console \<Rightarrow> console" where
  "set_region c =
     (let c = par_dec 0 c;
          c = (if par c ! 1 = 0 then c\<lparr>par := (par c)[1 := video_num_lines c]\<rparr> else c)
      in if par c ! 0 < par c ! 1 \<and> par c ! 1 \<le> video_num_lines c
         then c\<lparr>scr_top := par c ! 0, scr_bottom := par c ! 1\<rparr> else c)"

text \<open>The final character of a control sequence.\<close>

definition csi_final :: "u8 \<Rightarrow> console \<Rightarrow> console" where
  "csi_final ch c =
     (if ch = 71 \<or> ch = 96 then goto_by (\<lambda>p c. (p, cur_y c)) (par_dec 0 c)
      else if ch = 65 then goto_by (\<lambda>p c. (cur_x c, cur_y c - p)) (par_one 0 c)
      else if ch = 66 \<or> ch = 101 then goto_by (\<lambda>p c. (cur_x c, cur_y c + p)) (par_one 0 c)
      else if ch = 67 \<or> ch = 97 then goto_by (\<lambda>p c. (cur_x c + p, cur_y c)) (par_one 0 c)
      else if ch = 68 then goto_by (\<lambda>p c. (cur_x c - p, cur_y c)) (par_one 0 c)
      else if ch = 69 then goto_by (\<lambda>p c. (0, cur_y c + p)) (par_one 0 c)
      else if ch = 70 then goto_by (\<lambda>p c. (0, cur_y c - p)) (par_one 0 c)
      else if ch = 100 then goto_by (\<lambda>p c. (cur_x c, p)) (par_dec 0 c)
      else if ch = 72 \<or> ch = 102 then goto_by (\<lambda>p c. (par c ! 1, p)) (par_dec 1 (par_dec 0 c))
      else if ch = 74 then csi_J (par c ! 0) c
      else if ch = 75 then csi_K (par c ! 0) c
      else if ch = 76 then csi_L (par c ! 0) c
      else if ch = 77 then csi_M (par c ! 0) c
      else if ch = 80 then csi_P (par c ! 0) c
      else if ch = 64 then csi_at (par c ! 0) c
      else if ch = 109 then csi_m c
      else if ch = 114 then set_region c
      else if ch = 115 then save_cur c
      else if ch = 117 then restore_cur c
      else c)"

text \<open>States 3 and 4: a separator, a digit, or the final character.\<close>

definition csi_param :: "u8 \<Rightarrow> console \<Rightarrow> console" where
  "csi_param ch c =
     (if ch = 59 \<and> npar c < NPAR - 1 then c\<lparr>npar := Suc (npar c)\<rparr>
      else if 48 \<le> ch \<and> ch \<le> 57
      then c\<lparr>par := (par c)[npar c := 10 * par c ! npar c + ucast ch - 48]\<rparr>
      else csi_final ch (c\<lparr>con_state := 0\<rparr>))"

definition csi_begin :: "u8 \<Rightarrow> console \<Rightarrow> console" where
  "csi_begin ch c =
     (let c = c\<lparr>par := replicate NPAR 0, npar := 0, con_state := 3, ques := ch = 63\<rparr>
      in if ques c then c else csi_param ch c)"

section \<open>Characters\<close>

definition back_up :: "console \<Rightarrow> console" where
  "back_up c = c\<lparr>cur_x := cur_x c - video_num_columns c, pos := pos c - video_size_row c\<rparr>"

definition print_char :: "u8 \<Rightarrow> console \<Rightarrow> console" where
  "print_char ch c =
     (let c = (if cur_x c \<ge> video_num_columns c then lf (back_up c) else c)
      in c\<lparr>vmem := put_short (pos c) (push_bit 8 (ucast (attr c)) OR ucast ch) (vmem c),
           pos := pos c + 2, cur_x := cur_x c + 1\<rparr>)"

definition back_space :: "console \<Rightarrow> console" where
  "back_space c = (if cur_x c \<noteq> 0 then c\<lparr>cur_x := cur_x c - 1, pos := pos c - 2\<rparr> else c)"

definition tab_stop :: "console \<Rightarrow> console" where
  "tab_stop c =
     (let n = 8 - (cur_x c AND 7);
          c = c\<lparr>cur_x := cur_x c + n, pos := pos c + push_bit 1 n\<rparr>
      in if cur_x c > video_num_columns c then lf (back_up c) else c)"

definition sysbeep :: "(nat \<Rightarrow> ('f, 'c) ttys \<Rightarrow> u8) \<Rightarrow> ('f, 'c) ttys \<Rightarrow> ('f, 'c) ttys" where
  "sysbeep inb s =
     on_kern (sch_update (beepcount_update (\<lambda>_. HZ div 8)))
       (out_port 0x06 0x42 (out_port 0x37 0x42 (out_port 0xB6 0x43
         (out_port (inb 0x61 s OR 3) 0x61 s))))"

definition sysbeepstop :: "(nat \<Rightarrow> ('f, 'c) ttys \<Rightarrow> u8) \<Rightarrow> ('f, 'c) ttys \<Rightarrow> ('f, 'c) ttys" where
  "sysbeepstop inb s = out_port (inb 0x61 s AND 0xFC) 0x61 s"

text \<open>State 0, but for the bell: \<open>erase\<close> is the terminal's erase character.\<close>

definition plain_char :: "u8 \<Rightarrow> u8 \<Rightarrow> console \<Rightarrow> console" where
  "plain_char erase ch c =
     (if 31 < sint ch \<and> sint ch < 127 then print_char ch c
      else if ch = 27 then c\<lparr>con_state := 1\<rparr>
      else if ch = 10 \<or> ch = 11 \<or> ch = 12 then lf c
      else if ch = 13 then cr c
      else if same_char ch erase then del c
      else if ch = 8 then back_space c
      else if ch = 9 then tab_stop c
      else c)"

text \<open>State 1, but for the answer to \<open>ESC Z\<close>.\<close>

definition esc_char :: "u8 \<Rightarrow> console \<Rightarrow> console" where
  "esc_char ch c =
     (if ch = 91 then c\<lparr>con_state := 2\<rparr>
      else if ch = 69 then gotoxy 0 (cur_y c + 1) c
      else if ch = 77 then ri c
      else if ch = 68 then lf c
      else if cur_x c = 55 then save_cur c
      else if cur_x c = 56 then restore_cur c
      else c)"

definition RESPONSE :: "u8 list" where
  "RESPONSE = [27, 91, 63, 49, 59, 50, 99]"

definition respond :: "('f, console) tty_writer \<Rightarrow> nat \<Rightarrow> ('f, console) ttys \<Rightarrow> ('f, console) ttys res" where
  "respond wr i s = copy_to_cooked wr i (upd_tty i (read_q_update (put_all RESPONSE)) s)"

definition upd_con :: "(console \<Rightarrow> console) \<Rightarrow> ('f, console) ttys \<Rightarrow> ('f, console) ttys" where
  "upd_con f s = s\<lparr>con := f (con s)\<rparr>"

text \<open>One turn of the loop of \<open>con_write\<close> after \<open>GETCH\<close>.\<close>

definition con_char ::
    "('f, console) tty_writer \<Rightarrow> (nat \<Rightarrow> ('f, console) ttys \<Rightarrow> u8) \<Rightarrow> nat \<Rightarrow> u8 \<Rightarrow>
     ('f, console) ttys \<Rightarrow> ('f, console) ttys res" where
  "con_char wr inb i ch s =
     (let st = con_state (con s);
          erase = cc VERASE (tty_table s i)
      in if st = 0
         then if ch = 7 \<and> \<not> same_char ch erase then Inr (sysbeep inb s)
              else Inr (upd_con (plain_char erase ch) s)
         else if st = 1
         then let s = upd_con (con_state_update (\<lambda>_. 0)) s
              in if ch = 90 then respond wr i s else Inr (upd_con (esc_char ch) s)
         else if st = 2 then Inr (upd_con (csi_begin ch) s)
         else if st = 3 then Inr (upd_con (csi_param ch) s)
         else if st = 4 then Inr (upd_con (\<lambda>c. csi_final ch (c\<lparr>con_state := 0\<rparr>)) s)
         else Inr s)"

fun con_loop ::
    "('f, console) tty_writer \<Rightarrow> (nat \<Rightarrow> ('f, console) ttys \<Rightarrow> u8) \<Rightarrow> nat \<Rightarrow> nat \<Rightarrow>
     ('f, console) ttys \<Rightarrow> ('f, console) ttys res" where
  "con_loop wr inb i 0 s = Inr s"
| "con_loop wr inb i (Suc nr) s =
     (case GETCH (write_q (tty_table s i)) of
        (ch, q) \<Rightarrow> kbind (con_char wr inb i ch (upd_tty i (write_q_update (\<lambda>_. q)) s))
                       (con_loop wr inb i nr))"

definition con_write ::
    "('f, console) tty_writer \<Rightarrow> (nat \<Rightarrow> ('f, console) ttys \<Rightarrow> u8) \<Rightarrow> ('f, console) tty_writer" where
  "con_write wr inb i s =
     kbind (con_loop wr inb i (unat (CHARS (write_q (tty_table s i)))) s)
       (\<lambda>s. Inr (upd_con set_cursor s))"

text \<open>
  \<open>tty->write(tty)\<close>. The answer to \<open>ESC Z\<close> is echoed, so \<open>con_write\<close> calls itself through
  \<open>copy_to_cooked\<close>; the depth bounds how often.
\<close>

fun driver :: "(nat \<Rightarrow> ('f, console) ttys \<Rightarrow> u8) \<Rightarrow> nat \<Rightarrow> ('f, console) tty_writer" where
  "driver inb 0 i s = Inl Diverges"
| "driver inb (Suc d) i s =
     (case tty_drv (tty_table s i) of
        con_driver \<Rightarrow> con_write (driver inb d) inb i s
      | rs_driver \<Rightarrow> Inr (rs_write inb i s))"

section \<open>\<open>con_init\<close>\<close>

text \<open>What \<^verbatim>\<open>setup.s\<close> left at 0x90000.\<close>

record boot_video =
  orig_x :: u8
  orig_y :: u8
  orig_mode :: u16
  orig_ega_bx :: u16

text \<open>The static variables before \<open>con_init\<close>, with the memory as it is.\<close>

definition con_zero :: "(u32 \<Rightarrow> u8) \<Rightarrow> console" where
  "con_zero m = \<lparr>video_type = VIDEO_TYPE_MDA, video_num_columns = 0, video_size_row = 0,
     video_num_lines = 0, video_mem_start = 0, video_mem_end = 0, video_port_reg = 0,
     video_port_val = 0, video_erase_char = 0, origin = 0, scr_end = 0, pos = 0, cur_x = 0,
     cur_y = 0, scr_top = 0, scr_bottom = 0, con_state = 0, npar = 0, par = replicate NPAR 0,
     ques = False, attr = 0x07, saved_x = 0, saved_y = 0, vmem = m, con_ports = []\<rparr>"

text \<open>The four letters shown in the top right corner.\<close>

definition display_desc :: "video \<Rightarrow> u8 list" where
  "display_desc v = (case v of VIDEO_TYPE_EGAM \<Rightarrow> [69, 71, 65, 109] | VIDEO_TYPE_MDA \<Rightarrow> [42, 77, 68, 65]
                     | VIDEO_TYPE_EGAC \<Rightarrow> [69, 71, 65, 99] | VIDEO_TYPE_CGA \<Rightarrow> [42, 67, 71, 65])"

fun put_desc :: "u8 list \<Rightarrow> u32 \<Rightarrow> (u32 \<Rightarrow> u8) \<Rightarrow> u32 \<Rightarrow> u8" where
  "put_desc [] p m = m"
| "put_desc (v # vs) p m = put_desc vs (p + 2) (m(p := v))"

definition con_setup :: "boot_video \<Rightarrow> console \<Rightarrow> console" where
  "con_setup b c =
     (let cols = ucast (drop_bit 8 (orig_mode b)) :: u32;
          mono = (orig_mode b AND 0xff = 7);
          ega = (orig_ega_bx b AND 0xff \<noteq> 0x10);
          ty = (if mono then if ega then VIDEO_TYPE_EGAM else VIDEO_TYPE_MDA
                else if ega then VIDEO_TYPE_EGAC else VIDEO_TYPE_CGA);
          start = (if mono then 0xb0000 else 0xb8000);
          c = c\<lparr>video_num_columns := cols, video_size_row := cols * 2, video_num_lines := 25,
                video_erase_char := 0x0720, video_type := ty, video_mem_start := start,
                video_mem_end := (case ty of VIDEO_TYPE_EGAM \<Rightarrow> 0xb8000 | VIDEO_TYPE_MDA \<Rightarrow> 0xb2000
                                  | VIDEO_TYPE_EGAC \<Rightarrow> 0xbc000 | VIDEO_TYPE_CGA \<Rightarrow> 0xba000),
                video_port_reg := if mono then 0x3b4 else 0x3d4,
                video_port_val := if mono then 0x3b5 else 0x3d5,
                vmem := put_desc (display_desc ty) (start + cols * 2 - 8) (vmem c),
                origin := start, scr_end := start + 25 * (cols * 2), scr_top := 0, scr_bottom := 25\<rparr>
      in gotoxy (ucast (orig_x b)) (ucast (orig_y b)) c)"

text \<open>\<open>con_init\<close> also sets the keyboard's trap gate.\<close>

definition con_init ::
    "(nat \<Rightarrow> ('f, console) ttys \<Rightarrow> u8) \<Rightarrow> boot_video \<Rightarrow> ('f, console) ttys \<Rightarrow> ('f, console) ttys" where
  "con_init inb b s =
     (let s = upd_con (con_setup b) s;
          s = out_port (inb 0x21 s AND 0xfd) 0x21 s;
          a = inb 0x61 s
      in out_port a 0x61 (out_port (a OR 0x80) 0x61 s))"

definition tty_init ::
    "(nat \<Rightarrow> ('f, console) ttys \<Rightarrow> u8) \<Rightarrow> boot_video \<Rightarrow> ('f, console) ttys \<Rightarrow> ('f, console) ttys" where
  "tty_init inb b s = con_init inb b (rs_init inb s)"

end
