(* ===== verification/Console_Facts.thy ===== *)
theory Console_Facts
  imports Console
begin

text \<open>
  The console's screen: what the loops over the adaptor's memory write, scrolling as an operation
  on lines, the invariant of the cursor, and that \<open>con_write\<close> stays inside the adaptor's memory.
\<close>

section \<open>Loops over memory\<close>

lemma put_short_apply:
  assumes "unat d + 1 < 2 ^ 32"
  shows "put_short d w m a = (if unat d \<le> unat a \<and> unat a < unat d + 2
           then if even (unat a + unat d) then ucast w else ucast (drop_bit 8 w) else m a)"
proof -
  consider "a = d" | "unat a = unat d + 1" | "unat a < unat d \<or> unat d + 2 \<le> unat a"
    unfolding word_unat_eq_iff by linarith
  then show ?thesis
    using assms by cases (auto simp: put_short_def word_unat_eq_iff [of a] unat_add_one)
qed

lemma get_put_short:
  assumes "unat d + 1 < 2 ^ 32"
  shows "get_short d (put_short d w m) = w"
proof -
  have "d + 1 \<noteq> d" by simp
  then show ?thesis
    unfolding get_short_def put_short_def
    by (simp, intro bit_word_eqI) (auto simp: bit_simps)
qed

lemma get_short_cong:
  "m a = m' b \<Longrightarrow> m (a + 1) = m' (b + 1) \<Longrightarrow> get_short a m = get_short b m'"
  by (simp add: get_short_def)

lemma move_long_apply:
  assumes "unat d + 3 < 2 ^ 32"
  shows "move_long d s m a = (if unat d \<le> unat a \<and> unat a < unat d + 4 then m (a + (s - d)) else m a)"
proof (cases "unat d \<le> unat a \<and> unat a < unat d + 4")
  case True
  then have "a = d \<or> a = d + 1 \<or> a = d + 2 \<or> a = d + 3"
    using assms by (auto simp: word_unat_eq_iff unat_add_one unat_add_numeral)
  moreover have "d \<noteq> d + 1" "d \<noteq> d + 2" "d \<noteq> d + 3" "d + 1 \<noteq> d + 2" "d + 1 \<noteq> d + 3" "d + 2 \<noteq> d + 3"
    using assms by (simp_all add: word_unat_eq_iff unat_add_one unat_add_numeral del: add_left_cancel)
  ultimately show ?thesis
    using True unfolding move_long_def fun_upd_def
    by (elim disjE) (simp_all add: algebra_simps)
next
  case False
  then have "a \<noteq> d" "a \<noteq> d + 1" "a \<noteq> d + 2" "a \<noteq> d + 3"
    using assms by (auto simp: word_unat_eq_iff unat_add_one unat_add_numeral)
  then show ?thesis using False by (auto simp: move_long_def)
qed

lemma unat_shift:
  assumes "unat d \<le> unat a" "unat d \<le> unat s" "unat a - unat d + unat s < 2 ^ 32"
  shows "unat (a + (s - d) :: u32) = unat a + (unat s - unat d)"
  using assms by (simp add: unat_word_ariths unat_sub_if' word_le_nat_alt)

lemma movsl_apply:
  assumes "unat d \<le> unat s" "unat s + 4 * n < 2 ^ 32"
  shows "movsl n d s m a = (if unat d \<le> unat a \<and> unat a < unat d + 4 * n then m (a + (s - d)) else m a)"
  using assms
proof (induction n d s m rule: movsl.induct)
  case (2 n d s m)
  have d4: "unat (d + 4) = unat d + 4" "unat (s + 4) = unat s + 4"
    using 2(2,3) by (auto intro!: unat_add_numeral)
  have sd: "s + 4 - (d + 4) = s - d" by simp
  have IH: "movsl (Suc n) d s m a = (if unat d + 4 \<le> unat a \<and> unat a < unat d + 4 + 4 * n
      then move_long d s m (a + (s - d)) else move_long d s m a)"
    using 2(1) 2(2,3) by (simp only: movsl.simps d4 sd) simp
  have ml: "move_long d s m b = (if unat d \<le> unat b \<and> unat b < unat d + 4 then m (b + (s - d)) else m b)" for b
    using 2(2,3) by (intro move_long_apply) simp
  show ?case
  proof (cases "unat d + 4 \<le> unat a \<and> unat a < unat d + 4 + 4 * n")
    case True
    then have "unat (a + (s - d)) = unat a + (unat s - unat d)"
      using 2(2,3) by (intro unat_shift) auto
    then show ?thesis using True IH by (simp add: ml)
  next
    case False
    then show ?thesis using IH by (auto simp: ml)
  qed
qed auto

lemma stosw_apply:
  assumes "unat d + 2 * n < 2 ^ 32"
  shows "stosw n d w m a = (if unat d \<le> unat a \<and> unat a < unat d + 2 * n
           then if even (unat a + unat d) then ucast w else ucast (drop_bit 8 w) else m a)"
  using assms
proof (induction n d w m rule: stosw.induct)
  case (2 n d w m)
  have d2: "unat (d + 2) = unat d + 2"
    using 2(2) by (intro unat_add_numeral) simp
  have "stosw (Suc n) d w m a = (if unat d + 2 \<le> unat a \<and> unat a < unat d + 2 + 2 * n
      then if even (unat a + unat d) then ucast w else ucast (drop_bit 8 w) else put_short d w m a)"
    using 2 by (simp add: d2)
  moreover have "put_short d w m a = (if unat d \<le> unat a \<and> unat a < unat d + 2
           then if even (unat a + unat d) then ucast w else ucast (drop_bit 8 w) else m a)"
    using 2(2) by (intro put_short_apply) simp
  ultimately show ?case by (simp split: if_splits)
qed auto

text \<open>The loops that run downwards, from the last cell of the region.\<close>

lemma movsl_down_apply:
  assumes "unat s \<le> unat d" "4 * n \<le> unat s + 4" "unat d + 3 < 2 ^ 32"
  shows "movsl_down n d s m a =
    (if unat d + 4 \<le> unat a + 4 * n \<and> unat a < unat d + 4 then m (a + (s - d)) else m a)"
  using assms
proof (induction n d s m rule: movsl_down.induct)
  case (2 n d s m)
  have ml: "move_long d s m b = (if unat d \<le> unat b \<and> unat b < unat d + 4 then m (b + (s - d)) else m b)" for b
    using 2(4) by (intro move_long_apply) simp
  show ?case
  proof (cases "n = 0")
    case True
    then show ?thesis by (auto simp: ml)
  next
    case False
    then have s4: "4 \<le> unat s" using 2(3) by simp
    have d4: "unat (d - 4) = unat d - 4" "unat (s - 4) = unat s - 4"
      using s4 2(2) by (auto intro!: unat_sub_numeral)
    have sd: "s - 4 - (d - 4) = s - d" by simp
    have IH: "movsl_down (Suc n) d s m a = (if unat d \<le> unat a + 4 * n \<and> unat a < unat d
        then move_long d s m (a + (s - d)) else move_long d s m a)"
      using 2(1) 2(2-4) s4 by (simp only: movsl_down.simps d4 sd) simp
    show ?thesis
    proof (cases "unat d \<le> unat a + 4 * n \<and> unat a < unat d")
      case True
      have ad: "a + (s - d) = a - (d - s)" by simp
      have "unat d - unat s \<le> unat a"
        using True 2(3) by (simp add: le_diff_conv)
      then have "unat (a - (d - s)) = unat a - (unat d - unat s)"
        using 2(2) by (simp add: unat_sub_if' word_le_nat_alt)
      then have "unat (a + (s - d)) < unat d" using True unfolding ad by (simp add: less_imp_diff_less)
      then show ?thesis using True IH by (simp add: ml)
    next
      case False
      then show ?thesis using IH by (auto simp: ml)
    qed
  qed
qed auto

lemma stosw_down_apply:
  assumes "2 * n \<le> unat d + 2" "unat d + 1 < 2 ^ 32"
  shows "stosw_down n d w m a = (if unat d + 2 \<le> unat a + 2 * n \<and> unat a < unat d + 2
           then if even (unat a + unat d) then ucast w else ucast (drop_bit 8 w) else m a)"
  using assms
proof (induction n d w m rule: stosw_down.induct)
  case (2 n d w m)
  have ps: "put_short d w m a = (if unat d \<le> unat a \<and> unat a < unat d + 2
           then if even (unat a + unat d) then ucast w else ucast (drop_bit 8 w) else m a)"
    using 2(3) by (intro put_short_apply) simp
  show ?case
  proof (cases "n = 0")
    case True
    then show ?thesis by (simp add: ps)
  next
    case False
    then have d2: "unat (d - 2) = unat d - 2" "2 \<le> unat d"
      using 2(2) by (auto intro!: unat_sub_numeral)
    then have eq: "unat d - 2 + 2 = unat d" by simp
    have ev: "even (unat a + (unat d - 2)) = even (unat a + unat d)"
      using d2 by presburger
    have "stosw_down (Suc n) d w m a = (if unat d \<le> unat a + 2 * n \<and> unat a < unat d
        then if even (unat a + unat d) then ucast w else ucast (drop_bit 8 w) else put_short d w m a)"
      using 2(1) [unfolded d2 eq ev] 2(2,3) by (simp only: stosw_down.simps) simp
    then show ?thesis unfolding ps by (simp split: if_splits)
  qed
qed auto

lemma shift_right_outside:
  assumes "unat p + 2 * n < 2 ^ 32" "unat a < unat p \<or> unat p + 2 * n \<le> unat a"
  shows "shift_right n p old m a = m a"
  using assms
proof (induction n p old m rule: shift_right.induct)
  case (2 n p old m)
  have "unat (p + 2) = unat p + 2" using 2(2) by (intro unat_add_numeral) simp
  moreover have "put_short p old m a = m a"
    using 2(2,3) by (subst put_short_apply) auto
  ultimately show ?case using 2 by auto
qed simp

lemma shift_left_outside:
  assumes "unat p + 2 * n + 2 < 2 ^ 32" "unat a < unat p \<or> unat p + 2 * n + 2 \<le> unat a"
  shows "shift_left n p new m a = m a"
  using assms
proof (induction n p new m rule: shift_left.induct)
  case (1 p new m)
  then show ?case by (simp, subst put_short_apply) auto
next
  case (2 n p new m)
  have "unat (p + 2) = unat p + 2" using 2(2) by (intro unat_add_numeral) simp
  moreover have "put_short p (get_short (p + 2) m) m a = m a"
    using 2(2,3) by (subst put_short_apply) auto
  ultimately show ?case using 2 by auto
qed

section \<open>The invariant\<close>

text \<open>
  The screen lies in the adaptor's memory, the cursor is on the screen or just behind its line,
  \<open>pos\<close> is its address, the scrolling region is a nonempty range of lines, and the parameters of a
  control sequence stay in their array.
\<close>

abbreviation (input) cols :: "console \<Rightarrow> nat" where "cols c \<equiv> unat (video_num_columns c)"
abbreviation (input) lins :: "console \<Rightarrow> nat" where "lins c \<equiv> unat (video_num_lines c)"

definition line_bytes :: "nat \<Rightarrow> nat \<Rightarrow> nat" where
  "line_bytes w k = k * (2 * w)"

definition geometry_ok :: "console \<Rightarrow> bool" where
  "geometry_ok c \<longleftrightarrow> 8 \<le> cols c \<and> even (cols c) \<and> 1 \<le> lins c \<and>
     video_size_row c = 2 * video_num_columns c \<and>
     unat (video_mem_start c) + line_bytes (cols c) (lins c) \<le> unat (video_mem_end c) \<and>
     unat (video_mem_end c) < 0x80000000 \<and> unat (video_mem_start c) \<le> unat (origin c) \<and>
     unat (scr_end c) = unat (origin c) + line_bytes (cols c) (lins c) \<and>
     unat (scr_end c) \<le> unat (video_mem_end c)"

definition cursor_ok :: "console \<Rightarrow> bool" where
  "cursor_ok c \<longleftrightarrow> unat (cur_x c) \<le> cols c \<and> unat (cur_y c) < lins c \<and>
     unat (pos c) = unat (origin c) + line_bytes (cols c) (unat (cur_y c)) + 2 * unat (cur_x c)"

definition region_ok :: "console \<Rightarrow> bool" where
  "region_ok c \<longleftrightarrow> unat (scr_top c) < unat (scr_bottom c) \<and> unat (scr_bottom c) \<le> lins c"

definition params_ok :: "console \<Rightarrow> bool" where
  "params_ok c \<longleftrightarrow> npar c < 16 \<and> length (par c) = 16 \<and> con_state c \<le> 3"

definition con_ok :: "console \<Rightarrow> bool" where
  "con_ok c \<longleftrightarrow> geometry_ok c \<and> cursor_ok c \<and> region_ok c \<and> params_ok c"

lemma con_okI: "geometry_ok c \<Longrightarrow> cursor_ok c \<Longrightarrow> region_ok c \<Longrightarrow> params_ok c \<Longrightarrow> con_ok c"
  by (simp add: con_ok_def)

lemma unat_mult_small: "unat (a :: u32) * unat b < 4294967296 \<Longrightarrow> unat (a * b) = unat a * unat b"
  by (simp add: unat_word_ariths)

lemma unat_plus_small: "unat (a :: u32) + unat b < 4294967296 \<Longrightarrow> unat (a + b) = unat a + unat b"
  by (simp add: unat_word_ariths)

lemma unat_diff: "unat (b :: u32) \<le> unat a \<Longrightarrow> unat (a - b) = unat a - unat b"
  by (simp add: unat_sub_if' word_le_nat_alt)

lemma unat_half: "unat (drop_bit 1 (w :: u32)) = unat w div 2" "unat (drop_bit (Suc 0) w) = unat w div 2"
  by (simp_all add: drop_bit_eq_div unat_div)

lemma unat_double: "unat (w :: u32) < 0x80000000 \<Longrightarrow> unat (push_bit 1 w) = 2 * unat w"
  by (simp add: push_bit_eq_mult unat_word_ariths mult.commute)

lemma line_bytes_0 [simp]: "line_bytes w 0 = 0"
  and line_bytes_Suc: "line_bytes w (Suc k) = line_bytes w k + 2 * w"
  and line_bytes_even: "even (line_bytes w k)"
  by (simp_all add: line_bytes_def)

lemma line_bytes_double: "2 * (k * w) = line_bytes w k"
  by (simp add: line_bytes_def)

lemma line_bytes_mono: "k \<le> n \<Longrightarrow> line_bytes w k \<le> line_bytes w n"
  unfolding line_bytes_def by (rule mult_le_mono1)

lemma line_bytes_less: "k < n \<Longrightarrow> line_bytes w k + 2 * w \<le> line_bytes w n"
  using line_bytes_mono [of "Suc k" n w] by (simp add: line_bytes_Suc)

lemma geometry_screen:
  assumes "geometry_ok c"
  shows "unat (origin c) + line_bytes (cols c) (lins c) < 2147483648" and "2 * cols c \<le> line_bytes (cols c) (lins c)"
proof -
  show "unat (origin c) + line_bytes (cols c) (lins c) < 2147483648"
    using assms unfolding geometry_ok_def by linarith
  show "2 * cols c \<le> line_bytes (cols c) (lins c)"
    using assms line_bytes_mono [of 1 "lins c" "cols c"] by (simp add: geometry_ok_def line_bytes_Suc)
qed

lemma geometry_row:
  assumes "geometry_ok c"
  shows "unat (video_size_row c) = 2 * cols c"
proof -
  have "2 * cols c < 4294967296"
    using geometry_screen [OF assms] by linarith
  then show ?thesis
    using assms by (simp add: geometry_ok_def unat_mult_small)
qed

lemma line_address:
  assumes "geometry_ok c" "unat r \<le> lins c"
  shows "unat (origin c + video_size_row c * r) = unat (origin c) + line_bytes (cols c) (unat r)"
proof -
  note g = geometry_screen [OF assms(1)] line_bytes_mono [OF assms(2), of "cols c"]
  have eq: "unat (video_size_row c) * unat r = line_bytes (cols c) (unat r)"
    by (simp add: geometry_row [OF assms(1)] line_bytes_def)
  have m: "unat (video_size_row c * r) = line_bytes (cols c) (unat r)"
    unfolding eq [symmetric] by (rule unat_mult_small) (use g eq in linarith)
  then show ?thesis unfolding m [symmetric]
    by (intro unat_plus_small) (use g m in linarith)
qed

text \<open>The double words moved by a scroll of \<open>k + 1\<close> lines make \<open>k\<close> lines.\<close>

lemma scroll_count:
  assumes "geometry_ok c" "unat k \<le> lins c"
  shows "4 * unat (drop_bit 1 (k * video_num_columns c)) = line_bytes (cols c) (unat k)"
proof -
  note g = geometry_screen [OF assms(1)] line_bytes_mono [OF assms(2), of "cols c"]
  have m: "unat (k * video_num_columns c) = unat k * cols c"
    by (rule unat_mult_small) (use g line_bytes_double [of "unat k" "cols c"] in linarith)
  have "even (unat k * cols c)" using assms(1) by (simp add: geometry_ok_def)
  then have "2 * (unat k * cols c div 2) = unat k * cols c" by simp
  then show ?thesis by (simp add: unat_half m line_bytes_def)
qed

section \<open>What every operation keeps\<close>

definition off_screen :: "console \<Rightarrow> u32 \<Rightarrow> bool" where
  "off_screen c a \<longleftrightarrow> unat a < unat (video_mem_start c) \<or> unat (video_mem_end c) \<le> unat a"

definition same_adaptor :: "console \<Rightarrow> console \<Rightarrow> bool" where
  "same_adaptor c c' \<longleftrightarrow> video_type c' = video_type c \<and> video_num_columns c' = video_num_columns c \<and>
     video_num_lines c' = video_num_lines c \<and> video_mem_start c' = video_mem_start c \<and>
     video_mem_end c' = video_mem_end c"

definition keeps :: "console \<Rightarrow> console \<Rightarrow> bool" where
  "keeps c c' \<longleftrightarrow> con_ok c' \<and> same_adaptor c c' \<and> (\<forall>a. off_screen c a \<longrightarrow> vmem c' a = vmem c a)"

lemma con_keeps_refl: "con_ok c \<Longrightarrow> keeps c c"
  by (simp add: keeps_def same_adaptor_def)

lemma con_keeps_trans [trans]: "keeps c c' \<Longrightarrow> keeps c' c'' \<Longrightarrow> keeps c c''"
  by (simp add: keeps_def same_adaptor_def off_screen_def)

lemma keeps_ok: "keeps c c' \<Longrightarrow> con_ok c'"
  by (simp add: keeps_def)

lemma keeps_funpow:
  assumes "\<And>c. con_ok c \<Longrightarrow> keeps c (f c)" "con_ok c"
  shows "keeps c ((f ^^ n) c)"
proof (induction n)
  case (Suc n)
  then show ?case using assms(1) keeps_ok con_keeps_trans by fastforce
qed (simp add: con_keeps_refl assms)

lemma keeps_then: "con_ok c \<Longrightarrow> keeps c (f c) \<Longrightarrow> (con_ok (f c) \<Longrightarrow> keeps (f c) (g (f c))) \<Longrightarrow> keeps c (g (f c))"
  using keeps_ok con_keeps_trans by blast

lemmas con_defs = con_ok_def geometry_ok_def cursor_ok_def region_ok_def params_ok_def

lemma keeps_mem:
  assumes "con_ok c" "\<And>a. off_screen c a \<Longrightarrow> m a = vmem c a"
  shows "keeps c (c\<lparr>vmem := m\<rparr>)"
  using assms by (simp add: keeps_def same_adaptor_def con_defs)

lemma keeps_cursor:
  assumes "con_ok c" "cursor_ok (c\<lparr>cur_x := nx, cur_y := ny, pos := p\<rparr>)"
  shows "keeps c (c\<lparr>cur_x := nx, cur_y := ny, pos := p\<rparr>)"
  using assms by (simp add: keeps_def same_adaptor_def con_defs)

lemma keeps_erase:
  assumes "con_ok c" "unat (video_mem_start c) \<le> unat d" "unat d + 2 * unat n \<le> unat (video_mem_end c)"
  shows "keeps c (erase_words n d c)"
  unfolding erase_words_def
proof (rule keeps_mem [OF assms(1)])
  fix a assume "off_screen c a"
  then show "stosw (unat n) d (video_erase_char c) (vmem c) a = vmem c a"
    using assms by (subst stosw_apply) (auto simp: off_screen_def con_defs)
qed

lemma cursor_bounds:
  assumes "con_ok c"
  shows "unat (origin c) + line_bytes (cols c) (unat (cur_y c)) + 2 * cols c \<le> unat (scr_end c)"
    and "unat (pos c) \<le> unat (scr_end c)"
    and "unat (video_mem_start c) \<le> unat (pos c)"
    and "unat (scr_end c) \<le> unat (video_mem_end c)"
    and "unat (video_mem_end c) < 0x80000000"
proof -
  have "line_bytes (cols c) (unat (cur_y c)) + 2 * cols c \<le> line_bytes (cols c) (lins c)"
    using assms by (intro line_bytes_less) (simp add: con_defs)
  then show "unat (origin c) + line_bytes (cols c) (unat (cur_y c)) + 2 * cols c \<le> unat (scr_end c)"
    and "unat (pos c) \<le> unat (scr_end c)" "unat (video_mem_start c) \<le> unat (pos c)"
    "unat (scr_end c) \<le> unat (video_mem_end c)" "unat (video_mem_end c) < 0x80000000"
    using assms by (auto simp: con_defs)
qed

lemma origin_line_address:
  assumes "con_ok c" "unat r \<le> lins c"
  shows "unat (origin c + r * video_size_row c) = unat (origin c) + line_bytes (cols c) (unat r)"
  using line_address [of c r] assms by (simp add: con_ok_def mult.commute)

lemma cols_bound: "con_ok c \<Longrightarrow> cols c < 0x40000000"
  using geometry_screen [of c] by (simp add: con_ok_def)

lemma keeps_gotoxy:
  assumes "con_ok c"
  shows "keeps c (gotoxy nx ny c)"
proof (cases "nx > video_num_columns c \<or> ny \<ge> video_num_lines c")
  case False
  then have le: "unat nx \<le> cols c" "unat ny < lins c" by (simp_all add: word_le_nat_alt not_less not_le)
  have x2: "unat (push_bit 1 nx) = 2 * unat nx"
    using le(1) cols_bound [OF assms] by (intro unat_double) simp
  have l: "unat (origin c + ny * video_size_row c) = unat (origin c) + line_bytes (cols c) (unat ny)"
    using assms le by (intro origin_line_address) auto
  have "line_bytes (cols c) (unat ny) + 2 * cols c \<le> line_bytes (cols c) (lins c)"
    using le(2) by (rule line_bytes_less)
  moreover have "unat (origin c) + line_bytes (cols c) (lins c) < 2147483648"
    using assms geometry_screen by (simp add: con_ok_def)
  ultimately have "unat (origin c + ny * video_size_row c + push_bit 1 nx)
      = unat (origin c) + line_bytes (cols c) (unat ny) + 2 * unat nx"
    using le(1) l x2 by (subst unat_plus_small) linarith+
  then have "cursor_ok (c\<lparr>cur_x := nx, cur_y := ny, pos := origin c + ny * video_size_row c + push_bit 1 nx\<rparr>)"
    using le by (simp add: cursor_ok_def)
  with assms have "keeps c (c\<lparr>cur_x := nx, cur_y := ny, pos := origin c + ny * video_size_row c + push_bit 1 nx\<rparr>)"
    by (rule keeps_cursor)
  then show ?thesis using False by (simp add: gotoxy_def)
qed (simp add: gotoxy_def con_keeps_refl assms)

text \<open>Where a scroll of the region writes.\<close>

lemma scroll_region:
  assumes "con_ok c"
  defines "n \<equiv> unat (drop_bit 1 ((scr_bottom c - scr_top c - 1) * video_num_columns c))"
  shows "4 * n + 2 * cols c = line_bytes (cols c) (unat (scr_bottom c) - unat (scr_top c))"
    and "4 * n = line_bytes (cols c) (unat (scr_bottom c) - unat (scr_top c) - 1)"
proof -
  have tb: "unat (scr_top c) < unat (scr_bottom c)" "unat (scr_bottom c) \<le> lins c"
    using assms(1) by (auto simp: con_defs)
  then have k: "unat (scr_bottom c - scr_top c - 1) = unat (scr_bottom c) - unat (scr_top c) - 1"
    by (simp add: unat_sub_if' word_le_nat_alt)
  show n: "4 * n = line_bytes (cols c) (unat (scr_bottom c) - unat (scr_top c) - 1)"
    unfolding n_def k [symmetric]
    using assms(1) tb by (intro scroll_count) (auto simp: k con_ok_def)
  have "unat (scr_bottom c) - unat (scr_top c) = Suc (unat (scr_bottom c) - unat (scr_top c) - 1)"
    using tb by simp
  then show "4 * n + 2 * cols c = line_bytes (cols c) (unat (scr_bottom c) - unat (scr_top c))"
    unfolding n by (metis line_bytes_Suc)
qed

lemma region_facts:
  assumes "con_ok c"
  shows "unat (scr_top c) < unat (scr_bottom c)" and "unat (scr_bottom c) \<le> lins c"
    and "unat (origin c + video_size_row c * scr_top c) = unat (origin c) + line_bytes (cols c) (unat (scr_top c))"
    and "unat (origin c + video_size_row c * scr_bottom c) = unat (origin c) + line_bytes (cols c) (unat (scr_bottom c))"
    and "line_bytes (cols c) (unat (scr_bottom c)) \<le> line_bytes (cols c) (lins c)"
    and "line_bytes (cols c) (unat (scr_bottom c) - k) = line_bytes (cols c) (unat (scr_bottom c)) - k * (2 * cols c)"
proof -
  show tb: "unat (scr_top c) < unat (scr_bottom c)" "unat (scr_bottom c) \<le> lins c"
    using assms by (auto simp: con_defs)
  then show "unat (origin c + video_size_row c * scr_top c) = unat (origin c) + line_bytes (cols c) (unat (scr_top c))"
    and "unat (origin c + video_size_row c * scr_bottom c) = unat (origin c) + line_bytes (cols c) (unat (scr_bottom c))"
    using assms by (auto simp: con_ok_def intro!: line_address)
  show "line_bytes (cols c) (unat (scr_bottom c)) \<le> line_bytes (cols c) (lins c)"
    using tb(2) by (rule line_bytes_mono)
  show "line_bytes (cols c) (unat (scr_bottom c) - k) = line_bytes (cols c) (unat (scr_bottom c)) - k * (2 * cols c)"
    by (simp add: line_bytes_def diff_mult_distrib)
qed

text \<open>The memory after the lines of the region moved up, by address.\<close>

definition at_line :: "console \<Rightarrow> nat \<Rightarrow> nat" where
  "at_line c r = unat (origin c) + line_bytes (cols c) r"

lemma region_up_vmem:
  assumes "con_ok c"
  shows "vmem (region_up c) a =
    (if at_line c (unat (scr_top c)) \<le> unat a \<and> unat a < at_line c (unat (scr_bottom c) - 1)
     then vmem c (a + video_size_row c)
     else if at_line c (unat (scr_bottom c) - 1) \<le> unat a \<and> unat a < at_line c (unat (scr_bottom c))
     then if even (unat a + unat (origin c)) then ucast (video_erase_char c)
          else ucast (drop_bit 8 (video_erase_char c))
     else vmem c a)"
proof -
  define T B w where "T = unat (scr_top c)" and "B = unat (scr_bottom c)" and "w = cols c"
  define n where "n = unat (drop_bit 1 ((scr_bottom c - scr_top c - 1) * video_num_columns c))"
  define d where "d = origin c + video_size_row c * scr_top c"
  define s where "s = origin c + video_size_row c * (scr_top c + 1)"
  have sd: "s - d = video_size_row c" by (simp add: s_def d_def algebra_simps)
  have TB: "T < B" "B \<le> lins c" using region_facts(1,2) [OF assms] by (simp_all add: T_def B_def)
  have d: "unat d = unat (origin c) + line_bytes w T"
    using region_facts(3) [OF assms] by (simp add: d_def T_def w_def)
  have "unat (scr_top c + 1) = T + 1"
    using TB region_facts(1) [OF assms] unsigned_less [of "scr_bottom c", where 'a = nat]
    unfolding T_def by (intro unat_add_one) simp
  then have s: "unat s = unat (origin c) + line_bytes w (T + 1)"
    using line_address [of c "scr_top c + 1"] assms TB by (simp add: s_def con_ok_def w_def)
  have n: "4 * n = line_bytes w (B - T - 1)"
    using scroll_region(2) [OF assms] by (simp add: n_def T_def B_def w_def)
  have split: "line_bytes w T + line_bytes w (B - T - 1) = line_bytes w (B - 1)"
    "line_bytes w (T + 1) + line_bytes w (B - T - 1) = line_bytes w B"
    using TB by (auto simp: line_bytes_def simp flip: add_mult_distrib mult_Suc)
  moreover have "line_bytes w (B - 1) + 2 * w = line_bytes w B"
    using TB line_bytes_Suc [of w "B - 1"] by simp
  ultimately have split: "line_bytes w T + line_bytes w (B - T - 1) = line_bytes w (B - 1)"
    "line_bytes w (B - 1) + 2 * w = line_bytes w B"
    "line_bytes w (T + 1) + line_bytes w (B - T - 1) = line_bytes w B" by auto
  have top: "unat (origin c) + line_bytes w B < 0x80000000"
    using geometry_screen [of c] region_facts(5) [OF assms] assms by (simp add: con_ok_def B_def w_def)
  have "unat (d + of_nat (4 * n)) = unat d + 4 * n"
    using d n split top by (intro unat_add_small) simp
  then have e: "unat (d + 4 * of_nat n) = unat (origin c) + line_bytes w (B - 1)"
    unfolding of_nat_mult of_nat_numeral using d n split by linarith
  have mv: "movsl n d s (vmem c) b = (if unat d \<le> unat b \<and> unat b < unat d + 4 * n
      then vmem c (b + video_size_row c) else vmem c b)" for b
    using s d n split top unfolding sd [symmetric] by (intro movsl_apply) (simp_all add: line_bytes_Suc)
  have st: "vmem (region_up c) a = (if unat (origin c) + line_bytes w (B - 1) \<le> unat a \<and>
        unat a < unat (origin c) + line_bytes w (B - 1) + 2 * w
      then if even (unat a + (unat (origin c) + line_bytes w (B - 1))) then ucast (video_erase_char c)
           else ucast (drop_bit 8 (video_erase_char c)) else movsl n d s (vmem c) a)"
  proof -
    have "vmem (region_up c) a = stosw w (d + 4 * of_nat n) (video_erase_char c) (movsl n d s (vmem c)) a"
      unfolding region_up_def Let_def erase_words_def n_def [symmetric] d_def [symmetric] s_def [symmetric]
      by (simp add: w_def)
    moreover have "unat (origin c) + line_bytes w (B - 1) + 2 * w < 2 ^ 32"
      using split top by simp
    ultimately show ?thesis
      using stosw_apply [of "d + 4 * of_nat n" w "video_erase_char c" "movsl n d s (vmem c)" a, unfolded e]
      by (simp only:)
  qed
  show ?thesis
    unfolding st mv at_line_def T_def [symmetric] B_def [symmetric] w_def [symmetric]
    using d n split by (simp add: line_bytes_even add.assoc)
qed

lemma at_line_mono: "k \<le> l \<Longrightarrow> at_line c k \<le> at_line c l"
  by (simp add: at_line_def line_bytes_mono)

lemma region_in_memory:
  assumes "con_ok c"
  shows "at_line c (unat (scr_bottom c)) \<le> unat (video_mem_end c)"
    and "unat (video_mem_start c) \<le> at_line c k"
  using assms region_facts(5) [OF assms] by (auto simp: at_line_def con_defs)

lemma region_up_other:
  assumes "con_ok c" "unat a < at_line c (unat (scr_top c)) \<or> at_line c (unat (scr_bottom c)) \<le> unat a"
  shows "vmem (region_up c) a = vmem c a"
proof -
  have "at_line c (unat (scr_top c)) \<le> at_line c (unat (scr_bottom c) - 1)"
    "at_line c (unat (scr_bottom c) - 1) \<le> at_line c (unat (scr_bottom c))"
    using region_facts(1) [OF assms(1)] by (auto intro: at_line_mono)
  with assms(2) have "\<not> (at_line c (unat (scr_top c)) \<le> unat a \<and> unat a < at_line c (unat (scr_bottom c) - 1))"
    and "\<not> (at_line c (unat (scr_bottom c) - 1) \<le> unat a \<and> unat a < at_line c (unat (scr_bottom c)))"
    by linarith+
  then show ?thesis unfolding region_up_vmem [OF assms(1)] by (simp only: if_False)
qed

lemma keeps_region_up:
  assumes "con_ok c"
  shows "keeps c (region_up c)"
proof -
  have "keeps c (c\<lparr>vmem := vmem (region_up c)\<rparr>)"
  proof (rule keeps_mem [OF assms])
    fix a assume "off_screen c a"
    then have "unat a < at_line c (unat (scr_top c)) \<or> at_line c (unat (scr_bottom c)) \<le> unat a"
      using region_in_memory [OF assms] unfolding off_screen_def by (meson le_trans less_le_trans)
    then show "vmem (region_up c) a = vmem c a" by (rule region_up_other [OF assms])
  qed
  then show ?thesis by (simp add: region_up_def erase_words_def Let_def)
qed

section \<open>The screen as lines of cells\<close>

definition cell_at :: "console \<Rightarrow> nat \<Rightarrow> nat \<Rightarrow> u32" where
  "cell_at c r j = of_nat (at_line c r + 2 * j)"

definition screen :: "console \<Rightarrow> nat \<Rightarrow> nat \<Rightarrow> u16" where
  "screen c r j = get_short (cell_at c r j) (vmem c)"

text \<open>Lines \<open>t\<close> to \<open>b - 1\<close> move up, or down, by one; the line freed is filled with \<open>w\<close>.\<close>

definition lines_up :: "nat \<Rightarrow> nat \<Rightarrow> u16 \<Rightarrow> (nat \<Rightarrow> nat \<Rightarrow> u16) \<Rightarrow> nat \<Rightarrow> nat \<Rightarrow> u16" where
  "lines_up t b w f r = (if t \<le> r \<and> r + 1 < b then f (r + 1) else if r + 1 = b then (\<lambda>_. w) else f r)"

definition lines_down :: "nat \<Rightarrow> nat \<Rightarrow> u16 \<Rightarrow> (nat \<Rightarrow> nat \<Rightarrow> u16) \<Rightarrow> nat \<Rightarrow> nat \<Rightarrow> u16" where
  "lines_down t b w f r = (if t < r \<and> r < b then f (r - 1) else if r = t then (\<lambda>_. w) else f r)"

lemma cell_address:
  assumes "con_ok c" "r < lins c" "j < cols c"
  shows "unat (cell_at c r j) = at_line c r + 2 * j" and "unat (cell_at c r j + 1) = at_line c r + 2 * j + 1"
    and "at_line c r + 2 * j + 2 \<le> at_line c (Suc r)" and "at_line c (Suc r) \<le> unat (scr_end c)"
proof -
  show b: "at_line c r + 2 * j + 2 \<le> at_line c (Suc r)"
    using assms(3) by (simp add: at_line_def line_bytes_Suc)
  show e: "at_line c (Suc r) \<le> unat (scr_end c)"
    using assms(1,2) line_bytes_mono [of "Suc r" "lins c" "cols c"] by (simp add: at_line_def con_defs)
  have "at_line c r + 2 * j + 1 < 4294967296"
    using b e cursor_bounds(4,5) [OF assms(1)] by linarith
  then show "unat (cell_at c r j) = at_line c r + 2 * j" and "unat (cell_at c r j + 1) = at_line c r + 2 * j + 1"
    using unat_add_small [of 0 "at_line c r + 2 * j"] unat_add_small [of 0 "at_line c r + 2 * j + 1"]
    by (simp_all add: cell_at_def add.commute)
qed

lemma screen_region_up:
  assumes c: "con_ok c" "r < lins c" "j < cols c"
  shows "screen (region_up c) r j =
    lines_up (unat (scr_top c)) (unat (scr_bottom c)) (video_erase_char c) (screen c) r j"
proof -
  note addr = cell_address [OF c]
  have same: "cell_at (region_up c) r j = cell_at c r j"
    by (simp add: cell_at_def at_line_def region_up_def erase_words_def Let_def)
  have TB: "unat (scr_top c) < unat (scr_bottom c)" by (rule region_facts(1) [OF c(1)])
  have next_row: "cell_at c r j + video_size_row c = cell_at c (r + 1) j"
  proof -
    have "of_nat (2 * cols c) = video_size_row c"
      using c(1) by (simp add: con_defs)
    then show ?thesis by (simp add: cell_at_def at_line_def line_bytes_Suc ac_simps)
  qed
  consider "unat (scr_top c) \<le> r" "r + 1 < unat (scr_bottom c)" | "r + 1 = unat (scr_bottom c)"
    | "r < unat (scr_top c) \<or> unat (scr_bottom c) \<le> r" by linarith
  then show ?thesis
  proof cases
    case 1
    have "at_line c (unat (scr_top c)) \<le> at_line c r" "at_line c (Suc r) \<le> at_line c (unat (scr_bottom c) - 1)"
      using 1 by (auto intro: at_line_mono)
    then have "vmem (region_up c) (cell_at c r j) = vmem c (cell_at c r j + video_size_row c)"
      "vmem (region_up c) (cell_at c r j + 1) = vmem c (cell_at c r j + 1 + video_size_row c)"
      using addr by (simp_all add: region_up_vmem [OF c(1)])
    then have "screen (region_up c) r j = get_short (cell_at c r j + video_size_row c) (vmem c)"
      unfolding screen_def same by (intro get_short_cong) (simp_all add: ac_simps)
    then show ?thesis using 1 next_row by (simp add: lines_up_def screen_def)
  next
    case 2
    then have r: "unat (scr_bottom c) - Suc 0 = r" by simp
    have ev: "even (at_line c r + unat (origin c))" by (simp add: at_line_def line_bytes_even)
    have sb: "at_line c (Suc r) = at_line c (unat (scr_bottom c))" using 2 by simp
    have "vmem (region_up c) (cell_at c r j) = ucast (video_erase_char c)"
      "vmem (region_up c) (cell_at c r j + 1) = ucast (drop_bit 8 (video_erase_char c))"
      using addr ev unfolding sb by (simp_all add: region_up_vmem [OF c(1)] r)
    then have "screen (region_up c) r j = get_short 0 (put_short 0 (video_erase_char c) (\<lambda>_. 0))"
      unfolding screen_def same by (intro get_short_cong) (simp_all add: put_short_def)
    then show ?thesis using 2 by (simp add: lines_up_def get_put_short)
  next
    case 3
    have out: "unat a < at_line c (unat (scr_top c)) \<or> at_line c (unat (scr_bottom c)) \<le> unat a"
      if "at_line c r \<le> unat a" "unat a < at_line c (Suc r)" for a :: u32
      using 3 that at_line_mono [of "Suc r" "unat (scr_top c)" c] at_line_mono [of "unat (scr_bottom c)" r c]
      by auto
    have "vmem (region_up c) (cell_at c r j) = vmem c (cell_at c r j)"
      "vmem (region_up c) (cell_at c r j + 1) = vmem c (cell_at c r j + 1)"
      by (rule region_up_other [OF c(1)], rule out; use addr in simp)+
    then have "screen (region_up c) r j = get_short (cell_at c r j) (vmem c)"
      unfolding screen_def same by (intro get_short_cong)
    then show ?thesis using 3 TB by (auto simp: lines_up_def screen_def)
  qed
qed

lemma get_short_stosw:
  assumes "unat d + 2 * n < 2 ^ 32" "unat p = unat d + 2 * i" "unat (p + 1) = unat p + 1" "i < n"
  shows "get_short p (stosw n d w m) = w"
proof -
  have "get_short p (stosw n d w m) = get_short 0 (put_short 0 w (\<lambda>_. 0))"
    by (rule get_short_cong) (use assms in \<open>simp_all add: stosw_apply put_short_def\<close>)
  then show ?thesis by (simp add: get_put_short)
qed

lemma get_short_stosw_other:
  assumes "unat d + 2 * n < 2 ^ 32" "unat (p + 1) = unat p + 1"
    and "unat p + 1 < unat d \<or> unat d + 2 * n \<le> unat p"
  shows "get_short p (stosw n d w m) = get_short p m"
  by (rule get_short_cong) (use assms in \<open>auto simp: stosw_apply\<close>)

section \<open>Scrolling the whole screen\<close>

lemma scroll_step:
  assumes "con_ok c"
  shows "unat (origin c + video_size_row c) = unat (origin c) + 2 * cols c"
    and "unat (pos c + video_size_row c) = unat (pos c) + 2 * cols c"
    and "unat (scr_end c + video_size_row c) = unat (scr_end c) + 2 * cols c"
    and "2 * cols c \<le> line_bytes (cols c) (lins c)"
    and "unat (scr_end c) = at_line c (lins c)"
proof -
  have r: "unat (video_size_row c) = 2 * cols c" "2 * cols c < 0x80000000"
    using geometry_row [of c] cols_bound [OF assms] assms by (auto simp: con_ok_def)
  note b = cursor_bounds [OF assms]
  have "unat (origin c) \<le> unat (scr_end c)" using assms by (simp add: con_defs)
  then have "unat (origin c) + unat (video_size_row c) < 4294967296"
    "unat (pos c) + unat (video_size_row c) < 4294967296"
    "unat (scr_end c) + unat (video_size_row c) < 4294967296"
    using r b by linarith+
  then show "unat (origin c + video_size_row c) = unat (origin c) + 2 * cols c"
    and "unat (pos c + video_size_row c) = unat (pos c) + 2 * cols c"
    and "unat (scr_end c + video_size_row c) = unat (scr_end c) + 2 * cols c"
    using r(1) unat_plus_small by metis+
  show "2 * cols c \<le> line_bytes (cols c) (lins c)"
    using geometry_screen [of c] assms by (simp add: con_ok_def)
  show "unat (scr_end c) = at_line c (lins c)"
    using assms by (simp add: at_line_def con_defs)
qed

text \<open>Room below the screen: the origin moves on.\<close>

lemma screen_up_room:
  assumes c: "con_ok c" and room: "\<not> scr_end c + video_size_row c > video_mem_end c"
  defines "c' \<equiv> screen_up c"
  shows "keeps c c'" and "r < lins c \<Longrightarrow> j < cols c \<Longrightarrow>
    screen c' r j = lines_up 0 (lins c) (video_erase_char c) (screen c) r j"
proof -
  note st = scroll_step [OF c]
  have le: "unat (scr_end c) + 2 * cols c \<le> unat (video_mem_end c)"
    using room st(3) by (simp add: word_less_nat_alt)
  have b: "unat (scr_end c) + 2 * cols c < 0x80000000"
    using le cursor_bounds(5) [OF c] by simp
  have vm: "vmem c' = stosw (cols c) (scr_end c) (video_erase_char c) (vmem c)"
    using room by (simp add: c'_def screen_up_def Let_def set_origin_def con_out_def erase_words_def)
  have fields: "origin c' = origin c + video_size_row c" "pos c' = pos c + video_size_row c"
    "scr_end c' = scr_end c + video_size_row c" "cur_x c' = cur_x c" "cur_y c' = cur_y c"
    "scr_top c' = scr_top c" "scr_bottom c' = scr_bottom c" "npar c' = npar c" "par c' = par c"
    "con_state c' = con_state c" "video_size_row c' = video_size_row c" "same_adaptor c c'"
    using room by (simp_all add: c'_def screen_up_def Let_def set_origin_def con_out_def erase_words_def same_adaptor_def)
  have ok: "con_ok c'"
    using c le fields st by (auto simp: con_defs same_adaptor_def)
  show "keeps c c'"
    unfolding keeps_def
  proof (intro conjI allI impI ok fields(12))
    fix a assume "off_screen c a"
    then show "vmem c' a = vmem c a"
      unfolding vm using le b cursor_bounds(3,2) [OF c] by (subst stosw_apply) (auto simp: off_screen_def)
  qed
  assume rj: "r < lins c" "j < cols c"
  have row: "unat (of_nat (2 * cols c) :: u32) = 2 * cols c"
    using cols_bound [OF c] unat_add_small [of 0 "2 * cols c"] by simp
  have ol: "at_line c' r = at_line c (Suc r)"
    using st(1) fields(1,12) by (simp add: at_line_def same_adaptor_def line_bytes_Suc)
  then have cell: "cell_at c' r j = cell_at c (Suc r) j" by (simp add: cell_at_def)
  have rj': "r < lins c'" "j < cols c'" using rj fields(12) by (simp_all add: same_adaptor_def)
  note addr = cell_address [OF ok rj', unfolded ol cell]
  show "screen c' r j = lines_up 0 (lins c) (video_erase_char c) (screen c) r j"
  proof (cases "Suc r = lins c")
    case True
    then have "unat (cell_at c (Suc r) j) = unat (scr_end c) + 2 * j"
      using addr(1) st(5) by simp
    then have "get_short (cell_at c (Suc r) j) (vmem c') = video_erase_char c"
      unfolding vm using addr b rj by (intro get_short_stosw [where i = j]) simp_all
    then show ?thesis using True by (simp add: screen_def cell lines_up_def)
  next
    case False
    then have r1: "Suc r < lins c" using rj by simp
    note addr1 = cell_address [OF c r1 rj(2)]
    have "get_short (cell_at c (Suc r) j) (vmem c') = get_short (cell_at c (Suc r) j) (vmem c)"
      unfolding vm using addr1 b by (intro get_short_stosw_other) simp_all
    then show ?thesis using r1 by (simp add: screen_def cell lines_up_def)
  qed
qed

text \<open>No room: the screen is moved back to the start of the memory.\<close>

lemma screen_up_full:
  assumes c: "con_ok c" and full: "scr_end c + video_size_row c > video_mem_end c"
  defines "c' \<equiv> screen_up c"
  shows "keeps c c'" and "r < lins c \<Longrightarrow> j < cols c \<Longrightarrow>
    screen c' r j = lines_up 0 (lins c) (video_erase_char c) (screen c) r j"
proof -
  note st = scroll_step [OF c]
  define w L O' S where "w = cols c" and "L = lins c" and "O' = origin c + video_size_row c"
    and "S = video_mem_start c"
  define n where "n = unat (drop_bit 1 ((video_num_lines c - 1) * video_num_columns c))"
  have L: "1 \<le> L" using c by (simp add: con_defs L_def)
  then have L1: "unat (video_num_lines c - 1) = L - 1"
    by (simp add: L_def unat_sub_if' word_le_nat_alt)
  have n: "4 * n = line_bytes w (L - 1)"
    unfolding n_def L1 [symmetric] w_def using c L1 by (intro scroll_count) (auto simp: con_ok_def L_def)
  have Lw: "line_bytes w (L - 1) + 2 * w = line_bytes w L"
    using L line_bytes_Suc [of w "L - 1"] by simp
  have SO: "unat S + 2 * w \<le> unat O'" "unat O' + line_bytes w (L - 1) = unat (scr_end c)"
    "unat (scr_end c) < 0x80000000" "unat S + line_bytes w L \<le> unat (video_mem_end c)"
    "unat (video_mem_end c) < 0x80000000"
    using c st Lw cursor_bounds [OF c] by (auto simp: con_defs S_def O'_def w_def L_def)
  have "unat (S + of_nat (4 * n)) = unat S + 4 * n"
    using n Lw SO by (intro unat_add_small) simp
  then have e: "unat (S + 4 * of_nat n) = unat S + line_bytes w (L - 1)"
    unfolding of_nat_mult of_nat_numeral using n by linarith
  define M where "M = movsl n S O' (vmem c)"
  have vm: "vmem c' = stosw w (S + 4 * of_nat n) (video_erase_char c) M"
    using full by (simp add: c'_def screen_up_def Let_def set_origin_def con_out_def erase_words_def
        S_def M_def O'_def n_def w_def)
  have mv: "M a = (if unat S \<le> unat a \<and> unat a < unat S + line_bytes w (L - 1)
      then vmem c (a + (O' - S)) else vmem c a)" for a
    unfolding M_def n [symmetric] using SO n by (intro movsl_apply) simp_all
  have fields: "origin c' = S" "pos c' = pos c + video_size_row c - (O' - S)"
    "scr_end c' = scr_end c + video_size_row c - (O' - S)" "cur_x c' = cur_x c" "cur_y c' = cur_y c"
    "scr_top c' = scr_top c" "scr_bottom c' = scr_bottom c" "npar c' = npar c" "par c' = par c"
    "con_state c' = con_state c" "video_size_row c' = video_size_row c" "same_adaptor c c'"
    using full by (simp_all add: c'_def screen_up_def Let_def set_origin_def con_out_def erase_words_def
        same_adaptor_def S_def O'_def)
  have off: "unat (O' - S) = unat O' - unat S"
    using SO by (simp add: unat_sub_if' word_le_nat_alt)
  have po: "unat O' \<le> unat (pos c) + 2 * w" "unat O' \<le> unat (scr_end c) + 2 * w"
    using c st(1) by (simp_all add: con_defs O'_def w_def)
  have p': "unat (pos c') = unat (pos c) + 2 * w - (unat O' - unat S)"
    unfolding fields off [symmetric] w_def st(2) [symmetric]
    by (rule unat_diff) (use off po st(2) in \<open>simp add: w_def\<close>)
  have e': "unat (scr_end c') = unat (scr_end c) + 2 * w - (unat O' - unat S)"
    unfolding fields off [symmetric] w_def st(3) [symmetric]
    by (rule unat_diff) (use off po st(3) in \<open>simp add: w_def\<close>)
  have ok: "con_ok c'"
    using c SO fields p' e' st(1) unfolding w_def O'_def L_def S_def
    by (auto simp: con_defs same_adaptor_def)
  show "keeps c c'"
    unfolding keeps_def
  proof (intro conjI allI impI ok fields(12))
    fix a assume "off_screen c a"
    then show "vmem c' a = vmem c a"
      unfolding vm using e SO Lw by (subst stosw_apply) (auto simp: off_screen_def mv S_def)
  qed
  assume rj: "r < lins c" "j < cols c"
  then have rj': "r < lins c'" "j < cols c'" using fields(12) by (simp_all add: same_adaptor_def)
  have ol: "at_line c' r = unat S + line_bytes w r"
    using fields(1,12) by (simp add: at_line_def same_adaptor_def w_def)
  note addr = cell_address [OF ok rj', unfolded ol]
  have b: "unat (S + 4 * of_nat n) + 2 * w < 2 ^ 32" using e Lw SO by simp
  show "screen c' r j = lines_up 0 (lins c) (video_erase_char c) (screen c) r j"
  proof (cases "Suc r = L")
    case True
    then have "unat (cell_at c' r j) = unat (S + 4 * of_nat n) + 2 * j"
      using addr(1) e by auto
    then have "get_short (cell_at c' r j) (vmem c') = video_erase_char c"
      unfolding vm using addr b rj by (intro get_short_stosw [where i = j]) (simp_all add: w_def)
    then show ?thesis using True by (simp add: screen_def lines_up_def L_def)
  next
    case False
    then have r1: "Suc r < lins c" using rj by (simp add: L_def)
    have le: "line_bytes w r + 2 * w \<le> line_bytes w (L - 1)"
      using r1 by (intro line_bytes_less) (simp add: L_def)
    have "get_short (cell_at c' r j) (vmem c') = get_short (cell_at c' r j) M"
      unfolding vm using addr b e le rj by (intro get_short_stosw_other) (simp_all add: w_def)
    also have "\<dots> = get_short (cell_at c' r j + (O' - S)) (vmem c)"
      using addr le rj by (intro get_short_cong) (simp_all add: mv w_def ac_simps)
    also have "cell_at c' r j + (O' - S) = cell_at c (Suc r) j"
    proof -
      have "(of_nat (2 * cols c) :: u32) = video_size_row c" using c by (simp add: con_defs)
      then show ?thesis
        unfolding cell_at_def ol by (simp add: at_line_def line_bytes_Suc O'_def w_def ac_simps)
    qed
    finally show ?thesis using r1 by (simp add: screen_def lines_up_def)
  qed
qed

lemma keeps_scrup: "con_ok c \<Longrightarrow> keeps c (scrup c)"
  using screen_up_room(1) screen_up_full(1) keeps_region_up by (metis scrup_def)

lemma screen_scrup:
  assumes "con_ok c" "r < lins c" "j < cols c"
  shows "screen (scrup c) r j =
    lines_up (unat (scr_top c)) (unat (scr_bottom c)) (video_erase_char c) (screen c) r j"
proof (cases "is_ega c \<and> scr_top c = 0 \<and> scr_bottom c = video_num_lines c")
  case True
  then show ?thesis
    using screen_up_room(2) [OF assms(1) _ assms(2,3)] screen_up_full(2) [OF assms(1) _ assms(2,3)]
    by (cases "scr_end c + video_size_row c > video_mem_end c") (simp_all add: scrup_def)
next
  case False
  then show ?thesis using screen_region_up [OF assms] by (auto simp: scrup_def)
qed

section \<open>Scrolling down\<close>

lemma scrdown_vmem:
  assumes "con_ok c"
  shows "vmem (scrdown c) a =
    (if at_line c (unat (scr_top c) + 1) \<le> unat a \<and> unat a < at_line c (unat (scr_bottom c))
     then vmem c (a - video_size_row c)
     else if at_line c (unat (scr_top c)) \<le> unat a \<and> unat a < at_line c (unat (scr_top c) + 1)
     then if even (unat a + unat (origin c)) then ucast (video_erase_char c)
          else ucast (drop_bit 8 (video_erase_char c))
     else vmem c a)"
proof -
  define T B w where "T = unat (scr_top c)" and "B = unat (scr_bottom c)" and "w = cols c"
  define n where "n = unat (drop_bit 1 ((scr_bottom c - scr_top c - 1) * video_num_columns c))"
  define d where "d = origin c + video_size_row c * scr_bottom c - 4"
  define s where "s = origin c + video_size_row c * (scr_bottom c - 1) - 4"
  have sd: "s - d = - video_size_row c" by (simp add: s_def d_def algebra_simps)
  have TB: "T < B" "B \<le> lins c" using region_facts(1,2) [OF assms] by (simp_all add: T_def B_def)
  have w: "8 \<le> w" using assms by (auto simp: con_defs w_def)
  have n: "4 * n = line_bytes w (B - T - 1)" "4 * n + 2 * w = line_bytes w (B - T)"
    using scroll_region [OF assms] by (simp_all add: n_def T_def B_def w_def)
  have split: "line_bytes w T + line_bytes w (B - T) = line_bytes w B"
    "line_bytes w T + 2 * w = line_bytes w (T + 1)"
    "line_bytes w (T + 1) + line_bytes w (B - T - 1) = line_bytes w B"
    "line_bytes w (B - 1) + 2 * w = line_bytes w B"
    using TB line_bytes_Suc [of w "B - 1"] line_bytes_Suc [of w T]
    by (auto simp: line_bytes_def simp flip: add_mult_distrib mult_Suc)
  have top: "unat (origin c) + line_bytes w B < 0x80000000"
    using geometry_screen [of c] region_facts(5) [OF assms] assms by (simp add: con_ok_def B_def w_def)
  have dB: "unat (origin c + video_size_row c * scr_bottom c) = unat (origin c) + line_bytes w B"
    using region_facts(4) [OF assms] by (simp add: B_def w_def)
  have d: "unat d + 4 = unat (origin c) + line_bytes w B"
    using dB split w unat_sub_numeral [of "num.Bit0 (num.Bit0 num.One)" "origin c + video_size_row c * scr_bottom c"]
    by (simp add: d_def)
  have db: "unat (d - 4 * of_nat n + 2) = unat (origin c) + line_bytes w T + 2 * w - 2"
  proof -
    have eq: "d - 4 * of_nat n + 2 = d + 2 - of_nat (4 * n)" by simp
    have d2: "unat (d + 2) = unat d + 2" using d top by (intro unat_add_numeral) simp
    have "unat (d + 2 - of_nat (4 * n)) = unat (d + 2) - 4 * n"
      using d d2 n split w by (intro unat_sub_small) simp
    then show ?thesis unfolding eq d2 using d n split w by linarith
  qed
  have mv: "movsl_down n d s (vmem c) b = (if unat d + 4 \<le> unat b + 4 * n \<and> unat b < unat d + 4
      then vmem c (b - video_size_row c) else vmem c b)" for b
  proof (cases "n = 0")
    case False
    then have "2 \<le> B" using n(1) TB by (cases "B - T - 1") (auto simp: line_bytes_def)
    have u1: "unat (scr_bottom c - 1) = B - 1"
      using TB unat_sub_small [of 1 "scr_bottom c"] by (simp add: B_def)
    then have "unat (origin c + video_size_row c * (scr_bottom c - 1)) = unat (origin c) + line_bytes w (B - 1)"
      using line_address [of c "scr_bottom c - 1"] assms TB by (simp add: con_ok_def w_def)
    moreover have "4 * n \<le> line_bytes w (B - 1)"
      unfolding n by (intro line_bytes_mono) simp
    moreover have "1 \<le> B - 1" using \<open>2 \<le> B\<close> by linarith
    then have "4 \<le> line_bytes w (B - 1)"
      using w line_bytes_mono [of 1 "B - 1" w] by (simp add: line_bytes_Suc)
    ultimately have "unat s = unat (origin c) + line_bytes w (B - 1) - 4"
      using unat_sub_numeral [of "num.Bit0 (num.Bit0 num.One)" "origin c + video_size_row c * (scr_bottom c - 1)"]
      by (simp add: s_def)
    then have "unat s \<le> unat d" "4 * n \<le> unat s + 4" "unat d + 3 < 2 ^ 32"
      using d split top \<open>4 * n \<le> _\<close> \<open>4 \<le> _\<close> by simp_all
    moreover have "b + (s - d) = b - video_size_row c" unfolding sd by simp
    ultimately show ?thesis using movsl_down_apply [of s d n "vmem c" b] by (simp only:)
  qed auto
  have st: "vmem (scrdown c) a = (if unat (origin c) + line_bytes w T \<le> unat a \<and>
        unat a < unat (origin c) + line_bytes w T + 2 * w
      then if even (unat a + unat (origin c)) then ucast (video_erase_char c)
           else ucast (drop_bit 8 (video_erase_char c)) else movsl_down n d s (vmem c) a)"
  proof -
    have v: "vmem (scrdown c) a = stosw_down w (d - 4 * of_nat n + 2) (video_erase_char c) (movsl_down n d s (vmem c)) a"
      unfolding scrdown_def Let_def n_def [symmetric] d_def [symmetric] s_def [symmetric]
      by (simp add: w_def)
    define X where "X = d - 4 * of_nat n + 2"
    have X: "unat X + 2 = unat (origin c) + line_bytes w T + 2 * w"
      unfolding X_def db using w by linarith
    then have ev: "even (unat a + unat X) = even (unat a + unat (origin c))"
      using line_bytes_even [of w T] by presburger
    have "2 * w \<le> unat X + 2" "unat X + 1 < 2 ^ 32"
      using X top split TB by simp_all
    from stosw_down_apply [OF this, of "video_erase_char c" "movsl_down n d s (vmem c)" a]
    show ?thesis unfolding v X_def [symmetric] by (simp only: X ev add_le_cancel_right)
  qed
  show ?thesis
    unfolding st mv at_line_def T_def [symmetric] B_def [symmetric] w_def [symmetric]
    using d n split TB by (simp add: add.assoc)
qed

lemma scrdown_other:
  assumes "con_ok c" "unat a < at_line c (unat (scr_top c)) \<or> at_line c (unat (scr_bottom c)) \<le> unat a"
  shows "vmem (scrdown c) a = vmem c a"
proof -
  have "at_line c (unat (scr_top c)) \<le> at_line c (unat (scr_top c) + 1)"
    "at_line c (unat (scr_top c) + 1) \<le> at_line c (unat (scr_bottom c))"
    using region_facts(1) [OF assms(1)] by (auto intro: at_line_mono)
  with assms(2) have "\<not> (at_line c (unat (scr_top c) + 1) \<le> unat a \<and> unat a < at_line c (unat (scr_bottom c)))"
    and "\<not> (at_line c (unat (scr_top c)) \<le> unat a \<and> unat a < at_line c (unat (scr_top c) + 1))"
    by linarith+
  then show ?thesis unfolding scrdown_vmem [OF assms(1)] by (simp only: if_False)
qed

lemma keeps_scrdown:
  assumes "con_ok c"
  shows "keeps c (scrdown c)"
proof -
  have "keeps c (c\<lparr>vmem := vmem (scrdown c)\<rparr>)"
  proof (rule keeps_mem [OF assms])
    fix a assume "off_screen c a"
    then have "unat a < at_line c (unat (scr_top c)) \<or> at_line c (unat (scr_bottom c)) \<le> unat a"
      using region_in_memory [OF assms] unfolding off_screen_def by (meson le_trans less_le_trans)
    then show "vmem (scrdown c) a = vmem c a" by (rule scrdown_other [OF assms])
  qed
  then show ?thesis by (simp add: scrdown_def Let_def)
qed

lemma next_line_cell: "con_ok c \<Longrightarrow> cell_at c (Suc r) j = cell_at c r j + video_size_row c"
  by (simp add: con_defs cell_at_def at_line_def line_bytes_Suc ac_simps)

lemma screen_scrdown:
  assumes c: "con_ok c" "r < lins c" "j < cols c"
  shows "screen (scrdown c) r j =
    lines_down (unat (scr_top c)) (unat (scr_bottom c)) (video_erase_char c) (screen c) r j"
proof -
  note addr = cell_address [OF c]
  have same: "cell_at (scrdown c) r j = cell_at c r j"
    by (simp add: cell_at_def at_line_def scrdown_def Let_def)
  have TB: "unat (scr_top c) < unat (scr_bottom c)" by (rule region_facts(1) [OF c(1)])
  consider "unat (scr_top c) < r" "r < unat (scr_bottom c)" | "r = unat (scr_top c)"
    | "r < unat (scr_top c) \<or> unat (scr_bottom c) \<le> r" by linarith
  then show ?thesis
  proof cases
    case 1
    then obtain q where q: "r = Suc q" by (cases r) auto
    have "at_line c (unat (scr_top c) + 1) \<le> at_line c r" "at_line c (Suc r) \<le> at_line c (unat (scr_bottom c))"
      using 1 by (auto intro: at_line_mono)
    then have "vmem (scrdown c) (cell_at c r j) = vmem c (cell_at c r j - video_size_row c)"
      "vmem (scrdown c) (cell_at c r j + 1) = vmem c (cell_at c r j + 1 - video_size_row c)"
      using addr by (simp_all add: scrdown_vmem [OF c(1)])
    then have "screen (scrdown c) r j = get_short (cell_at c q j) (vmem c)"
      unfolding screen_def same unfolding q next_line_cell [OF c(1)]
      by (intro get_short_cong) (simp_all add: algebra_simps)
    then show ?thesis using 1 q by (simp add: lines_down_def screen_def)
  next
    case 2
    have ev: "even (at_line c r + unat (origin c))" by (simp add: at_line_def line_bytes_even)
    have "vmem (scrdown c) (cell_at c r j) = ucast (video_erase_char c)"
      "vmem (scrdown c) (cell_at c r j + 1) = ucast (drop_bit 8 (video_erase_char c))"
      using addr ev unfolding 2 by (simp_all add: scrdown_vmem [OF c(1)])
    then have "screen (scrdown c) r j = get_short 0 (put_short 0 (video_erase_char c) (\<lambda>_. 0))"
      unfolding screen_def same by (intro get_short_cong) (simp_all add: put_short_def)
    then show ?thesis using 2 by (simp add: lines_down_def get_put_short)
  next
    case 3
    have out: "unat a < at_line c (unat (scr_top c)) \<or> at_line c (unat (scr_bottom c)) \<le> unat a"
      if "at_line c r \<le> unat a" "unat a < at_line c (Suc r)" for a :: u32
      using 3 that at_line_mono [of "Suc r" "unat (scr_top c)" c] at_line_mono [of "unat (scr_bottom c)" r c]
      by auto
    have "vmem (scrdown c) (cell_at c r j) = vmem c (cell_at c r j)"
      "vmem (scrdown c) (cell_at c r j + 1) = vmem c (cell_at c r j + 1)"
      by (rule scrdown_other [OF c(1)], rule out; use addr in simp)+
    then have "screen (scrdown c) r j = get_short (cell_at c r j) (vmem c)"
      unfolding screen_def same by (intro get_short_cong)
    then show ?thesis using 3 TB by (auto simp: lines_down_def screen_def)
  qed
qed

end
