(* ===== verification/Tty_Facts.thy ===== *)
theory Tty_Facts
  imports Tty Byte_Queue
begin

text \<open>
  The line discipline: what a driver's write routine keeps, \<open>copy_to_cooked\<close> keeps; the queues as
  lists of bytes; raw and canonical input.
\<close>

section \<open>Results that satisfy a property\<close>

definition ok_res :: "('a \<Rightarrow> bool) \<Rightarrow> 'a res \<Rightarrow> bool" where
  "ok_res P r \<longleftrightarrow> (\<forall>x. r = Inr x \<longrightarrow> P x)"

lemma ok_res_intros [intro]:
  "ok_res P (Inl e)"
  "P x \<Longrightarrow> ok_res P (Inr x)"
  by (simp_all add: ok_res_def)

lemma ok_res_kbind: "ok_res Q m \<Longrightarrow> (\<And>x. Q x \<Longrightarrow> ok_res P (f x)) \<Longrightarrow> ok_res P (kbind m f)"
  by (cases m) (auto simp: ok_res_def)

lemma ok_res_if: "(b \<Longrightarrow> ok_res P x) \<Longrightarrow> (\<not> b \<Longrightarrow> ok_res P y) \<Longrightarrow> ok_res P (if b then x else y)"
  by simp

lemma ok_res_D: "ok_res P r \<Longrightarrow> r = Inr x \<Longrightarrow> P x"
  by (simp add: ok_res_def)

lemma ok_res_returns: "(\<And>x. m = Some x \<Longrightarrow> ok_res P x) \<Longrightarrow> ok_res P (returns m)"
  by (cases m) (auto simp: returns_def)

section \<open>What the driver keeps\<close>

text \<open>
  What the line discipline does to the state: a property that each of these steps keeps is kept by
  \<open>copy_to_cooked\<close>.
\<close>

locale tty_keeps =
  fixes wr :: "('f, 'c) tty_writer"
    and P :: "('f, 'c) ttys \<Rightarrow> bool"
  assumes wr_keeps: "P s \<Longrightarrow> ok_res P (wr i s)"
    and echo_keeps: "P s \<Longrightarrow> P (upd_tty i (write_q_update (put_all cs)) s)"
    and take_keeps: "P s \<Longrightarrow> P (upd_tty i (read_q_update (\<lambda>_. snd (GETCH (read_q (tty_table s i))))) s)"
    and put_keeps: "P s \<Longrightarrow> P (upd_tty i (secondary_update (PUTCH c)) s)"
    and drop_keeps: "P s \<Longrightarrow> P (upd_tty i (secondary_update (q_head_update DEC)) s)"
    and data_keeps: "P s \<Longrightarrow> P (upd_tty i (secondary_update (q_data_update g)) s)"
    and stop_keeps: "P s \<Longrightarrow> P (upd_tty i (stopped_update g') s)"
    and wait_keeps: "P s \<Longrightarrow> P (upd_tty i (secondary_update (proc_list_update h)) s)"
    and kern_keeps: "P s \<Longrightarrow> P (on_kern g'' s)"
begin

lemma echo_erase_keeps: "P s \<Longrightarrow> ok_res P (echo_erase wr i s)"
  by (simp add: echo_erase_def Let_def wr_keeps echo_keeps ok_res_intros)

lemma drop_last_keeps: "P s \<Longrightarrow> P (drop_last i s)"
  by (simp add: drop_last_def drop_keeps)

lemma kill_line_keeps:
  assumes "kill_line wr i s = Some r" "P s"
  shows "ok_res P r"
proof -
  let ?Q = "\<lambda>w (i :: nat) s r. w = wr \<longrightarrow> P s \<longrightarrow> ok_res P r"
  have "?Q wr i s r"
  proof (rule kill_line.raw_induct [where P = ?Q, OF _ assms(1)], intro impI)
    fix k w i s r
    assume IH: "\<And>w (i :: nat) s r. k w i s = Some r \<Longrightarrow> ?Q w i s r" and w: "w = wr" and P: "P s"
      and eq: "(if nothing_to_erase (tty_table s i) then Some (Inr s)
        else case echo_erase w i s of Inl e \<Rightarrow> Some (Inl e) | Inr s \<Rightarrow> k w i (drop_last i s)) = Some r"
    show "ok_res P r"
    proof (cases "echo_erase wr i s")
      case (Inr s1)
      then have "P (drop_last i s1)"
        by (intro drop_last_keeps ok_res_D [OF echo_erase_keeps [OF P]])
      then show ?thesis using eq w Inr P IH [of w i "drop_last i s1" r] by (auto split: if_splits)
    qed (use eq w P in \<open>auto split: if_splits intro: echo_erase_keeps\<close>)
  qed
  with assms(2) show ?thesis by simp
qed

lemma take_char_keeps: "P s \<Longrightarrow> ok_res P (take_char wr i c s)"
  unfolding take_char_def Let_def
  by (rule ok_res_kbind [where Q = P]) (simp_all add: wr_keeps echo_keeps put_keeps data_keeps ok_res_intros)

lemma cook_char_keeps:
  assumes "P s"
  shows "ok_res P (cook_char wr i c s)"
proof (cases "translate (tty_table s i) c")
  case (Some c)
  have any: "ok_res (\<lambda>_. True) m" for m :: "u8 res" by (simp add: ok_res_def)
  have erase: "ok_res P (kbind (echo_erase wr i s) (\<lambda>s. Inr (drop_last i s)))"
    by (rule ok_res_kbind [OF echo_erase_keeps [OF assms]]) (simp add: drop_last_keeps ok_res_intros)
  have kill: "ok_res P (returns (kill_line wr i s))"
    by (rule ok_res_returns) (rule kill_line_keeps [OF _ assms])
  show ?thesis
    unfolding cook_char_def Let_def Some option.case
    by (rule ok_res_kbind [OF any])
      (intro ok_res_if ok_res_intros kill erase take_char_keeps stop_keeps kern_keeps assms)
qed (simp add: cook_char_def Let_def assms ok_res_intros)

lemma taken_keeps: "P s \<Longrightarrow> GETCH (read_q (tty_table s i)) = (c, q) \<Longrightarrow> P (upd_tty i (read_q_update (\<lambda>_. q)) s)"
  using take_keeps [of s i] by simp

lemma cook_loop_keeps:
  assumes "cook_loop wr i s = Some r" "P s"
  shows "ok_res P r"
proof -
  let ?Q = "\<lambda>w (i :: nat) s r. w = wr \<longrightarrow> P s \<longrightarrow> ok_res P r"
  have "?Q wr i s r"
    by (rule cook_loop.raw_induct [where P = ?Q, OF _ assms(1)])
      (auto simp: Let_def split: if_splits sum.splits prod.splits
        intro: taken_keeps cook_char_keeps dest: ok_res_D [OF cook_char_keeps [OF taken_keeps], rotated])
  with assms(2) show ?thesis by simp
qed

lemma copy_to_cooked_keeps: "P s \<Longrightarrow> ok_res P (copy_to_cooked wr i s)"
  unfolding copy_to_cooked_def
  by (rule ok_res_kbind [where Q = P])
    (auto simp: wake_secondary_def split: prod.splits
      intro!: ok_res_returns wait_keeps kern_keeps intro: cook_loop_keeps)

end

text \<open>A property that does not look at the terminals, nor at the kernel.\<close>

locale tty_ignores =
  fixes wr :: "('f, 'c) tty_writer"
    and P :: "('f, 'c) ttys \<Rightarrow> bool"
  assumes out_keeps: "P s \<Longrightarrow> ok_res P (wr i s)"
    and any_tty: "P (upd_tty i f s) \<longleftrightarrow> P s"
    and any_kern: "P (on_kern g s) \<longleftrightarrow> P s"

sublocale tty_ignores \<subseteq> tty_keeps
  by unfold_locales (simp_all add: out_keeps any_tty any_kern)

end
