(* ===== verification/Console_Safe.thy ===== *)
theory Console_Safe
  imports Console_Facts Tty_Facts
begin

text \<open>
  Every operation of the console keeps its invariant and leaves alone the memory that is not the
  adaptor's, and so does \<open>con_write\<close> on any characters.
\<close>

section \<open>The cursor\<close>

lemma keeps_lf:
  assumes "con_ok c"
  shows "keeps c (lf c)"
proof (cases "cur_y c + 1 < scr_bottom c")
  case True
  have y: "unat (cur_y c + 1) = unat (cur_y c) + 1"
    using assms cursor_bounds(5) unsigned_less [of "video_num_lines c", where 'a = nat]
    by (intro unat_add_one) (auto simp: con_defs)
  then have "unat (cur_y c) + 1 < lins c"
    using True region_facts(2) [OF assms] by (simp add: word_less_nat_alt)
  then have "cursor_ok (c\<lparr>cur_x := cur_x c, cur_y := cur_y c + 1, pos := pos c + video_size_row c\<rparr>)"
    using assms y scroll_step(2) [OF assms] by (simp add: con_defs line_bytes_Suc)
  from keeps_cursor [OF assms this] show ?thesis using True by (simp add: lf_def)
qed (simp add: lf_def keeps_scrup assms)

lemma keeps_ri:
  assumes "con_ok c"
  shows "keeps c (ri c)"
proof (cases "cur_y c > scr_top c")
  case True
  then have y1: "1 \<le> unat (cur_y c)" by (simp add: word_less_nat_alt)
  then have y: "unat (cur_y c - 1) = unat (cur_y c) - 1"
    using unat_sub_small [of 1 "cur_y c"] by simp
  then obtain k where k: "unat (cur_y c) = Suc k" using y1 by (cases "unat (cur_y c)") auto
  have r: "unat (video_size_row c) = 2 * cols c" using geometry_row [of c] assms by (simp add: con_ok_def)
  have "2 * cols c \<le> unat (pos c)" using assms by (simp add: con_defs k line_bytes_Suc)
  then have "unat (pos c - video_size_row c) = unat (pos c) - 2 * cols c"
    unfolding r [symmetric] by (rule unat_diff)
  then have "cursor_ok (c\<lparr>cur_x := cur_x c, cur_y := cur_y c - 1, pos := pos c - video_size_row c\<rparr>)"
    using assms y by (simp add: con_defs k line_bytes_Suc)
  from keeps_cursor [OF assms this] show ?thesis using True by (simp add: ri_def)
qed (simp add: ri_def keeps_scrdown assms)

lemma pos_cur_x_swap: "c\<lparr>pos := p, cur_x := nx\<rparr> = c\<lparr>cur_x := nx, pos := p\<rparr>"
  by (rule console.equality) simp_all

lemma twice_x: "con_ok c \<Longrightarrow> unat (push_bit 1 (cur_x c)) = 2 * unat (cur_x c)"
  using cols_bound [of c] by (intro unat_double) (auto simp: con_defs)

lemma line_start:
  assumes "con_ok c"
  shows "unat (pos c - push_bit 1 (cur_x c)) = at_line c (unat (cur_y c))"
proof -
  have "2 * unat (cur_x c) \<le> unat (pos c)" using assms by (simp add: con_defs)
  then have "unat (pos c - push_bit 1 (cur_x c)) = unat (pos c) - 2 * unat (cur_x c)"
    unfolding twice_x [OF assms, symmetric] by (rule unat_diff)
  then show ?thesis using assms by (simp add: con_defs at_line_def)
qed

lemma keeps_cr:
  assumes "con_ok c"
  shows "keeps c (cr c)"
proof -
  have "cursor_ok (c\<lparr>cur_x := 0, cur_y := cur_y c, pos := pos c - push_bit 1 (cur_x c)\<rparr>)"
    using assms line_start [OF assms] by (simp add: con_defs at_line_def)
  from keeps_cursor [OF assms this] show ?thesis by (simp add: cr_def pos_cur_x_swap)
qed

lemma cursor_left:
  assumes "con_ok c" "cur_x c \<noteq> 0"
  shows "cursor_ok (c\<lparr>cur_x := cur_x c - 1, cur_y := cur_y c, pos := pos c - 2\<rparr>)"
    and "unat (pos c - 2) = unat (pos c) - 2" and "unat (video_mem_start c) + 2 \<le> unat (pos c)"
proof -
  have x: "1 \<le> unat (cur_x c)" using assms(2) by (simp add: Suc_le_eq unat_gt_0)
  then have "unat (cur_x c - 1) = unat (cur_x c) - 1" using unat_sub_small [of 1 "cur_x c"] by simp
  moreover show p: "unat (pos c - 2) = unat (pos c) - 2"
    using assms(1) x by (intro unat_sub_numeral) (simp add: con_defs)
  ultimately show "cursor_ok (c\<lparr>cur_x := cur_x c - 1, cur_y := cur_y c, pos := pos c - 2\<rparr>)"
    using assms(1) x by (auto simp: con_defs diff_mult_distrib2)
  show "unat (video_mem_start c) + 2 \<le> unat (pos c)"
    using assms(1) x by (auto simp: con_defs)
qed

lemma keeps_back_space:
  assumes "con_ok c"
  shows "keeps c (back_space c)"
proof (cases "cur_x c = 0")
  case False
  from keeps_cursor [OF assms cursor_left(1) [OF assms False]] False
  show ?thesis by (simp add: back_space_def)
qed (simp add: back_space_def con_keeps_refl assms)

text \<open>A character cell on the screen is in the adaptor's memory.\<close>

lemma keeps_put_short:
  assumes "con_ok c" "unat (video_mem_start c) \<le> unat p" "unat p + 2 \<le> unat (video_mem_end c)"
  shows "keeps c (c\<lparr>vmem := put_short p w (vmem c)\<rparr>)"
proof (rule keeps_mem [OF assms(1)])
  fix a assume "off_screen c a"
  then show "put_short p w (vmem c) a = vmem c a"
    using assms cursor_bounds(5) [OF assms(1)] by (subst put_short_apply) (auto simp: off_screen_def)
qed

lemma keeps_del:
  assumes "con_ok c"
  shows "keeps c (del c)"
proof (cases "cur_x c = 0")
  case False
  have b: "keeps c (back_space c)" by (rule keeps_back_space [OF assms])
  note l = cursor_left [OF assms False]
  have "keeps (back_space c) ((back_space c)\<lparr>vmem := put_short (pos c - 2) (video_erase_char c) (vmem (back_space c))\<rparr>)"
    by (rule keeps_put_short [OF keeps_ok [OF b]])
      (use l False cursor_bounds [OF assms] in \<open>simp_all add: back_space_def\<close>)
  with b have "keeps c ((back_space c)\<lparr>vmem := put_short (pos c - 2) (video_erase_char c) (vmem (back_space c))\<rparr>)"
    by (rule con_keeps_trans)
  then show ?thesis using False by (simp add: del_def back_space_def pos_cur_x_swap)
qed (simp add: del_def con_keeps_refl assms)

section \<open>Erasing\<close>

lemma keeps_csi_J:
  assumes "con_ok c"
  shows "keeps c (csi_J p c)"
proof -
  note b = cursor_bounds [OF assms]
  have o: "unat (video_mem_start c) \<le> unat (origin c)" "unat (origin c) \<le> unat (pos c)"
    "unat (scr_end c) = unat (origin c) + line_bytes (cols c) (lins c)"
    using assms by (auto simp: con_defs)
  have "unat (video_num_columns c * video_num_lines c) = cols c * lins c"
    using o b line_bytes_double [of "lins c" "cols c"] by (intro unat_mult_small) (simp add: mult.commute)
  then have 2: "2 * unat (video_num_columns c * video_num_lines c) = line_bytes (cols c) (lins c)"
    using line_bytes_double [of "lins c" "cols c"] by (simp add: mult.commute)
  have half: "2 * (n div 2) \<le> n" for n :: nat by simp
  have d: "unat (scr_end c - pos c) = unat (scr_end c) - unat (pos c)"
    "unat (pos c - origin c) = unat (pos c) - unat (origin c)"
    by (rule unat_diff; use b o in linarith)+
  have h: "2 * unat (drop_bit 1 (scr_end c - pos c)) \<le> unat (scr_end c) - unat (pos c)"
    "2 * unat (drop_bit 1 (pos c - origin c)) \<le> unat (pos c) - unat (origin c)"
    unfolding unat_half d by (rule half)+
  have "keeps c (erase_words (drop_bit 1 (scr_end c - pos c)) (pos c) c)"
    by (rule keeps_erase [OF assms]; use b h in linarith)
  moreover have "keeps c (erase_words (drop_bit 1 (pos c - origin c)) (origin c) c)"
    by (rule keeps_erase [OF assms]; use b o h in linarith)
  moreover have "keeps c (erase_words (video_num_columns c * video_num_lines c) (origin c) c)"
    using b o 2 by (intro keeps_erase assms) simp_all
  ultimately show ?thesis by (simp add: csi_J_def con_keeps_refl assms)
qed

lemma keeps_csi_K:
  assumes "con_ok c"
  shows "keeps c (csi_K p c)"
proof -
  note b = cursor_bounds [OF assms] and s = line_start [OF assms]
  have s1: "unat (video_mem_start c) \<le> at_line c (unat (cur_y c))"
    "at_line c (unat (cur_y c)) + 2 * cols c \<le> unat (scr_end c)"
    "unat (pos c) = at_line c (unat (cur_y c)) + 2 * unat (cur_x c)"
    using assms b(1) by (auto simp: con_defs at_line_def)
  have "keeps c (erase_words (video_num_columns c - cur_x c) (pos c) c)"
    if "\<not> cur_x c \<ge> video_num_columns c"
  proof -
    have "unat (video_num_columns c - cur_x c) = cols c - unat (cur_x c)"
      using that by (intro unat_diff) (simp add: word_le_nat_alt)
    then show ?thesis
      using that b s1 by (intro keeps_erase assms) (simp_all add: word_le_nat_alt)
  qed
  moreover have "keeps c (erase_words n (pos c - push_bit 1 (cur_x c)) c)" if "unat n \<le> cols c" for n
    by (rule keeps_erase [OF assms]; use that b s1 s in linarith)
  ultimately show ?thesis by (simp add: csi_K_def con_keeps_refl assms word_le_nat_alt word_less_nat_alt)
qed

section \<open>Inserting and deleting\<close>

lemma keeps_insert_char:
  assumes "con_ok c"
  shows "keeps c (insert_char c)"
  unfolding insert_char_def
proof (rule keeps_mem [OF assms])
  fix a assume "off_screen c a"
  moreover have "unat (pos c) + 2 * (cols c - unat (cur_x c)) \<le> unat (scr_end c)"
    using assms cursor_bounds(1) [OF assms] by (auto simp: con_defs)
  ultimately show "shift_right (cols c - unat (cur_x c)) (pos c) (video_erase_char c) (vmem c) a = vmem c a"
    using cursor_bounds [OF assms] by (intro shift_right_outside) (auto simp: off_screen_def)
qed

lemma keeps_delete_char:
  assumes "con_ok c"
  shows "keeps c (delete_char c)"
proof (cases "cur_x c \<ge> video_num_columns c")
  case False
  have "keeps c (c\<lparr>vmem := shift_left (cols c - unat (cur_x c) - 1) (pos c) (video_erase_char c) (vmem c)\<rparr>)"
  proof (rule keeps_mem [OF assms])
    fix a assume "off_screen c a"
    moreover have "unat (pos c) + 2 * (cols c - unat (cur_x c) - 1) + 2 \<le> unat (scr_end c)"
      using assms False cursor_bounds(1) [OF assms] by (auto simp: con_defs word_le_nat_alt)
    ultimately show "shift_left (cols c - unat (cur_x c) - 1) (pos c) (video_erase_char c) (vmem c) a = vmem c a"
      using cursor_bounds [OF assms] by (intro shift_left_outside) (auto simp: off_screen_def)
  qed
  then show ?thesis using False by (simp add: delete_char_def)
qed (simp add: delete_char_def con_keeps_refl assms)

lemma keeps_from_cursor:
  assumes "con_ok c" and f: "\<And>c. con_ok c \<Longrightarrow> keeps c (f c)"
  shows "keeps c (from_cursor f c)"
proof -
  define c1 where "c1 = c\<lparr>scr_top := cur_y c, scr_bottom := video_num_lines c\<rparr>"
  have "con_ok c1" using assms(1) by (simp add: con_defs c1_def)
  then have k: "keeps c1 (f c1)" by (rule f)
  define c2 where "c2 = f c1"
  have c2: "con_ok c2" "same_adaptor c c2" "off_screen c a \<Longrightarrow> vmem c2 a = vmem c a" for a
    using k by (auto simp: keeps_def same_adaptor_def off_screen_def c1_def c2_def)
  have "region_ok (c2\<lparr>scr_top := scr_top c, scr_bottom := scr_bottom c\<rparr>)"
    using assms(1) c2(2) by (simp add: con_ok_def region_ok_def same_adaptor_def)
  then have "con_ok (c2\<lparr>scr_top := scr_top c, scr_bottom := scr_bottom c\<rparr>)"
    using c2(1) by (simp add: con_ok_def geometry_ok_def cursor_ok_def params_ok_def)
  then show ?thesis
    using c2(2,3) unfolding from_cursor_def c1_def [symmetric] c2_def [symmetric]
    by (simp add: keeps_def same_adaptor_def)
qed

lemma keeps_csi_loops:
  assumes "con_ok c"
  shows "keeps c (csi_at p c)" and "keeps c (csi_L p c)" and "keeps c (csi_P p c)" and "keeps c (csi_M p c)"
  unfolding csi_at_def csi_L_def csi_P_def csi_M_def insert_line_def delete_line_def
  by (rule keeps_funpow; rule assms keeps_insert_char keeps_delete_char keeps_from_cursor;
      simp add: assms keeps_scrup keeps_scrdown)+

section \<open>Control sequences\<close>

lemma keeps_fields:
  assumes "con_ok c" "params_ok c'" "region_ok c'" "geometry_ok c'" "cursor_ok c'"
    and "same_adaptor c c'" "vmem c' = vmem c"
  shows "keeps c c'"
  using assms by (simp add: keeps_def con_ok_def)

lemma keeps_par:
  assumes "con_ok c" "length ps = 16" "n < 16" "st \<le> 3"
  shows "keeps c (c\<lparr>con_state := st, npar := n, par := ps\<rparr>)"
  by (rule keeps_fields) (use assms in \<open>simp_all add: con_defs same_adaptor_def\<close>)

lemma keeps_par_steps:
  assumes "con_ok c"
  shows "keeps c (par_dec k c)" and "keeps c (par_one k c)"
  using assms by (auto simp: par_dec_def par_one_def keeps_def same_adaptor_def con_defs)

lemma keeps_goto_by: "con_ok c \<Longrightarrow> keeps c (goto_by f c)"
  by (simp add: goto_by_def keeps_gotoxy split: prod.split)

lemma keeps_set_region:
  assumes "con_ok c"
  shows "keeps c (set_region c)"
proof -
  define c1 where "c1 = par_dec 0 c"
  define c2 where "c2 = (if par c1 ! 1 = 0 then c1\<lparr>par := (par c1)[1 := video_num_lines c1]\<rparr> else c1)"
  have 1: "keeps c c1" unfolding c1_def by (rule keeps_par_steps [OF assms])
  have 2: "keeps c1 c2" using keeps_ok [OF 1] by (simp add: c2_def keeps_def same_adaptor_def con_defs)
  have eq: "set_region c = (if par c2 ! 0 < par c2 ! 1 \<and> par c2 ! 1 \<le> video_num_lines c2
      then c2\<lparr>scr_top := par c2 ! 0, scr_bottom := par c2 ! 1\<rparr> else c2)"
    unfolding set_region_def Let_def c1_def c2_def by (rule refl)
  have "keeps c2 (c2\<lparr>scr_top := t, scr_bottom := b\<rparr>)" if "t < b" "b \<le> video_num_lines c2" for t b
    by (rule keeps_fields) (use keeps_ok [OF 2] that in
      \<open>simp_all add: con_defs same_adaptor_def word_less_nat_alt word_le_nat_alt\<close>)
  then have "keeps c2 (set_region c)"
    unfolding eq using con_keeps_refl [OF keeps_ok [OF 2]] by simp
  with 1 2 show ?thesis by (meson con_keeps_trans)
qed

lemma keeps_plain_fields:
  assumes "con_ok c"
  shows "keeps c (csi_m c)" and "keeps c (save_cur c)" and "keeps c (restore_cur c)"
    and "st \<le> 3 \<Longrightarrow> keeps c (c\<lparr>con_state := st\<rparr>)" and "keeps c (set_cursor c)"
  using assms
  by (simp_all add: csi_m_def save_cur_def restore_cur_def keeps_gotoxy set_cursor_def con_out_def Let_def)
    (simp_all add: keeps_def same_adaptor_def con_defs)

lemma keeps_csi_final:
  assumes "con_ok c"
  shows "keeps c (csi_final ch c)"
proof -
  have "keeps c (goto_by f (par_dec 0 c))" "keeps c (goto_by f (par_one 0 c))"
    "keeps c (goto_by f (par_dec 1 (par_dec 0 c)))" for f
    by (meson assms keeps_goto_by keeps_ok keeps_par_steps con_keeps_trans)+
  then show ?thesis
    using assms
    by (simp add: csi_final_def keeps_csi_J keeps_csi_K keeps_csi_loops keeps_plain_fields
        keeps_set_region con_keeps_refl)
qed

lemma keeps_csi_param:
  assumes "con_ok c"
  shows "keeps c (csi_param ch c)"
proof -
  have z: "keeps c (c\<lparr>con_state := 0\<rparr>)" by (rule keeps_plain_fields [OF assms]) simp
  then have "keeps c (csi_final ch (c\<lparr>con_state := 0\<rparr>))"
    by (meson keeps_csi_final keeps_ok con_keeps_trans)
  moreover have "keeps c (c\<lparr>npar := Suc (npar c)\<rparr>)" if "npar c < NPAR - 1"
    by (rule keeps_fields) (use assms that in \<open>simp_all add: con_defs same_adaptor_def\<close>)
  moreover have "keeps c (c\<lparr>par := (par c)[npar c := v]\<rparr>)" for v
    by (rule keeps_fields) (use assms in \<open>simp_all add: con_defs same_adaptor_def\<close>)
  ultimately show ?thesis by (simp add: csi_param_def)
qed

lemma keeps_csi_begin:
  assumes "con_ok c"
  shows "keeps c (csi_begin ch c)"
proof -
  define c1 where "c1 = c\<lparr>par := replicate NPAR 0, npar := 0, con_state := 3, ques := ch = 63\<rparr>"
  have k: "keeps c c1"
    by (rule keeps_fields) (use assms in \<open>simp_all add: con_defs same_adaptor_def c1_def\<close>)
  then have "keeps c (csi_param ch c1)" by (meson keeps_csi_param keeps_ok con_keeps_trans)
  with k show ?thesis unfolding csi_begin_def Let_def c1_def [symmetric] by simp
qed

section \<open>Characters\<close>

lemma scrup_fields:
  "cur_x (scrup c) = cur_x c" "cur_y (scrup c) = cur_y c" "attr (scrup c) = attr c"
  "con_state (scrup c) = con_state c" "video_num_columns (scrup c) = video_num_columns c"
  "video_num_lines (scrup c) = video_num_lines c"
  by (simp_all add: scrup_def region_up_def screen_up_def set_origin_def con_out_def erase_words_def Let_def)

lemma lf_fields:
  "cur_x (lf c) = cur_x c" "attr (lf c) = attr c" "con_state (lf c) = con_state c"
  "video_num_columns (lf c) = video_num_columns c" "video_num_lines (lf c) = video_num_lines c"
  by (simp_all add: lf_def scrup_fields)

text \<open>Going back one line at the end of it: \<open>nx\<close> cells beyond its last one.\<close>

lemma wrap_cursor:
  assumes "con_ok c" "unat nx \<le> cols c" "unat p = at_line c (unat (cur_y c)) + 2 * (unat nx + cols c)"
  shows "keeps c (c\<lparr>cur_x := nx, pos := p - video_size_row c\<rparr>)"
proof -
  have r: "unat (video_size_row c) = 2 * cols c" using geometry_row [of c] assms by (simp add: con_ok_def)
  have "2 * cols c \<le> unat p" using assms(3) by simp
  then have "unat (p - video_size_row c) = unat p - 2 * cols c"
    unfolding r [symmetric] by (rule unat_diff)
  then have "cursor_ok (c\<lparr>cur_x := nx, cur_y := cur_y c, pos := p - video_size_row c\<rparr>)"
    using assms by (simp add: con_defs at_line_def)
  from keeps_cursor [OF assms(1) this] show ?thesis by simp
qed

lemma keeps_back_up:
  assumes "con_ok c" "cur_x c \<ge> video_num_columns c"
  shows "keeps c (back_up c)" and "cur_x (back_up c) = 0"
proof -
  have x: "cur_x c = video_num_columns c"
    using assms by (simp add: con_defs word_le_nat_alt word_unat_eq_iff)
  have "keeps c (c\<lparr>cur_x := 0, pos := pos c - video_size_row c\<rparr>)"
    using assms(1) x by (intro wrap_cursor) (simp_all add: con_defs at_line_def)
  then show "keeps c (back_up c)" "cur_x (back_up c) = 0" by (simp_all add: back_up_def x)
qed

lemma keeps_put_char:
  assumes "con_ok c" "cur_x c < video_num_columns c"
  shows "keeps c (c\<lparr>vmem := put_short (pos c) w (vmem c), pos := pos c + 2, cur_x := cur_x c + 1\<rparr>)"
proof -
  have x: "unat (cur_x c) < cols c" using assms(2) by (simp add: word_less_nat_alt)
  note b = cursor_bounds [OF assms(1)]
  have p: "unat (pos c) + 2 \<le> unat (scr_end c)" using assms(1) x b(1) by (auto simp: con_defs)
  define c1 where "c1 = c\<lparr>vmem := put_short (pos c) w (vmem c)\<rparr>"
  have k: "keeps c c1" unfolding c1_def
    by (rule keeps_put_short [OF assms(1)]) (use b p in linarith)+
  have "unat (cur_x c + 1) = unat (cur_x c) + 1"
    by (rule unat_add_one) (use x cols_bound [OF assms(1)] in simp)
  moreover have "unat (pos c + 2) = unat (pos c) + 2"
    by (rule unat_add_numeral) (use b p in simp)
  ultimately have "cursor_ok (c1\<lparr>cur_x := cur_x c + 1, cur_y := cur_y c1, pos := pos c + 2\<rparr>)"
    using assms(1) x by (simp add: con_defs c1_def)
  from con_keeps_trans [OF k keeps_cursor [OF keeps_ok [OF k] this]]
  have "keeps c (c1\<lparr>cur_x := cur_x c + 1, cur_y := cur_y c1, pos := pos c + 2\<rparr>)" .
  moreover have "c1\<lparr>cur_x := cur_x c + 1, cur_y := cur_y c1, pos := pos c + 2\<rparr> =
      c\<lparr>vmem := put_short (pos c) w (vmem c), pos := pos c + 2, cur_x := cur_x c + 1\<rparr>"
    by (rule console.equality) (simp_all add: c1_def)
  ultimately show ?thesis by simp
qed

lemma keeps_print_char:
  assumes "con_ok c"
  shows "keeps c (print_char ch c)"
proof -
  define c1 where "c1 = (if cur_x c \<ge> video_num_columns c then lf (back_up c) else c)"
  have k: "keeps c c1"
  proof (cases "cur_x c \<ge> video_num_columns c")
    case True
    note b = keeps_back_up(1) [OF assms True]
    from con_keeps_trans [OF b keeps_lf [OF keeps_ok [OF b]]] show ?thesis using True by (simp add: c1_def)
  qed (simp add: c1_def con_keeps_refl assms)
  have "1 \<le> video_num_columns c"
    using assms by (simp add: con_defs word_le_nat_alt)
  then have "cur_x c1 < video_num_columns c1"
    using keeps_back_up(2) [OF assms] unfolding c1_def
    by (cases "cur_x c \<ge> video_num_columns c")
      (simp_all add: lf_fields, simp add: back_up_def word_less_nat_alt word_le_nat_alt)
  from con_keeps_trans [OF k keeps_put_char [OF keeps_ok [OF k] this]]
  show ?thesis unfolding print_char_def Let_def c1_def [symmetric] .
qed

lemma back_up_moved:
  "back_up (c\<lparr>cur_x := nx, pos := p\<rparr>) = c\<lparr>cur_x := nx - video_num_columns c, pos := p - video_size_row c\<rparr>"
  by (simp add: back_up_def)

lemma keeps_tab_stop:
  assumes "con_ok c"
  shows "keeps c (tab_stop c)"
proof -
  define n where "n = 8 - (cur_x c AND 7)"
  have "cur_x c AND 7 \<le> 7" by (rule word_and_le1)
  then have n: "1 \<le> unat n" "unat n \<le> 8"
    unfolding n_def by (simp_all add: unat_sub_if' word_le_nat_alt)
  have b: "unat (cur_x c) \<le> cols c" "8 \<le> cols c" "cols c < 0x40000000"
    using assms cols_bound [OF assms] by (auto simp: con_defs)
  have x: "unat (cur_x c + n) = unat (cur_x c) + unat n"
    using n b by (intro unat_plus_small) linarith
  have n2: "unat (push_bit 1 n) = 2 * unat n" using n by (intro unat_double) linarith
  have p: "unat (pos c + push_bit 1 n) = unat (pos c) + 2 * unat n"
    unfolding n2 [symmetric] by (rule unat_plus_small) (use n2 n cursor_bounds [OF assms] in linarith)
  have pc: "unat (pos c) = at_line c (unat (cur_y c)) + 2 * unat (cur_x c)"
    using assms by (simp add: con_defs at_line_def)
  define c1 where "c1 = c\<lparr>cur_x := cur_x c + n, pos := pos c + push_bit 1 n\<rparr>"
  have ts: "tab_stop c = (if cur_x c1 > video_num_columns c1 then lf (back_up c1) else c1)"
    unfolding tab_stop_def Let_def c1_def n_def by (rule refl)
  show ?thesis
  proof (cases "cur_x c1 > video_num_columns c1")
    case False
    then have "cursor_ok (c\<lparr>cur_x := cur_x c + n, cur_y := cur_y c, pos := pos c + push_bit 1 n\<rparr>)"
      using assms x p by (simp add: con_defs c1_def word_less_nat_alt del: push_bit_eq_mult)
    from keeps_cursor [OF assms this] show ?thesis unfolding ts using False by (simp add: c1_def)
  next
    case True
    then have gt: "cols c < unat (cur_x c) + unat n" using x by (simp add: c1_def word_less_nat_alt)
    have nx: "unat (cur_x c + n - video_num_columns c) = unat (cur_x c) + unat n - cols c"
      unfolding x [symmetric] by (rule unat_diff) (use gt x in linarith)
    have "keeps c (c\<lparr>cur_x := cur_x c + n - video_num_columns c, pos := pos c + push_bit 1 n - video_size_row c\<rparr>)"
    proof (rule wrap_cursor [OF assms])
      have "unat (cur_x c + n - video_num_columns c) + cols c = unat (cur_x c) + unat n"
        unfolding nx using gt by simp
      note eq = this
      then show "unat (cur_x c + n - video_num_columns c) \<le> cols c"
        using n b by linarith
      show "unat (pos c + push_bit 1 n) = at_line c (unat (cur_y c)) +
           2 * (unat (cur_x c + n - video_num_columns c) + cols c)"
        unfolding eq p pc by simp
    qed
    then have k: "keeps c (back_up c1)" unfolding c1_def back_up_moved .
    from con_keeps_trans [OF k keeps_lf [OF keeps_ok [OF k]]] show ?thesis unfolding ts using True by simp
  qed
qed

lemma keeps_if: "(b \<Longrightarrow> keeps c x) \<Longrightarrow> (\<not> b \<Longrightarrow> keeps c y) \<Longrightarrow> keeps c (if b then x else y)"
  by simp

lemma keeps_plain_char: "con_ok c \<Longrightarrow> keeps c (plain_char e ch c)"
  unfolding plain_char_def
  by (intro keeps_if keeps_print_char keeps_lf keeps_cr keeps_del keeps_back_space keeps_tab_stop
      con_keeps_refl keeps_plain_fields(4)) (assumption | simp (no_asm))+

lemma keeps_esc_char: "con_ok c \<Longrightarrow> keeps c (esc_char ch c)"
  unfolding esc_char_def
  by (intro keeps_if keeps_gotoxy keeps_ri keeps_lf con_keeps_refl keeps_plain_fields) (assumption | simp (no_asm))+

section \<open>\<open>con_write\<close>\<close>

text \<open>What holds of the console between two characters: it came from \<open>c\<close> keeping the screen.\<close>

abbreviation (input) from_console :: "console \<Rightarrow> ('f, console) ttys \<Rightarrow> bool" where
  "from_console c \<equiv> \<lambda>s. keeps c (con s)"

lemma from_console_other:
  "keeps c (con s) \<Longrightarrow> keeps c (con (upd_tty i f s))"
  "keeps c (con s) \<Longrightarrow> keeps c (con (on_kern g s))"
  "keeps c (con s) \<Longrightarrow> keeps c (con (sysbeep inb s))"
  by (simp_all add: upd_tty_def on_kern_def sysbeep_def out_port_def)

lemma from_console_upd:
  "keeps c (con s) \<Longrightarrow> (\<And>c. con_ok c \<Longrightarrow> keeps c (f c)) \<Longrightarrow> keeps c (con (upd_con f s))"
  by (simp add: upd_con_def) (metis keeps_ok con_keeps_trans)

lemma console_writer:
  assumes "\<And>i s. keeps c (con s) \<Longrightarrow> ok_res (from_console c) (wr i s)"
  shows "tty_keeps wr (from_console c)"
  by (rule tty_keeps.intro) (simp_all add: assms from_console_other)

lemma con_char_keeps:
  assumes wr: "\<And>i s. keeps c (con s) \<Longrightarrow> ok_res (from_console c) (wr i s)"
    and s: "keeps c (con s)"
  shows "ok_res (from_console c) (con_char wr inb i ch s)"
proof -
  have z: "keeps c (con (upd_con (con_state_update (\<lambda>_. 0)) s))"
    by (rule from_console_upd [OF s]) (simp add: keeps_plain_fields)
  then have r: "ok_res (from_console c) (respond wr i (upd_con (con_state_update (\<lambda>_. 0)) s))"
    unfolding respond_def
    by (intro tty_keeps.copy_to_cooked_keeps [OF console_writer] from_console_other) (rule wr)
  have 4: "keeps c (csi_final ch (c\<lparr>con_state := 0\<rparr>))" if "con_ok c" for c
    using keeps_plain_fields(4) [OF that, of 0] by (meson keeps_csi_final keeps_ok con_keeps_trans zero_le)
  show ?thesis
    unfolding con_char_def Let_def
    by (intro ok_res_if ok_res_intros r from_console_upd from_console_other s z
        keeps_plain_char keeps_esc_char keeps_csi_begin keeps_csi_param 4)
qed

lemma con_loop_keeps:
  assumes "\<And>i s. keeps c (con s) \<Longrightarrow> ok_res (from_console c) (wr i s)"
  shows "keeps c (con s) \<Longrightarrow> ok_res (from_console c) (con_loop wr inb i n s)"
proof (induction n arbitrary: s)
  case (Suc n)
  then show ?case
    by (auto simp: GETCH_def intro!: ok_res_kbind [OF con_char_keeps [OF assms]] from_console_other)
qed (simp add: ok_res_intros)

lemma con_write_keeps:
  assumes wr: "\<And>i s. keeps c (con s) \<Longrightarrow> ok_res (from_console c) (wr i s)" and s: "keeps c (con s)"
  shows "ok_res (from_console c) (con_write wr inb i s)"
  unfolding con_write_def
proof (rule ok_res_kbind [where Q = "from_console c"])
  show "ok_res (from_console c) (con_loop wr inb i (unat (CHARS (write_q (tty_table s i)))) s)"
    using wr s by (rule con_loop_keeps)
  fix s1 :: "('a, console) ttys"
  assume "keeps c (con s1)"
  then show "ok_res (from_console c) (Inr (upd_con set_cursor s1))"
    by (intro ok_res_intros from_console_upd keeps_plain_fields)
qed

lemma driver_keeps: "keeps c (con s) \<Longrightarrow> ok_res (from_console c) (driver inb d i s)"
proof (induction d arbitrary: i s)
  case (Suc d)
  have "ok_res (from_console c) (con_write (driver inb d) inb i s)"
    by (rule con_write_keeps [OF Suc.IH Suc.prems])
  moreover have "keeps c (con (rs_write inb i s))"
    using Suc.prems by (simp add: rs_write_def Let_def out_port_def from_console_other)
  ultimately show ?case by (simp split: tty_driver.split) (simp add: ok_res_intros)
qed (simp add: ok_res_intros)

interpretation screen: tty_ignores "driver inb d" "from_console c" for inb d c
  by unfold_locales (simp_all add: driver_keeps upd_tty_def on_kern_def)

lemma keeps_safe: "ok_res (from_console (con s)) r \<Longrightarrow>
    ok_res (\<lambda>s'. con_ok (con s') \<and> (\<forall>a. off_screen (con s) a \<longrightarrow> vmem (con s') a = vmem (con s) a)) r"
  by (auto simp: ok_res_def keeps_def)

end
