(* ===== verification/Tty_Queue.thy ===== *)
theory Tty_Queue
  imports Tty Byte_Queue
begin

text \<open>
  The ring of a terminal queue as the list of its bytes: what the macros of \<^verbatim>\<open>include/linux/tty.h\<close> do to
  it, and the interpretation of the queue contract on them.
\<close>

section \<open>Indices\<close>

definition q_ok :: "tty_queue \<Rightarrow> bool" where
  "q_ok q \<longleftrightarrow> unat (q_head q) < 1024 \<and> unat (q_tail q) < 1024"

lemma unat_and_1023: "unat (w AND 1023 :: u32) = unat w mod 1024"
proof -
  have "(1023 :: u32) = mask 10" by (simp add: mask_eq_exp_minus_1)
  then have "w AND 1023 = take_bit 10 w" by (simp only: take_bit_eq_mask)
  then have "unat (w AND 1023) = take_bit 10 (unat w)" by (simp only: unsigned_take_bit_eq)
  then show ?thesis by (simp add: take_bit_eq_mod)
qed

lemma unat_1023_and: "unat (1023 AND w :: u32) = unat w mod 1024"
  by (simp add: and.commute [of 1023] unat_and_1023)

lemma unat_minus_mod: "int (unat (a - b :: u32) mod 1024) = (int (unat a) - int (unat b)) mod 1024"
proof -
  have "int (unat (a - b) mod 1024) = uint (a - b) mod 1024" by (simp add: zmod_int)
  also have "uint (a - b) = (uint a - uint b) mod 4294967296" by (simp add: uint_word_ariths)
  also have "\<dots> mod 1024 = (uint a - uint b) mod 1024" by (simp add: mod_mod_cancel)
  finally show ?thesis by simp
qed

definition q_len :: "tty_queue \<Rightarrow> nat" where
  "q_len q = nat ((int (unat (q_head q)) - int (unat (q_tail q))) mod 1024)"

lemma q_len_less: "q_len q < 1024"
  by (simp add: q_len_def nat_less_iff)

lemma CHARS_len: "unat (CHARS q) = q_len q"
  using unat_minus_mod [of "q_head q" "q_tail q"] by (simp add: CHARS_def unat_and_1023 q_len_def)

lemma mod_1024_flip: "(t - h - 1) mod 1024 = 1023 - (h - t) mod (1024 :: int)"
proof -
  define k m where "k = (h - t) div 1024" and "m = (h - t) mod 1024"
  have "h - t = 1024 * k + m" by (simp add: k_def m_def)
  then have "t - h - 1 = (1023 - m) + (- k - 1) * 1024" by simp
  moreover have "0 \<le> m" "m < 1024" by (simp_all add: m_def)
  ultimately show ?thesis unfolding m_def [symmetric] by (simp only: mod_mult_self1) simp
qed

lemma LEFT_len: "unat (LEFT q) = 1023 - q_len q"
proof -
  have "int (unat (LEFT q)) = uint (q_tail q - q_head q - 1) mod 1024"
    by (simp add: LEFT_def unat_and_1023 zmod_int)
  also have "uint (q_tail q - q_head q - 1) = (uint (q_tail q) - uint (q_head q) - 1) mod 4294967296"
    by (simp add: uint_word_ariths mod_simps)
  also have "\<dots> mod 1024 = (uint (q_tail q) - uint (q_head q) - 1) mod 1024"
    by (simp add: mod_mod_cancel)
  also have "\<dots> = 1023 - int (q_len q)"
    by (simp add: mod_1024_flip q_len_def)
  finally show ?thesis using q_len_less [of q] by linarith
qed

text \<open>With both indices in range, every position is a sum or that sum less 1024.\<close>

lemma q_len_cases:
  assumes "q_ok q"
  shows "q_len q = (if unat (q_tail q) \<le> unat (q_head q) then unat (q_head q) - unat (q_tail q)
                    else unat (q_head q) + 1024 - unat (q_tail q))"
proof -
  define h t where "h = unat (q_head q)" and "t = unat (q_tail q)"
  have b: "h < 1024" "t < 1024" using assms by (simp_all add: q_ok_def h_def t_def)
  have "(int h - int t) mod 1024 = (if t \<le> h then int h - int t else int h - int t + 1024)"
  proof (cases "t \<le> h")
    case True
    then have "0 \<le> int h - int t" "int h - int t < 1024" using b by simp_all
    then have "(int h - int t) mod 1024 = int h - int t" by (rule mod_pos_pos_trivial)
    then show ?thesis using True by simp
  next
    case False
    then have "0 \<le> int h - int t + 1024" "int h - int t + 1024 < 1024" using b by simp_all
    then have "(int h - int t + 1024) mod 1024 = int h - int t + 1024" by (rule mod_pos_pos_trivial)
    then show ?thesis using False by (simp only: mod_add_self2) simp
  qed
  then show ?thesis unfolding q_len_def h_def [symmetric] t_def [symmetric] using b by auto
qed

lemma EMPTY_len: "q_ok q \<Longrightarrow> EMPTY q \<longleftrightarrow> q_len q = 0"
  by (auto simp: q_len_cases EMPTY_def word_unat_eq_iff q_ok_def split: if_splits)

lemma FULL_len: "FULL q \<longleftrightarrow> q_len q = 1023"
  using LEFT_len [of q] q_len_less [of q] by (auto simp: FULL_def word_unat_eq_iff)

section \<open>The bytes\<close>

definition q_list :: "tty_queue \<Rightarrow> u8 list" where
  "q_list q = map (\<lambda>j. q_buf q ((unat (q_tail q) + j) mod 1024)) [0..<q_len q]"

lemma length_q_list [simp]: "length (q_list q) = q_len q"
  by (simp add: q_list_def)

lemma unat_INC: "unat (INC a) = (unat a + 1) mod 1024"
  by (simp add: INC_def unat_and_1023 unat_word_ariths mod_mod_cancel)

lemma unat_DEC: "unat (DEC a) = (unat a + 1023) mod 1024"
proof -
  have "int (unat (DEC a)) = (int (unat a) - 1) mod 1024"
    using unat_minus_mod [of a 1] by (simp add: DEC_def unat_and_1023)
  also have "\<dots> = (int (unat a) - 1 + 1024) mod 1024"
    by (simp only: mod_add_self2)
  also have "\<dots> = int ((unat a + 1023) mod 1024)" by (simp add: zmod_int algebra_simps)
  finally show ?thesis by (simp only: of_nat_eq_iff)
qed

lemma q_ok_simps [simp]:
  "q_ok (PUTCH c q) \<longleftrightarrow> unat (q_tail q) < 1024"
  "q_ok (q_head_update DEC q) \<longleftrightarrow> unat (q_tail q) < 1024"
  "q_ok (q_data_update f q) = q_ok q"
  "q_ok (proc_list_update g q) = q_ok q"
  "q_ok (snd (GETCH q)) \<longleftrightarrow> unat (q_head q) < 1024"
  by (simp_all add: q_ok_def PUTCH_def GETCH_def unat_INC unat_DEC)

lemma q_ok_tail: "q_ok q \<Longrightarrow> unat (q_tail q) < 1024" and q_ok_head: "q_ok q \<Longrightarrow> unat (q_head q) < 1024"
  by (simp_all add: q_ok_def)

lemma q_ok_put_all: "q_ok q \<Longrightarrow> q_ok (put_all cs q)"
  by (induction cs arbitrary: q) (simp_all add: put_all_def q_ok_tail)

section \<open>Putting and getting\<close>

lemma wrap_1024: "t < 1024 \<Longrightarrow> j < 1024 \<Longrightarrow> (t + j) mod 1024 = (if t + j < 1024 then t + j else t + j - 1024)"
  for t j :: nat by (simp add: mod_if)

lemma unat_INC_cases: "unat a < 1024 \<Longrightarrow> unat (INC a) = (if unat a = 1023 then 0 else unat a + 1)"
  by (simp add: unat_INC mod_if)

lemma unat_DEC_cases: "unat a < 1024 \<Longrightarrow> unat (DEC a) = (if unat a = 0 then 1023 else unat a - 1)"
  by (simp add: unat_DEC mod_if)

lemma q_len_steps:
  assumes "q_ok q"
  shows "q_len (PUTCH c q) = (if FULL q then 0 else q_len q + 1)"
    and "\<not> EMPTY q \<Longrightarrow> q_len q = Suc (q_len (snd (GETCH q)))"
    and "\<not> EMPTY q \<Longrightarrow> q_len q = Suc (q_len (q_head_update DEC q))"
proof -
  have b: "unat (q_head q) < 1024" "unat (q_tail q) < 1024" using assms by (simp_all add: q_ok_def)
  note l = q_len_cases [OF assms]
  have p: "q_ok (PUTCH c q)" "q_ok (snd (GETCH q))" "q_ok (q_head_update DEC q)"
    using b by simp_all
  show "q_len (PUTCH c q) = (if FULL q then 0 else q_len q + 1)"
    unfolding FULL_len q_len_cases [OF p(1)] l using b by (auto simp: PUTCH_def unat_INC_cases)
  show "q_len q = Suc (q_len (snd (GETCH q)))" if "\<not> EMPTY q"
    using that b unfolding EMPTY_len [OF assms] q_len_cases [OF p(2)] l
    by (auto simp: GETCH_def unat_INC_cases split: if_splits)
  show "q_len q = Suc (q_len (q_head_update DEC q))" if "\<not> EMPTY q"
    using that b unfolding EMPTY_len [OF assms] q_len_cases [OF p(3)] l
    by (auto simp: unat_DEC_cases split: if_splits)
qed

lemma head_place: "q_ok q \<Longrightarrow> unat (q_head q) = (unat (q_tail q) + q_len q) mod 1024"
  using q_len_less [of q] by (subst wrap_1024) (auto simp: q_len_cases q_ok_def)

lemma place_less:
  assumes "q_ok q" "j < q_len q"
  shows "(unat (q_tail q) + j) mod 1024 \<noteq> unat (q_head q)"
  unfolding head_place [OF assms(1)] using assms q_len_less [of q]
  by (auto simp: wrap_1024 q_ok_def split: if_splits)

lemma q_list_PUTCH:
  assumes "q_ok q" "\<not> FULL q"
  shows "q_list (PUTCH c q) = q_list q @ [c]"
proof -
  have len: "q_len (PUTCH c q) = Suc (q_len q)" using q_len_steps(1) [OF assms(1)] assms(2) by simp
  have "map (\<lambda>j. q_buf (PUTCH c q) ((unat (q_tail q) + j) mod 1024)) [0..<q_len q] = q_list q"
    unfolding q_list_def using place_less [OF assms(1)] by (simp add: PUTCH_def)
  then show ?thesis
    unfolding q_list_def [of "PUTCH c q"] len
    by (simp add: PUTCH_def flip: head_place [OF assms(1)])
qed

lemma q_list_full: "q_ok q \<Longrightarrow> FULL q \<Longrightarrow> q_list (PUTCH c q) = []"
  by (simp add: q_list_def q_len_steps)

lemma q_list_GETCH:
  assumes "q_ok q" "\<not> EMPTY q"
  shows "q_list q = fst (GETCH q) # q_list (snd (GETCH q))"
proof -
  note len = q_len_steps(2) [OF assms]
  have shift: "((t + 1) mod 1024 + j) mod 1024 = (t + Suc j) mod (1024 :: nat)" for t j
    by (simp add: mod_simps)
  have "q_list (snd (GETCH q)) =
      map (\<lambda>j. q_buf q ((unat (q_tail q) + Suc j) mod 1024)) [0..<q_len (snd (GETCH q))]"
    unfolding q_list_def shift [symmetric] by (simp add: GETCH_def unat_INC)
  moreover have "q_list q = q_buf q (unat (q_tail q) mod 1024) #
      map (\<lambda>j. q_buf q ((unat (q_tail q) + Suc j) mod 1024)) [0..<q_len (snd (GETCH q))]"
    unfolding q_list_def len upt_conv_Cons [OF zero_less_Suc] list.map
    by (simp flip: map_Suc_upt add: comp_def del: upt_Suc)
  ultimately show ?thesis using assms(1) by (simp add: GETCH_def q_ok_def)
qed

lemma q_list_nil: "q_ok q \<Longrightarrow> q_list q = [] \<longleftrightarrow> EMPTY q"
  by (simp add: q_list_def EMPTY_len)

lemma LAST_list:
  assumes "q_ok q" "\<not> EMPTY q"
  shows "LAST q = List.last (q_list q)" and "q_list (q_head_update DEC q) = butlast (q_list q)"
proof -
  define n where "n = q_len (q_head_update DEC q)"
  have len: "q_len q = Suc n" unfolding n_def by (rule q_len_steps(3) [OF assms])
  then show "q_list (q_head_update DEC q) = butlast (q_list q)"
    unfolding q_list_def n_def [symmetric] by simp
  have b: "unat (q_head q) < 1024" "unat (q_tail q) < 1024" "Suc n < 1024"
    using assms(1) q_len_less [of q] by (simp_all add: q_ok_def len)
  have h: "unat (q_head q) = (if unat (q_tail q) + Suc n < 1024 then unat (q_tail q) + Suc n
      else unat (q_tail q) + Suc n - 1024)"
    unfolding head_place [OF assms(1)] len by (rule wrap_1024 [OF b(2,3)])
  have n: "(unat (q_tail q) + n) mod 1024 = (if unat (q_tail q) + n < 1024 then unat (q_tail q) + n
      else unat (q_tail q) + n - 1024)"
    by (rule wrap_1024 [OF b(2)]) (use b(3) in simp)
  have "unat (DEC (q_head q)) = (unat (q_tail q) + n) mod 1024"
    unfolding n unat_DEC_cases [OF b(1)] using h b by (simp split: if_splits)
  then have "unat (1023 AND (q_head q - 1)) = (unat (q_tail q) + n) mod 1024"
    by (simp add: DEC_def and.commute [of 1023])
  then show "LAST q = List.last (q_list q)"
    unfolding q_list_def len LAST_def by simp
qed

text \<open>The contract of a queue, on the macros: whatever is put arrives in order.\<close>

definition q_put :: "u8 list \<Rightarrow> tty_queue \<Rightarrow> tty_queue \<Rightarrow> bool" where
  "q_put cs q q' \<longleftrightarrow> (\<exists>c. cs = [c] \<and> \<not> FULL q \<and> q' = PUTCH c q)"

definition q_get :: "u8 list \<Rightarrow> tty_queue \<Rightarrow> tty_queue \<Rightarrow> bool" where
  "q_get cs q q' \<longleftrightarrow> \<not> EMPTY q \<and> cs = [fst (GETCH q)] \<and> q' = snd (GETCH q)"

definition q_same :: "tty_queue \<Rightarrow> tty_queue \<Rightarrow> bool" where
  "q_same q q' \<longleftrightarrow> (\<exists>d p. q' = q\<lparr>q_data := d, proc_list := p\<rparr>)"

lemma q_list_fields [simp]:
  "q_list (q_data_update f q) = q_list q" "q_list (proc_list_update g q) = q_list q"
  by (simp_all add: q_list_def q_len_def)

interpretation tq: byte_queue q_ok q_list q_put q_get q_same
proof
  fix q q' cs
  assume q: "q_ok q"
  show "q_put cs q q' \<Longrightarrow> q_ok q' \<and> q_list q' = q_list q @ cs"
    using q by (auto simp: q_put_def q_list_PUTCH q_ok_tail)
  show "q_get cs q q' \<Longrightarrow> q_ok q' \<and> q_list q = cs @ q_list q'"
    using q q_list_GETCH [of q] by (simp add: q_get_def q_ok_head)
  show "q_same q q' \<Longrightarrow> q_ok q' \<and> q_list q' = q_list q"
    using q by (auto simp: q_same_def q_ok_def q_list_def q_len_def)
qed

end
