(* ===== verification/Console_Props.thy ===== *)
theory Console_Props
  imports Console_Safe Tty_Queue Process_Facts
begin

text \<open>
  What the console guarantees: its invariant from \<open>con_init\<close> on, the memory it may write, scrolling as
  an operation on lines, what text and escape sequences do to the screen.
\<close>

section \<open>A screen to try them on\<close>

definition vga_boot :: boot_video where
  "vga_boot = \<lparr>orig_x = 3, orig_y = 24, orig_mode = 0x5003, orig_ega_bx = 3\<rparr>"

definition vga :: console where
  "vga = con_setup vga_boot (con_zero (\<lambda>a. ucast (drop_bit 1 a)))"

definition boot_cols :: "boot_video \<Rightarrow> nat" where
  "boot_cols b = unat (drop_bit 8 (orig_mode b))"

lemma unat_ucast_u32 [simp]: "unat (ucast (w :: u16) :: u32) = unat w" "unat (ucast (v :: u8) :: u32) = unat v"
  by (simp_all add: unsigned_ucast_eq take_bit_nat_eq_self unsigned_less [THEN less_le_trans])

lemma con_setup_fields:
  fixes b c
  defines "c' \<equiv> con_setup b c"
  shows "cols c' = boot_cols b" and "lins c' = 25" and "video_size_row c' = video_num_columns c' * 2"
    and "video_mem_start c' \<in> {0xb0000, 0xb8000}" and "origin c' = video_mem_start c'"
    and "unat (video_mem_start c') + 0x2000 \<le> unat (video_mem_end c')" and "unat (video_mem_end c') \<le> 0xbc000"
    and "scr_end c' = video_mem_start c' + 25 * video_size_row c'"
    and "scr_top c' = 0" and "scr_bottom c' = 25" and "npar c' = npar c" and "par c' = par c"
    and "con_state c' = con_state c" and "video_erase_char c' = 0x0720" and "attr c' = attr c"
  unfolding c'_def
  by (simp_all add: con_setup_def Let_def gotoxy_def boot_cols_def)

section \<open>\<open>con_init\<close>\<close>

definition good_cols :: "boot_video \<Rightarrow> bool" where
  "good_cols b \<longleftrightarrow> 8 \<le> boot_cols b \<and> boot_cols b \<le> 162 \<and> even (boot_cols b)"

lemma con_setup_geometry:
  assumes "good_cols b"
  shows "geometry_ok (con_setup b c)"
proof -
  note f = con_setup_fields [of b c]
  have b: "8 \<le> boot_cols b" "boot_cols b \<le> 162" "even (boot_cols b)"
    using assms by (simp_all add: good_cols_def)
  have row: "unat (video_size_row (con_setup b c)) = 2 * boot_cols b"
    unfolding f(3) by (subst unat_mult_small) (use b in \<open>simp_all add: f(1)\<close>)
  have "unat (25 * video_size_row (con_setup b c)) = 50 * boot_cols b"
    by (subst unat_mult_small) (use b row in simp_all)
  moreover have "unat (video_mem_start (con_setup b c)) \<le> 0xb8000" using f(4) by auto
  ultimately have "unat (scr_end (con_setup b c)) = unat (video_mem_start (con_setup b c)) + 50 * boot_cols b"
    unfolding f(8) using b by (subst unat_plus_small) simp_all
  then show ?thesis
    using f b by (simp add: geometry_ok_def line_bytes_def)
qed

lemma gotoxy_upd_pos:
  "\<not> (nx > video_num_columns c \<or> ny \<ge> video_num_lines c) \<Longrightarrow> gotoxy nx ny (c\<lparr>pos := p\<rparr>) = gotoxy nx ny c"
  by (rule console.equality) (simp_all add: gotoxy_def)

text \<open>The state in which \<open>con_init\<close> calls \<open>gotoxy\<close>.\<close>

definition unplaced :: "boot_video \<Rightarrow> (u32 \<Rightarrow> u8) \<Rightarrow> console" where
  "unplaced b m = (con_setup b (con_zero m))\<lparr>cur_x := 0, cur_y := 0, pos := 0\<rparr>"

lemma con_setup_placed: "con_setup b (con_zero m) = gotoxy (ucast (orig_x b)) (ucast (orig_y b)) (unplaced b m)"
  by (simp add: unplaced_def con_setup_def con_zero_def Let_def gotoxy_def)

lemma unplaced_fields:
  "cols (unplaced b m) = boot_cols b" "lins (unplaced b m) = 25" "unat (origin (unplaced b m)) \<ge> 0xb0000"
  "pos (unplaced b m) = 0" "cur_x (unplaced b m) = 0" "cur_y (unplaced b m) = 0"
  using con_setup_fields [of b "con_zero m"] by (auto simp: unplaced_def)

lemma unplaced_ok:
  assumes "good_cols b"
  shows "region_ok (unplaced b m)" "params_ok (unplaced b m)" "geometry_ok (unplaced b m)"
  using con_setup_fields [of b "con_zero m"] con_setup_geometry [OF assms, of "con_zero m"]
  by (simp_all add: unplaced_def con_defs con_zero_def)

lemma on_screen_iff:
  "ucast (orig_x b) > video_num_columns (unplaced b m) \<or> ucast (orig_y b) \<ge> video_num_lines (unplaced b m) \<longleftrightarrow>
   \<not> (unat (orig_x b) \<le> boot_cols b \<and> unat (orig_y b) < 25)"
  unfolding word_less_nat_alt word_le_nat_alt by (auto simp: unplaced_fields)

lemma con_setup_ok:
  assumes "good_cols b" "unat (orig_x b) \<le> boot_cols b" "unat (orig_y b) < 25"
  shows "con_ok (con_setup b (con_zero m))"
proof -
  let ?c = "(unplaced b m)\<lparr>pos := origin (unplaced b m)\<rparr>"
  have "con_ok ?c"
    using unplaced_ok [OF assms(1), of m] unplaced_fields [of b m] by (simp add: con_defs)
  then have "con_ok (gotoxy (ucast (orig_x b)) (ucast (orig_y b)) ?c)"
    by (rule keeps_ok [OF keeps_gotoxy])
  then show ?thesis
    unfolding con_setup_placed using assms(2,3) gotoxy_upd_pos on_screen_iff by metis
qed

lemma con_setup_off: "\<not> (unat (orig_x b) \<le> boot_cols b \<and> unat (orig_y b) < 25) \<Longrightarrow>
    con_setup b (con_zero m) = unplaced b m"
  unfolding con_setup_placed gotoxy_def on_screen_iff by (simp only: if_True not_False_eq_True)

text \<open>C20: \<open>con_init\<close> leaves the console with its invariant, on every adaptor with an even number of 8 to
  162 columns, exactly when the cursor that \<^verbatim>\<open>setup.s\<close> read from the BIOS is on a screen of 25 lines.\<close>

theorem con_setup_invariant:
  assumes "good_cols b"
  shows "con_ok (con_setup b (con_zero m)) \<longleftrightarrow> unat (orig_x b) \<le> boot_cols b \<and> unat (orig_y b) < 25"
proof -
  have "\<not> cursor_ok (unplaced b m)" using unplaced_fields [of b m] by (simp add: cursor_ok_def)
  then have "\<not> con_ok (unplaced b m)" by (simp add: con_ok_def)
  then show ?thesis using con_setup_ok [OF assms] con_setup_off [of b m] by metis
qed

lemma vga_cols: "good_cols vga_boot"
  by (simp add: good_cols_def boot_cols_def vga_boot_def)

lemma con_setup_invariant_witness: "con_ok (con_setup vga_boot (con_zero (\<lambda>_. 7)))"
  using con_setup_invariant [OF vga_cols, of "\<lambda>_. 7"] by (simp add: boot_cols_def vga_boot_def)

lemma vga_ok: "con_ok vga"
  unfolding vga_def by (rule con_setup_ok [OF vga_cols]) (simp_all add: boot_cols_def vga_boot_def)

text \<open>With more lines than 25 on the screen and the cursor below them, the console starts with
  \<open>pos\<close> null, and the first character printed goes to address 0, where the page directory is.\<close>

theorem con_setup_cursor_outside:
  assumes "good_cols b" and "25 \<le> unat (orig_y b)" and "31 < sint ch" and "sint ch < 127"
  shows "pos (con_setup b (con_zero m)) = 0 \<and>
    vmem (plain_char erase ch (con_setup b (con_zero m))) 0 = ch"
proof -
  have c: "pos (con_setup b (con_zero m)) = 0" "cur_x (con_setup b (con_zero m)) = 0"
    using assms(2) by (simp_all add: con_setup_def con_zero_def Let_def gotoxy_def word_le_nat_alt)
  have "0 < cols (con_setup b (con_zero m))"
    using con_setup_fields(1) [of b "con_zero m"] assms(1) by (simp add: good_cols_def)
  then have "\<not> cur_x (con_setup b (con_zero m)) \<ge> video_num_columns (con_setup b (con_zero m))"
    using c(2) by (simp add: unat_gt_0)
  moreover have "ucast (push_bit 8 (ucast a) OR ucast ch :: u16) = ch" for a :: u8
    by (rule bit_word_eqI) (auto simp: bit_simps)
  ultimately show ?thesis
    using assms(3,4) c by (simp add: plain_char_def print_char_def put_short_def Let_def)
qed

lemma con_setup_cursor_outside_witness:
  "\<exists>b. good_cols b \<and> 25 \<le> unat (orig_y b) \<and> pos (con_setup b (con_zero (\<lambda>_. 7))) = 0 \<and>
    vmem (plain_char 127 65 (con_setup b (con_zero (\<lambda>_. 7)))) 0 = 65"
proof -
  define b where "b = vga_boot\<lparr>orig_y := 49\<rparr>"
  have g: "good_cols b" "25 \<le> unat (orig_y b)"
    using vga_cols by (simp_all add: b_def good_cols_def boot_cols_def)
  have "31 < sint (65 :: u8)" "sint (65 :: u8) < 127" by simp_all
  from con_setup_cursor_outside [OF g this, of "\<lambda>_. 7" 127] g show ?thesis by blast
qed

section \<open>Scrolling\<close>

lemma screen_from_cursor:
  assumes "con_ok c"
  shows "con_ok (c\<lparr>scr_top := cur_y c, scr_bottom := video_num_lines c\<rparr>)"
    and "screen (from_cursor f c) = screen (f (c\<lparr>scr_top := cur_y c, scr_bottom := video_num_lines c\<rparr>))"
    and "screen (c\<lparr>scr_top := cur_y c, scr_bottom := video_num_lines c\<rparr>) = screen c"
  using assms by (simp_all add: con_defs from_cursor_def screen_def cell_at_def at_line_def fun_eq_iff)

text \<open>C19: Scrolling is an operation on the lines of the screen, on every adaptor, by moving the origin of
  an EGA's screen, by moving the screen back to the start of its memory, or by moving lines: they move by
  one inside the scrolling region, or from the cursor's line on for the insertion and deletion of a line,
  and the line freed is blank.\<close>

theorem scrolling_moves_lines:
  assumes "con_ok c" and "r < lins c" and "j < cols c"
  shows "screen (scrup c) r j =
      lines_up (unat (scr_top c)) (unat (scr_bottom c)) (video_erase_char c) (screen c) r j \<and>
    screen (scrdown c) r j =
      lines_down (unat (scr_top c)) (unat (scr_bottom c)) (video_erase_char c) (screen c) r j \<and>
    screen (delete_line c) r j = lines_up (unat (cur_y c)) (lins c) (video_erase_char c) (screen c) r j \<and>
    screen (insert_line c) r j = lines_down (unat (cur_y c)) (lins c) (video_erase_char c) (screen c) r j"
  using screen_scrup [OF assms] screen_scrdown [OF assms]
    screen_scrup [OF screen_from_cursor(1) [OF assms(1)], of r j]
    screen_scrdown [OF screen_from_cursor(1) [OF assms(1)], of r j] assms
  by (simp add: insert_line_def delete_line_def screen_from_cursor)

lemma scrolling_moves_lines_witness:
  "screen (scrup vga) 24 7 = 0x0720 \<and> screen (scrup vga) 3 7 = screen vga 4 7 \<and>
   screen (delete_line vga) 24 7 = 0x0720 \<and> screen (insert_line vga) 3 7 = screen vga 3 7"
proof -
  have f: "lins vga = 25" "cols vga = 80" "scr_top vga = 0" "scr_bottom vga = 25" "video_erase_char vga = 0x0720"
    "cur_y vga = 24"
    by (simp_all add: vga_def vga_boot_def con_setup_def con_zero_def Let_def gotoxy_def)
  from scrolling_moves_lines [OF vga_ok, of 24 7] scrolling_moves_lines [OF vga_ok, of 3 7] f
  show ?thesis by (simp add: lines_up_def lines_down_def)
qed

section \<open>Printing\<close>

definition shown :: "console \<Rightarrow> u8 \<Rightarrow> u16" where
  "shown c ch = push_bit 8 (ucast (attr c)) OR ucast ch"

lemma cell_at_pos:
  assumes "con_ok c"
  shows "pos c = cell_at c (unat (cur_y c)) (unat (cur_x c))"
proof -
  have "unat (pos c) = at_line c (unat (cur_y c)) + 2 * unat (cur_x c)"
    using assms by (simp add: con_defs at_line_def)
  moreover have "of_nat (unat (pos c)) = pos c" by simp
  ultimately show ?thesis unfolding cell_at_def by metis
qed

lemma other_cell:
  assumes "r < y \<or> y < r \<or> (r = y \<and> j \<noteq> x)" "j < cols c" "x < cols c"
  shows "at_line c r + 2 * j + 2 \<le> at_line c y + 2 * x \<or> at_line c y + 2 * x + 2 \<le> at_line c r + 2 * j"
proof -
  have "at_line c a + 2 * i + 2 \<le> at_line c b" if "a < b" "i < cols c" for a b i
    using that line_bytes_less [OF that(1), of "cols c"] by (simp add: at_line_def)
  note far = this
  consider "r < y" | "y < r" | "r = y" "j \<noteq> x" using assms(1) by blast
  then show ?thesis
  proof cases
    case 1
    from far [OF 1 assms(2)] show ?thesis by simp
  next
    case 2
    from far [OF 2 assms(3)] show ?thesis by simp
  qed auto
qed

lemma screen_put_char:
  fixes c w
  assumes "con_ok c" "cur_x c < video_num_columns c" "r < lins c" "j < cols c"
  defines "c' \<equiv> c\<lparr>vmem := put_short (pos c) w (vmem c), pos := pos c + 2, cur_x := cur_x c + 1\<rparr>"
  shows "screen c' r j = (if r = unat (cur_y c) \<and> j = unat (cur_x c) then w else screen c r j)"
proof -
  have y: "unat (cur_y c) < lins c" "unat (cur_x c) < cols c"
    using assms(1,2) by (simp_all add: con_defs word_less_nat_alt)
  note p = cell_address [OF assms(1) y] and a = cell_address [OF assms(1,3,4)]
  have pos: "pos c = cell_at c (unat (cur_y c)) (unat (cur_x c))" by (rule cell_at_pos [OF assms(1)])
  have b: "unat (pos c) + 1 < 2 ^ 32"
    unfolding pos p(1) using p(3,4) cursor_bounds(4,5) [OF assms(1)] by simp
  have same: "cell_at c' r j = cell_at c r j" by (simp add: cell_at_def at_line_def c'_def)
  have vm: "vmem c' = put_short (pos c) w (vmem c)" by (simp add: c'_def)
  show ?thesis
  proof (cases "r = unat (cur_y c) \<and> j = unat (cur_x c)")
    case True
    then show ?thesis unfolding screen_def same vm using pos get_put_short [OF b] by simp
  next
    case False
    then have "r < unat (cur_y c) \<or> unat (cur_y c) < r \<or> (r = unat (cur_y c) \<and> j \<noteq> unat (cur_x c))" by auto
    from other_cell [OF this assms(4) y(2)] have
      "unat (cell_at c r j) + 2 \<le> unat (pos c) \<or> unat (pos c) + 2 \<le> unat (cell_at c r j)"
      unfolding pos p(1) a(1) .
    then have "put_short (pos c) w (vmem c) (cell_at c r j) = vmem c (cell_at c r j)"
      "put_short (pos c) w (vmem c) (cell_at c r j + 1) = vmem c (cell_at c r j + 1)"
      using a by (auto simp: put_short_apply [OF b])
    then have "screen c' r j = screen c r j" unfolding screen_def same vm by (simp add: get_short_def)
    then show ?thesis using False by auto
  qed
qed

section \<open>The loop of \<open>con_write\<close>\<close>

abbreviation (input) wq :: "nat \<Rightarrow> ('f, console) ttys \<Rightarrow> tty_queue" where
  "wq i s \<equiv> write_q (tty_table s i)"

lemma upd_fields [simp]:
  "tty_table (upd_con f s) = tty_table s" "con (upd_con f s) = f (con s)"
  "con (upd_tty i g s) = con s" "tty_table (upd_tty i g s) i = g (tty_table s i)"
  "tty_table (sysbeep inb s) = tty_table s"
  by (simp_all add: upd_con_def upd_tty_def sysbeep_def out_port_def on_kern_def)

text \<open>One turn takes the first byte of the queue.\<close>

lemma con_loop_step:
  assumes "q_ok (wq i s)" "q_list (wq i s) = ch # cs"
  obtains s1 where "con s1 = con s" "q_ok (wq i s1)" "q_list (wq i s1) = cs"
    "con_loop wr inb i (Suc n) s = kbind (con_char wr inb i ch s1) (con_loop wr inb i n)"
proof -
  have ne: "\<not> EMPTY (wq i s)" using assms q_list_nil by fastforce
  note g = q_list_GETCH [OF assms(1) ne]
  define s1 where "s1 = upd_tty i (write_q_update (\<lambda>_. snd (GETCH (wq i s)))) s"
  show thesis
  proof (rule that)
    show "con s1 = con s" "q_ok (wq i s1)" "q_list (wq i s1) = cs"
      using g assms by (simp_all add: s1_def q_ok_head)
    show "con_loop wr inb i (Suc n) s = kbind (con_char wr inb i ch s1) (con_loop wr inb i n)"
      using g assms(2) by (simp add: s1_def split: prod.split)
  qed
qed

text \<open>Any byte but the \<open>Z\<close> that may ask for an answer leaves the queues alone.\<close>

lemma con_char_plain:
  assumes "ch \<noteq> 90"
  shows "\<exists>s'. con_char wr inb i ch s = Inr s' \<and> tty_table s' = tty_table s"
  using assms by (simp add: con_char_def Let_def)

lemma con_loop_returns:
  assumes "q_ok (wq i s)" "90 \<notin> set (q_list (wq i s))" "n = q_len (wq i s)"
  shows "\<exists>s'. con_loop wr inb i n s = Inr s' \<and> q_ok (wq i s') \<and> q_list (wq i s') = []"
  using assms
proof (induction n arbitrary: s)
  case 0
  then show ?case by (simp add: q_list_def)
next
  case (Suc n)
  then obtain ch cs where l: "q_list (wq i s) = ch # cs"
    by (metis length_q_list length_Suc_conv)
  then obtain s1 where s1: "q_ok (wq i s1)" "q_list (wq i s1) = cs"
      "con_loop wr inb i (Suc n) s = kbind (con_char wr inb i ch s1) (con_loop wr inb i n)"
    using con_loop_step [OF Suc.prems(1)] by metis
  obtain s2 where s2: "con_char wr inb i ch s1 = Inr s2" "tty_table s2 = tty_table s1"
    using con_char_plain [of ch wr inb i s1] Suc.prems(2) l by auto
  have "n = length cs" using Suc.prems(3) l by (metis length_q_list length_Cons nat.inject)
  then have "n = q_len (wq i s2)" using s1(2) s2(2) by (metis length_q_list)
  with Suc.IH [of s2] s1 s2 Suc.prems(2) l show ?case by simp
qed

lemma con_write_empties:
  assumes "q_ok (wq i s)" and "90 \<notin> set (q_list (wq i s))"
  shows "\<exists>s'. con_write wr inb i s = Inr s' \<and> EMPTY (wq i s')"
proof -
  obtain s' where s': "con_loop wr inb i (q_len (wq i s)) s = Inr s'" "q_ok (wq i s')" "q_list (wq i s') = []"
    using con_loop_returns [OF assms refl] by blast
  then have "EMPTY (wq i s')" using q_list_nil by blast
  with s'(1) show ?thesis by (simp add: con_write_def CHARS_len)
qed


text \<open>Text that fits in the rest of the line.\<close>

lemma con_char_prints:
  assumes "con_ok (con s)" "con_state (con s) = 0" "32 \<le> ch" "ch < 127" "unat (cur_x (con s)) < cols (con s)"
  shows "con_char wr inb i ch s = Inr (upd_con (\<lambda>c. c\<lparr>vmem := put_short (pos c) (shown c ch) (vmem c),
    pos := pos c + 2, cur_x := cur_x c + 1\<rparr>) s)"
proof -
  have u: "32 \<le> uint ch" "uint ch < 127" using assms(3,4) by (simp_all add: word_le_def word_less_def)
  have "sint ch = signed_take_bit 7 (uint ch)" by (simp add: sint_uint)
  also have "\<dots> = uint ch" by (rule signed_take_bit_int_eq_self; use u in simp)
  finally have s: "31 < sint ch" "sint ch < 127" using u by simp_all
  have "ch \<noteq> 7" using u by auto
  then show ?thesis
    using assms(2,5) s by (simp add: con_char_def plain_char_def print_char_def shown_def Let_def upd_con_def
        word_le_nat_alt)
qed

lemma con_loop_prints:
  assumes "con_ok (con s)" "con_state (con s) = 0" "q_ok (wq i s)" "q_list (wq i s) = cs"
    and "\<forall>ch\<in>set cs. 32 \<le> ch \<and> ch < 127" "unat (cur_x (con s)) + length cs \<le> cols (con s)"
  shows "\<exists>s'. con_loop wr inb i (length cs) s = Inr s' \<and> q_ok (wq i s') \<and> q_list (wq i s') = [] \<and>
    unat (cur_x (con s')) = unat (cur_x (con s)) + length cs \<and> cur_y (con s') = cur_y (con s) \<and>
    (\<forall>r < lins (con s). \<forall>j < cols (con s). screen (con s') r j =
      (if r = unat (cur_y (con s)) \<and> unat (cur_x (con s)) \<le> j \<and> j < unat (cur_x (con s)) + length cs
       then shown (con s) (cs ! (j - unat (cur_x (con s)))) else screen (con s) r j))"
  using assms
proof (induction cs arbitrary: s)
  case (Cons ch cs)
  obtain s1 where s1: "con s1 = con s" "q_ok (wq i s1)" "q_list (wq i s1) = cs"
      "con_loop wr inb i (Suc (length cs)) s = kbind (con_char wr inb i ch s1) (con_loop wr inb i (length cs))"
    by (rule con_loop_step [OF Cons.prems(3,4)])
  define c where "c = con s"
  define c2 where "c2 = c\<lparr>vmem := put_short (pos c) (shown c ch) (vmem c), pos := pos c + 2, cur_x := cur_x c + 1\<rparr>"
  define s2 where "s2 = upd_con (\<lambda>_. c2) s1"
  have x: "unat (cur_x c) < cols c" using Cons.prems(6) by (simp add: c_def)
  then have xw: "cur_x c < video_num_columns c" by (simp add: word_less_nat_alt)
  have ch: "con_char wr inb i ch s1 = Inr s2"
    using con_char_prints [of s1 ch wr inb i] Cons.prems x
    by (simp add: s1(1) c_def s2_def c2_def upd_con_def)
  have ok: "con_ok c" using Cons.prems(1) by (simp add: c_def)
  have ok2: "con_ok c2" unfolding c2_def by (rule keeps_ok [OF keeps_put_char [OF ok xw]])
  have x2: "unat (cur_x c2) = unat (cur_x c) + 1"
    using x cols_bound [OF ok] unat_add_one [of "cur_x c"] by (simp add: c2_def)
  have same: "cur_y c2 = cur_y c" "cols c2 = cols c" "lins c2 = lins c" "con_state c2 = con_state c"
    "shown c2 = shown c"
    by (simp_all add: c2_def shown_def fun_eq_iff)
  have con2: "con s2 = c2" "wq i s2 = wq i s1" by (simp_all add: s2_def)
  have "con_ok (con s2)" "con_state (con s2) = 0" "q_ok (wq i s2)" "q_list (wq i s2) = cs"
    "\<forall>ch\<in>set cs. 32 \<le> ch \<and> ch < 127" "unat (cur_x (con s2)) + length cs \<le> cols (con s2)"
    using Cons.prems ok2 s1 by (simp_all add: con2 same x2 c_def)
  from Cons.IH [OF this] obtain s' where s':
    "con_loop wr inb i (length cs) s2 = Inr s'" "q_ok (wq i s')" "q_list (wq i s') = []"
    "unat (cur_x (con s')) = unat (cur_x c2) + length cs" "cur_y (con s') = cur_y c"
    "\<And>r j. r < lins c \<Longrightarrow> j < cols c \<Longrightarrow> screen (con s') r j =
      (if r = unat (cur_y c) \<and> unat (cur_x c2) \<le> j \<and> j < unat (cur_x c2) + length cs
       then shown c (cs ! (j - unat (cur_x c2))) else screen c2 r j)"
    unfolding con2 same by blast
  have scr: "screen (con s') r j =
      (if r = unat (cur_y c) \<and> unat (cur_x c) \<le> j \<and> j < unat (cur_x c) + length (ch # cs)
       then shown c ((ch # cs) ! (j - unat (cur_x c))) else screen c r j)"
    if "r < lins c" "j < cols c" for r j
    using s'(6) [OF that] screen_put_char [OF ok xw that, of "shown c ch"]
    unfolding x2 c2_def [symmetric] by (auto simp: nth_Cons' not_le)
  then show ?case
    using s' s1(4) ch x2 unfolding c_def [symmetric] by (intro exI [of _ s']) simp
qed (auto simp: q_list_def)

text \<open>Text written to the console appears on the cursor's line, in the current attribute, from the
  cursor on; the cursor moves behind it, the queue is emptied and no other cell changes.\<close>

theorem con_write_prints:
  assumes "con_ok (con s)" and "con_state (con s) = 0" and "q_ok (wq i s)" and "q_list (wq i s) = cs"
    and "\<forall>ch\<in>set cs. 32 \<le> ch \<and> ch < 127" and "unat (cur_x (con s)) + length cs \<le> cols (con s)"
  shows "\<exists>s'. con_write wr inb i s = Inr s' \<and> EMPTY (wq i s') \<and>
    unat (cur_x (con s')) = unat (cur_x (con s)) + length cs \<and> cur_y (con s') = cur_y (con s) \<and>
    (\<forall>r < lins (con s). \<forall>j < cols (con s). screen (con s') r j =
      (if r = unat (cur_y (con s)) \<and> unat (cur_x (con s)) \<le> j \<and> j < unat (cur_x (con s)) + length cs
       then shown (con s) (cs ! (j - unat (cur_x (con s)))) else screen (con s) r j))"
proof -
  have len: "unat (CHARS (wq i s)) = length cs"
    using assms(4) by (metis CHARS_len length_q_list)
  have set_cursor: "screen (set_cursor c) = screen c" "cur_x (set_cursor c) = cur_x c" "cur_y (set_cursor c) = cur_y c"
    for c by (simp_all add: set_cursor_def con_out_def screen_def cell_at_def at_line_def Let_def fun_eq_iff)
  obtain s' where s': "con_loop wr inb i (length cs) s = Inr s'" "q_ok (wq i s')" "q_list (wq i s') = []"
    and rest: "unat (cur_x (con s')) = unat (cur_x (con s)) + length cs" "cur_y (con s') = cur_y (con s)"
      "\<forall>r < lins (con s). \<forall>j < cols (con s). screen (con s') r j =
        (if r = unat (cur_y (con s)) \<and> unat (cur_x (con s)) \<le> j \<and> j < unat (cur_x (con s)) + length cs
         then shown (con s) (cs ! (j - unat (cur_x (con s)))) else screen (con s) r j)"
    using con_loop_prints [OF assms] by blast
  have "EMPTY (wq i s')" using s'(2,3) q_list_nil by blast
  then show ?thesis
    using s'(1) rest by (intro exI [of _ "upd_con set_cursor s'"]) (simp add: con_write_def len set_cursor)
qed

section \<open>Escape sequences\<close>

lemma con_write_two:
  assumes "q_ok (wq i s)" "q_list (wq i s) = [c1, c2]"
  obtains s1 where "con s1 = con s"
    "con_write wr inb i s = kbind (kbind (con_char wr inb i c1 s1) (con_loop wr inb i 1)) (\<lambda>s. Inr (upd_con set_cursor s))"
    "q_ok (wq i s1)" "q_list (wq i s1) = [c2]"
proof -
  have len: "unat (CHARS (wq i s)) = Suc (Suc 0)"
    using assms(2) by (metis CHARS_len length_q_list length_Cons list.size(3))
  from con_loop_step [OF assms] obtain s1 where "con s1 = con s" "q_ok (wq i s1)" "q_list (wq i s1) = [c2]"
    "con_loop wr inb i (Suc 1) s = kbind (con_char wr inb i c1 s1) (con_loop wr inb i 1)" by metis
  then show thesis using len by (intro that [of s1]) (simp_all add: con_write_def)
qed

text \<open>\<open>ESC 7\<close> and \<open>ESC 8\<close> do nothing: the code compares the column, not the character, with \<open>7\<close> and
  \<open>8\<close>. The saved position stays what it was wherever the cursor is but in columns 55 and 56.\<close>

theorem esc_7_ignored:
  assumes "q_ok (wq i s)" and "q_list (wq i s) = [27, ch]" and "ch \<in> {55, 56}" and "con_state (con s) = 0"
    and "cur_x (con s) \<notin> {55, 56}"
  shows "\<exists>s'. con_write wr inb i s = Inr s' \<and> con s' = set_cursor (con s)"
proof -
  obtain s1 where s1: "con s1 = con s" "q_ok (wq i s1)" "q_list (wq i s1) = [ch]"
    "con_write wr inb i s = kbind (kbind (con_char wr inb i 27 s1) (con_loop wr inb i 1)) (\<lambda>s. Inr (upd_con set_cursor s))"
    by (rule con_write_two [OF assms(1,2)])
  define s2 where "s2 = upd_con (con_state_update (\<lambda>_. 1)) s1"
  have 1: "con_char wr inb i 27 s1 = Inr s2"
    using assms(4) s1(1) by (simp add: con_char_def plain_char_def s2_def upd_con_def)
  have wq2: "wq i s2 = wq i s1" by (simp add: s2_def)
  obtain s3 where s3: "con s3 = con s2" "con_loop wr inb i (Suc 0) s2 = kbind (con_char wr inb i ch s3) (con_loop wr inb i 0)"
    using con_loop_step [of s2 i ch "[]"] s1(2,3) wq2 by metis
  have "con_char wr inb i ch s3 = Inr (upd_con (con_state_update (\<lambda>_. 0)) s3)"
    using assms(3,5) s1(1) s3(1) by (auto simp: con_char_def esc_char_def s2_def upd_con_def)
  moreover have "(con s2)\<lparr>con_state := 0\<rparr> = con s"
    using assms(4) s1(1) by (simp add: s2_def)
  ultimately show ?thesis using s1(4) 1 s3 by (simp add: upd_con_def)
qed

section \<open>The memory written\<close>

text \<open>C17: Whatever bytes a terminal's write queue holds, the driver keeps the console's invariant (the
  cursor is on the screen, \<open>pos\<close> is its address, the screen lies in the adaptor's memory) and changes no
  memory outside the adaptor's; neither does the line discipline when characters come in, with their
  echo.\<close>

theorem console_safe:
  assumes "con_ok (con s)"
  shows "ok_res (\<lambda>s'. con_ok (con s') \<and> (\<forall>a. off_screen (con s) a \<longrightarrow> vmem (con s') a = vmem (con s) a))
      (driver inb d i s) \<and>
    ok_res (\<lambda>s'. con_ok (con s') \<and> (\<forall>a. off_screen (con s) a \<longrightarrow> vmem (con s') a = vmem (con s) a))
      (do_tty_interrupt (driver inb d) i s)"
  using screen.wr_keeps screen.copy_to_cooked_keeps con_keeps_refl [OF assms]
  unfolding do_tty_interrupt_def by (intro conjI keeps_safe) blast+

section \<open>A terminal to try them on\<close>

text \<open>The console's terminal with some bytes in its write queue, in front of the screen \<open>vga\<close>.\<close>

definition demo_queue :: "u8 list \<Rightarrow> tty_queue" where
  "demo_queue cs = put_all cs (new_queue 0)"

definition demo :: "u8 list \<Rightarrow> (unit, console) ttys" where
  "demo cs = \<lparr>kern = small_system, tty_table = (\<lambda>_. console_tty\<lparr>write_q := demo_queue cs\<rparr>),
     cr_flag = False, con = vga\<rparr>"

lemma new_queue_simps [simp]: "q_ok (new_queue d)" "q_list (new_queue d) = []" "q_len (new_queue d) = 0"
  by (simp_all add: new_queue_def q_ok_def q_list_def q_len_def)

lemma q_list_put_all:
  "q_ok q \<Longrightarrow> q_len q + length cs < 1024 \<Longrightarrow> q_list (put_all cs q) = q_list q @ cs"
proof (induction cs arbitrary: q)
  case (Cons c cs)
  then have nf: "\<not> FULL q" by (simp add: FULL_len)
  have "q_len (PUTCH c q) = q_len q + 1" using q_len_steps(1) [OF Cons.prems(1)] nf by simp
  then show ?case
    using Cons.IH [of "PUTCH c q"] Cons.prems q_list_PUTCH [OF Cons.prems(1) nf]
    by (simp add: put_all_def q_ok_tail)
qed (simp add: put_all_def)

lemma demo_simps:
  "con (demo cs) = vga" "q_ok (wq i (demo cs))"
  "length cs < 1024 \<Longrightarrow> q_list (wq i (demo cs)) = cs"
  by (simp_all add: demo_def demo_queue_def q_ok_put_all q_list_put_all)

lemma vga_fields:
  "lins vga = 25" "cols vga = 80" "cur_x vga = 3" "cur_y vga = 24" "con_state vga = 0" "attr vga = 7"
  by (simp_all add: vga_def vga_boot_def con_setup_def con_zero_def Let_def gotoxy_def)


lemma con_write_prints_witness:
  "\<exists>s'. con_write (\<lambda>_ s. Inr s) (\<lambda>_ _. 0) 0 (demo [104, 105]) = Inr s' \<and>
    screen (con s') 24 3 = 0x0768 \<and> screen (con s') 24 4 = 0x0769 \<and> unat (cur_x (con s')) = 5"
proof -
  have l: "q_list (wq 0 (demo [104, 105])) = [104, 105]" by (simp add: demo_simps)
  obtain s' where s': "con_write (\<lambda>_ s. Inr s) (\<lambda>_ _. 0) 0 (demo [104, 105]) = Inr s'"
    "unat (cur_x (con s')) = 5"
    and scr: "\<And>r j. r < 25 \<Longrightarrow> j < 80 \<Longrightarrow> screen (con s') r j =
      (if r = 24 \<and> 3 \<le> j \<and> j < 5 then shown vga ([104, 105] ! (j - 3)) else screen vga r j)"
    using con_write_prints [of "demo [104, 105]" 0 "[104, 105]" "\<lambda>_ s. Inr s" "\<lambda>_ _. 0"] vga_ok l
    by (auto simp: demo_simps vga_fields)
  have "screen (con s') 24 3 = 0x0768" "screen (con s') 24 4 = 0x0769"
    using scr [of 24 3] scr [of 24 4] by (simp_all add: shown_def vga_fields)
  with s' show ?thesis by blast
qed

lemma esc_7_ignored_witness:
  "\<exists>s'. con_write (\<lambda>_ s. Inr s) (\<lambda>_ _. 0) 0 (demo [27, 55]) = Inr s' \<and> con s' = set_cursor vga"
  using esc_7_ignored [of "demo [27, 55]" 0 55 "\<lambda>_ s. Inr s" "\<lambda>_ _. 0"] by (simp add: demo_simps vga_fields)

lemma console_safe_witness:
  "\<exists>s'. driver (\<lambda>_ _. 0) 1 0 (demo [104, 105]) = Inr s' \<and> con_ok (con s') \<and> vmem (con s') 0 = vmem vga 0"
proof -
  have "tty_drv (tty_table (demo cs) 0) = con_driver" for cs by (simp add: demo_def console_tty_def)
  then have "driver (\<lambda>_ _. 0) (Suc 0) 0 (demo [104, 105]) =
      con_write (driver (\<lambda>_ _. 0) 0) (\<lambda>_ _. 0) 0 (demo [104, 105])" by simp
  then obtain s' where s': "driver (\<lambda>_ _. 0) (Suc 0) 0 (demo [104, 105]) = Inr s'"
    using con_write_empties [of "demo [104, 105]" 0 "driver (\<lambda>_ _. 0) 0" "\<lambda>_ _. 0"]
    by (auto simp: demo_simps)
  have "off_screen vga 0"
    using con_setup_fields(4) [of vga_boot "con_zero (\<lambda>a. ucast (drop_bit 1 a))"]
    by (auto simp: off_screen_def vga_def)
  then show ?thesis
    using console_safe [of "demo [104, 105]" "\<lambda>_ _. 0" "Suc 0" 0] vga_ok s'
    by (auto simp: demo_simps ok_res_def)
qed

end
