(* ===== verification/Tty_Props.thy ===== *)
theory Tty_Props
  imports Console_Props
begin

text \<open>
  What the terminals guarantee: their queues' indices, the count of complete lines behind canonical
  reads, the translation of output, and the parameters set through \<open>ioctl\<close>.
\<close>

section \<open>Indices stay in the buffers\<close>

definition tty_ok :: "tty_struct \<Rightarrow> bool" where
  "tty_ok t \<longleftrightarrow> q_ok (read_q t) \<and> q_ok (write_q t) \<and> q_ok (secondary t)"

definition queues_ok :: "('f, 'c) ttys \<Rightarrow> bool" where
  "queues_ok s \<longleftrightarrow> (\<forall>i. tty_ok (tty_table s i))"

lemma queues_ok_upd: "queues_ok s \<Longrightarrow> (tty_ok (tty_table s i) \<Longrightarrow> tty_ok (f (tty_table s i))) \<Longrightarrow> queues_ok (upd_tty i f s)"
  by (simp add: queues_ok_def upd_tty_def)

lemma queues_ok_other [simp]:
  "queues_ok (on_kern g s) = queues_ok s" "queues_ok (upd_con h s') = queues_ok s'"
  "queues_ok (sysbeep inb s') = queues_ok s'" "queues_ok (out_port v p s) = queues_ok s"
  by (simp_all add: queues_ok_def on_kern_def upd_con_def sysbeep_def out_port_def)

lemma indices_kept:
  assumes "\<And>i s. queues_ok s \<Longrightarrow> ok_res queues_ok (wr i s)"
  shows "tty_keeps wr queues_ok"
proof (rule tty_keeps.intro)
  show "queues_ok s \<Longrightarrow> ok_res queues_ok (wr i s)" for i s by (rule assms)
qed (auto intro!: queues_ok_upd simp: tty_ok_def q_ok_put_all q_ok_tail q_ok_head)

lemma con_char_indices:
  assumes "\<And>i s. queues_ok s \<Longrightarrow> ok_res queues_ok (wr i s)" "queues_ok s"
  shows "ok_res queues_ok (con_char wr inb i ch s)"
proof -
  have "queues_ok (upd_tty i (read_q_update (put_all RESPONSE)) (upd_con (con_state_update (\<lambda>_. 0)) s))"
    using assms(2) by (intro queues_ok_upd) (simp_all add: tty_ok_def q_ok_put_all)
  then have "ok_res queues_ok (respond wr i (upd_con (con_state_update (\<lambda>_. 0)) s))"
    unfolding respond_def
    by (intro tty_keeps.copy_to_cooked_keeps [OF indices_kept]) (rule assms(1))
  then show ?thesis
    unfolding con_char_def Let_def by (intro ok_res_if ok_res_intros) (simp_all add: assms(2))
qed

lemma con_loop_indices:
  assumes "\<And>i s. queues_ok s \<Longrightarrow> ok_res queues_ok (wr i s)"
  shows "queues_ok s \<Longrightarrow> ok_res queues_ok (con_loop wr inb i n s)"
proof (induction n arbitrary: s)
  case (Suc n)
  have "queues_ok (upd_tty i (write_q_update (\<lambda>_. snd (GETCH (write_q (tty_table s i))))) s)"
    using Suc.prems by (intro queues_ok_upd) (simp_all add: tty_ok_def q_ok_head)
  then show ?case
    using Suc.IH by (auto split: prod.split intro!: ok_res_kbind [OF con_char_indices [OF assms]])
qed (simp add: ok_res_intros)

lemma driver_indices: "queues_ok s \<Longrightarrow> ok_res queues_ok (driver inb d i s)"
proof (induction d arbitrary: i s)
  case (Suc d)
  have "ok_res queues_ok (con_write (driver inb d) inb i s)"
    unfolding con_write_def
    by (rule ok_res_kbind [OF con_loop_indices [OF Suc.IH Suc.prems]]) (simp_all add: ok_res_intros)
  moreover have "queues_ok (rs_write inb i s)" using Suc.prems by (simp add: rs_write_def Let_def)
  ultimately show ?case by (simp split: tty_driver.split) (simp add: ok_res_intros)
qed (simp add: ok_res_intros)

interpretation indices: tty_keeps "driver inb d" queues_ok for inb d
  by (rule indices_kept) (rule driver_indices)

lemma drain_indices: "drain i buf nr n s = (e, nr', n', s') \<Longrightarrow> queues_ok s \<Longrightarrow> queues_ok s'"
proof (induction i buf nr n s arbitrary: e nr' n' s' rule: drain.induct)
  case (2 i buf nr n s)
  obtain c q where g: "GETCH (secondary (tty_table s i)) = (c, q)" by (cases "GETCH (secondary (tty_table s i))")
  then have "q = snd (GETCH (secondary (tty_table s i)))" by simp
  then have "q_ok q" using 2(3) by (simp add: queues_ok_def tty_ok_def q_ok_head)
  then have up: "queues_ok (upd_tty i (secondary_update (\<lambda>_. q)) s)"
      "queues_ok (upd_tty i (secondary_update (\<lambda>_. q\<lparr>q_data := d\<rparr>)) s)" for d
    using 2(3) by (auto intro!: queues_ok_upd simp: tty_ok_def q_ok_def)
  show ?case
    using 2(2) up 2(1) [OF g [symmetric] refl refl refl _ refl] by (auto simp: Let_def g split: if_splits)
qed simp

lemma read_indices [simp]:
  "queues_ok (set_alarm a s) = queues_ok s" "queues_ok (snd (read_end r n s)) = queues_ok s"
  by (simp_all add: set_alarm_def read_end_def Let_def)

lemma tty_read_loop_indices: "queues_ok s \<Longrightarrow> queues_ok (snd (tty_read_loop i r nr n flag s))"
proof (induction i r nr n flag s rule: tty_read_loop.induct)
  case (1 i r nr n flag s)
  obtain e nr' n' s' where d: "drain i (rq_buf r) nr n s = (e, nr', n', s')"
    by (cases "drain i (rq_buf r) nr n s")
  then have q: "queues_ok s'" using 1(2) by (rule drain_indices)
  show ?case
    by (subst tty_read_loop.simps) (use 1 q in \<open>simp add: Let_def d\<close>)
qed

lemma fill_loop_indices:
  assumes "fill_loop i buf nr n s = Some r" "queues_ok s"
  shows "ok_res (\<lambda>(nr, n, s). queues_ok s) r"
proof -
  let ?Q = "\<lambda>(i :: nat) (buf :: u32) (nr :: nat) (n :: nat) s r. queues_ok s \<longrightarrow> ok_res (\<lambda>(nr, n, s). queues_ok s) r"
  have put: "queues_ok (upd_tty i (write_q_update (PUTCH c)) s)" "queues_ok (upd_tty i (write_q_update (PUTCH c)) (s\<lparr>cr_flag := b\<rparr>))"
    if "queues_ok s" for i c b and s :: "('a, 'b) ttys"
    using that by (simp_all add: queues_ok_def upd_tty_def tty_ok_def q_ok_tail)
  have "?Q i buf nr n s r"
    by (rule fill_loop.raw_induct [where P = ?Q, OF _ assms(1)])
      (fastforce simp: Let_def put split: if_splits sum.splits)
  with assms(2) show ?thesis by simp
qed

lemma tty_write_indices:
  assumes "queues_ok s" "\<And>s. queues_ok s \<Longrightarrow> ok_res queues_ok (wr i s)"
  shows "ok_res (\<lambda>(io, s). queues_ok s) (tty_write wr i buf nr s)"
  unfolding tty_write_def tty_write_turn_def Let_def
  by (auto simp: assms(1) split: prod.splits
      intro!: ok_res_if ok_res_intros ok_res_kbind [OF ok_res_returns [OF fill_loop_indices [OF _ assms(1)]]]
        ok_res_kbind [OF assms(2)])

lemma ioctl_indices:
  assumes "queues_ok s"
  shows "ok_res (\<lambda>(r, s). queues_ok s) (tty_ioctl pad dev cmd arg s)"
proof -
  have speed: "queues_ok (change_speed i s) = queues_ok s" for i and s :: "('a, 'b) ttys"
    by (simp add: change_speed_def Let_def)
  have v: "ok_res queues_ok (verified a sz f s)" for a sz f
    using assms by (auto simp: verified_def queues_ok_def ok_res_def kbind_Inr_iff)
  have fl: "queues_ok (upd_tty i (read_q_update flush) s)" "queues_ok (upd_tty i (write_q_update flush) s)"
    if "queues_ok s" for i and s :: "('a, 'b) ttys"
    using that by (auto simp: queues_ok_def upd_tty_def tty_ok_def flush_def q_ok_def)
  have set: "queues_ok (set_termios i a s)" "queues_ok (set_termio i a s)" if "queues_ok s" for i a and s :: "('a, 'b) ttys"
    using that unfolding set_termios_def set_termio_def speed
    by (auto intro!: queues_ok_upd simp: tty_ok_def)
  have ok: "ok_res (\<lambda>(r, s). queues_ok s) (kbind m (\<lambda>s. Inr (0, s)))" if "ok_res queues_ok m" for m
    by (rule ok_res_kbind [OF that]) (simp add: ok_res_intros)
  show ?thesis
    unfolding tty_ioctl_def tty_command_def get_termios_def get_termio_def Let_def
    by (intro ok_res_if ok_res_intros ok v case_prodI set fl assms) (simp_all add: assms)
qed

text \<open>C21: The indices of a terminal's queues stay inside their buffers of 1024 bytes, whatever the driver
  writes, whatever characters come in, and whatever calls of \<open>read\<close>, \<open>write\<close> and \<open>ioctl\<close> are made.\<close>

theorem queue_indices_in_range:
  assumes "queues_ok s"
  shows "ok_res queues_ok (driver inb d i s) \<and> ok_res queues_ok (do_tty_interrupt (driver inb d) i s) \<and>
    queues_ok (snd (tty_read i buf nr s)) \<and>
    ok_res (\<lambda>(io, s). queues_ok s) (tty_write (driver inb d) i buf nr s) \<and>
    ok_res (\<lambda>(r, s). queues_ok s) (tty_ioctl pad dev cmd arg s)"
  using indices.wr_keeps indices.copy_to_cooked_keeps assms
  by (auto simp: do_tty_interrupt_def tty_read_def Let_def
      intro: tty_read_loop_indices tty_write_indices ioctl_indices)

lemma init_queues_ok: "tty_table s = init_ttys \<Longrightarrow> queues_ok s"
  by (simp add: queues_ok_def tty_ok_def init_ttys_def console_tty_def serial_tty_def)

lemma queue_indices_in_range_witness:
  "\<exists>s :: (unit, console) ttys. tty_table s = init_ttys \<and>
    ok_res queues_ok (do_tty_interrupt (driver (\<lambda>_ _. 0) 3) 0 s) \<and> queues_ok (snd (tty_read 0 0 10 s))"
proof -
  define s where "s = (demo [])\<lparr>tty_table := init_ttys\<rparr>"
  have "queues_ok s" by (rule init_queues_ok) (simp add: s_def)
  from queue_indices_in_range [OF this, of "\<lambda>_ _. 0" 3 0] show ?thesis
    by (intro exI [of _ s]) (simp add: s_def)
qed

end
