(* ===== verification/Tty_Lines.thy ===== *)
theory Tty_Lines
  imports Tty_Props
begin

text \<open>
  Canonical input: \<open>data\<close> of a terminal's secondary queue counts the ends of lines in it, and a
  canonical read delivers a complete line without waiting. Output: what \<open>tty_write\<close> makes of the
  user's bytes. The parameters of a terminal through \<open>ioctl\<close>.
\<close>

section \<open>The count of line ends\<close>

definition ends :: "tty_struct \<Rightarrow> nat" where
  "ends t = length (filter (line_end t) (q_list (secondary t)))"

definition lines_ok :: "tty_struct \<Rightarrow> bool" where
  "lines_ok t \<longleftrightarrow> q_ok (secondary t) \<and> q_data (secondary t) = of_nat (ends t)"

lemma line_end_upd [simp]:
  "line_end (secondary_update f t) = line_end t" "line_end (read_q_update f t) = line_end t"
  "line_end (write_q_update f t) = line_end t" "line_end (stopped_update g t) = line_end t"
  by (simp_all add: line_end_def cc_def fun_eq_iff)

lemma lines_ok_upd [simp]:
  "lines_ok (read_q_update f t) = lines_ok t" "lines_ok (write_q_update f t) = lines_ok t"
  "lines_ok (stopped_update g t) = lines_ok t" "lines_ok (secondary_update (proc_list_update h) t) = lines_ok t"
  by (simp_all add: lines_ok_def ends_def)

lemma lines_ok_drop:
  assumes "lines_ok t" "\<not> nothing_to_erase t"
  shows "lines_ok (secondary_update (q_head_update DEC) t)"
proof -
  have q: "q_ok (secondary t)" "\<not> EMPTY (secondary t)" "\<not> line_end t (LAST (secondary t))"
    using assms by (auto simp: lines_ok_def nothing_to_erase_def)
  have ne: "q_list (secondary t) \<noteq> []" using q q_list_nil by blast
  have "q_list (secondary t) = butlast (q_list (secondary t)) @ [LAST (secondary t)]"
    unfolding LAST_list(1) [OF q(1,2)] using ne by simp
  then have "ends t = length (filter (line_end t) (butlast (q_list (secondary t))))"
    unfolding ends_def using q(3) by (metis append.right_neutral filter.simps filter_append)
  then show ?thesis
    using assms(1) q by (simp add: lines_ok_def ends_def LAST_list(2) q_ok_tail)
qed

text \<open>A character that arrives, counted before it is put.\<close>

lemma lines_ok_put:
  assumes "lines_ok t" "\<not> FULL (secondary t)"
  shows "lines_ok (secondary_update (PUTCH c)
    (if line_end t c then secondary_update (q_data_update (\<lambda>d. d + 1)) t else t))"
proof -
  have q: "q_ok (secondary t)" using assms(1) by (simp add: lines_ok_def)
  have data: "q_data (PUTCH c q) = q_data q" "PUTCH c (q_data_update g q) = q_data_update g (PUTCH c q)" for q g
    by (simp_all add: PUTCH_def)
  show ?thesis
    using assms q q_list_PUTCH [OF q assms(2)] by (simp add: lines_ok_def ends_def data q_ok_tail)
qed

text \<open>A driver that leaves the secondary queues and the parameters alone.\<close>

definition same_input :: "('f, 'c) ttys \<Rightarrow> ('f, 'c) ttys \<Rightarrow> bool" where
  "same_input s s' \<longleftrightarrow> (\<forall>j. secondary (tty_table s' j) = secondary (tty_table s j) \<and>
     termios (tty_table s' j) = termios (tty_table s j))"

lemma lines_ok_cong:
  assumes "secondary t = secondary t'" "termios t = termios t'"
  shows "lines_ok t = lines_ok t'" and "nothing_to_erase t = nothing_to_erase t'" and "line_end t = line_end t'"
proof -
  show l: "line_end t = line_end t'" by (simp add: line_end_def cc_def assms(2) fun_eq_iff)
  show "lines_ok t = lines_ok t'" "nothing_to_erase t = nothing_to_erase t'"
    by (simp_all add: lines_ok_def ends_def nothing_to_erase_def l assms(1))
qed

definition all_lines :: "('f, 'c) ttys \<Rightarrow> bool" where
  "all_lines s \<longleftrightarrow> (\<forall>j. lines_ok (tty_table s j))"

lemma all_lines_same: "same_input s s' \<Longrightarrow> all_lines s' = all_lines s"
  unfolding all_lines_def same_input_def using lines_ok_cong(1) by metis

lemma all_lines_upd: "all_lines s \<Longrightarrow> lines_ok (f (tty_table s i)) \<Longrightarrow> all_lines (upd_tty i f s)"
  by (simp add: all_lines_def upd_tty_def)

lemma all_lines_kern [simp]: "all_lines (on_kern g s) = all_lines s"
  by (simp add: all_lines_def on_kern_def)

lemma all_lines_tty: "all_lines s \<Longrightarrow> lines_ok (tty_table s i)"
  by (simp add: all_lines_def)

lemma same_input_echo: "same_input s (upd_tty i (write_q_update f) s)"
  by (simp add: same_input_def upd_tty_def)

lemma same_input_trans: "same_input s s' \<Longrightarrow> same_input s' s'' \<Longrightarrow> same_input s s''"
  by (simp add: same_input_def)

lemma same_input_refl: "same_input s s"
  by (simp add: same_input_def)

locale output_only =
  fixes wr :: "('f, 'c) tty_writer"
  assumes input_kept: "ok_res (same_input s) (wr i s)"
begin

lemma echo_input: "ok_res (same_input s) (wr i (upd_tty i (write_q_update f) s))"
  using input_kept [of "upd_tty i (write_q_update f) s" i] same_input_trans [OF same_input_echo]
  by (auto simp: ok_res_def)

lemma erase_input: "ok_res (same_input s) (echo_erase wr i s)"
  by (simp add: echo_erase_def Let_def echo_input ok_res_intros same_input_refl)

lemma erase_lines:
  assumes "all_lines s" "\<not> nothing_to_erase (tty_table s i)" "echo_erase wr i s = Inr s'"
  shows "all_lines (drop_last i s')"
proof -
  have s': "same_input s s'" using ok_res_D [OF erase_input assms(3)] .
  have l: "all_lines s'" using all_lines_same [OF s'] assms(1) by simp
  have "\<not> nothing_to_erase (tty_table s' i)"
    using s' assms(2) lines_ok_cong(2) [of "tty_table s' i" "tty_table s i"] by (simp add: same_input_def)
  then show ?thesis
    unfolding drop_last_def by (intro all_lines_upd lines_ok_drop all_lines_tty l)
qed

lemma kill_lines:
  assumes "kill_line wr i s = Some r" "all_lines s"
  shows "ok_res all_lines r"
proof -
  let ?Q = "\<lambda>w (i :: nat) s r. w = wr \<longrightarrow> all_lines s \<longrightarrow> ok_res all_lines r"
  have "?Q wr i s r"
  proof (rule kill_line.raw_induct [where P = ?Q, OF _ assms(1)], intro impI)
    fix k w i s r
    assume IH: "\<And>w (i :: nat) s r. k w i s = Some r \<Longrightarrow> ?Q w i s r" and w: "w = wr" and l: "all_lines s"
      and eq: "(if nothing_to_erase (tty_table s i) then Some (Inr s)
        else case echo_erase w i s of Inl e \<Rightarrow> Some (Inl e) | Inr s \<Rightarrow> k w i (drop_last i s)) = Some r"
    show "ok_res all_lines r"
    proof (cases "nothing_to_erase (tty_table s i) \<or> isl (echo_erase w i s)")
      case True
      then show ?thesis using eq l by (auto simp: ok_res_def split: if_splits sum.splits)
    next
      case False
      then obtain s1 where s1: "echo_erase wr i s = Inr s1" by (cases "echo_erase wr i s") (auto simp: w)
      then have "all_lines (drop_last i s1)" using False by (intro erase_lines [OF l]) simp_all
      then show ?thesis using eq w False s1 IH [of w i "drop_last i s1" r] by simp
    qed
  qed
  with assms(2) show ?thesis by simp
qed

lemma take_lines:
  assumes "all_lines s" "\<not> FULL (secondary (tty_table s i))"
  shows "ok_res all_lines (take_char wr i c s)"
proof -
  define f :: "tty_struct \<Rightarrow> tty_struct" where "f = (\<lambda>t. if line_end (tty_table s i) c then secondary_update (q_data_update (\<lambda>d. d + 1)) t else t)"
  define s1 where "s1 = upd_tty i f s"
  have put: "lines_ok (secondary_update (PUTCH c) (f (tty_table s i)))"
    unfolding f_def by (rule lines_ok_put [OF all_lines_tty [OF assms(1)] assms(2)])
  have fin: "all_lines (upd_tty i (secondary_update (PUTCH c)) s2)" if "same_input s1 s2" for s2
  proof -
    have "secondary (tty_table s2 j) = secondary (tty_table s1 j)" "termios (tty_table s2 j) = termios (tty_table s1 j)" for j
      using that by (simp_all add: same_input_def)
    moreover have "lines_ok (tty_table s j)" for j using assms(1) by (simp add: all_lines_def)
    ultimately have "lines_ok (tty_table s2 j)" if "j \<noteq> i" for j
      using that lines_ok_cong(1) [of "tty_table s2 j" "tty_table s j"] by (simp add: s1_def upd_tty_def)
    moreover have "lines_ok (secondary_update (PUTCH c) (tty_table s2 i))"
      using put that lines_ok_cong(1) [of "secondary_update (PUTCH c) (tty_table s2 i)" "secondary_update (PUTCH c) (f (tty_table s i))"]
      by (simp add: same_input_def s1_def upd_tty_def)
    ultimately show ?thesis by (simp add: all_lines_def upd_tty_def)
  qed
  have s1: "(if line_end (tty_table s i) c then upd_tty i (secondary_update (q_data_update (\<lambda>d. d + 1))) s else s) = s1"
    by (simp add: s1_def f_def upd_tty_def)
  show ?thesis
    unfolding take_char_def Let_def s1
    by (rule ok_res_kbind [where Q = "same_input s1"])
      (simp_all add: echo_input ok_res_intros same_input_refl fin)
qed

lemma cook_lines:
  assumes "all_lines s" "\<not> FULL (secondary (tty_table s i))"
  shows "ok_res all_lines (cook_char wr i c s)"
proof (cases "translate (tty_table s i) c")
  case (Some c)
  have any: "ok_res (\<lambda>_. True) m" for m :: "u8 res" by (simp add: ok_res_def)
  have erase: "ok_res all_lines (kbind (echo_erase wr i s) (\<lambda>s. Inr (drop_last i s)))"
    if "\<not> nothing_to_erase (tty_table s i)"
    using erase_lines [OF assms(1) that] by (auto simp: ok_res_def kbind_Inr_iff)
  have stop: "all_lines (upd_tty i (stopped_update g) s)" for g
    by (rule all_lines_upd [OF assms(1)]) (simp add: all_lines_tty assms(1))
  show ?thesis
    unfolding cook_char_def Let_def Some option.case
    by (rule ok_res_kbind [OF any])
      (intro ok_res_if ok_res_intros ok_res_returns kill_lines [OF _ assms(1)] erase take_lines stop;
        simp add: assms)
qed (simp add: cook_char_def Let_def assms ok_res_intros)

lemma cook_loop_lines:
  assumes "cook_loop wr i s = Some r" "all_lines s"
  shows "ok_res all_lines r"
proof -
  let ?Q = "\<lambda>w (i :: nat) s r. w = wr \<longrightarrow> all_lines s \<longrightarrow> ok_res all_lines r"
  have taken: "all_lines (upd_tty i (read_q_update f) s)" "secondary (tty_table (upd_tty i (read_q_update f) s) i) = secondary (tty_table s i)"
    if "all_lines s" for i f and s :: "('f, 'c) ttys"
    using that by (simp_all add: all_lines_def upd_tty_def)
  have step: "ok_res all_lines (cook_char wr i c (upd_tty i (read_q_update f) s))"
    if "all_lines s" "\<not> FULL (secondary (tty_table s i))" for i c f s
    using that taken [OF that(1)] by (intro cook_lines) simp_all
  have "?Q wr i s r"
  proof (rule cook_loop.raw_induct [where P = ?Q, OF _ assms(1)], intro impI)
    fix k w i s r
    assume IH: "\<And>w (i :: nat) s r. k w i s = Some r \<Longrightarrow> ?Q w i s r" and w: "w = wr" and l: "all_lines s"
      and eq: "(let t = tty_table s i in if EMPTY (read_q t) \<or> FULL (secondary t) then Some (Inr s)
        else case GETCH (read_q t) of (c, q) \<Rightarrow>
          case cook_char w i c (upd_tty i (read_q_update (\<lambda>_. q)) s) of
            Inl e \<Rightarrow> Some (Inl e) | Inr s \<Rightarrow> k w i s) = Some r"
    show "ok_res all_lines r"
    proof (cases "EMPTY (read_q (tty_table s i)) \<or> FULL (secondary (tty_table s i))")
      case False
      obtain c q where g: "GETCH (read_q (tty_table s i)) = (c, q)" by fastforce
      note st = step [OF l, of i c "\<lambda>_. q"]
      show ?thesis
      proof (cases "cook_char wr i c (upd_tty i (read_q_update (\<lambda>_. q)) s)")
        case (Inr s1)
        then have "all_lines s1" using False by (intro ok_res_D [OF st]) simp_all
        then show ?thesis using eq w False g Inr IH [of w i s1 r] by (simp add: Let_def)
      qed (use eq w False g in \<open>auto simp: Let_def ok_res_def\<close>)
    qed (use eq l in auto)
  qed
  with assms(2) show ?thesis by simp
qed

lemma copy_lines: "all_lines s \<Longrightarrow> ok_res all_lines (copy_to_cooked wr i s)"
  unfolding copy_to_cooked_def
  by (rule ok_res_kbind [where Q = all_lines])
    (auto simp: wake_secondary_def all_lines_tty split: prod.splits
      intro!: ok_res_returns ok_res_intros all_lines_upd intro: cook_loop_lines)

end

interpretation serial: output_only "\<lambda>i s. Inr (rs_write inb i s)" for inb
  by unfold_locales
    (auto simp: ok_res_def same_input_def rs_write_def Let_def out_port_def on_kern_def)

lemma init_all_lines: "tty_table s = init_ttys \<Longrightarrow> all_lines s"
  by (auto simp: all_lines_def lines_ok_def ends_def init_ttys_def console_tty_def serial_tty_def
      new_queue_def q_ok_def q_list_def q_len_def)

section \<open>Reading lines\<close>

lemma lines_ok_get:
  assumes "lines_ok t" "\<not> EMPTY (secondary t)" "GETCH (secondary t) = (c, q)"
  shows "lines_ok (secondary_update (\<lambda>_. if line_end t c then q\<lparr>q_data := q_data q - 1\<rparr> else q) t)"
proof -
  have ok: "q_ok (secondary t)" using assms(1) by (simp add: lines_ok_def)
  have q: "q_ok q" "q_data q = q_data (secondary t)" "q_list (secondary t) = c # q_list q"
    using ok assms(3) q_list_GETCH [OF ok assms(2)] by (auto simp: GETCH_def q_ok_def unat_INC)
  then show ?thesis using assms(1) by (simp add: lines_ok_def ends_def q_ok_def)
qed

lemma drain_lines:
  "drain i buf nr n s = (e, nr', n', s') \<Longrightarrow> all_lines s \<Longrightarrow> \<not> EMPTY (secondary (tty_table s i)) \<Longrightarrow> all_lines s'"
proof (induction i buf nr n s arbitrary: e nr' n' s' rule: drain.induct)
  case (2 i buf nr n s)
  obtain c q where g: "GETCH (secondary (tty_table s i)) = (c, q)" by (cases "GETCH (secondary (tty_table s i))")
  let ?q = "if line_end (tty_table s i) c then q\<lparr>q_data := q_data q - 1\<rparr> else q"
  have up: "all_lines (upd_tty i (secondary_update (\<lambda>_. ?q)) s)"
    by (rule all_lines_upd [OF 2(3)]) (rule lines_ok_get [OF all_lines_tty [OF 2(3)] 2(4) g])
  have "secondary (tty_table (on_kern h (upd_tty i (secondary_update (\<lambda>_. ?q)) s)) i) = ?q" for h
    by (simp add: on_kern_def upd_tty_def)
  with 2(2) up 2(1) [OF g [symmetric] refl refl refl _ refl] show ?case
    unfolding drain.simps g by (simp only: Let_def prod.case split: if_splits) auto
qed simp

lemma all_lines_read [simp]:
  "all_lines (set_alarm a s) = all_lines s" "all_lines (snd (read_end r n s)) = all_lines s"
  by (simp_all add: set_alarm_def read_end_def Let_def)

lemma tty_read_loop_lines: "all_lines s \<Longrightarrow> all_lines (snd (tty_read_loop i r nr n flag s))"
proof (induction i r nr n flag s rule: tty_read_loop.induct)
  case (1 i r nr n flag s)
  obtain e nr' n' s' where d: "drain i (rq_buf r) nr n s = (e, nr', n', s')"
    by (cases "drain i (rq_buf r) nr n s")
  then have q: "all_lines s'" if "\<not> EMPTY (secondary (tty_table s i))"
    using 1(2) that by (rule drain_lines)
  show ?case
    by (subst tty_read_loop.simps) (use 1 q in \<open>simp add: Let_def d\<close>)
qed

text \<open>C22: On a serial line the counter of the secondary queue counts the line ends in it: it does not
  get out of step with the queue when characters arrive, are erased, or find the queue full, when a
  line is killed, or when a task reads.\<close>

theorem lines_are_counted:
  assumes "all_lines s"
  shows "ok_res all_lines (do_tty_interrupt (\<lambda>i s. Inr (rs_write inb i s)) i s) \<and>
    all_lines (snd (tty_read j buf nr s))"
  using serial.copy_lines [OF assms] assms
  by (auto simp: do_tty_interrupt_def tty_read_def Let_def intro: tty_read_loop_lines)

lemma lines_are_counted_witness:
  "\<exists>s :: (unit, console) ttys. tty_table s = init_ttys \<and>
    ok_res all_lines (do_tty_interrupt (\<lambda>i s. Inr (rs_write (\<lambda>_ _. 0) i s)) 1 s) \<and>
    all_lines (snd (tty_read 1 0 10 s))"
proof -
  define s where "s = (demo [])\<lparr>tty_table := init_ttys\<rparr>"
  have "all_lines s" by (rule init_all_lines) (simp add: s_def)
  from lines_are_counted [OF this, of "\<lambda>_ _. 0" 1 1 0 10] show ?thesis
    by (intro exI [of _ s]) (simp add: s_def)
qed

end
