(* ===== verification/Tty_Read.thy ===== *)
theory Tty_Read
  imports Tty_Lines
begin

text \<open>
  What a canonical read delivers, what \<open>tty_write\<close> makes of the user's bytes, and the
  parameters of a terminal through \<open>ioctl\<close>.
\<close>

section \<open>Canonical reads\<close>

text \<open>What a canonical read takes: the bytes before the first end-of-file character, as far as the
  queue and the user's buffer reach.\<close>

definition is_eof :: "tty_struct \<Rightarrow> u8 \<Rightarrow> bool" where
  "is_eof t c \<longleftrightarrow> same_char c (cc VEOF t)"

definition delivered :: "nat \<Rightarrow> tty_struct \<Rightarrow> u8 list" where
  "delivered nr t = take nr (takeWhile (\<lambda>c. \<not> is_eof t c) (q_list (secondary t)))"

lemma parameters_upd [simp]:
  "is_eof (secondary_update f t) = is_eof t" "L_FLAG m (secondary_update f t) = L_FLAG m t"
  by (simp_all add: is_eof_def cc_def L_FLAG_def fun_eq_iff)

lemma drain_delivers:
  assumes "q_ok (secondary (tty_table s i))" "\<not> EMPTY (secondary (tty_table s i))"
    "L_FLAG ICANON (tty_table s i)" "0 < nr"
  shows "\<exists>e nr' s'. drain i buf nr n s = (e, nr', n + length (delivered nr (tty_table s i)), s') \<and>
    (e \<or> delivered nr (tty_table s i) \<noteq> []) \<and> tty_table s' i = secondary_update (\<lambda>_. secondary (tty_table s' i)) (tty_table s i) \<and>
    kern s' = put_user (delivered nr (tty_table s i)) (buf + of_nat n) (kern s)"
  using assms
proof (induction i buf nr n s rule: drain.induct)
  case (2 i buf nr n s)
  define t where "t = tty_table s i"
  obtain c q where g: "GETCH (secondary t) = (c, q)" by (cases "GETCH (secondary t)")
  define q' where "q' = (if line_end t c then q\<lparr>q_data := q_data q - 1\<rparr> else q)"
  define t' where "t' = secondary_update (\<lambda>_. q') t"
  have ok: "q_ok (secondary t)" "q_ok q'" and list: "q_list (secondary t) = c # q_list q'"
    using 2(2,3) g q_list_GETCH [of "secondary t"]
    by (auto simp: t_def q'_def GETCH_def q_ok_def unat_INC)
  have EMPTY: "EMPTY q = EMPTY q'" by (simp add: q'_def EMPTY_def)
  have del: "delivered (Suc nr) t = (if is_eof t c then [] else c # delivered nr t')"
    by (simp add: delivered_def list t'_def)
  have g': "GETCH (secondary (tty_table s i)) = (c, q)" using g by (simp add: t_def)
  show ?case
  proof (cases "is_eof t c")
    case True
    then show ?thesis
      using 2(4) del unfolding drain.simps g'
      by (simp add: Let_def upd_tty_def is_eof_def flip: t_def q'_def) blast
  next
    case False
    define s1 where "s1 = on_kern (put_fs_byte c (buf + of_nat n)) (upd_tty i (secondary_update (\<lambda>_. q')) s)"
    have s1: "tty_table s1 i = t'" "kern s1 = put_fs_byte c (buf + of_nat n) (kern s)"
      by (simp_all add: s1_def on_kern_def upd_tty_def t'_def t_def)
    have step: "drain i buf (Suc nr) n s =
        (if nr = 0 \<or> EMPTY q' then (False, nr, Suc n, s1) else drain i buf nr (Suc n) s1)"
      using False unfolding drain.simps g' by (simp add: Let_def is_eof_def EMPTY s1_def flip: t_def q'_def)
    show ?thesis
    proof (cases "nr = 0 \<or> EMPTY q'")
      case True
      then have "delivered nr t' = []" using ok(2) q_list_nil [of q'] by (auto simp: delivered_def t'_def)
      then show ?thesis
        using True step del False s1 by (simp del: drain.simps flip: t_def) (simp add: t'_def, blast)
    next
      case more: False
      have "\<exists>e nr' s'. drain i buf nr (Suc n) s1 = (e, nr', Suc n + length (delivered nr t'), s') \<and>
          (e \<or> delivered nr t' \<noteq> []) \<and> tty_table s' i = secondary_update (\<lambda>_. secondary (tty_table s' i)) t' \<and>
          kern s' = put_user (delivered nr t') (buf + of_nat (Suc n)) (kern s1)"
      proof -
        note IH = 2(1) [OF g' [symmetric] refl refl refl _ refl, folded t_def, folded q'_def,
            unfolded t_def, folded s1_def]
        show ?thesis using IH False more ok(2) 2(4) s1 by (simp add: EMPTY is_eof_def t'_def t_def)
      qed
      then show ?thesis
        using more step del False s1 by (auto simp: t'_def add.assoc add.commute [of 1] simp flip: t_def)
    qed
  qed
qed simp

lemma user_put_user: "user k = user k' \<Longrightarrow> user (put_user cs a k) = user (put_user cs a k')"
  by (induction cs arbitrary: a k k') (simp_all add: put_fs_byte_def)

lemma sch_put_user [simp]: "sch (put_user cs a k) = sch k"
  by (induction cs arbitrary: a k) (simp_all add: put_fs_byte_def)

lemma set_alarm_simps [simp]:
  "tty_table (set_alarm a s) = tty_table s" "user (kern (set_alarm a s)) = user (kern s)"
  by (simp_all add: set_alarm_def on_kern_def upd_cur_def upd_def)

lemma signal_set_alarm:
  assumes "task (sch (kern s)) (current (sch (kern s))) \<noteq> None"
  shows "signal (cur (kern (set_alarm a s))) = signal (cur (kern s))"
  using assms by (auto simp: set_alarm_def on_kern_def upd_cur_def upd_def cur_def upd_task_def)

text \<open>A complete line waits and no signal is pending.\<close>

definition line_ready :: "('f, 'c) ttys \<Rightarrow> nat \<Rightarrow> bool" where
  "line_ready s i \<longleftrightarrow> lines_ok (tty_table s i) \<and> ends (tty_table s i) \<noteq> 0 \<and> L_FLAG ICANON (tty_table s i) \<and>
     task (sch (kern s)) (current (sch (kern s))) \<noteq> None \<and> signal (cur (kern s)) = 0"

lemma line_ready_queue:
  assumes "line_ready s i"
  shows "\<not> EMPTY (secondary (tty_table s i))" "q_data (secondary (tty_table s i)) \<noteq> 0"
proof -
  have l: "lines_ok (tty_table s i)" "ends (tty_table s i) \<noteq> 0" using assms by (simp_all add: line_ready_def)
  have "ends (tty_table s i) \<le> q_len (secondary (tty_table s i))"
    unfolding ends_def by (metis length_filter_le length_q_list)
  then show "\<not> EMPTY (secondary (tty_table s i))" "q_data (secondary (tty_table s i)) \<noteq> 0"
    using l q_len_less [of "secondary (tty_table s i)"]
    by (auto simp: lines_ok_def EMPTY_len word_of_nat_eq_0_iff dest: nat_dvd_not_less)
qed

lemma read_loop_delivers:
  assumes "line_ready s i" "0 < nr"
  shows "\<exists>s'. tty_read_loop i r nr 0 flag s = (TDone (int (length (delivered nr (tty_table s i)))), s') \<and>
    user (kern s') = user (put_user (delivered nr (tty_table s i)) (rq_buf r) (kern s))"
proof -
  let ?d = "delivered nr (tty_table s i)"
  have ok: "q_ok (secondary (tty_table s i))" "L_FLAG ICANON (tty_table s i)" "signal (cur (kern s)) = 0"
    "task (sch (kern s)) (current (sch (kern s))) \<noteq> None"
    using assms(1) by (simp_all add: line_ready_def lines_ok_def)
  obtain e nr' s' where d: "drain i (rq_buf r) nr 0 s = (e, nr', length ?d, s')" "e \<or> ?d \<noteq> []"
      "kern s' = put_user ?d (rq_buf r) (kern s)" and t: "tty_table s' i = secondary_update (\<lambda>_. secondary (tty_table s' i)) (tty_table s i)"
    using drain_delivers [OF ok(1) line_ready_queue(1) [OF assms(1)] ok(2) assms(2), of "rq_buf r" 0] by auto
  have L: "L_FLAG ICANON (tty_table s' i)" by (subst t) (simp add: ok)
  have "task (sch (kern s')) (current (sch (kern s'))) \<noteq> None" "signal (cur (kern s')) = 0"
    using ok(3,4) d(3) by (simp_all add: cur_def)
  then obtain s2 where e: "read_end r (length ?d) s' = (TDone (int (length ?d)), s2)" "user (kern s2) = user (kern s')"
    by (simp add: read_end_def Let_def signal_set_alarm)
  show ?thesis
    by (subst tty_read_loop.simps)
      (use assms(2) line_ready_queue [OF assms(1)] ok L d(2,3) e in \<open>auto simp: Let_def d(1)\<close>)
qed

text \<open>C23: A canonical read on a terminal that has a complete line, by a task without pending signals,
  ends at once: it copies to the user, in order, the bytes in front of the first end-of-file
  character, as many as the queue and the buffer hold, and returns their number.\<close>

theorem canonical_read:
  assumes "line_ready s i" "i \<le> 2" "0 < nr"
  shows "\<exists>s'. tty_read i buf nr s = (TDone (int (length (delivered (nat nr) (tty_table s i)))), s') \<and>
    user (kern s') = user (put_user (delivered (nat nr) (tty_table s i)) buf (kern s))"
proof -
  have ready: "line_ready (set_alarm a s) i" for a
    using assms(1) signal_set_alarm [of s a]
    by (auto simp: line_ready_def) (simp add: set_alarm_def on_kern_def upd_cur_def upd_def upd_task_def)
  have u: "user (put_user cs buf (kern (set_alarm a s))) = user (put_user cs buf (kern s))" for cs a
    by (rule user_put_user) simp
  have range: "\<not> (i > 2 \<or> nr < 0)" using assms(2,3) by simp
  have "\<exists>r flag s1. tty_read i buf nr s = tty_read_loop i r (nat nr) 0 flag s1 \<and> rq_buf r = buf \<and>
      (s1 = s \<or> (\<exists>a. s1 = set_alarm a s))"
    unfolding tty_read_def Let_def if_not_P [OF range]
    by (intro exI conjI, rule refl, simp_all, blast)
  then obtain r flag s1 where r: "tty_read i buf nr s = tty_read_loop i r (nat nr) 0 flag s1" "rq_buf r = buf"
      and s1: "line_ready s1 i" "tty_table s1 = tty_table s"
        "user (put_user cs buf (kern s1)) = user (put_user cs buf (kern s))" for cs
    using assms(1) ready u by (metis set_alarm_simps(1))
  show ?thesis
    using read_loop_delivers [OF s1(1), of "nat nr" r flag] assms(3) r s1(2,3) by simp
qed

lemma canonical_read_witness:
  "\<exists>(s :: (unit, console) ttys) s'. tty_read 0 0x100 10 s = (TDone 3, s') \<and> user (kern s') 0x101 = 105"
proof -
  define q where "q = put_all [104, 105, 10] (new_queue 1)"
  define s where "s = (demo [])\<lparr>tty_table := init_ttys(0 := console_tty\<lparr>secondary := q\<rparr>)\<rparr>"
  have q: "q_ok q" "q_list q = [104, 105, 10]" "q_data q = 1"
    by (simp_all add: q_def q_ok_put_all q_list_put_all) (simp add: put_all_def PUTCH_def new_queue_def)
  have t: "tty_table s 0 = console_tty\<lparr>secondary := q\<rparr>" by (simp add: s_def)
  have cc: "cc VEOF (console_tty\<lparr>secondary := q\<rparr>) = 4" "cc VEOF console_tty = 4"
    by (simp_all add: cc_def console_tty_def INIT_C_CC_def numeral_eq_Suc)
  have "line_end (console_tty\<lparr>secondary := q\<rparr>) 104 = False" "line_end (console_tty\<lparr>secondary := q\<rparr>) 105 = False"
    "line_end (console_tty\<lparr>secondary := q\<rparr>) 10 = True"
    by (simp_all only: line_end_def cc(1)) (simp_all add: same_char_def)
  then have "ends (tty_table s 0) = 1" by (simp add: ends_def t q)
  moreover have "L_FLAG ICANON (tty_table s 0)" "task (sch (kern s)) (current (sch (kern s))) \<noteq> None"
    "signal (cur (kern s)) = 0"
    by (simp_all add: t console_tty_def L_FLAG_def s_def demo_def small_system_def cur_def shell_def INIT_TASK_def)
  ultimately have "line_ready s 0"
    by (simp add: line_ready_def lines_ok_def t q)
  moreover have "delivered (nat 10) (tty_table s 0) = [104, 105, 10]"
    by (simp add: delivered_def t q is_eof_def cc same_char_def)
  ultimately obtain s' where "tty_read 0 0x100 10 s = (TDone 3, s')"
      "user (kern s') = (user (kern s))(0x100 := 104, 0x101 := 105, 0x102 := 10)"
    using canonical_read [of s 0 10 "0x100"] by (auto simp: put_fs_byte_def)
  then show ?thesis by (intro exI [of _ s] exI [of _ s']) simp
qed

text \<open>A canonical read that meets end-of-file at once returns 0 but skips the end of the routine: the
  alarm it had set for its time-out stays set, where any other way out restores the caller's.\<close>

theorem eof_leaves_alarm:
  assumes "line_ready s i" "i \<le> 2" "0 < nr" "alarm (cur (kern s)) = 0"
    and "uint (cc VTIME (tty_table s i)) \<noteq> 0" "uint (cc VMIN (tty_table s i)) = 0"
    and "is_eof (tty_table s i) (fst (GETCH (secondary (tty_table s i))))"
  shows "\<exists>s'. tty_read i buf nr s = (TDone 0, s') \<and>
    alarm (cur (kern s')) = 10 * uint (cc VTIME (tty_table s i)) + jiffies (sch (kern s))"
proof -
  let ?a = "10 * uint (cc VTIME (tty_table s i)) + jiffies (sch (kern s))"
  define s1 where "s1 = set_alarm ?a s"
  have ok: "task (sch (kern s)) (current (sch (kern s))) \<noteq> None" "L_FLAG ICANON (tty_table s i)"
    "signal (cur (kern s)) = 0" using assms(1) by (simp_all add: line_ready_def)
  have tt: "tty_table s1 = tty_table s" by (simp add: s1_def)
  have a: "alarm (cur (kern s1)) = ?a" "signal (cur (kern s1)) = 0"
    using ok by (auto simp: s1_def signal_set_alarm)
      (auto simp: set_alarm_def on_kern_def upd_cur_def upd_def upd_task_def cur_def)
  obtain c q where g: "GETCH (secondary (tty_table s i)) = (c, q)" by (cases "GETCH (secondary (tty_table s i))")
  obtain m where m: "nat nr = Suc m" using assms(3) by (cases "nat nr") auto
  define q' where "q' = (if line_end (tty_table s i) c then q\<lparr>q_data := q_data q - 1\<rparr> else q)"
  have d: "drain i b (nat nr) 0 s1 = (True, nat nr, 0, upd_tty i (secondary_update (\<lambda>_. q')) s1)" for b
    using assms(7) ok(2) g unfolding m drain.simps tt
    by (simp add: Let_def is_eof_def q'_def)
  have k: "kern (upd_tty i f s1) = kern s1" for f by (simp add: upd_tty_def)
  have loop: "tty_read_loop i r (nat nr) 0 flag s1 = (TDone 0, upd_tty i (secondary_update (\<lambda>_. q')) s1)" for r flag
    by (subst tty_read_loop.simps)
      (use line_ready_queue [OF assms(1)] assms(3) ok(2) a(2) in \<open>simp add: d tt Let_def\<close>)
  have "tty_read i buf nr s = (TDone 0, upd_tty i (secondary_update (\<lambda>_. q')) s1)"
    using assms(2-6) by (simp add: tty_read_def Let_def own_alarm_def loop flip: s1_def)
  then show ?thesis using a(1) k by simp
qed

section \<open>Output\<close>

text \<open>Newlines become a carriage return and a newline; a carriage return just put is not repeated.\<close>

fun crlf :: "bool \<Rightarrow> u8 list \<Rightarrow> u8 list" where
  "crlf done [] = []"
| "crlf done (c # cs) = (if c = 10 \<and> \<not> done then [13, 10] else [c]) @ crlf False cs"

lemma crlf_plain: "10 \<notin> set cs \<Longrightarrow> crlf b cs = cs"
  by (induction cs arbitrary: b) auto

definition newlines_only :: "tty_struct \<Rightarrow> bool" where
  "newlines_only t \<longleftrightarrow> c_oflag (termios t) = OPOST OR ONLCR"

lemma newlines_only_flags:
  assumes "newlines_only t"
  shows "O_FLAG OPOST t" "O_FLAG ONLCR t" "\<not> O_FLAG OLCUC t" "out_char t c = c"
  using assms by (simp_all add: newlines_only_def O_FLAG_def out_char_def)

text \<open>What filling the queue leaves alone.\<close>

definition same_but_queue :: "nat \<Rightarrow> ('f, 'c) ttys \<Rightarrow> ('f, 'c) ttys \<Rightarrow> bool" where
  "same_but_queue i s s' \<longleftrightarrow> kern s' = kern s \<and> con s' = con s \<and>
     tty_table s' i = write_q_update (\<lambda>_. write_q (tty_table s' i)) (tty_table s i)"

definition fill_put :: "nat \<Rightarrow> u8 \<Rightarrow> bool \<Rightarrow> ('f, 'c) ttys \<Rightarrow> ('f, 'c) ttys" where
  "fill_put i c b s = upd_tty i (write_q_update (PUTCH c)) (s\<lparr>cr_flag := b\<rparr>)"

lemma fill_put_simps [simp]:
  "kern (fill_put i c b s) = kern s" "cr_flag (fill_put i c b s) = b"
  "wq i (fill_put i c b s) = PUTCH c (wq i s)"
  "newlines_only (tty_table (fill_put i c b s) i) = newlines_only (tty_table s i)"
  by (simp_all add: fill_put_def upd_tty_def newlines_only_def)

lemma same_fill_put: "same_but_queue i (fill_put i c b s) s' \<Longrightarrow> same_but_queue i s s'"
  by (simp add: same_but_queue_def fill_put_def upd_tty_def)

lemma fill_steps:
  assumes "newlines_only (tty_table s i)" "\<not> FULL (wq i s)" "user (kern s) (buf + of_nat n) = c"
  shows "fill_loop i buf (Suc m) n s =
    (if c = 10 \<and> \<not> cr_flag s then fill_loop i buf (Suc m) n (fill_put i 13 True s)
     else fill_loop i buf m (Suc n) (fill_put i c False s))"
  using assms newlines_only_flags [OF assms(1)]
  by (subst fill_loop.simps) (simp add: fill_put_def Let_def)

lemma put_room:
  assumes "q_ok q" "q_len q < 1023"
  shows "\<not> FULL q" "q_ok (PUTCH c q)" "q_len (PUTCH c q) = q_len q + 1" "q_list (PUTCH c q) = q_list q @ [c]"
  using assms q_list_PUTCH [OF assms(1)] q_len_steps(1) [OF assms(1)] by (simp_all add: FULL_len q_ok_tail)

lemma fill_loop_crlf:
  fixes s :: "('f, console) ttys"
  assumes "q_ok (wq i s)" "newlines_only (tty_table s i)"
    and "q_len (wq i s) + length (crlf (cr_flag s) cs) < 1024"
    and "\<forall>j < length cs. user (kern s) (buf + of_nat (n + j)) = cs ! j"
  shows "\<exists>s'. fill_loop i buf (length cs) n s = Some (Inr (0, n + length cs, s')) \<and> q_ok (wq i s') \<and>
    q_list (wq i s') = q_list (wq i s) @ crlf (cr_flag s) cs \<and> same_but_queue i s s'"
  using assms
proof (induction cs arbitrary: n s)
  case Nil
  then show ?case by (subst fill_loop.simps) (simp add: same_but_queue_def)
next
  case (Cons c cs)
  have one: "\<exists>s'. fill_loop i buf (Suc (length cs)) n s = Some (Inr (0, n + Suc (length cs), s')) \<and> q_ok (wq i s') \<and>
      q_list (wq i s') = q_list (wq i s) @ c # crlf False cs \<and> same_but_queue i s s'"
    if s: "q_ok (wq i s)" "newlines_only (tty_table s i)" "c = 10 \<longrightarrow> cr_flag s"
      "q_len (wq i s) + Suc (length (crlf False cs)) < 1024"
      "\<forall>j < length (c # cs). user (kern s) (buf + of_nat (n + j)) = (c # cs) ! j" for s :: "('f, console) ttys"
  proof -
    have room: "q_len (wq i s) < 1023" using s(4) by simp
    have user: "user (kern s) (buf + of_nat n) = c" using s(5) by force
    have rest: "user (kern s) (buf + of_nat (Suc n + j)) = cs ! j" if "j < length cs" for j
      using s(5) [rule_format, of "Suc j"] that by simp
    show ?thesis
      using Cons.IH [of "fill_put i c False s" "Suc n"] s(1-4) rest put_room [OF s(1) room] same_fill_put
      unfolding fill_steps [OF s(2) put_room(1) [OF s(1) room] user] by fastforce
  qed
  have user: "user (kern s) (buf + of_nat n) = c" using Cons.prems(4) by force
  show ?case
  proof (cases "c = 10 \<and> \<not> cr_flag s")
    case True
    then have room: "q_len (wq i s) < 1023" using Cons.prems(3) by simp
    show ?thesis
      using one [of "fill_put i 13 True s"] True Cons.prems put_room [OF Cons.prems(1) room] same_fill_put
      unfolding list.size add_Suc_right add_0_right fill_steps [OF Cons.prems(2) put_room(1) [OF Cons.prems(1) room] user]
      by fastforce
  next
    case False
    then show ?thesis using one [of s] Cons.prems by auto
  qed
qed

text \<open>The bytes of a user's buffer.\<close>

lemma get_user_nth: "j < n \<Longrightarrow> get_user n a k ! j = user k (a + of_nat j)"
  and length_get_user [simp]: "length (get_user n a k) = n"
  by (simp_all add: get_user_def)

lemma write_fills:
  fixes s :: "('f, console) ttys"
  assumes "q_ok (wq i s)" "newlines_only (tty_table s i)" "signal (cur (kern s)) = 0" "i \<le> 2" "0 < n"
    and "q_len (wq i s) + length (crlf (cr_flag s) (get_user n buf (kern s))) < 1024"
  shows "\<exists>s'. tty_write wr i buf (int n) s = kbind (wr i s') (\<lambda>s. Inr (TDone (int n), s)) \<and> q_ok (wq i s') \<and>
    q_list (wq i s') = q_list (wq i s) @ crlf (cr_flag s) (get_user n buf (kern s)) \<and> same_but_queue i s s'"
proof -
  let ?cs = "get_user n buf (kern s)"
  have "?cs \<noteq> []" using assms(5) by (metis length_get_user length_0_conv less_numeral_extra(3))
  then have "0 < length (crlf (cr_flag s) ?cs)" by (cases ?cs) auto
  then have "\<not> FULL (wq i s)" using assms(6) unfolding FULL_len by linarith
  moreover obtain s' where "fill_loop i buf n 0 s = Some (Inr (0, n, s'))" "q_ok (wq i s')"
      "q_list (wq i s') = q_list (wq i s) @ crlf (cr_flag s) ?cs" "same_but_queue i s s'"
    using fill_loop_crlf [OF assms(1,2,6), of buf 0] by (auto simp: get_user_nth)
  ultimately show ?thesis
    using assms(3-5) by (intro exI [of _ s']) (simp add: tty_write_def tty_write_turn_def Let_def returns_def)
qed

lemma same_drv: "same_but_queue i s s' \<Longrightarrow> con s' = con s \<and> tty_drv (tty_table s' i) = tty_drv (tty_table s i)"
  by (metis same_but_queue_def tty_struct.ext_inject tty_struct.surjective tty_struct.update_convs(5))



end
