(* ===== verification/Malloc.thy ===== *)
theory Malloc
  imports Memory Block
begin

text \<open>
  \<^verbatim>\<open>lib/malloc.c\<close>: the kernel's allocator. Blocks of one of nine sizes are cut from pages; a bucket
  descriptor keeps a page's free blocks, which are chained through their first \<open>long\<close>. The descriptors
  are a map of their own from addresses to structures (Bornat's component-as-array), the free blocks lie
  in physical memory; the null pointer is the address 0.
\<close>

section \<open>State\<close>

record bucket_desc =
  bd_page :: u32
  bd_next :: u32
  bd_free :: u32
  bd_refcnt :: u16
  bd_size :: u16

text \<open>\<open>bucket_dir\<close>: the sizes, and with the state the first descriptor of each.\<close>

definition bucket_sizes :: "u32 list" where
  "bucket_sizes = [16, 32, 64, 128, 256, 512, 1024, 2048, 4096]"

record kheap =
  kmem :: mm
  desc :: "u32 \<Rightarrow> bucket_desc"
  chain :: "nat \<Rightarrow> u32"
  free_bucket_desc :: u32

definition on_desc :: "u32 \<Rightarrow> (bucket_desc \<Rightarrow> bucket_desc) \<Rightarrow> kheap \<Rightarrow> kheap" where
  "on_desc d f s = s\<lparr>desc := (desc s)(d := f (desc s d))\<rparr>"

section \<open>Allocation\<close>

text \<open>The loop of \<open>init_bucket_desc\<close>, with the address of the last descriptor.\<close>

fun link_descs :: "nat \<Rightarrow> u32 \<Rightarrow> kheap \<Rightarrow> u32 \<times> kheap" where
  "link_descs 0 bdesc s = (bdesc, s)"
| "link_descs (Suc n) bdesc s =
     link_descs n (bdesc + 16) (on_desc bdesc (bd_next_update (\<lambda>_. bdesc + 16)) s)"

definition init_bucket_desc :: "kheap \<Rightarrow> kheap res" where
  "init_bucket_desc s =
     (case get_free_page (kmem s) of (first, m) \<Rightarrow>
        if first = 0 then Inl (Panic ''Out of memory in init_bucket_desc()'')
        else case link_descs (4096 div 16 - 1) first (s\<lparr>kmem := m\<rparr>) of (bdesc, s) \<Rightarrow>
          Inr ((on_desc bdesc (bd_next_update (\<lambda>_. free_bucket_desc s)) s)\<lparr>free_bucket_desc := first\<rparr>))"

text \<open>The search of \<open>bucket_dir\<close>: the first size that is enough.\<close>

definition pick_bucket :: "u32 \<Rightarrow> nat option" where
  "pick_bucket len = List.find (\<lambda>i. len \<le> bucket_sizes ! i) [0..<9]"

text \<open>The first descriptor of a chain that has a free block, or 0.\<close>

partial_function (option) first_free :: "u32 \<Rightarrow> kheap \<Rightarrow> u32 option" where
  "first_free bdesc s =
     (if bdesc = 0 \<or> bd_free (desc s bdesc) \<noteq> 0 then Some bdesc
      else first_free (bd_next (desc s bdesc)) s)"

fun link_objects :: "nat \<Rightarrow> u32 \<Rightarrow> u32 \<Rightarrow> mm \<Rightarrow> mm" where
  "link_objects 0 sz cp m = poke cp 0 m"
| "link_objects (Suc n) sz cp m = link_objects n sz (cp + sz) (poke cp (cp + sz) m)"

text \<open>A new descriptor with its page, linked into chain \<open>i\<close>.\<close>

definition new_bucket :: "nat \<Rightarrow> kheap \<Rightarrow> (u32 \<times> kheap) res" where
  "new_bucket i s =
     kbind (if free_bucket_desc s = 0 then init_bucket_desc s else Inr s) (\<lambda>s.
       let d = free_bucket_desc s;
           sz = bucket_sizes ! i
       in case get_free_page (kmem s) of (cp, m) \<Rightarrow>
            if cp = 0 then Inl (Panic ''Out of memory in kernel malloc()'')
            else Inr (d, s\<lparr>free_bucket_desc := bd_next (desc s d),
              desc := (desc s)(d := \<lparr>bd_page = cp, bd_next = chain s i, bd_free = cp, bd_refcnt = 0,
                                     bd_size = ucast sz\<rparr>),
              kmem := link_objects (4096 div unat sz - 1) sz cp m,
              chain := (chain s)(i := d)\<rparr>))"

definition take_object :: "u32 \<Rightarrow> kheap \<Rightarrow> u32 \<times> kheap" where
  "take_object d s =
     (let retval = bd_free (desc s d)
      in (retval, on_desc d (\<lambda>b. b\<lparr>bd_free := phys (kmem s) retval, bd_refcnt := bd_refcnt b + 1\<rparr>) s))"

definition kmalloc :: "u32 \<Rightarrow> kheap \<Rightarrow> (u32 \<times> kheap) res" where
  "kmalloc len s =
     (case pick_bucket len of
        None \<Rightarrow> Inl (Panic ''malloc: bad arg'')
      | Some i \<Rightarrow>
          kbind (returns (map_option Inr (first_free (chain s i) s))) (\<lambda>d.
            if d = 0 then kbind (new_bucket i s) (\<lambda>(d, s). Inr (take_object d s))
            else Inr (take_object d s)))"

section \<open>Release\<close>

text \<open>The descriptor of a page in a chain, or 0, and the one in front of it.\<close>

partial_function (option) find_desc :: "u32 \<Rightarrow> u32 \<Rightarrow> u32 \<Rightarrow> kheap \<Rightarrow> (u32 \<times> u32) option" where
  "find_desc page prev bdesc s =
     (if bdesc = 0 \<or> bd_page (desc s bdesc) = page then Some (prev, bdesc)
      else find_desc page bdesc (bd_next (desc s bdesc)) s)"

fun search_buckets :: "u32 \<Rightarrow> int \<Rightarrow> nat list \<Rightarrow> kheap \<Rightarrow> (nat \<times> u32 \<times> u32) res" where
  "search_buckets page sz [] s = Inl (Panic ''Bad address passed to kernel free_s()'')"
| "search_buckets page sz (i # is) s =
     (if sint (bucket_sizes ! i) < sz then search_buckets page sz is s
      else kbind (returns (map_option Inr (find_desc page 0 (chain s i) s))) (\<lambda>(prev, bdesc).
        if bdesc = 0 then search_buckets page sz is s else Inr (i, prev, bdesc)))"

partial_function (option) find_prev :: "u32 \<Rightarrow> u32 \<Rightarrow> kheap \<Rightarrow> u32 option" where
  "find_prev bdesc prev s =
     (if prev = 0 \<or> bd_next (desc s prev) = bdesc then Some prev
      else find_prev bdesc (bd_next (desc s prev)) s)"

declare first_free.simps [code] find_desc.simps [code] find_prev.simps [code]

text \<open>The descriptor leaves its chain and its page is freed.\<close>

definition unlink_desc :: "nat \<Rightarrow> u32 \<Rightarrow> u32 \<Rightarrow> kheap \<Rightarrow> kheap res" where
  "unlink_desc i prev bdesc s =
     (let next = bd_next (desc s bdesc) in
      if prev \<noteq> 0 then Inr (on_desc prev (bd_next_update (\<lambda>_. next)) s)
      else if chain s i \<noteq> bdesc then Inl (Panic ''malloc bucket chains corrupted'')
      else Inr (s\<lparr>chain := (chain s)(i := next)\<rparr>))"

definition drop_bucket :: "nat \<Rightarrow> u32 \<Rightarrow> u32 \<Rightarrow> kheap \<Rightarrow> kheap res" where
  "drop_bucket i prev bdesc s =
     kbind (if prev \<noteq> 0 \<and> bd_next (desc s prev) \<noteq> bdesc \<or> prev = 0 \<and> chain s i \<noteq> bdesc
            then returns (map_option Inr (find_prev bdesc (chain s i) s)) else Inr prev) (\<lambda>prev.
     kbind (unlink_desc i prev bdesc s) (\<lambda>s.
     kbind (free_page (bd_page (desc s bdesc)) (kmem s)) (\<lambda>m.
       Inr ((on_desc bdesc (bd_next_update (\<lambda>_. free_bucket_desc s)) s)
              \<lparr>kmem := m, free_bucket_desc := bdesc\<rparr>))))"

definition free_s :: "u32 \<Rightarrow> int \<Rightarrow> kheap \<Rightarrow> kheap res" where
  "free_s obj sz s =
     kbind (search_buckets (obj AND 0xfffff000) sz [0..<9] s) (\<lambda>(i, prev, bdesc).
       let s = s\<lparr>kmem := poke obj (bd_free (desc s bdesc)) (kmem s)\<rparr>;
           s = on_desc bdesc (\<lambda>b. b\<lparr>bd_free := obj, bd_refcnt := bd_refcnt b - 1\<rparr>) s
       in if bd_refcnt (desc s bdesc) = 0 then drop_bucket i prev bdesc s else Inr s)"

end
