(* ===== verification/Malloc_Facts.thy ===== *)
theory Malloc_Facts
  imports Malloc
begin

text \<open>
  The kernel's allocator as a set of blocks in use: the chains and free lists as lists of addresses,
  the invariant that ties them to the pages, and what \<open>malloc\<close> and \<open>free_s\<close> do to the set.
\<close>

section \<open>Paths\<close>

primrec path :: "(u32 \<Rightarrow> u32) \<Rightarrow> u32 \<Rightarrow> u32 list \<Rightarrow> bool" where
  "path nx p [] \<longleftrightarrow> p = 0"
| "path nx p (x # xs) \<longleftrightarrow> p = x \<and> x \<noteq> 0 \<and> path nx (nx x) xs"

lemma path_0 [simp]: "path nx 0 xs \<longleftrightarrow> xs = []"
  by (cases xs) auto

lemma path_Cons_iff: "p \<noteq> 0 \<Longrightarrow> path nx p xs \<longleftrightarrow> (\<exists>ys. xs = p # ys \<and> path nx (nx p) ys)"
  by (cases xs) auto

lemma path_cong: "(\<And>x. x \<in> set xs \<Longrightarrow> nx x = nx' x) \<Longrightarrow> path nx p xs = path nx' p xs"
  by (induction xs arbitrary: p) auto

lemma path_upd [simp]: "x \<notin> set xs \<Longrightarrow> path (nx(x := y)) p xs = path nx p xs"
  by (rule path_cong) auto

lemma path_nonzero: "path nx p xs \<Longrightarrow> 0 \<notin> set xs"
  by (induction xs arbitrary: p) auto

lemma path_stride:
  assumes "\<And>j. j < n \<Longrightarrow> nx (b + of_nat j * sz) = b + of_nat (Suc j) * sz"
    and "nx (b + of_nat n * sz) = 0" and "\<And>j. j \<le> n \<Longrightarrow> b + of_nat j * sz \<noteq> 0"
  shows "path nx b (map (\<lambda>j. b + of_nat j * sz) [0..<Suc n])"
proof -
  have "path nx (b + of_nat i * sz) (map (\<lambda>j. b + of_nat j * sz) [i..<Suc n])" if "i \<le> n" for i
    using that
  proof (induction i rule: inc_induct)
    case base
    then show ?case using assms(2,3) by simp
  next
    case (step i)
    then show ?case using assms(1,3) [of i] by (simp add: upt_conv_Cons [of i])
  qed
  from this [of 0] show ?thesis by simp
qed

section \<open>Blocks of a page\<close>

definition bsz :: "nat \<Rightarrow> nat" where
  "bsz i = unat (bucket_sizes ! i)"

definition blocks :: "u32 \<Rightarrow> nat \<Rightarrow> u32 list" where
  "blocks page sz = map (\<lambda>j. page + of_nat j * of_nat sz) [0..<4096 div sz]"

lemma bsz_cases: "i < 9 \<Longrightarrow> bsz i \<in> {16, 32, 64, 128, 256, 512, 1024, 2048, 4096}"
proof -
  assume "i < 9"
  then have "i \<in> {0, 1, 2, 3, 4, 5, 6, 7, 8}" by auto
  then show ?thesis unfolding insert_iff empty_iff
    by (elim disjE FalseE) (simp_all add: bsz_def bucket_sizes_def)
qed

lemma bsz_div: "i < 9 \<Longrightarrow> 4096 div bsz i * bsz i = 4096" "i < 9 \<Longrightarrow> 0 < bsz i" "i < 9 \<Longrightarrow> 16 \<le> bsz i"
  using bsz_cases [of i] by auto

lemma of_nat_bsz [simp]: "of_nat (bsz i) = bucket_sizes ! i"
  by (simp add: bsz_def)

lemma block_place:
  assumes "k < PAGING_PAGES" "i < 9" "j < 4096 div bsz i"
  shows "unat (page_addr k + of_nat j * of_nat (bsz i)) = 0x100000 + 4096 * k + j * bsz i"
    and "j * bsz i + bsz i \<le> 4096"
proof -
  have "Suc j * bsz i \<le> 4096 div bsz i * bsz i" using assms(3) by (intro mult_le_mono1) simp
  then show le: "j * bsz i + bsz i \<le> 4096" using bsz_div(1) [OF assms(2)] by simp
  have "unat (of_nat (j * bsz i) :: u32) = j * bsz i"
    using le bsz_div(2) [OF assms(2)] by (simp only: unat_of_nat) (simp add: take_bit_nat_eq_self)
  then show "unat (page_addr k + of_nat j * of_nat (bsz i)) = 0x100000 + 4096 * k + j * bsz i"
    using unat_page_addr [OF assms(1)] le assms(1) bsz_div(2) [OF assms(2)]
    by (simp add: unat_word_ariths(1) [of "page_addr k"] del: of_nat_bsz)
qed

lemma blocks_mem:
  assumes "k < PAGING_PAGES" "i < 9" "p \<in> set (blocks (page_addr k) (bsz i))"
  obtains j where "j < 4096 div bsz i" "p = page_addr k + of_nat j * of_nat (bsz i)"
    "unat p = 0x100000 + 4096 * k + j * bsz i" "j * bsz i + bsz i \<le> 4096"
  using assms(3) block_place [OF assms(1,2)] unfolding blocks_def set_map set_upt by (auto simp del: of_nat_bsz)

lemma block_frame:
  assumes "k < PAGING_PAGES" "i < 9" "p \<in> set (blocks (page_addr k) (bsz i))"
  shows "frame p = page_addr k" and "p \<noteq> 0"
proof -
  obtain j where j: "unat p = 0x100000 + 4096 * k + j * bsz i" "j * bsz i + bsz i \<le> 4096"
    using blocks_mem [OF assms] by metis
  then have "unat p div 4096 = 256 + k" using bsz_div(2) [OF assms(2)] by simp
  then have "unat (frame p) = unat (page_addr k)" by (simp add: unat_frame unat_page_addr assms(1))
  then show "frame p = page_addr k" by (simp only: word_unat_eq_iff)
  show "p \<noteq> 0" using j(1) by auto
qed

lemma block_inj:
  assumes "k < PAGING_PAGES" "i < 9"
  shows "inj_on (\<lambda>j. page_addr k + of_nat j * of_nat (bsz i)) {..<4096 div bsz i}"
  using block_place(1) [OF assms] bsz_div(2) [OF assms(2)]
  by (intro inj_onI) (metis add_left_cancel lessThan_iff mult_right_cancel neq0_conv)

lemma distinct_blocks: "k < PAGING_PAGES \<Longrightarrow> i < 9 \<Longrightarrow> distinct (blocks (page_addr k) (bsz i))"
  using block_inj [of k i] by (simp add: blocks_def distinct_map atLeast0LessThan)

lemma length_blocks [simp]: "length (blocks page sz) = 4096 div sz"
  by (simp add: blocks_def)

text \<open>Two blocks of the same size in one page do not overlap; blocks of different pages never do.\<close>

definition span :: "u32 \<Rightarrow> nat \<Rightarrow> nat set" where
  "span p n = {unat p ..< unat p + n}"

lemma blocks_apart:
  assumes "k < PAGING_PAGES" "i < 9" "p \<in> set (blocks (page_addr k) (bsz i))"
    and "k' < PAGING_PAGES" "i' < 9" "q \<in> set (blocks (page_addr k') (bsz i'))"
    and "k \<noteq> k' \<or> i = i' \<and> p \<noteq> q"
  shows "span p (bsz i) \<inter> span q (bsz i') = {}"
proof -
  obtain j where j: "unat p = 0x100000 + 4096 * k + j * bsz i" "j * bsz i + bsz i \<le> 4096"
    using blocks_mem [OF assms(1-3)] by metis
  obtain j' where j': "unat q = 0x100000 + 4096 * k' + j' * bsz i'" "j' * bsz i' + bsz i' \<le> 4096"
    using blocks_mem [OF assms(4-6)] by metis
  show ?thesis
  proof (cases "k = k'")
    case True
    then have i: "i = i'" "p \<noteq> q" using assms(7) by simp_all
    then have "j \<noteq> j'" using j j' True by (auto simp: word_unat_eq_iff)
    then have "Suc j * bsz i \<le> j' * bsz i \<or> Suc j' * bsz i \<le> j * bsz i"
      by (intro disj_forward [OF nat_neq_iff [THEN iffD1]] mult_le_mono1 Suc_leI)
    then show ?thesis using j j' True i by (auto simp: span_def)
  next
    case False
    then have "4096 * k + 4096 \<le> 4096 * k' \<or> 4096 * k' + 4096 \<le> 4096 * k" by arith
    then show ?thesis using j j' by (auto simp: span_def)
  qed
qed

section \<open>The invariant\<close>

text \<open>
  \<open>cs i\<close> are the descriptors of chain \<open>i\<close>, \<open>fs d\<close> the free blocks of descriptor \<open>d\<close>, \<open>us\<close> the
  descriptors not in use.
\<close>

definition chained :: "(nat \<Rightarrow> u32 list) \<Rightarrow> u32 set" where
  "chained cs = (\<Union>i<9. set (cs i))"

definition lists_ok :: "kheap \<Rightarrow> (nat \<Rightarrow> u32 list) \<Rightarrow> u32 list \<Rightarrow> bool" where
  "lists_ok s cs us \<longleftrightarrow>
     (\<forall>i<9. path (\<lambda>d. bd_next (desc s d)) (chain s i) (cs i) \<and> distinct (cs i) \<and> set (cs i) \<inter> set us = {}) \<and>
     (\<forall>i<9. \<forall>j<9. i \<noteq> j \<longrightarrow> set (cs i) \<inter> set (cs j) = {}) \<and>
     path (\<lambda>d. bd_next (desc s d)) (free_bucket_desc s) us \<and> distinct us"

definition bucket_ok :: "kheap \<Rightarrow> u32 list \<Rightarrow> nat \<Rightarrow> u32 \<Rightarrow> bool" where
  "bucket_ok s fl i d \<longleftrightarrow>
     (\<exists>k < PAGING_PAGES. bd_page (desc s d) = page_addr k \<and> mem_map (kmem s) k = 1 \<and> page_addr k < HIGH_MEMORY (kmem s)) \<and>
     path (phys (kmem s)) (bd_free (desc s d)) fl \<and> distinct fl \<and>
     set fl \<subseteq> set (blocks (bd_page (desc s d)) (bsz i)) \<and>
     unat (bd_refcnt (desc s d)) + length fl = 4096 div bsz i"

definition buckets_ok :: "kheap \<Rightarrow> (nat \<Rightarrow> u32 list) \<Rightarrow> (u32 \<Rightarrow> u32 list) \<Rightarrow> bool" where
  "buckets_ok s cs fs \<longleftrightarrow> (\<forall>i<9. \<forall>d \<in> set (cs i). bucket_ok s (fs d) i d) \<and>
     inj_on (\<lambda>d. bd_page (desc s d)) (chained cs)"

text \<open>The pages that hold descriptors are in use, and none of them is cut into blocks.\<close>

definition pages_ok :: "kheap \<Rightarrow> (nat \<Rightarrow> u32 list) \<Rightarrow> u32 list \<Rightarrow> bool" where
  "pages_ok s cs us \<longleftrightarrow>
     (\<forall>d \<in> chained cs \<union> set us. \<exists>k < PAGING_PAGES. frame d = page_addr k \<and> mem_map (kmem s) k = 1 \<and>
        (\<forall>e \<in> chained cs. bd_page (desc s e) \<noteq> page_addr k)) \<and>
     (\<forall>k < PAGING_PAGES. mem_map (kmem s) k = 0 \<longrightarrow> page_addr k < HIGH_MEMORY (kmem s))"

definition layout :: "kheap \<Rightarrow> (nat \<Rightarrow> u32 list) \<Rightarrow> (u32 \<Rightarrow> u32 list) \<Rightarrow> u32 list \<Rightarrow> bool" where
  "layout s cs fs us \<longleftrightarrow> lists_ok s cs us \<and> buckets_ok s cs fs \<and> pages_ok s cs us"

definition live :: "kheap \<Rightarrow> (nat \<Rightarrow> u32 list) \<Rightarrow> (u32 \<Rightarrow> u32 list) \<Rightarrow> (u32 \<times> nat) set" where
  "live s cs fs = {(p, bsz i) | p i d. i < 9 \<and> d \<in> set (cs i) \<and>
     p \<in> set (blocks (bd_page (desc s d)) (bsz i)) \<and> p \<notin> set (fs d)}"

definition heap :: "kheap \<Rightarrow> (u32 \<times> nat) set \<Rightarrow> bool" where
  "heap s L \<longleftrightarrow> (\<exists>cs fs us. layout s cs fs us \<and> L = live s cs fs)"

lemma chainedI: "i < 9 \<Longrightarrow> d \<in> set (cs i) \<Longrightarrow> d \<in> chained cs"
  by (auto simp: chained_def)

lemma layout_path: "layout s cs fs us \<Longrightarrow> i < 9 \<Longrightarrow> path (\<lambda>d. bd_next (desc s d)) (chain s i) (cs i)"
  by (simp add: layout_def lists_ok_def)

lemma layout_bucket: "layout s cs fs us \<Longrightarrow> i < 9 \<Longrightarrow> d \<in> set (cs i) \<Longrightarrow> bucket_ok s (fs d) i d"
  by (simp add: layout_def buckets_ok_def)

lemma bucket_page:
  assumes "bucket_ok s fl i d"
  obtains k where "k < PAGING_PAGES" "bd_page (desc s d) = page_addr k" "mem_map (kmem s) k = 1"
    "page_addr k < HIGH_MEMORY (kmem s)"
  using assms by (auto simp: bucket_ok_def)

lemma free_frame:
  assumes "bucket_ok s fl i d" "i < 9" "p \<in> set (blocks (bd_page (desc s d)) (bsz i))"
  shows "frame p = bd_page (desc s d)" "p \<noteq> 0"
  by (rule bucket_page [OF assms(1)]; use assms(2,3) block_frame in simp)+

lemma one_chain:
  "layout s cs fs us \<Longrightarrow> i < 9 \<Longrightarrow> j < 9 \<Longrightarrow> d \<in> set (cs i) \<Longrightarrow> d \<in> set (cs j) \<Longrightarrow> i = j"
  unfolding layout_def lists_ok_def by blast

lemma same_page:
  "layout s cs fs us \<Longrightarrow> d \<in> chained cs \<Longrightarrow> e \<in> chained cs \<Longrightarrow> bd_page (desc s d) = bd_page (desc s e) \<Longrightarrow> d = e"
  by (auto simp: layout_def buckets_ok_def dest: inj_onD)

lemma pages_okD:
  assumes "pages_ok s cs us" "d \<in> chained cs \<union> set us"
  obtains k where "k < PAGING_PAGES" "frame d = page_addr k" "mem_map (kmem s) k = 1"
    "\<And>e. e \<in> chained cs \<Longrightarrow> bd_page (desc s e) \<noteq> page_addr k"
  using assms unfolding pages_ok_def by blast

text \<open>The blocks of one descriptor apart from the others.\<close>

definition live_but :: "u32 \<Rightarrow> kheap \<Rightarrow> (nat \<Rightarrow> u32 list) \<Rightarrow> (u32 \<Rightarrow> u32 list) \<Rightarrow> (u32 \<times> nat) set" where
  "live_but d s cs fs = {(p, bsz i) | p i e. i < 9 \<and> e \<in> set (cs i) \<and> e \<noteq> d \<and>
     p \<in> set (blocks (bd_page (desc s e)) (bsz i)) \<and> p \<notin> set (fs e)}"

lemma live_split:
  assumes "i < 9" "d \<in> set (cs i)" "\<And>j. j < 9 \<Longrightarrow> d \<in> set (cs j) \<Longrightarrow> j = i"
  shows "live s cs fs = (\<lambda>p. (p, bsz i)) ` (set (blocks (bd_page (desc s d)) (bsz i)) - set (fs d)) \<union> live_but d s cs fs"
  (is "_ = ?A \<union> ?B")
proof (intro equalityI subsetI)
  fix x assume "x \<in> live s cs fs"
  then obtain p j e where x: "x = (p, bsz j)" "j < 9" "e \<in> set (cs j)"
      "p \<in> set (blocks (bd_page (desc s e)) (bsz j))" "p \<notin> set (fs e)" by (auto simp: live_def)
  then show "x \<in> ?A \<union> ?B" by (cases "e = d") (use assms(3) in \<open>auto simp: live_but_def\<close>)
next
  fix x assume "x \<in> ?A \<union> ?B"
  then show "x \<in> live s cs fs" using assms(1,2) by (auto simp: live_def live_but_def)
qed

lemma live_but_cong:
  assumes "\<And>e. e \<noteq> d \<Longrightarrow> fs' e = fs e" "\<And>e. e \<noteq> d \<Longrightarrow> bd_page (desc s' e) = bd_page (desc s e)"
    and "\<And>i. i < 9 \<Longrightarrow> set (cs' i) - {d} = set (cs i) - {d}"
  shows "live_but d s' cs' fs' = live_but d s cs fs"
proof -
  have "i < 9 \<and> e \<in> set (cs' i) \<and> e \<noteq> d \<longleftrightarrow> i < 9 \<and> e \<in> set (cs i) \<and> e \<noteq> d" for i e
    using assms(3) [of i] by blast
  then have "i < 9 \<and> e \<in> set (cs' i) \<and> e \<noteq> d \<and> p \<in> set (blocks (bd_page (desc s' e)) (bsz i)) \<and> p \<notin> set (fs' e) \<longleftrightarrow>
      i < 9 \<and> e \<in> set (cs i) \<and> e \<noteq> d \<and> p \<in> set (blocks (bd_page (desc s e)) (bsz i)) \<and> p \<notin> set (fs e)" for i e p
    using assms(1,2) by metis
  then show ?thesis unfolding live_but_def by (simp only:)
qed

lemma live_but_none: "(\<And>i. i < 9 \<Longrightarrow> d \<notin> set (cs i)) \<Longrightarrow> live_but d s cs fs = live s cs fs"
  unfolding live_def live_but_def by (rule Collect_cong) blast

text \<open>Blocks in use do not overlap.\<close>

lemma live_apart:
  assumes "layout s cs fs us" "(p, m) \<in> live s cs fs" "(q, n) \<in> live s cs fs" "(p, m) \<noteq> (q, n)"
  shows "span p m \<inter> span q n = {}"
proof -
  obtain i d where p: "m = bsz i" "i < 9" "d \<in> set (cs i)" "p \<in> set (blocks (bd_page (desc s d)) (bsz i))"
    using assms(2) by (auto simp: live_def)
  obtain j e where q: "n = bsz j" "j < 9" "e \<in> set (cs j)" "q \<in> set (blocks (bd_page (desc s e)) (bsz j))"
    using assms(3) by (auto simp: live_def)
  obtain k where k: "k < PAGING_PAGES" "bd_page (desc s d) = page_addr k"
    using layout_bucket [OF assms(1) p(2,3)] by (auto elim: bucket_page)
  obtain l where l: "l < PAGING_PAGES" "bd_page (desc s e) = page_addr l"
    using layout_bucket [OF assms(1) q(2,3)] by (auto elim: bucket_page)
  have "k \<noteq> l \<or> i = j \<and> p \<noteq> q"
  proof (cases "k = l")
    case True
    then have "d = e" using same_page [OF assms(1)] p q k l by (simp add: chainedI)
    then show ?thesis using one_chain [OF assms(1) p(2) q(2) p(3)] q p assms(4) by auto
  qed simp
  then show ?thesis using blocks_apart [of k i p l j q] p q k l by simp
qed

text \<open>A client that writes into its blocks does not disturb the allocator.\<close>

lemma layout_client_write:
  assumes "layout s cs fs us" "(p, n) \<in> live s cs fs" "a \<in> span p n"
  shows "layout (s\<lparr>kmem := poke (word_of_nat a) v (kmem s)\<rparr>) cs fs us"
proof -
  let ?a = "word_of_nat a :: u32" and ?s = "s\<lparr>kmem := poke (word_of_nat a) v (kmem s)\<rparr>"
  have "?a \<notin> set (fs e)" if e: "j < 9" "e \<in> set (cs j)" for j e
  proof
    assume f: "?a \<in> set (fs e)"
    obtain i d where p: "n = bsz i" "i < 9" "d \<in> set (cs i)" "p \<in> set (blocks (bd_page (desc s d)) (bsz i))" "p \<notin> set (fs d)"
      using assms(2) by (auto simp: live_def)
    obtain k where k: "k < PAGING_PAGES" "bd_page (desc s d) = page_addr k"
      using layout_bucket [OF assms(1) p(2,3)] by (auto elim: bucket_page)
    obtain l where l: "l < PAGING_PAGES" "bd_page (desc s e) = page_addr l"
      using layout_bucket [OF assms(1) e] by (auto elim: bucket_page)
    have q: "?a \<in> set (blocks (page_addr l) (bsz j))"
      using layout_bucket [OF assms(1) e] f l by (auto simp: bucket_ok_def)
    have pb: "p \<in> set (blocks (page_addr k) (bsz i))" using p(4) k by simp
    obtain m where "unat p = 0x100000 + 4096 * k + m * bsz i" "m * bsz i + bsz i \<le> 4096"
      using blocks_mem [OF k(1) p(2) pb] by metis
    then have "a < 4294967296" using assms(3) k(1) by (simp add: span_def p(1))
    then have ua: "unat ?a = a" by (simp add: unat_of_nat take_bit_nat_eq_self)
    have "k \<noteq> l \<or> i = j \<and> p \<noteq> ?a"
    proof (cases "k = l")
      case True
      then have "d = e" using same_page [OF assms(1)] p e k l by (simp add: chainedI)
      then show ?thesis using one_chain [OF assms(1) p(2) e(1) p(3)] p e f by auto
    qed simp
    then have "span p (bsz i) \<inter> span ?a (bsz j) = {}"
      using blocks_apart [OF k(1) p(2) pb l(1) e(1) q] by simp
    moreover have "a \<in> span ?a (bsz j)" using bsz_div(2) [OF e(1)] by (simp add: span_def ua)
    ultimately show False using assms(3) p(1) by auto
  qed
  then have "bucket_ok ?s (fs e) j e" if "j < 9" "e \<in> set (cs j)" for j e
    using layout_bucket [OF assms(1) that] that by (simp add: bucket_ok_def)
  then show ?thesis
    using assms(1) by (simp add: layout_def buckets_ok_def lists_ok_def pages_ok_def)
qed

section \<open>A new page\<close>

lemma layout_new_page:
  assumes "layout s cs fs us" "k < PAGING_PAGES" "mem_map (kmem s) k = 0"
  defines "s' \<equiv> s\<lparr>kmem := clear_page (page_addr k) (set_map k 1 (kmem s))\<rparr>"
  shows "layout s' cs fs us" and "\<forall>d \<in> chained cs. bd_page (desc s d) \<noteq> page_addr k"
    and "\<forall>d \<in> chained cs \<union> set us. frame d \<noteq> page_addr k" and "page_addr k < HIGH_MEMORY (kmem s)"
proof -
  have pages: "pages_ok s cs us" using assms(1) by (simp add: layout_def)
  then show "page_addr k < HIGH_MEMORY (kmem s)" using assms(2,3) by (simp add: pages_ok_def)
  have used: "page_addr l \<noteq> page_addr k" if "l < PAGING_PAGES" "mem_map (kmem s) l = 1" for l
    using that assms(2,3) page_addr_inj [of l k] by auto
  show fr: "\<forall>d \<in> chained cs \<union> set us. frame d \<noteq> page_addr k"
    using pages used unfolding pages_ok_def by metis
  show bd: "\<forall>d \<in> chained cs. bd_page (desc s d) \<noteq> page_addr k"
    using layout_bucket [OF assms(1)] used unfolding chained_def by (metis UN_E bucket_page lessThan_iff)
  have "bucket_ok s' (fs d) i d" if d: "i < 9" "d \<in> set (cs i)" for i d
  proof -
    have b: "bucket_ok s (fs d) i d" by (rule layout_bucket [OF assms(1) d])
    have "d \<in> chained cs" using d by (rule chainedI)
    have "frame p \<noteq> page_addr k" if "p \<in> set (fs d)" for p
      using bd \<open>d \<in> chained cs\<close> free_frame(1) [OF b d(1), of p] b that by (auto simp: bucket_ok_def)
    then have "path (phys (kmem s')) (bd_free (desc s d)) (fs d) = path (phys (kmem s)) (bd_free (desc s d)) (fs d)"
      by (intro path_cong) (simp add: s'_def phys_clear_page)
    then show ?thesis using b assms(2,3) by (auto simp: bucket_ok_def s'_def)
  qed
  moreover have "pages_ok s' cs us"
    unfolding pages_ok_def
  proof (intro conjI ballI allI impI)
    fix d assume "d \<in> chained cs \<union> set us"
    then show "\<exists>k < PAGING_PAGES. frame d = page_addr k \<and> mem_map (kmem s') k = 1 \<and>
        (\<forall>e \<in> chained cs. bd_page (desc s' e) \<noteq> page_addr k)"
      using pages unfolding pages_ok_def s'_def by fastforce
  qed (use pages in \<open>auto simp: pages_ok_def s'_def split: if_splits\<close>)
  ultimately show "layout s' cs fs us"
    using assms(1) by (simp add: layout_def buckets_ok_def lists_ok_def s'_def)
qed

lemma live_new_page [simp]: "live (s\<lparr>kmem := m\<rparr>) cs fs = live s cs fs"
  by (simp add: live_def)

lemma link_descs_eq:
  "link_descs n b s = (b + of_nat n * 16,
     s\<lparr>desc := (\<lambda>d. if \<exists>j<n. d = b + of_nat j * 16 then (desc s d)\<lparr>bd_next := d + 16\<rparr> else desc s d)\<rparr>)"
proof (induction n arbitrary: b s)
  case (Suc n)
  show ?case unfolding link_descs.simps Suc.IH Ex_less_Suc2
    by (auto simp: on_desc_def fun_eq_iff algebra_simps intro!: kheap.equality)
qed simp

lemma link_objects_map [simp]:
  "mem_map (link_objects n sz cp m) = mem_map m" "HIGH_MEMORY (link_objects n sz cp m) = HIGH_MEMORY m"
  by (induction n arbitrary: cp m) simp_all

lemma link_objects_phys:
  "phys (link_objects n sz cp m) =
     (\<lambda>a. if a = cp + of_nat n * sz then 0 else if \<exists>j<n. a = cp + of_nat j * sz then a + sz else phys m a)"
proof (induction n arbitrary: cp m)
  case (Suc n)
  show ?case
    unfolding link_objects.simps Suc.IH Ex_less_Suc2 by (auto simp: fun_eq_iff algebra_simps)
qed (simp add: fun_upd_def fun_eq_iff)

lemma path_blocks:
  assumes "k < PAGING_PAGES" "i < 9" "4096 div bsz i = Suc n"
    and "nx = (\<lambda>a. if a = page_addr k + of_nat n * of_nat (bsz i) then 0
      else if \<exists>j<n. a = page_addr k + of_nat j * of_nat (bsz i) then a + of_nat (bsz i) else f a)"
  shows "path nx (page_addr k) (blocks (page_addr k) (bsz i))"
  unfolding blocks_def assms(3)
proof (rule path_stride)
  show "nx (page_addr k + of_nat n * of_nat (bsz i)) = 0" by (simp add: assms(4))
  show "page_addr k + of_nat j * of_nat (bsz i) \<noteq> 0" if "j \<le> n" for j
    using block_frame(2) [OF assms(1,2), of "page_addr k + of_nat j * of_nat (bsz i)"] that assms(3)
    by (force simp: blocks_def simp del: of_nat_bsz upt_Suc)
  show "nx (page_addr k + of_nat j * of_nat (bsz i)) = page_addr k + of_nat (Suc j) * of_nat (bsz i)" if "j < n" for j
  proof -
    have "page_addr k + of_nat j * of_nat (bsz i) \<noteq> page_addr k + of_nat n * of_nat (bsz i)"
      using inj_onD [OF block_inj [OF assms(1,2)], of j n] that assms(3) by auto
    then show ?thesis using that by (auto simp: assms(4) algebra_simps simp del: of_nat_bsz)
  qed
qed

section \<open>Descriptors and buckets\<close>

lemma init_layout:
  assumes "layout s cs fs []" "j < PAGING_PAGES" "mem_map (kmem s) j = 0"
  shows "\<exists>s' us k. init_bucket_desc s = Inr s' \<and> us \<noteq> [] \<and> layout s' cs fs us \<and> live s' cs fs = live s cs fs \<and>
    mem_map (kmem s') = (mem_map (kmem s))(k := 1) \<and> chain s' = chain s"
proof (cases rule: get_free_page_cases [of "kmem s"])
  case full
  then show ?thesis using assms(2,3) by blast
next
  case (page k)
  define m where "m = clear_page (page_addr k) (set_map k 1 (kmem s))"
  note l1 = layout_new_page [OF assms(1) page(1,2), folded m_def]
  have f0: "free_bucket_desc s = 0" using assms(1) by (simp add: layout_def lists_ok_def)
  define C where "C = (\<lambda>d. if \<exists>j<255. d = page_addr k + of_nat j * 16 then (desc s d)\<lparr>bd_next := d + 16\<rparr> else desc s d)"
  define D where "D = C(page_addr k + of_nat 255 * 16 := (C (page_addr k + of_nat 255 * 16))\<lparr>bd_next := 0\<rparr>)"
  define s' where "s' = s\<lparr>kmem := m, desc := D, free_bucket_desc := page_addr k\<rparr>"
  have link: "link_descs 255 (page_addr k) (s\<lparr>kmem := m\<rparr>) = (page_addr k + of_nat 255 * 16, s\<lparr>kmem := m, desc := C\<rparr>)"
    unfolding link_descs_eq by (simp add: C_def cong: if_cong)
  have init: "init_bucket_desc s = Inr s'"
    using page_addr_nonzero [OF page(1)] f0
    by (simp add: init_bucket_desc_def page(4) link [simplified] on_desc_def s'_def D_def flip: m_def)
  let ?us = "blocks (page_addr k) (bsz 0)"
  have bsz0: "bsz 0 = 16" by (simp add: bsz_def bucket_sizes_def)
  have D: "bd_page (D d) = bd_page (desc s d)" "bd_free (D d) = bd_free (desc s d)"
      "bd_refcnt (D d) = bd_refcnt (desc s d)" for d
    by (simp_all add: D_def C_def)
  have path: "path (\<lambda>d. bd_next (D d)) (page_addr k) ?us"
    by (rule path_blocks [where n = 255 and f = "\<lambda>d. bd_next (desc s d)"])
      (auto simp: page bsz0 D_def C_def fun_eq_iff simp del: of_nat_bsz)
  have us: "frame d = page_addr k" if "d \<in> set ?us" for d using block_frame(1) [OF page(1) _ that] by simp
  have next_D: "bd_next (D d) = bd_next (desc s d)" if "d \<in> chained cs" for d
  proof -
    have "d \<notin> set ?us" using that l1(3) us by blast
    moreover have "page_addr k + 4080 \<in> set ?us"
      by (auto simp: blocks_def bsz0 simp del: of_nat_bsz intro: image_eqI [where x = 255])
    ultimately show ?thesis by (auto simp: D_def C_def blocks_def bsz0 simp del: of_nat_bsz)
  qed
  have "path (\<lambda>d. bd_next (D d)) (chain s i) (cs i)" if "i < 9" for i
    using layout_path [OF assms(1) that] next_D [OF chainedI [of i _ cs]] that
    by (subst path_cong [where nx' = "\<lambda>d. bd_next (desc s d)"]) simp_all
  moreover have "set (cs i) \<inter> set ?us = {}" if "i < 9" for i
    using that l1(3) us chainedI [of i _ cs] by blast
  moreover have "distinct ?us" using distinct_blocks [OF page(1), of 0] by simp
  ultimately have "lists_ok s' cs ?us"
    using l1(1) path by (simp add: layout_def lists_ok_def s'_def)
  moreover have "buckets_ok s' cs fs"
    using l1(1) by (simp add: layout_def buckets_ok_def bucket_ok_def s'_def D)
  moreover have "pages_ok s' cs ?us"
    unfolding pages_ok_def
  proof (intro conjI ballI)
    fix d assume d: "d \<in> chained cs \<union> set ?us"
    show "\<exists>k < PAGING_PAGES. frame d = page_addr k \<and> mem_map (kmem s') k = 1 \<and>
        (\<forall>e \<in> chained cs. bd_page (desc s' e) \<noteq> page_addr k)"
    proof (cases "d \<in> set ?us")
      case True
      then show ?thesis using us l1(2) page(1) by (intro exI [of _ k]) (simp add: s'_def D m_def)
    next
      case False
      then show ?thesis using d l1(1) by (simp add: layout_def pages_ok_def s'_def D)
    qed
  qed (use l1(1) in \<open>simp add: layout_def pages_ok_def s'_def\<close>)
  ultimately have "layout s' cs fs ?us" by (simp add: layout_def)
  moreover have "live s' cs fs = live s cs fs" by (simp add: live_def s'_def D)
  moreover have "?us \<noteq> []" using length_blocks [of "page_addr k" "bsz 0"] by (auto simp: bsz0 simp del: length_blocks)
  ultimately show ?thesis using init by (intro exI [of _ s'] exI [of _ ?us] exI [of _ k]) (simp add: s'_def m_def)
qed

lemma add_bucket:
  assumes "layout s cs fs (d # us)" "i < 9" "j < PAGING_PAGES" "mem_map (kmem s) j = 0"
  shows "\<exists>s' k. new_bucket i s = Inr (d, s') \<and>
    layout s' (cs(i := d # cs i)) (fs(d := blocks (page_addr k) (bsz i))) us \<and>
    live s' (cs(i := d # cs i)) (fs(d := blocks (page_addr k) (bsz i))) = live s cs fs"
proof (cases rule: get_free_page_cases [of "kmem s"])
  case full
  then show ?thesis using assms(3,4) by blast
next
  case (page k)
  define m where "m = clear_page (page_addr k) (set_map k 1 (kmem s))"
  note l1 = layout_new_page [OF assms(1) page(1,2), folded m_def]
  let ?b = "blocks (page_addr k) (bsz i)"
  define n where "n = 4096 div bsz i - 1"
  have n: "4096 div bsz i = Suc n" using bsz_cases [OF assms(2)] by (auto simp: n_def)
  have d: "free_bucket_desc s = d" "d \<noteq> 0" "path (\<lambda>d. bd_next (desc s d)) (bd_next (desc s d)) us"
    "d \<notin> set us" "distinct us"
    using assms(1) by (simp_all add: layout_def lists_ok_def)
  have dc: "d \<notin> set (cs l)" if "l < 9" for l using assms(1) that by (auto simp: layout_def lists_ok_def)
  then have dch: "d \<notin> chained cs" by (auto simp: chained_def)
  define b where "b = \<lparr>bd_page = page_addr k, bd_next = chain s i, bd_free = page_addr k, bd_refcnt = 0,
    bd_size = ucast (bucket_sizes ! i)\<rparr>"
  define m' where "m' = link_objects n (bucket_sizes ! i) (page_addr k) m"
  define s' where "s' = s\<lparr>free_bucket_desc := bd_next (desc s d), desc := (desc s)(d := b), kmem := m',
    chain := (chain s)(i := d)\<rparr>"
  let ?cs = "cs(i := d # cs i)" and ?fs = "fs(d := ?b)"
  have new: "new_bucket i s = Inr (d, s')"
    using page_addr_nonzero [OF page(1)] d(1,2)
    by (simp add: new_bucket_def page(4) s'_def m'_def m_def b_def n_def bsz_def Let_def)
  have chained: "chained ?cs = insert d (chained cs)" using assms(2) by (auto simp: chained_def split: if_splits)
  have nxt: "bd_next (desc s' d) = chain s i" "e \<noteq> d \<Longrightarrow> desc s' e = desc s e" for e
    by (simp_all add: s'_def b_def)
  have path: "path (\<lambda>e. bd_next (desc s' e)) p xs = path (\<lambda>e. bd_next (desc s e)) p xs" if "d \<notin> set xs" for p xs
    by (rule path_cong) (use that nxt(2) in metis)
  have chains: "path (\<lambda>e. bd_next (desc s' e)) (chain s' l) (?cs l)" if "l < 9" for l
    using layout_path [OF assms(1) that] path [OF dc [OF that]] d(2) nxt(1) by (cases "l = i") (auto simp: s'_def)
  have "path (\<lambda>e. bd_next (desc s' e)) (free_bucket_desc s') us"
    using d(3) path [OF d(4)] by (simp add: s'_def)
  then have lists: "lists_ok s' ?cs us"
    using assms(1,2) d(4,5) dc chains unfolding layout_def lists_ok_def by auto
  have phys: "phys m' a = phys m a" if "frame a \<noteq> page_addr k" for a
  proof -
    have "a \<notin> set ?b" using that block_frame(1) [OF page(1) assms(2)] by blast
    then show ?thesis unfolding m'_def link_objects_phys blocks_def n
      by (auto simp: less_Suc_eq simp flip: of_nat_bsz simp del: of_nat_bsz)
  qed
  have old: "bucket_ok s' (?fs e) l e" if e: "l < 9" "e \<in> set (cs l)" for l e
  proof -
    have ed: "e \<noteq> d" "e \<in> chained cs" using dc e by (auto simp: chained_def)
    have bo: "bucket_ok (s\<lparr>kmem := m\<rparr>) (fs e) l e" by (rule layout_bucket [OF l1(1) e])
    have "frame p \<noteq> page_addr k" if "p \<in> set (fs e)" for p
      using l1(2) ed(2) free_frame(1) [OF bo e(1), of p] bo that by (auto simp: bucket_ok_def)
    then have "path (phys m') p (fs e) = path (phys m) p (fs e)" for p by (intro path_cong phys)
    then show ?thesis using bo ed(1) by (simp add: bucket_ok_def s'_def m'_def)
  qed
  have "path (phys m') (page_addr k) ?b"
    by (rule path_blocks [OF page(1) assms(2) n, where f = "phys m"]) (simp add: m'_def link_objects_phys cong: if_cong)
  then have newb: "bucket_ok s' ?b i d"
    using page(1) l1(4) n distinct_blocks [OF page(1) assms(2)]
    by (auto simp: bucket_ok_def s'_def b_def m'_def m_def)
  have pk: "bd_page (desc s' d) = page_addr k" by (simp add: s'_def b_def)
  have "bd_page (desc s' e) \<noteq> page_addr k" if "e \<in> chained cs" for e
    using l1(2) that dch by (auto simp: s'_def)
  moreover have "inj_on (\<lambda>d. bd_page (desc s d)) (chained cs)" using assms(1) by (simp add: layout_def buckets_ok_def)
  then have "inj_on (\<lambda>d. bd_page (desc s' d)) (chained cs)"
    by (rule inj_on_cong [THEN iffD1, rotated]) (use dch in \<open>auto simp: s'_def\<close>)
  ultimately have "inj_on (\<lambda>d. bd_page (desc s' d)) (chained ?cs)"
    using pk unfolding chained inj_on_insert by (auto, metis)
  then have buckets: "buckets_ok s' ?cs ?fs"
    using old newb assms(2) unfolding buckets_ok_def by (auto split: if_splits)
  have pages: "pages_ok s' ?cs us"
    unfolding pages_ok_def chained
  proof (intro conjI ballI)
    fix e assume e: "e \<in> insert d (chained cs) \<union> set us"
    then have "e \<in> chained cs \<union> set (d # us)" by auto
    moreover have "pages_ok (s\<lparr>kmem := m\<rparr>) cs (d # us)" using l1(1) by (simp add: layout_def)
    ultimately obtain k1 where k1: "k1 < PAGING_PAGES" "frame e = page_addr k1" "mem_map m k1 = 1"
        "\<And>e. e \<in> chained cs \<Longrightarrow> bd_page (desc s e) \<noteq> page_addr k1"
      by (auto elim: pages_okD)
    have "frame e \<noteq> page_addr k" using l1(3) e by auto
    then show "\<exists>k < PAGING_PAGES. frame e = page_addr k \<and> mem_map (kmem s') k = 1 \<and>
        (\<forall>e \<in> insert d (chained cs). bd_page (desc s' e) \<noteq> page_addr k)"
      using k1 by (intro exI [of _ k1]) (auto simp: s'_def m'_def b_def)
  qed (use l1(1) in \<open>simp add: layout_def pages_ok_def s'_def m'_def\<close>)
  have "live s' ?cs ?fs = (\<lambda>p. (p, bsz i)) ` (set (blocks (bd_page (desc s' d)) (bsz i)) - set (?fs d)) \<union> live_but d s' ?cs ?fs"
    by (rule live_split) (use assms(2) dc in \<open>auto split: if_splits\<close>)
  also have "live_but d s' ?cs ?fs = live_but d s cs fs"
    by (rule live_but_cong) (auto simp: s'_def)
  also have "\<dots> = live s cs fs" using dc by (rule live_but_none)
  finally have "live s' ?cs ?fs = live s cs fs"
    by (simp only: pk fun_upd_same Diff_cancel image_empty Un_empty_left)
  then show ?thesis
    using new lists buckets pages by (auto simp: layout_def)
qed

section \<open>\<open>malloc\<close>\<close>

lemma first_free_path:
  assumes "path (\<lambda>d. bd_next (desc s d)) p ds"
  shows "\<exists>d. first_free p s = Some d \<and> (d = 0 \<or> d \<in> set ds \<and> bd_free (desc s d) \<noteq> 0)"
  using assms
proof (induction ds arbitrary: p)
  case (Cons x ds)
  then show ?case by (cases "bd_free (desc s x) = 0") (auto simp: first_free.simps [of x])
qed (simp add: first_free.simps)

lemma unat_inc_small: "unat (w :: u16) < 65535 \<Longrightarrow> unat (w + 1) = unat w + 1"
  by (simp add: unat_word_ariths)

lemma take_layout:
  assumes "layout s cs fs us" "i < 9" "d \<in> set (cs i)" "bd_free (desc s d) \<noteq> 0"
  shows "\<exists>p s' fs'. take_object d s = (p, s') \<and> layout s' cs fs' us \<and> (p, bsz i) \<notin> live s cs fs \<and>
    live s' cs fs' = insert (p, bsz i) (live s cs fs)"
proof -
  have b: "bucket_ok s (fs d) i d" by (rule layout_bucket [OF assms(1-3)])
  then obtain p rest where fl: "fs d = p # rest" "bd_free (desc s d) = p" "path (phys (kmem s)) (phys (kmem s) p) rest"
    using assms(4) by (auto simp: bucket_ok_def path_Cons_iff)
  define s' where "s' = on_desc d (\<lambda>b. b\<lparr>bd_free := phys (kmem s) p, bd_refcnt := bd_refcnt b + 1\<rparr>) s"
  let ?fs = "fs(d := rest)"
  have desc: "bd_page (desc s' e) = bd_page (desc s e)" "bd_next (desc s' e) = bd_next (desc s e)"
      "e \<noteq> d \<Longrightarrow> desc s' e = desc s e" and kmem: "kmem s' = kmem s" for e
    by (simp_all add: s'_def on_desc_def)
  have "unat (bd_refcnt (desc s d)) + length (fs d) = 4096 div bsz i" using b by (simp add: bucket_ok_def)
  then have "unat (bd_refcnt (desc s d)) < 65535" using div_le_dividend [of 4096 "bsz i"] by linarith
  then have "bucket_ok s' rest i d"
    using b fl unat_inc_small unfolding bucket_ok_def desc kmem by (simp add: s'_def on_desc_def)
  moreover have "bucket_ok s' (fs e) j e" if "j < 9" "e \<in> set (cs j)" "e \<noteq> d" for j e
    using layout_bucket [OF assms(1) that(1,2)] by (simp add: bucket_ok_def desc(3) [OF that(3)] kmem)
  moreover have "j = i" if "j < 9" "d \<in> set (cs j)" for j using one_chain [OF assms(1) that(1) assms(2) that(2) assms(3)] .
  ultimately have "buckets_ok s' cs ?fs"
    using assms(1) by (auto simp: layout_def buckets_ok_def desc)
  then have lay: "layout s' cs ?fs us"
    using assms(1) by (simp add: layout_def lists_ok_def pages_ok_def desc kmem) (simp add: s'_def on_desc_def)
  have p: "p \<in> set (blocks (bd_page (desc s d)) (bsz i))" "p \<notin> set rest"
    using b fl by (auto simp: bucket_ok_def)
  have "live_but d s' cs ?fs = live_but d s cs fs" by (rule live_but_cong) (simp_all add: desc)
  moreover have sp: "live s2 cs fs2 = (\<lambda>p. (p, bsz i)) ` (set (blocks (bd_page (desc s2 d)) (bsz i)) - set (fs2 d)) \<union> live_but d s2 cs fs2"
    for s2 fs2
    by (rule live_split) (fact assms(2), fact assms(3), rule one_chain [OF assms(1) _ assms(2) _ assms(3)])
  moreover have "set (blocks (bd_page (desc s d)) (bsz i)) - set rest =
      insert p (set (blocks (bd_page (desc s d)) (bsz i)) - set (fs d))"
    using p fl(1) by auto
  ultimately have "live s' cs ?fs = insert (p, bsz i) (live s cs fs)"
    by (simp only: sp desc fun_upd_same image_insert Un_insert_left)
  moreover have "(p, bsz i) \<notin> live s cs fs"
  proof
    assume "(p, bsz i) \<in> live s cs fs"
    then obtain j e where e: "bsz i = bsz j" "j < 9" "e \<in> set (cs j)" "p \<in> set (blocks (bd_page (desc s e)) (bsz j))" "p \<notin> set (fs e)"
      by (auto simp: live_def)
    have "bd_page (desc s e) = bd_page (desc s d)"
      using free_frame(1) [OF layout_bucket [OF assms(1) e(2,3)] e(2,4)] free_frame(1) [OF b assms(2) p(1)] by simp
    then have "e = d" using same_page [OF assms(1)] e(2,3) assms(2,3) by (simp add: chainedI)
    then show False using e(5) fl(1) by simp
  qed
  ultimately show ?thesis
    using lay fl(2) by (intro exI [of _ p] exI [of _ s'] exI [of _ ?fs]) (simp add: take_object_def s'_def)
qed

lemma pick_bucket_Some:
  assumes "len \<le> 4096"
  obtains i where "pick_bucket len = Some i" "i < 9" "unat len \<le> bsz i"
proof -
  have "\<exists>i\<in>set [0..<9]. len \<le> bucket_sizes ! i"
    by (rule bexI [of _ 8]) (use assms in \<open>simp_all add: bucket_sizes_def\<close>)
  then obtain i where "List.find (\<lambda>i. len \<le> bucket_sizes ! i) [0..<9] = Some i"
    by (metis (no_types, lifting) find_None_iff not_None_eq)
  then show thesis
    by (intro that [of i]) (auto simp: pick_bucket_def find_Some_iff bsz_def word_le_nat_alt)
qed

text \<open>A page is free where a bucket could be made; with two free pages it can be made.\<close>

lemma free_page_of_success:
  "init_bucket_desc s = Inr s' \<Longrightarrow> \<exists>j < PAGING_PAGES. mem_map (kmem s) j = 0"
  "free_bucket_desc s \<noteq> 0 \<Longrightarrow> new_bucket i s = Inr r \<Longrightarrow> \<exists>j < PAGING_PAGES. mem_map (kmem s) j = 0"
  by (cases rule: get_free_page_cases [of "kmem s"]; auto simp: init_bucket_desc_def new_bucket_def Let_def)+

lemma new_bucket_ready:
  assumes "layout s cs fs us" "free_bucket_desc s = 0 \<Longrightarrow> \<exists>j < PAGING_PAGES. mem_map (kmem s) j = 0"
  shows "\<exists>s1 d us1. new_bucket i s = new_bucket i s1 \<and> layout s1 cs fs (d # us1) \<and>
    live s1 cs fs = live s cs fs \<and> (mem_map (kmem s1) = mem_map (kmem s) \<or> (\<exists>k. mem_map (kmem s1) = (mem_map (kmem s))(k := 1)))"
proof (cases "free_bucket_desc s = 0")
  case True
  then have "us = []" using assms(1) by (simp add: layout_def lists_ok_def)
  then obtain s1 us1 k where s1: "init_bucket_desc s = Inr s1" "us1 \<noteq> []" "layout s1 cs fs us1"
      "live s1 cs fs = live s cs fs" "mem_map (kmem s1) = (mem_map (kmem s))(k := 1)"
    using init_layout assms(1) assms(2) [OF True] by blast
  then obtain d us2 where us1: "us1 = d # us2" by (cases us1) auto
  have "free_bucket_desc s1 \<noteq> 0" using s1(3) us1 by (auto simp: layout_def lists_ok_def)
  then have "new_bucket i s = new_bucket i s1" using True s1(1) by (simp add: new_bucket_def)
  then show ?thesis using s1(3-5) us1 by (intro exI [of _ s1] exI [of _ d] exI [of _ us2]) auto
next
  case False
  then obtain d us2 where "us = d # us2" using assms(1) by (cases us) (auto simp: layout_def lists_ok_def)
  then show ?thesis using assms(1) by (intro exI [of _ s] exI [of _ d] exI [of _ us2]) simp
qed

lemma new_bucket_made:
  assumes "layout s1 cs fs (d # us)" "i < 9" "j < PAGING_PAGES" "mem_map (kmem s1) j = 0"
  shows "\<exists>d s' cs' fs' us'. new_bucket i s1 = Inr (d, s') \<and> layout s' cs' fs' us' \<and> d \<in> set (cs' i) \<and>
    bd_free (desc s' d) \<noteq> 0 \<and> live s' cs' fs' = live s1 cs fs"
proof -
  obtain s' k where s': "new_bucket i s1 = Inr (d, s')"
      "layout s' (cs(i := d # cs i)) (fs(d := blocks (page_addr k) (bsz i))) us"
      "live s' (cs(i := d # cs i)) (fs(d := blocks (page_addr k) (bsz i))) = live s1 cs fs"
    using add_bucket [OF assms] by blast
  have "bucket_ok s' (blocks (page_addr k) (bsz i)) i d"
    using layout_bucket [OF s'(2) assms(2), of d] by simp
  moreover have "blocks (page_addr k) (bsz i) \<noteq> []"
    using length_blocks [of "page_addr k" "bsz i"] bsz_cases [OF assms(2)] by (auto simp del: length_blocks)
  ultimately have "bd_free (desc s' d) \<noteq> 0" by (auto simp: bucket_ok_def)
  then show ?thesis
    using s' by (intro exI [of _ d] exI [of _ s'] exI [of _ "cs(i := d # cs i)"]
      exI [of _ "fs(d := blocks (page_addr k) (bsz i))"] exI [of _ us]) simp
qed

lemma new_bucket_layout:
  assumes "layout s cs fs us" "i < 9" "new_bucket i s = Inr r"
  shows "\<exists>d s' cs' fs' us'. new_bucket i s = Inr (d, s') \<and> layout s' cs' fs' us' \<and> d \<in> set (cs' i) \<and>
    bd_free (desc s' d) \<noteq> 0 \<and> live s' cs' fs' = live s cs fs"
proof -
  have "\<exists>j < PAGING_PAGES. mem_map (kmem s) j = 0" if "free_bucket_desc s = 0"
    using assms(3) that free_page_of_success(1) by (cases "init_bucket_desc s") (auto simp: new_bucket_def)
  then obtain s1 d us1 where s1: "new_bucket i s = new_bucket i s1" "layout s1 cs fs (d # us1)"
      "live s1 cs fs = live s cs fs"
    using new_bucket_ready [OF assms(1)] by blast
  have "free_bucket_desc s1 \<noteq> 0" using s1(2) by (auto simp: layout_def lists_ok_def)
  then obtain j where "j < PAGING_PAGES" "mem_map (kmem s1) j = 0"
    using free_page_of_success(2) assms(3) s1(1) by metis
  then show ?thesis using new_bucket_made [OF s1(2) assms(2)] s1(1,3) by simp
qed

lemma new_bucket_succeeds:
  assumes "layout s cs fs us" "i < 9"
    and "j < PAGING_PAGES" "l < PAGING_PAGES" "j \<noteq> l" "mem_map (kmem s) j = 0" "mem_map (kmem s) l = 0"
  shows "\<exists>r. new_bucket i s = Inr r"
proof -
  obtain s1 d us1 where s1: "new_bucket i s = new_bucket i s1" "layout s1 cs fs (d # us1)"
      and m: "mem_map (kmem s1) = mem_map (kmem s) \<or> (\<exists>k. mem_map (kmem s1) = (mem_map (kmem s))(k := 1))"
    using new_bucket_ready [OF assms(1)] assms(3,6) by blast
  have "mem_map (kmem s1) j = 0 \<or> mem_map (kmem s1) l = 0" using m assms(5-7) by auto
  then show ?thesis using new_bucket_made [OF s1(2) assms(2)] s1(1) assms(3,4) by metis
qed

lemma malloc_heap:
  assumes "heap s L" "kmalloc len s = Inr (p, s')"
  shows "\<exists>n. unat len \<le> n \<and> (p, n) \<notin> L \<and> heap s' (insert (p, n) L)"
proof -
  obtain cs fs us where lay: "layout s cs fs us" and L: "L = live s cs fs"
    using assms(1) by (auto simp: heap_def)
  obtain i where i: "pick_bucket len = Some i" using assms(2) by (cases "pick_bucket len") (auto simp: kmalloc_def)
  then have i9: "i < 9" "unat len \<le> bsz i"
    by (auto simp: pick_bucket_def find_Some_iff bsz_def word_le_nat_alt)
  obtain d where d: "first_free (chain s i) s = Some d" "d = 0 \<or> d \<in> set (cs i) \<and> bd_free (desc s d) \<noteq> 0"
    using first_free_path [OF layout_path [OF lay i9(1)]] by blast
  have "\<exists>cs' fs' us'. layout s' cs' fs' us' \<and> (p, bsz i) \<notin> L \<and> live s' cs' fs' = insert (p, bsz i) L"
  proof (cases "d = 0")
    case True
    then have m: "kmalloc len s = kbind (new_bucket i s) (\<lambda>(d, s). Inr (take_object d s))"
      using d(1) i by (simp add: kmalloc_def returns_def)
    then obtain r where "new_bucket i s = Inr r" using assms(2) by (cases "new_bucket i s") auto
    then obtain d1 s1 cs1 fs1 us1 where s1: "new_bucket i s = Inr (d1, s1)" "layout s1 cs1 fs1 us1" "d1 \<in> set (cs1 i)"
        "bd_free (desc s1 d1) \<noteq> 0" "live s1 cs1 fs1 = live s cs fs"
      using new_bucket_layout [OF lay i9(1)] by blast
    show ?thesis using take_layout [OF s1(2) i9(1) s1(3,4)] s1(1,5) m assms(2) L by (auto, blast)
  next
    case False
    then have dd: "d \<in> set (cs i)" "bd_free (desc s d) \<noteq> 0" using d(2) by simp_all
    have "take_object d s = (p, s')" using False d(1) i assms(2) by (simp add: kmalloc_def returns_def)
    then show ?thesis using take_layout [OF lay i9(1) dd] L by fastforce
  qed
  then show ?thesis using i9(2) unfolding heap_def by blast
qed

lemma malloc_succeeds:
  assumes "heap s L" "len \<le> 4096"
    and "j < PAGING_PAGES" "l < PAGING_PAGES" "j \<noteq> l" "mem_map (kmem s) j = 0" "mem_map (kmem s) l = 0"
  shows "\<exists>p s'. kmalloc len s = Inr (p, s')"
proof -
  obtain cs fs us where lay: "layout s cs fs us" using assms(1) by (auto simp: heap_def)
  obtain i where i: "pick_bucket len = Some i" "i < 9" by (rule pick_bucket_Some [OF assms(2)])
  obtain d where "first_free (chain s i) s = Some d"
    using first_free_path [OF layout_path [OF lay i(2)]] by blast
  then show ?thesis
    using new_bucket_succeeds [OF lay i(2) assms(3-7)] i(1)
    by (auto simp: kmalloc_def returns_def split: prod.splits)
qed

section \<open>\<open>free_s\<close>\<close>

lemma find_desc_hit:
  assumes "path (\<lambda>d. bd_next (desc s d)) p ds" "d \<in> set ds"
    and "\<And>e. e \<in> set ds \<Longrightarrow> bd_page (desc s e) = bd_page (desc s d) \<Longrightarrow> e = d"
  shows "\<exists>xs ys. ds = xs @ d # ys \<and> find_desc (bd_page (desc s d)) prev p s = Some (List.last (prev # xs), d)"
  using assms
proof (induction ds arbitrary: p prev)
  case (Cons x ds)
  show ?case
  proof (cases "x = d")
    case True
    then show ?thesis using Cons.prems(1) by (intro exI [of _ "[]"] exI [of _ ds]) (simp add: find_desc.simps)
  next
    case False
    then have "bd_page (desc s x) \<noteq> bd_page (desc s d)" using Cons.prems(3) by auto
    then have step: "find_desc (bd_page (desc s d)) prev p s = find_desc (bd_page (desc s d)) x (bd_next (desc s x)) s"
      using Cons.prems(1) by (subst find_desc.simps) simp
    obtain xs ys where "ds = xs @ d # ys"
        "find_desc (bd_page (desc s d)) x (bd_next (desc s x)) s = Some (List.last (x # xs), d)"
      using Cons.IH [of "bd_next (desc s x)" x] Cons.prems False by auto
    then show ?thesis unfolding step by (intro exI [of _ "x # xs"] exI [of _ ys]) simp
  qed
qed simp

lemma find_desc_miss:
  assumes "path (\<lambda>d. bd_next (desc s d)) p ds" "\<And>e. e \<in> set ds \<Longrightarrow> bd_page (desc s e) \<noteq> page"
  shows "\<exists>q. find_desc page prev p s = Some (q, 0)"
  using assms
proof (induction ds arbitrary: p prev)
  case (Cons x ds)
  then show ?case by (subst find_desc.simps) simp
qed (simp add: find_desc.simps)

lemma search_hit:
  assumes "layout s cs fs us" "i < 9" "d \<in> set (cs i)" "i \<in> set is" "\<forall>j\<in>set is. j < 9"
  shows "\<exists>xs ys. cs i = xs @ d # ys \<and> search_buckets (bd_page (desc s d)) 0 is s = Inr (i, List.last (0 # xs), d)"
  using assms(4,5)
proof (induction "is")
  case (Cons j "is")
  have dc: "d \<in> chained cs" using assms(2,3) by (simp add: chainedI)
  have pos: "0 \<le> sint (bucket_sizes ! j)" if "j < 9"
  proof -
    from that have "j \<in> {0, 1, 2, 3, 4, 5, 6, 7, 8}" by auto
    then show ?thesis by (auto simp: bucket_sizes_def)
  qed
  show ?case
  proof (cases "j = i")
    case True
    have "d \<noteq> 0" using path_nonzero [OF layout_path [OF assms(1,2)]] assms(3) by auto
    moreover have "e = d" if "e \<in> set (cs i)" "bd_page (desc s e) = bd_page (desc s d)" for e
      using same_page [OF assms(1) _ dc that(2)] that(1) assms(2) by (simp add: chainedI)
    ultimately obtain xs ys where "cs i = xs @ d # ys"
        "find_desc (bd_page (desc s d)) 0 (chain s i) s = Some (List.last (0 # xs), d)"
      using find_desc_hit [OF layout_path [OF assms(1,2)] assms(3), where prev = 0] by blast
    then show ?thesis
      using pos True assms(2) \<open>d \<noteq> 0\<close> by (intro exI [of _ xs] exI [of _ ys]) (simp add: returns_def)
  next
    case False
    have j: "j < 9" using Cons.prems by simp
    have "bd_page (desc s e) \<noteq> bd_page (desc s d)" if "e \<in> set (cs j)" for e
      using same_page [OF assms(1) _ dc] one_chain [OF assms(1) j assms(2)] that assms(3) False chainedI [OF j, of e cs]
      by blast
    then obtain q where "find_desc (bd_page (desc s d)) 0 (chain s j) s = Some (q, 0)"
      using find_desc_miss [OF layout_path [OF assms(1) j]] by blast
    then show ?thesis using Cons False pos j by (simp add: returns_def)
  qed
qed simp

lemma path_remove:
  assumes "path nx p (xs @ d # ys)" "distinct (xs @ d # ys)" "xs \<noteq> []"
  shows "nx (List.last xs) = d" and "path (nx(List.last xs := nx d)) p (xs @ ys)"
  using assms
proof (induction xs arbitrary: p)
  case (Cons x xs)
  {
    case 1
    then show ?case using Cons.IH(1) [of "nx x"] by (cases "xs = []") auto
  next
    case 2
    show ?case
    proof (cases "xs = []")
      case True
      then show ?thesis using 2 path_upd [of x ys nx "nx d" "nx d", unfolded fun_upd_def] by auto
    next
      case False
      then have "x \<noteq> List.last xs" using 2(2) last_in_set [of xs] by auto
      then show ?thesis using Cons.IH(2) [of "nx x"] 2 False by simp
    qed
  }
qed simp_all

lemma push_layout:
  assumes "layout s cs fs us" "i < 9" "d \<in> set (cs i)"
    and "p \<in> set (blocks (bd_page (desc s d)) (bsz i))" "p \<notin> set (fs d)"
  defines "s' \<equiv> on_desc d (\<lambda>b. b\<lparr>bd_free := p, bd_refcnt := bd_refcnt b - 1\<rparr>) (s\<lparr>kmem := poke p (bd_free (desc s d)) (kmem s)\<rparr>)"
  shows "layout s' cs (fs(d := p # fs d)) us" and "live s' cs (fs(d := p # fs d)) = live s cs fs - {(p, bsz i)}"
proof -
  have b: "bucket_ok s (fs d) i d" by (rule layout_bucket [OF assms(1-3)])
  have desc: "bd_page (desc s' e) = bd_page (desc s e)" "bd_next (desc s' e) = bd_next (desc s e)"
      "e \<noteq> d \<Longrightarrow> desc s' e = desc s e" and kmem: "kmem s' = poke p (bd_free (desc s d)) (kmem s)" for e
    by (simp_all add: s'_def on_desc_def)
  have "set (p # fs d) \<subseteq> set (blocks (bd_page (desc s d)) (bsz i))" "distinct (p # fs d)"
    using b assms(4,5) by (auto simp: bucket_ok_def)
  then have "length (p # fs d) \<le> 4096 div bsz i"
    by (metis card_length card_mono distinct_card finite_set le_trans length_blocks)
  then have "bd_refcnt (desc s d) \<noteq> 0" using b by (auto simp: bucket_ok_def)
  then have "unat (bd_refcnt (desc s d) - 1) = unat (bd_refcnt (desc s d)) - 1" "0 < unat (bd_refcnt (desc s d))"
    by (simp_all add: unat_minus_one unat_gt_0)
  then have "bucket_ok s' (p # fs d) i d"
    using b assms(4,5) free_frame(2) [OF b assms(2,4)] unfolding bucket_ok_def desc kmem
    by (simp add: s'_def on_desc_def)
  moreover have other: "p \<notin> set (fs e)" if e: "j < 9" "e \<in> set (cs j)" "e \<noteq> d" for j e
  proof
    assume "p \<in> set (fs e)"
    moreover have be: "bucket_ok s (fs e) j e" by (rule layout_bucket [OF assms(1) e(1,2)])
    ultimately have "p \<in> set (blocks (bd_page (desc s e)) (bsz j))" by (auto simp: bucket_ok_def)
    then have "bd_page (desc s e) = bd_page (desc s d)"
      using free_frame(1) [OF be e(1)] free_frame(1) [OF b assms(2,4)] by simp
    then show False using same_page [OF assms(1)] e assms(2,3) by (simp add: chainedI)
  qed
  then have "bucket_ok s' (fs e) j e" if "j < 9" "e \<in> set (cs j)" "e \<noteq> d" for j e
    using layout_bucket [OF assms(1) that(1,2)] that by (simp add: bucket_ok_def desc(3) [OF that(3)] kmem)
  moreover have one: "j = i" if "j < 9" "d \<in> set (cs j)" for j using one_chain [OF assms(1) that(1) assms(2) that(2) assms(3)] .
  ultimately have "buckets_ok s' cs (fs(d := p # fs d))"
    using assms(1) by (auto simp: layout_def buckets_ok_def desc)
  then show "layout s' cs (fs(d := p # fs d)) us"
    using assms(1) by (simp add: layout_def lists_ok_def pages_ok_def desc kmem) (simp add: s'_def on_desc_def)
  have sp: "live s2 cs fs2 = (\<lambda>p. (p, bsz i)) ` (set (blocks (bd_page (desc s2 d)) (bsz i)) - set (fs2 d)) \<union> live_but d s2 cs fs2"
    for s2 fs2 by (rule live_split) (fact assms(2), fact assms(3), rule one)
  have "live_but d s' cs (fs(d := p # fs d)) = live_but d s cs fs" by (rule live_but_cong) (simp_all add: desc)
  moreover have "(p, bsz i) \<notin> live_but d s cs fs"
  proof
    assume "(p, bsz i) \<in> live_but d s cs fs"
    then obtain j e where e: "j < 9" "e \<in> set (cs j)" "e \<noteq> d" "p \<in> set (blocks (bd_page (desc s e)) (bsz j))"
      by (auto simp: live_but_def)
    then have "bd_page (desc s e) = bd_page (desc s d)"
      using free_frame(1) [OF layout_bucket [OF assms(1) e(1,2)] e(1)] free_frame(1) [OF b assms(2,4)] by simp
    then show False using same_page [OF assms(1)] e assms(2,3) by (simp add: chainedI)
  qed
  ultimately show "live s' cs (fs(d := p # fs d)) = live s cs fs - {(p, bsz i)}"
    unfolding sp by (auto simp: desc)
qed

lemma drop_layout:
  assumes "layout s cs fs us" "i < 9" "cs i = xs @ d # ys" "bd_refcnt (desc s d) = 0"
  shows "\<exists>s'. drop_bucket i (List.last (0 # xs)) d s = Inr s' \<and>
    layout s' (cs(i := xs @ ys)) fs (d # us) \<and> live s' (cs(i := xs @ ys)) fs = live s cs fs"
proof -
  have dc: "d \<in> set (cs i)" using assms(3) by simp
  have b: "bucket_ok s (fs d) i d" by (rule layout_bucket [OF assms(1,2) dc])
  obtain k where k: "k < PAGING_PAGES" "bd_page (desc s d) = page_addr k" "mem_map (kmem s) k = 1"
    "page_addr k < HIGH_MEMORY (kmem s)" using b by (rule bucket_page)
  have dch: "d \<in> chained cs" using assms(2) dc by (rule chainedI)
  let ?cs = "cs(i := xs @ ys)" and ?prev = "List.last (0 # xs)"
  have l: "lists_ok s cs us" using assms(1) by (simp add: layout_def)
  then have "distinct (cs i)" using assms(2) by (simp add: lists_ok_def)
  then have dist: "distinct (xs @ d # ys)" by (simp only: assms(3))
  have path: "path (\<lambda>d. bd_next (desc s d)) (chain s i) (xs @ d # ys)"
    using layout_path [OF assms(1,2)] by (simp only: assms(3))
  have upath: "path (\<lambda>d. bd_next (desc s d)) (free_bucket_desc s) us" "distinct us"
    and us: "j < 9 \<Longrightarrow> set (cs j) \<inter> set us = {}" for j
    using l by (simp_all add: lists_ok_def)
  define s1 where "s1 = (if xs = [] then s\<lparr>chain := (chain s)(i := bd_next (desc s d))\<rparr>
    else on_desc (List.last xs) (bd_next_update (\<lambda>_. bd_next (desc s d))) s)"
  define s' where "s' = (on_desc d (bd_next_update (\<lambda>_. free_bucket_desc s)) s1)
    \<lparr>kmem := set_map k 0 (kmem s), free_bucket_desc := d\<rparr>"
  have nz: "0 \<notin> set (xs @ d # ys)" by (rule path_nonzero [OF path])
  then have prev: "?prev \<noteq> 0 \<longleftrightarrow> xs \<noteq> []" by (metis Un_iff last.simps last_in_set set_append)
  have last: "bd_next (desc s (List.last xs)) = d" if "xs \<noteq> []"
    using path_remove(1) [OF path dist that] by simp
  have first: "chain s i = d" if "xs = []" using path that by simp
  have un: "unlink_desc i ?prev d s = Inr s1"
    using prev first by (auto simp: unlink_desc_def s1_def Let_def)
  have s1: "bd_page (desc s1 e) = bd_page (desc s e)" "kmem s1 = kmem s" "free_bucket_desc s1 = free_bucket_desc s" for e
    by (simp_all add: s1_def on_desc_def)
  have fr: "free_page (page_addr k) (kmem s) = Inr (set_map k 0 (kmem s))"
    using free_page_frame [OF k(1,4)] k(3) by simp
  have drop: "drop_bucket i ?prev d s = Inr s'"
    using prev first last un fr by (cases "xs = []") (simp_all add: drop_bucket_def s1 k(2) s'_def)
  have nxt: "bd_next (desc s' e) = (if e = d then free_bucket_desc s else if xs \<noteq> [] \<and> e = List.last xs
      then bd_next (desc s d) else bd_next (desc s e))" for e
    by (simp add: s'_def s1_def on_desc_def)
  have desc: "bd_page (desc s' e) = bd_page (desc s e)" "bd_free (desc s' e) = bd_free (desc s e)"
    "bd_refcnt (desc s' e) = bd_refcnt (desc s e)" and kmem: "kmem s' = set_map k 0 (kmem s)" for e
    by (simp_all add: s'_def s1_def on_desc_def)
  have same: "path (\<lambda>e. bd_next (desc s' e)) p zs = path (\<lambda>e. bd_next (desc s e)) p zs"
    if "d \<notin> set zs" "xs \<noteq> [] \<Longrightarrow> List.last xs \<notin> set zs" for p zs
    by (rule path_cong) (use that nxt in auto)
  have lx: "xs \<noteq> [] \<Longrightarrow> List.last xs \<in> set (cs i)" using assms(3) last_in_set [of xs] by simp
  have chains: "path (\<lambda>e. bd_next (desc s' e)) (chain s' j) (?cs j)" if "j < 9" for j
  proof (cases "j = i")
    case True
    show ?thesis
    proof (cases "xs = []")
      case True
      then have "chain s' j = bd_next (desc s d)" by (simp add: s'_def s1_def on_desc_def \<open>j = i\<close>)
      then show ?thesis using path dist same [of ys] \<open>j = i\<close> True by simp
    next
      case False
      have "path (\<lambda>e. bd_next (desc s' e)) (chain s i) (xs @ ys) =
          path ((\<lambda>e. bd_next (desc s e))(List.last xs := bd_next (desc s d))) (chain s i) (xs @ ys)"
        by (rule path_cong) (use nxt dist False in auto)
      then show ?thesis
        using path_remove(2) [OF path dist False] \<open>j = i\<close> False by (simp add: s'_def s1_def on_desc_def)
    qed
  next
    case False
    have "e \<notin> set (cs j)" if "e \<in> set (cs i)" for e
      using one_chain [OF assms(1) \<open>j < 9\<close> assms(2) _ that] False by blast
    then show ?thesis
      using layout_path [OF assms(1) that] same [of "cs j"] dc lx False by (simp add: s'_def s1_def on_desc_def)
  qed
  have fpath: "path (\<lambda>e. bd_next (desc s' e)) (free_bucket_desc s') (d # us)"
    using upath us(1) [OF assms(2)] dc lx nz same [of us] nxt [of d] by (auto simp: s'_def)
  have sub: "set (?cs j) = set (cs j) - {d}" if "j < 9" for j
  proof (cases "j = i")
    case True
    then show ?thesis using dist assms(3) by auto
  next
    case False
    then have "d \<notin> set (cs j)" using one_chain [OF assms(1) that assms(2) _ dc] by blast
    then show ?thesis using False by simp
  qed
  have D1: "distinct (?cs j)" if "j < 9" for j
    using dist l that by (simp add: lists_ok_def)
  have D2: "set (?cs j) \<inter> set (d # us) = {}" if "j < 9" for j
    unfolding sub [OF that] using us [OF that] by auto
  have D3: "set (?cs j) \<inter> set (?cs m) = {}" if "j < 9" "m < 9" "j \<noteq> m" for j m
    unfolding sub [OF that(1)] sub [OF that(2)] using l that unfolding lists_ok_def by blast
  have D4: "distinct (d # us)" using upath(2) us [OF assms(2)] dc by auto
  have lists: "lists_ok s' ?cs (d # us)"
    unfolding lists_ok_def by (intro conjI allI impI chains fpath D1 D2 D3 D4)
  have chained: "chained ?cs = chained cs - {d}"
    unfolding chained_def using sub by auto
  have bk: "bucket_ok s' (fs e) j e" if e: "j < 9" "e \<in> set (?cs j)" for j e
  proof -
    have e': "e \<in> set (cs j)" "e \<noteq> d" using e sub by auto
    have "bd_page (desc s e) \<noteq> page_addr k"
      using same_page [OF assms(1) _ dch, of e] chainedI [of j e cs] e(1) e' k(2) by auto
    then show ?thesis
      using layout_bucket [OF assms(1) e(1) e'(1)] k(1) page_addr_inj
      unfolding bucket_ok_def desc kmem by auto
  qed
  have "inj_on (\<lambda>d. bd_page (desc s d)) (chained cs)" using assms(1) by (simp add: layout_def buckets_ok_def)
  then have "inj_on (\<lambda>d. bd_page (desc s' d)) (chained ?cs)"
    unfolding chained desc by (rule inj_on_subset) blast
  then have buckets: "buckets_ok s' ?cs fs" using bk by (simp add: buckets_ok_def)
  have pk: "pages_ok s cs us" using assms(1) by (simp add: layout_def)
  have pages: "pages_ok s' ?cs (d # us)"
    unfolding pages_ok_def
  proof (intro conjI ballI)
    fix e assume "e \<in> chained ?cs \<union> set (d # us)"
    then have "e \<in> chained cs \<union> set us" using chained dch by auto
    then obtain k1 where k1: "k1 < PAGING_PAGES" "frame e = page_addr k1" "mem_map (kmem s) k1 = 1"
        "\<And>e. e \<in> chained cs \<Longrightarrow> bd_page (desc s e) \<noteq> page_addr k1"
      using pages_okD [OF pk, of e] by blast
    have "k1 \<noteq> k" using k1(4) [OF dch] k(2) by auto
    then show "\<exists>k < PAGING_PAGES. frame e = page_addr k \<and> mem_map (kmem s') k = 1 \<and>
        (\<forall>e \<in> chained ?cs. bd_page (desc s' e) \<noteq> page_addr k)"
      using k1 by (intro exI [of _ k1]) (simp add: desc kmem chained)
  qed (use pk k in \<open>auto simp: pages_ok_def kmem\<close>)
  have "length (fs d) = 4096 div bsz i" "distinct (fs d)" "set (fs d) \<subseteq> set (blocks (bd_page (desc s d)) (bsz i))"
    using b assms(4) by (simp_all add: bucket_ok_def)
  then have full: "set (fs d) = set (blocks (bd_page (desc s d)) (bsz i))"
    using distinct_blocks [OF k(1) assms(2)] k(2) by (intro card_subset_eq) (simp_all add: distinct_card)
  have "live s cs fs = (\<lambda>p. (p, bsz i)) ` (set (blocks (bd_page (desc s d)) (bsz i)) - set (fs d)) \<union> live_but d s cs fs"
    by (rule live_split) (fact assms(2), fact dc, rule one_chain [OF assms(1) _ assms(2) _ dc])
  also have "\<dots> = live_but d s' ?cs fs"
    using sub by (simp add: full) (intro live_but_cong; auto simp: desc)
  also have "\<dots> = live s' ?cs fs" using sub by (intro live_but_none) auto
  finally have "live s' ?cs fs = live s cs fs" by simp
  then show ?thesis using drop lists buckets pages by (auto simp: layout_def)
qed

lemma free_heap:
  assumes "heap s L" "(p, n) \<in> L"
  shows "\<exists>s'. free_s p 0 s = Inr s' \<and> heap s' (L - {(p, n)})"
proof -
  obtain cs fs us where lay: "layout s cs fs us" and L: "L = live s cs fs"
    using assms(1) by (auto simp: heap_def)
  obtain i d where d: "n = bsz i" "i < 9" "d \<in> set (cs i)" "p \<in> set (blocks (bd_page (desc s d)) (bsz i))" "p \<notin> set (fs d)"
    using assms(2) by (auto simp: L live_def)
  have page: "p AND 0xfffff000 = bd_page (desc s d)"
    using free_frame(1) [OF layout_bucket [OF lay d(2,3)] d(2,4)] by (simp add: frame_def and.commute)
  obtain xs ys where xs: "cs i = xs @ d # ys"
      "search_buckets (bd_page (desc s d)) 0 [0..<9] s = Inr (i, List.last (0 # xs), d)"
    using search_hit [OF lay d(2,3), of "[0..<9]"] d(2) by auto
  define s1 where "s1 = on_desc d (\<lambda>b. b\<lparr>bd_free := p, bd_refcnt := bd_refcnt b - 1\<rparr>)
    (s\<lparr>kmem := poke p (bd_free (desc s d)) (kmem s)\<rparr>)"
  note push = push_layout [OF lay d(2-5), folded s1_def]
  have free: "free_s p 0 s = (if bd_refcnt (desc s1 d) = 0 then drop_bucket i (List.last (0 # xs)) d s1 else Inr s1)"
    unfolding free_s_def page xs(2) by (simp add: s1_def Let_def)
  show ?thesis
  proof (cases "bd_refcnt (desc s1 d) = 0")
    case True
    then show ?thesis
      using drop_layout [OF push(1) d(2) xs(1) True] push(2) d(1) unfolding free heap_def L by metis
  next
    case False
    then show ?thesis using push d(1) unfolding free heap_def L by auto
  qed
qed

section \<open>The contract of an allocator\<close>

text \<open>
  What a client of an allocator relies on: a state stands for the set of blocks in use, which do not
  overlap; an allocation adds a block that is large enough, a release removes its block, and a client's
  writes into its own block change nothing.
\<close>

locale allocator =
  fixes uses :: "'s \<Rightarrow> (u32 \<times> nat) set \<Rightarrow> bool"
    and alloc :: "u32 \<Rightarrow> 's \<Rightarrow> (u32 \<times> 's) res"
    and release :: "u32 \<Rightarrow> 's \<Rightarrow> 's res"
    and store :: "nat \<Rightarrow> u32 \<Rightarrow> 's \<Rightarrow> 's"
  assumes alloc_uses: "uses s L \<Longrightarrow> alloc len s = Inr (p, s') \<Longrightarrow>
      \<exists>n. unat len \<le> n \<and> (p, n) \<notin> L \<and> uses s' (insert (p, n) L)"
    and release_uses: "uses s L \<Longrightarrow> (p, n) \<in> L \<Longrightarrow> \<exists>s'. release p s = Inr s' \<and> uses s' (L - {(p, n)})"
    and store_uses: "uses s L \<Longrightarrow> (p, n) \<in> L \<Longrightarrow> a \<in> span p n \<Longrightarrow> uses (store a v s) L"
    and uses_apart: "uses s L \<Longrightarrow> (p, m) \<in> L \<Longrightarrow> (q, n) \<in> L \<Longrightarrow> (p, m) \<noteq> (q, n) \<Longrightarrow> span p m \<inter> span q n = {}"
begin

lemma alloc_fresh:
  assumes "uses s L" "alloc len s = Inr (p, s')"
  shows "\<exists>n. unat len \<le> n \<and> uses s' (insert (p, n) L) \<and> (\<forall>(q, m) \<in> L. span p n \<inter> span q m = {})"
proof -
  obtain n where n: "unat len \<le> n" "(p, n) \<notin> L" "uses s' (insert (p, n) L)"
    using alloc_uses [OF assms] by blast
  have "span p n \<inter> span q m = {}" if "(q, m) \<in> L" for q m
    by (rule uses_apart [OF n(3)]) (use that n(2) in auto)
  then show ?thesis using n by blast
qed

text \<open>A block that is allocated, filled and released leaves the blocks in use as they were.\<close>

lemma alloc_store_release:
  assumes "uses s L" "alloc len s = Inr (p, s')" "\<forall>(a, v) \<in> set ws. a \<in> span p (unat len)"
  shows "\<exists>s''. release p (fold (\<lambda>(a, v). store a v) ws s') = Inr s'' \<and> uses s'' L"
proof -
  obtain n where n: "unat len \<le> n" "(p, n) \<notin> L" "uses s' (insert (p, n) L)"
    using alloc_uses [OF assms(1,2)] by blast
  have "uses (fold (\<lambda>(a, v). store a v) ws t) M" if "uses t M" "(p, n) \<in> M" for t M
    using that assms(3)
  proof (induction ws arbitrary: t)
    case (Cons w ws)
    obtain a v where w: "w = (a, v)" by (cases w)
    then have "a \<in> span p n" using Cons.prems(3) n(1) by (auto simp: span_def)
    then show ?case using Cons store_uses [OF Cons.prems(1,2)] by (simp add: w)
  qed simp
  from this [OF n(3)] have "uses (fold (\<lambda>(a, v). store a v) ws s') (insert (p, n) L)" by simp
  from release_uses [OF this, of p n] n(2) show ?thesis by simp
qed

end

definition store_long :: "nat \<Rightarrow> u32 \<Rightarrow> kheap \<Rightarrow> kheap" where
  "store_long a v s = s\<lparr>kmem := poke (word_of_nat a) v (kmem s)\<rparr>"

interpretation kernel_heap: allocator heap kmalloc "\<lambda>p. free_s p 0" store_long
proof
  show "heap s L \<Longrightarrow> kmalloc len s = Inr (p, s') \<Longrightarrow> \<exists>n. unat len \<le> n \<and> (p, n) \<notin> L \<and> heap s' (insert (p, n) L)"
    for s L len p s' by (rule malloc_heap)
  show "heap s L \<Longrightarrow> (p, n) \<in> L \<Longrightarrow> \<exists>s'. free_s p 0 s = Inr s' \<and> heap s' (L - {(p, n)})" for s L p n
    by (rule free_heap)
  show "heap s L \<Longrightarrow> (p, n) \<in> L \<Longrightarrow> a \<in> span p n \<Longrightarrow> heap (store_long a v s) L" for s L p n a v
    unfolding heap_def store_long_def using layout_client_write live_new_page by metis
  show "heap s L \<Longrightarrow> (p, m) \<in> L \<Longrightarrow> (q, n) \<in> L \<Longrightarrow> (p, m) \<noteq> (q, n) \<Longrightarrow> span p m \<inter> span q n = {}" for s L p m q n
    unfolding heap_def using live_apart by metis
qed

section \<open>Properties\<close>

text \<open>C3: With two free page frames a request for at most a page succeeds: \<open>malloc\<close> returns a block that
  is large enough and overlaps no block in use, and the blocks in use are those before and this one.\<close>

theorem malloc_fresh:
  assumes "heap s L" "len \<le> 4096"
    and "j < PAGING_PAGES" "l < PAGING_PAGES" "j \<noteq> l" "mem_map (kmem s) j = 0" "mem_map (kmem s) l = 0"
  shows "\<exists>p s' n. kmalloc len s = Inr (p, s') \<and> unat len \<le> n \<and> heap s' (insert (p, n) L) \<and>
    (\<forall>(q, m) \<in> L. span p n \<inter> span q m = {})"
  using malloc_succeeds [OF assms] kernel_heap.alloc_fresh [OF assms(1)] by metis

text \<open>C4: A block that \<open>malloc\<close> gave, written by its owner within the size asked for and freed with
  \<open>free_s\<close> leaves exactly the blocks in use that there were; none of the checks of \<open>free_s\<close> panics.\<close>

theorem malloc_write_free:
  assumes "heap s L" "kmalloc len s = Inr (p, s')" "\<forall>(a, v) \<in> set ws. a \<in> span p (unat len)"
  shows "\<exists>s''. free_s p 0 (fold (\<lambda>(a, v). store_long a v) ws s') = Inr s'' \<and> heap s'' L"
  using assms by (rule kernel_heap.alloc_store_release)

text \<open>An empty heap, and memory that is all free.\<close>

definition empty_heap :: kheap where
  "empty_heap = \<lparr>kmem = \<lparr>HIGH_MEMORY = 0x1000000, mem_map = (\<lambda>_. 0), phys = (\<lambda>_. 0)\<rparr>,
     desc = (\<lambda>_. \<lparr>bd_page = 0, bd_next = 0, bd_free = 0, bd_refcnt = 0, bd_size = 0\<rparr>),
     chain = (\<lambda>_. 0), free_bucket_desc = 0\<rparr>"

lemma empty_heap_ok: "heap empty_heap {}"
proof -
  have "layout empty_heap (\<lambda>_. []) (\<lambda>_. []) []"
    by (auto simp: layout_def lists_ok_def buckets_ok_def pages_ok_def chained_def empty_heap_def
        word_less_nat_alt unat_page_addr)
  moreover have "live empty_heap (\<lambda>_. []) (\<lambda>_. []) = {}" by (simp add: live_def)
  ultimately show ?thesis unfolding heap_def by metis
qed

lemma malloc_fresh_witness:
  "\<exists>p s' n. kmalloc 20 empty_heap = Inr (p, s') \<and> 20 \<le> n \<and> heap s' {(p, n)}"
  using malloc_fresh [OF empty_heap_ok, of 20 0 1] by (auto simp: empty_heap_def)

lemma malloc_write_free_witness:
  "\<exists>p s' s''. kmalloc 20 empty_heap = Inr (p, s') \<and>
    free_s p 0 (store_long (unat p + 4) 7 s') = Inr s'' \<and> heap s'' {}"
proof -
  obtain p s' where m: "kmalloc 20 empty_heap = Inr (p, s')"
    using malloc_succeeds [OF empty_heap_ok, of 20 0 1] by (auto simp: empty_heap_def)
  then show ?thesis
    using malloc_write_free [OF empty_heap_ok m, of "[(unat p + 4, 7)]"] by (simp add: span_def)
qed


end
