(* ===== verification/Exec.thy ===== *)
theory Exec
  imports Open
begin

text \<open>
  \<^verbatim>\<open>fs/exec.c\<close>: copying arguments and environment into free pages, the tables of pointers to them,
  script interpreters and the replacement of a task's program. The bytes of the argument pages are a
  map from \<open>p\<close>, their place below the top of the new data segment; when the pages are mapped they are
  the user's memory there. What the new program's other pages hold before it runs is an argument.
\<close>

section \<open>Argument pages\<close>

abbreviation (input) MAX_ARG_PAGES :: nat where "MAX_ARG_PAGES \<equiv> 32"

record argmem =
  ap_page :: "nat \<Rightarrow> u32"
  ap_bytes :: "nat \<Rightarrow> u8"

definition no_args :: argmem where
  "no_args = \<lparr>ap_page = (\<lambda>_. 0), ap_bytes = (\<lambda>_. 0)\<rparr>"

text \<open>\<open>len\<close> with the final NUL: the loop of \<open>get_fs_byte(tmp++)\<close>.\<close>

partial_function (option) arg_len :: "(u32 \<Rightarrow> u8) \<Rightarrow> u32 \<Rightarrow> nat \<Rightarrow> nat option" where
  "arg_len byte tmp len = (if byte tmp = 0 then Some (Suc len) else arg_len byte (tmp + 1) (Suc len))"

text \<open>
  The inner loop of \<open>copy_strings\<close> over \<open>len\<close> bytes, with \<open>offset\<close> and the index of the page that
  \<open>pag\<close> points to. Without a page the routine returns 0.
\<close>

fun copy_bytes ::
    "(u32 \<Rightarrow> u8) \<Rightarrow> nat \<Rightarrow> u32 \<Rightarrow> u32 \<Rightarrow> int \<Rightarrow> nat \<Rightarrow> argmem \<Rightarrow> mm \<Rightarrow>
      ((u32 \<times> int \<times> nat) option \<times> argmem \<times> mm) res" where
  "copy_bytes byte 0 tmp p offset pg a m = Inr (Some (p, offset, pg), a, m)"
| "copy_bytes byte (Suc len) tmp p offset pg a m =
     (let p = p - 1;
          tmp = tmp - 1;
          offset = offset - 1;
          fresh = offset < 0;
          offset = (if fresh then int (unat p mod 4096) else offset);
          pg = (if fresh then unat p div 4096 else pg)
      in if fresh \<and> pg \<ge> MAX_ARG_PAGES then Inl Undefined
         else if fresh \<and> ap_page a pg = 0
         then case get_free_page m of (page, m) \<Rightarrow>
           if page = 0 then Inr (None, a, m)
           else copy_bytes byte len tmp p offset pg
                  (a\<lparr>ap_page := (ap_page a)(pg := page),
                     ap_bytes := (\<lambda>q. if q = 4096 * pg + nat offset then byte tmp
                                      else if q div 4096 = pg then 0 else ap_bytes a q)\<rparr>) m
         else copy_bytes byte len tmp p offset pg
                (a\<lparr>ap_bytes := (ap_bytes a)(4096 * pg + nat offset := byte tmp)\<rparr>) m)"

text \<open>
  The outer loop: \<open>ptr j\<close> is \<open>argv[j]\<close> and \<open>byte\<close> the segment the strings are in. The test for too
  many arguments is there as it is written, on unsigned numbers.
\<close>

fun copy_args ::
    "nat \<Rightarrow> (nat \<Rightarrow> u32) \<Rightarrow> (u32 \<Rightarrow> u8) \<Rightarrow> u32 \<Rightarrow> int \<Rightarrow> nat \<Rightarrow> argmem \<Rightarrow> mm \<Rightarrow> (u32 \<times> argmem \<times> mm) res" where
  "copy_args 0 ptr byte p offset pg a m = Inr (p, a, m)"
| "copy_args (Suc argc) ptr byte p offset pg a m =
     (if ptr argc = 0 then Inl (Panic ''argc is wrong'')
      else kbind (loops (arg_len byte (ptr argc) 0)) (\<lambda>len.
        if p - of_nat len < 0 then Inr (0, a, m)
        else kbind (copy_bytes byte len (ptr argc + of_nat len) p offset pg a m) (\<lambda>(r, a, m).
          case r of
            None \<Rightarrow> Inr (0, a, m)
          | Some (p, offset, pg) \<Rightarrow> copy_args argc ptr byte p offset pg a m)))"

definition copy_strings ::
    "int \<Rightarrow> (nat \<Rightarrow> u32) \<Rightarrow> (u32 \<Rightarrow> u8) \<Rightarrow> argmem \<Rightarrow> u32 \<Rightarrow> mm \<Rightarrow> (u32 \<times> argmem \<times> mm) res" where
  "copy_strings argc ptr byte a p m =
     (if p = 0 then Inr (0, a, m) else copy_args (nat argc) ptr byte p 0 0 a m)"

text \<open>\<open>copy_strings\<close> on the state of the kernel.\<close>

definition put_strings ::
    "int \<Rightarrow> (nat \<Rightarrow> u32) \<Rightarrow> (u32 \<Rightarrow> u8) \<Rightarrow> u32 \<times> argmem \<times> 'f kstate \<Rightarrow> (u32 \<times> argmem \<times> 'f kstate) res" where
  "put_strings argc ptr byte = (\<lambda>(p, a, k).
     kbind (copy_strings argc ptr byte a p (mem k)) (\<lambda>(p, a, m). Inr (p, a, k\<lparr>mem := m\<rparr>)))"

definition user_ptr :: "u32 \<Rightarrow> 'f kstate \<Rightarrow> nat \<Rightarrow> u32" where
  "user_ptr argv k = (\<lambda>j. get_fs_long (argv + 4 * of_nat j) k)"

declare arg_len.simps [code]

section \<open>Pointer tables\<close>

partial_function (option) count_from :: "u32 \<Rightarrow> int \<Rightarrow> 'f kstate \<Rightarrow> int option" where
  "count_from tmp i k = (if get_fs_long tmp k = 0 then Some i else count_from (tmp + 4) (i + 1) k)"

declare count_from.simps [code]

definition count_args :: "u32 \<Rightarrow> 'f kstate \<Rightarrow> int res" where
  "count_args argv k = (if argv = 0 then Inr 0 else loops (count_from argv 0 k))"

text \<open>One table: a pointer to each string, then 0. The result is the address after the last string.\<close>

fun fill_table :: "nat \<Rightarrow> u32 \<Rightarrow> u32 \<Rightarrow> 'f kstate \<Rightarrow> (u32 \<times> 'f kstate) res" where
  "fill_table 0 p argv k = Inr (p, put_fs_long 0 argv k)"
| "fill_table (Suc argc) p argv k =
     (let k = put_fs_long p argv k
      in kbind (loops (arg_len (user k) p 0)) (\<lambda>n. fill_table argc (p + of_nat n) (argv + 4) k))"

definition create_tables :: "u32 \<Rightarrow> int \<Rightarrow> int \<Rightarrow> 'f kstate \<Rightarrow> (u32 \<times> 'f kstate) res" where
  "create_tables p argc envc k =
     (let sp = 0xfffffffc AND p;
          envp = sp - 4 * (word_of_int envc + 1);
          argv = envp - 4 * (word_of_int argc + 1);
          k = put_fs_long envp (argv - 4) k;
          k = put_fs_long argv (argv - 8) k;
          k = put_fs_long (word_of_int argc) (argv - 12) k
      in kbind (fill_table (nat argc) p argv k) (\<lambda>(p, k).
         kbind (fill_table (nat envc) p envp k) (\<lambda>(p, k). Inr (argv - 12, k))))"

section \<open>The new address space\<close>

fun put_args :: "nat \<Rightarrow> (nat \<Rightarrow> u32) \<Rightarrow> u32 \<Rightarrow> mm \<Rightarrow> mm" where
  "put_args 0 page data_base m = m"
| "put_args (Suc i) page data_base m =
     (let data_base = data_base - 4096
      in put_args i page data_base (if page i \<noteq> 0 then snd (put_page (page i) data_base m) else m))"

text \<open>User memory once the pages are mapped below \<open>data_limit\<close>.\<close>

definition args_at_top :: "argmem \<Rightarrow> (u32 \<Rightarrow> u8) \<Rightarrow> u32 \<Rightarrow> u8" where
  "args_at_top a img = (\<lambda>v.
     let q = unat (v - (0x4000000 - 0x20000))
     in if q < 0x20000 \<and> ap_page a (q div 4096) \<noteq> 0 then ap_bytes a q else img v)"

definition change_ldt :: "u32 \<Rightarrow> argmem \<Rightarrow> (u32 \<Rightarrow> u8) \<Rightarrow> 'f kstate \<Rightarrow> u32 \<times> 'f kstate" where
  "change_ldt text_size a img k =
     (let code_limit = (text_size + 4096 - 1) AND 0xfffff000;
          data_limit = 0x4000000;
          code_base = d_base (ldt_code (cur k));
          k = upd_cur (\<lambda>t. t\<lparr>ldt_code := \<lparr>d_base = code_base, d_limit = code_limit\<rparr>,
                             ldt_data := \<lparr>d_base = code_base, d_limit = data_limit\<rparr>\<rparr>) k
      in (data_limit, k\<lparr>mem := put_args MAX_ARG_PAGES (ap_page a) (code_base + data_limit) (mem k),
                        user := args_at_top a img\<rparr>))"

section \<open>Executable files\<close>

record exec_hdr =
  a_magic :: u32
  a_text :: u32
  a_data :: u32
  a_bss :: u32
  a_syms :: u32
  a_entry :: u32
  a_trsize :: u32
  a_drsize :: u32

definition exec_at :: "u8 list \<Rightarrow> exec_hdr" where
  "exec_at d = \<lparr>a_magic = u32_at d 0, a_text = u32_at d 4, a_data = u32_at d 8, a_bss = u32_at d 12,
     a_syms = u32_at d 16, a_entry = u32_at d 20, a_trsize = u32_at d 24, a_drsize = u32_at d 28\<rparr>"

abbreviation (input) ENOEXEC :: int where "ENOEXEC \<equiv> 8"

abbreviation (input) ZMAGIC :: u32 where "ZMAGIC \<equiv> 267"

definition N_TXTOFF :: "exec_hdr \<Rightarrow> u32" where
  "N_TXTOFF ex = (if a_magic ex = ZMAGIC then (1024 - 32) + 32 else 32)"

definition bad_header :: "exec_hdr \<Rightarrow> m_inode \<Rightarrow> bool" where
  "bad_header ex n \<longleftrightarrow> a_magic ex \<noteq> ZMAGIC \<or> a_trsize ex \<noteq> 0 \<or> a_drsize ex \<noteq> 0 \<or>
     a_text ex + a_data ex + a_bss ex > 0x3000000 \<or>
     i_size n < a_text ex + a_data ex + a_syms ex + N_TXTOFF ex \<or> N_TXTOFF ex \<noteq> 1024"

text \<open>The execute permission, and the ids the program runs with.\<close>

definition may_exec :: "m_inode \<Rightarrow> task_struct \<Rightarrow> bool" where
  "may_exec n p =
     (let i = uint (i_mode n);
          i = (if euid p = i_uid n then drop_bit 6 i
               else if egid p = ucast (i_gid n) then drop_bit 3 i else i)
      in i AND 1 \<noteq> 0 \<or> (i_mode n AND 0x49 \<noteq> 0 \<and> suser p))"

definition exec_ids :: "m_inode \<Rightarrow> task_struct \<Rightarrow> u16 \<times> u16" where
  "exec_ids n p = (if i_mode n AND 0x800 \<noteq> 0 then i_uid n else euid p,
                   if i_mode n AND 0x400 \<noteq> 0 then ucast (i_gid n) else egid p)"

text \<open>
  The line after \<open>#!\<close>: the interpreter, its name without directories and the rest of the line.
  \<open>strncpy\<close> stops at a NUL.
\<close>

definition blank :: "u8 \<Rightarrow> bool" where
  "blank c \<longleftrightarrow> c = 32 \<or> c = 9"

definition after_slash :: "u8 list \<Rightarrow> u8 list" where
  "after_slash s = rev (takeWhile (\<lambda>c. c \<noteq> SLASH) (rev s))"

definition parse_bang :: "u8 list \<Rightarrow> (u8 list \<times> u8 list \<times> u8 list option) option" where
  "parse_bang d =
     (let buf = takeWhile (\<lambda>c. c \<noteq> 0) (take 1022 (drop 2 d))
      in if 10 \<notin> set buf then None
         else let cp = dropWhile blank (takeWhile (\<lambda>c. c \<noteq> 10) buf);
                  interp = takeWhile (\<lambda>c. \<not> blank c) cp;
                  rest = dropWhile (\<lambda>c. \<not> blank c) cp
              in if cp = [] then None
                 else Some (interp, after_slash interp, if rest = [] then None else Some (tl rest)))"

text \<open>A string in kernel memory, at an address that is not 0.\<close>

definition kstring :: "u8 list \<Rightarrow> u32 \<Rightarrow> u8" where
  "kstring s = (\<lambda>v. let j = unat (v - 1) in if j < length s then s ! j else 0)"

definition kernel_namei :: "fs_drv \<Rightarrow> u8 list \<Rightarrow> kernel \<Rightarrow> (nat option \<times> kernel) res" where
  "kernel_namei ops s k =
     kbind (namei ops 1 (k\<lparr>user := kstring s\<rparr>)) (\<lambda>(i, k'). Inr (i, k'\<lparr>user := user k\<rparr>))"

section \<open>\<open>do_execve\<close>\<close>

text \<open>The exits \<open>exec_error1\<close> and \<open>exec_error2\<close>.\<close>

fun free_args :: "nat list \<Rightarrow> (nat \<Rightarrow> u32) \<Rightarrow> mm \<Rightarrow> mm res" where
  "free_args [] page m = Inr m"
| "free_args (i # is) page m = kbind (free_page (page i) m) (free_args is page)"

definition exec_error1 :: "int \<Rightarrow> argmem \<Rightarrow> kernel \<Rightarrow> (int \<times> (u32 \<times> u32) option \<times> kernel) res" where
  "exec_error1 retval a k =
     kbind (free_args [0..<MAX_ARG_PAGES] (ap_page a) (mem k)) (\<lambda>m. Inr (retval, None, k\<lparr>mem := m\<rparr>))"

definition exec_error2 :: "fs_drv \<Rightarrow> nat \<Rightarrow> int \<Rightarrow> argmem \<Rightarrow> kernel \<Rightarrow> (int \<times> (u32 \<times> u32) option \<times> kernel) res" where
  "exec_error2 ops inode retval a k = kbind (iput ops (Some inode) k) (exec_error1 retval a)"

fun close_exec :: "fs_drv \<Rightarrow> nat list \<Rightarrow> kernel \<Rightarrow> kernel res" where
  "close_exec ops [] k = Inr k"
| "close_exec ops (i # is) k =
     kbind (if bit (close_on_exec (cur k)) i then kbind (sys_close ops i k) (\<lambda>(r, k). Inr k) else Inr k)
       (close_exec ops is)"

fun zero_bytes :: "nat \<Rightarrow> u32 \<Rightarrow> 'f kstate \<Rightarrow> 'f kstate" where
  "zero_bytes 0 i k = k"
| "zero_bytes (Suc n) i k = zero_bytes n (i + 1) (put_fs_byte 0 i k)"

text \<open>After the point of no return: what is left of the old program goes.\<close>

definition drop_program :: "fs_drv \<Rightarrow> nat \<Rightarrow> kernel \<Rightarrow> kernel res" where
  "drop_program ops inode k =
     kbind (if executable (cur k) \<noteq> None then iput ops (executable (cur k)) k else Inr k) (\<lambda>k.
     let k = upd_cur (\<lambda>t. t\<lparr>executable := Some inode,
               sigactions := (\<lambda>i. if i < 32 then (sigactions t i)\<lparr>sa_handler := 0\<rparr> else sigactions t i)\<rparr>) k
     in kbind (close_exec ops [0..<NR_OPEN] k) (\<lambda>k.
        let k = upd_cur (\<lambda>t. t\<lparr>close_on_exec := 0\<rparr>) k
        in kbind (free_page_tables (d_base (ldt_code (cur k))) (d_limit (ldt_code (cur k))) (mem k)) (\<lambda>m.
           kbind (free_page_tables (d_base (ldt_data (cur k))) (d_limit (ldt_data (cur k))) m) (\<lambda>m.
           let k = k\<lparr>mem := m\<rparr>;
               k = (if last_task_used_math (sch k) = Some (current (sch k))
                    then k\<lparr>sch := (sch k)\<lparr>last_task_used_math := None\<rparr>\<rparr> else k)
           in Inr (upd_cur (\<lambda>t. t\<lparr>used_math := False\<rparr>) k)))))"

text \<open>
  The new program; the result 0 comes with the new \<open>eip\<close> and stack pointer. The loop
  \<open>while (i&0xfff)\<close> runs up to the next page.
\<close>

definition load_program ::
    "fs_drv \<Rightarrow> (u32 \<Rightarrow> u8) \<Rightarrow> nat \<Rightarrow> exec_hdr \<Rightarrow> u16 \<times> u16 \<Rightarrow> int \<Rightarrow> int \<Rightarrow> u32 \<Rightarrow> argmem \<Rightarrow> kernel \<Rightarrow>
      (int \<times> (u32 \<times> u32) option \<times> kernel) res" where
  "load_program ops img inode ex ids argc envc p a k =
     kbind (drop_program ops inode k) (\<lambda>k.
       case change_ldt (a_text ex) a img k of (limit, k) \<Rightarrow>
         kbind (create_tables (p + (limit - 0x20000)) argc envc k) (\<lambda>(p, k).
           let k = upd_cur (\<lambda>t. t\<lparr>end_code := a_text ex, end_data := a_data ex + a_text ex,
                     brk := a_bss ex + (a_data ex + a_text ex), start_stack := p AND 0xfffff000,
                     euid := fst ids, egid := snd ids\<rparr>) k;
               i = a_text ex + a_data ex
           in Inr (0, Some (a_entry ex, p), zero_bytes (unat ((- i) AND 0xfff)) i k)))"

text \<open>From \<open>restart_interp\<close> on with an executable that is no script.\<close>

definition exec_file ::
    "fs_drv \<Rightarrow> (u32 \<Rightarrow> u8) \<Rightarrow> u32 \<Rightarrow> u32 \<Rightarrow> bool \<Rightarrow> nat \<Rightarrow> u8 list \<Rightarrow> int \<Rightarrow> int \<Rightarrow> u16 \<times> u16 \<Rightarrow>
      u32 \<times> argmem \<times> kernel \<Rightarrow> (int \<times> (u32 \<times> u32) option \<times> kernel) res" where
  "exec_file ops img argv envp sh_bang inode d argc envc ids = (\<lambda>(p, a, k).
     let ex = exec_at d
     in if bad_header ex (the_inode inode k) then exec_error2 ops inode (- ENOEXEC) a k
        else kbind (if sh_bang then Inr (p, a, k)
                    else kbind (put_strings envc (user_ptr envp k) (user k) (p, a, k))
                           (put_strings argc (user_ptr argv k) (user k))) (\<lambda>(p, a, k).
          if \<not> sh_bang \<and> p = 0 then exec_error2 ops inode (- ENOMEM) a k
          else load_program ops img inode ex ids argc envc p a k))"

text \<open>The checks at \<open>restart_interp\<close>: the inode's first block and the ids, or an error.\<close>

definition exec_open ::
    "fs_drv \<Rightarrow> nat \<Rightarrow> kernel \<Rightarrow> ((int + nat \<times> u16 \<times> u16) \<times> kernel) res" where
  "exec_open ops inode k =
     (let n = the_inode inode k
      in if \<not> S_ISREG (i_mode n) then Inr (Inl (- EACCES), k)
         else if \<not> may_exec n (cur k) then Inr (Inl (- ENOEXEC), k)
         else kbind (on_fs_val (bread ops (i_dev n) (ucast (i_zone n ! 0))) k) (\<lambda>(bh, k).
           case bh of
             None \<Rightarrow> Inr (Inl (- EACCES), k)
           | Some bh \<Rightarrow> Inr (Inr (bh, exec_ids n (cur k)), k)))"

text \<open>The arguments of a script: the environment and its arguments, then in front of them the script's
  name, the interpreter's argument and the interpreter's name.\<close>

definition splice_args ::
    "u32 \<Rightarrow> u32 \<Rightarrow> u32 \<Rightarrow> u8 list \<Rightarrow> u8 list option \<Rightarrow> int \<Rightarrow> int \<Rightarrow> u32 \<times> argmem \<times> kernel \<Rightarrow>
      (int \<times> u32 \<times> argmem \<times> kernel) res" where
  "splice_args filename argv envp i_name i_arg argc envc = (\<lambda>(p, a, k).
     kbind (put_strings envc (user_ptr envp k) (user k) (p, a, k)) (\<lambda>s.
     kbind (put_strings (argc - 1) (user_ptr (argv + 4) k) (user k) s) (\<lambda>s.
     kbind (put_strings 1 (\<lambda>_. filename) (user k) s) (\<lambda>s.
     kbind (case i_arg of None \<Rightarrow> Inr (argc, s)
            | Some arg \<Rightarrow> kbind (put_strings 1 (\<lambda>_. 1) (kstring arg) s) (\<lambda>s. Inr (argc + 1, s))) (\<lambda>(argc, s).
     kbind (put_strings 1 (\<lambda>_. 1) (kstring i_name) s) (\<lambda>s. Inr (argc + 1, s)))))))"

definition is_script :: "u8 list \<Rightarrow> bool" where
  "is_script d \<longleftrightarrow> d ! 0 = 35 \<and> d ! 1 = 33"

definition exec_script ::
    "fs_drv \<Rightarrow> (u32 \<Rightarrow> u8) \<Rightarrow> u32 \<Rightarrow> u32 \<Rightarrow> u32 \<Rightarrow> u8 list \<Rightarrow> int \<Rightarrow> int \<Rightarrow> u32 \<times> argmem \<times> kernel \<Rightarrow>
      (int \<times> (u32 \<times> u32) option \<times> kernel) res" where
  "exec_script ops img filename argv envp d argc envc = (\<lambda>(p, a, k).
     case parse_bang d of
       None \<Rightarrow> exec_error1 (- ENOEXEC) a k
     | Some (interp, i_name, i_arg) \<Rightarrow>
         kbind (splice_args filename argv envp i_name i_arg argc envc (p, a, k)) (\<lambda>(argc, p, a, k).
         if p = 0 then exec_error1 (- ENOMEM) a k
         else kbind (kernel_namei ops interp k) (\<lambda>(i, k).
           case i of
             None \<Rightarrow> exec_error1 (- ENOENT) a k
           | Some inode \<Rightarrow>
               kbind (exec_open ops inode k) (\<lambda>(r, k).
                 case r of
                   Inl e \<Rightarrow> exec_error2 ops inode e a k
                 | Inr (bh, ids) \<Rightarrow>
                     let d = b_data (the_buf bh k)
                     in kbind (on_fs (brelse bh) k) (\<lambda>k.
                          exec_file ops img argv envp True inode d argc envc ids (p, a, k))))))"

text \<open>\<open>cs\<close> is \<open>eip[1]\<close>; with the result 0 come the values for \<open>eip[0]\<close> and \<open>eip[3]\<close>.\<close>

definition do_execve ::
    "fs_drv \<Rightarrow> (u32 \<Rightarrow> u8) \<Rightarrow> u32 \<Rightarrow> u32 \<Rightarrow> u32 \<Rightarrow> u32 \<Rightarrow> kernel \<Rightarrow> (int \<times> (u32 \<times> u32) option \<times> kernel) res" where
  "do_execve ops img cs filename argv envp k =
     (if cs AND 0xffff \<noteq> 0x000f then Inl (Panic ''execve called from supervisor mode'')
      else kbind (namei ops filename k) (\<lambda>(i, k).
        case i of
          None \<Rightarrow> Inr (- ENOENT, None, k)
        | Some inode \<Rightarrow>
            kbind (count_args argv k) (\<lambda>argc.
            kbind (count_args envp k) (\<lambda>envc.
            kbind (exec_open ops inode k) (\<lambda>(r, k).
              case r of
                Inl e \<Rightarrow> exec_error2 ops inode e no_args k
              | Inr (bh, ids) \<Rightarrow>
                  let d = b_data (the_buf bh k)
                  in kbind (on_fs (brelse bh) k) (\<lambda>k.
                     if is_script d
                     then kbind (iput ops (Some inode) k) (\<lambda>k.
                       exec_script ops img filename argv envp d argc envc (0x20000 - 4, no_args, k))
                     else exec_file ops img argv envp False inode d argc envc ids
                            (0x20000 - 4, no_args, k)))))))"

end
