(* ===== verification/Exec_Facts.thy ===== *)
theory Exec_Facts
  imports Exec Open_Facts
begin

text \<open>
  Arguments on their way into a new program: \<open>copy_strings\<close> lays the strings end to end below \<open>p\<close>,
  \<open>create_tables\<close> builds the tables of pointers to them.
\<close>

section \<open>Strings\<close>

definition str_at :: "(u32 \<Rightarrow> u8) \<Rightarrow> u32 \<Rightarrow> u8 list \<Rightarrow> bool" where
  "str_at byte a s \<longleftrightarrow> 0 \<notin> set s \<and> (\<forall>j \<le> length s. byte (a + of_nat j) = (s @ [0]) ! j)"

lemma str_at_Nil: "str_at byte a [] \<longleftrightarrow> byte a = 0"
  by (simp add: str_at_def)

lemma all_le_Suc: "(\<forall>j \<le> Suc n. P j) \<longleftrightarrow> P 0 \<and> (\<forall>j \<le> n. P (Suc j))"
  using All_less_Suc2 [of "Suc n" P] by (simp only: less_Suc_eq_le)

lemma str_at_Cons: "str_at byte a (c # s) \<longleftrightarrow> byte a = c \<and> c \<noteq> 0 \<and> str_at byte (a + 1) s"
proof -
  have at: "a + of_nat (Suc j) = a + 1 + of_nat j" for j by simp
  show ?thesis unfolding str_at_def list.size add_0_right add_Suc_right all_le_Suc at by (auto simp del: of_nat_Suc)
qed

lemma arg_len_str: "str_at byte a s \<Longrightarrow> arg_len byte a n = Some (n + Suc (length s))"
  by (induction s arbitrary: a n) (auto simp: str_at_Nil str_at_Cons arg_len.simps)

lemma str_at_bytes: "str_at byte a s \<Longrightarrow> map (\<lambda>j. byte (a + of_nat j)) [0..<Suc (length s)] = s @ [0]"
  by (rule nth_equalityI) (auto simp: str_at_def simp del: upt_Suc)

section \<open>Copying bytes\<close>

definition loaded :: "u32 \<Rightarrow> int \<Rightarrow> nat \<Rightarrow> argmem \<Rightarrow> bool" where
  "loaded p offset pg a \<longleftrightarrow> offset = 0 \<or>
     offset = int (unat p mod 4096) \<and> pg = unat p div 4096 \<and> ap_page a pg \<noteq> 0"

text \<open>The bytes from \<open>p\<close> up to \<open>hi\<close> lie in pages.\<close>

definition written :: "argmem \<Rightarrow> nat \<Rightarrow> nat \<Rightarrow> bool" where
  "written a p hi \<longleftrightarrow> (\<forall>q. p \<le> q \<and> q < hi \<longrightarrow> ap_page a (q div 4096) \<noteq> 0)"

definition content :: "argmem \<Rightarrow> nat \<Rightarrow> nat \<Rightarrow> u8 list" where
  "content a p hi = map (ap_bytes a) [p..<hi]"

lemma unat_pred: "0 < unat (p :: u32) \<Longrightarrow> unat (p - 1) = unat p - 1"
  by (metis unat_gt_0 unat_minus_one)

lemma copy_step:
  assumes "loaded p offset pg a" "0 < unat p" "unat p \<le> 0x20000" "written a (unat p) hi" "unat p \<le> hi"
  obtains (none) m' where "copy_bytes byte (Suc len) tmp p offset pg a m = Inr (None, a, m')"
  | (put) offset' pg' a' m' where
      "copy_bytes byte (Suc len) tmp p offset pg a m = copy_bytes byte len (tmp - 1) (p - 1) offset' pg' a' m'"
      "loaded (p - 1) offset' pg' a'" "written a' (unat p - 1) hi"
      "content a' (unat p - 1) hi = byte (tmp - 1) # content a (unat p) hi"
proof -
  define q where "q = unat p - 1"
  have q: "unat (p - 1) = q" "unat p = Suc q" using assms(2) by (simp_all add: q_def unat_pred)
  have q32: "q div 4096 < 32" using assms(3) q by simp
  let ?fresh = "offset - 1 < 0"
  let ?off = "if ?fresh then int (q mod 4096) else offset - 1"
  let ?pg = "if ?fresh then q div 4096 else pg"
  have place: "?off = int (q mod 4096) \<and> ?pg = q div 4096 \<and> (\<not> ?fresh \<longrightarrow> ap_page a (q div 4096) \<noteq> 0)"
  proof (cases ?fresh)
    case False
    then have o: "offset = int (Suc q mod 4096)" "pg = Suc q div 4096" "ap_page a pg \<noteq> 0"
      using assms(1) q by (auto simp: loaded_def)
    then have "Suc q mod 4096 \<noteq> 0" using False by simp
    then have "Suc q mod 4096 = Suc (q mod 4096)" "Suc q div 4096 = q div 4096"
      by (auto simp: mod_Suc div_Suc split: if_splits)
    then show ?thesis using o False by simp
  qed simp
  have at: "4096 * (q div 4096) + nat (int (q mod 4096)) = q" by simp
  have content: "content a' q hi = byte (tmp - 1) # content a (Suc q) hi" "written a' q hi"
    if "ap_bytes a' q = byte (tmp - 1)" "ap_page a' (q div 4096) \<noteq> 0"
      "\<And>r. q < r \<Longrightarrow> r < hi \<Longrightarrow> ap_bytes a' r = ap_bytes a r \<and> ap_page a' (r div 4096) \<noteq> 0" for a'
    using that assms(5) q by (auto simp: content_def written_def upt_conv_Cons le_less)
  have step: "copy_bytes byte (Suc len) tmp p offset pg a m =
      (if ap_page a (q div 4096) = 0
       then case get_free_page m of (page, m) \<Rightarrow>
         if page = 0 then Inr (None, a, m)
         else copy_bytes byte len (tmp - 1) (p - 1) (int (q mod 4096)) (q div 4096)
                (a\<lparr>ap_page := (ap_page a)(q div 4096 := page),
                   ap_bytes := (\<lambda>r. if r = q then byte (tmp - 1)
                                    else if r div 4096 = q div 4096 then 0 else ap_bytes a r)\<rparr>) m
       else copy_bytes byte len (tmp - 1) (p - 1) (int (q mod 4096)) (q div 4096)
              (a\<lparr>ap_bytes := (ap_bytes a)(q := byte (tmp - 1))\<rparr>) m)"
  proof -
    have o: "?off = int (q mod 4096)" and g: "?pg = q div 4096"
      and f: "\<not> ?fresh \<longrightarrow> ap_page a (q div 4096) \<noteq> 0" using place by blast+
    show ?thesis
      unfolding copy_bytes.simps Let_def q(1) o g at using f q32 by (cases ?fresh) auto
  qed
  have old: "ap_page a (r div 4096) \<noteq> 0" if "q < r" "r < hi" for r
    using assms(4) that q by (simp add: written_def)
  show thesis
  proof (cases "ap_page a (q div 4096) = 0")
    case True
    obtain page m' where g: "get_free_page m = (page, m')" by (cases "get_free_page m")
    show thesis
    proof (cases "page = 0")
      case True
      show thesis by (rule none [of m']) (use step \<open>ap_page a (q div 4096) = 0\<close> g True in simp)
    next
      case False
      define a' where "a' = a\<lparr>ap_page := (ap_page a)(q div 4096 := page),
        ap_bytes := (\<lambda>r. if r = q then byte (tmp - 1) else if r div 4096 = q div 4096 then 0 else ap_bytes a r)\<rparr>"
      have far: "r div 4096 \<noteq> q div 4096" if "q < r" "r < hi" for r using old [OF that] True by metis
      have "copy_bytes byte (Suc len) tmp p offset pg a m =
          copy_bytes byte len (tmp - 1) (p - 1) (int (q mod 4096)) (q div 4096) a' m'"
        using step True False by (simp add: g a'_def)
      moreover have "loaded (p - 1) (int (q mod 4096)) (q div 4096) a'"
        using False by (simp add: loaded_def q(1) a'_def)
      moreover have "content a' q hi = byte (tmp - 1) # content a (Suc q) hi" "written a' q hi"
        by (rule content; use False far old in \<open>simp add: a'_def\<close>)+
      ultimately show thesis using put unfolding q(2) by simp
    qed
  next
    case False
    define a' where "a' = a\<lparr>ap_bytes := (ap_bytes a)(q := byte (tmp - 1))\<rparr>"
    have "copy_bytes byte (Suc len) tmp p offset pg a m =
        copy_bytes byte len (tmp - 1) (p - 1) (int (q mod 4096)) (q div 4096) a' m"
      using step False by (simp only: a'_def if_False)
    moreover have "loaded (p - 1) (int (q mod 4096)) (q div 4096) a'"
      using False by (simp add: loaded_def q(1) a'_def)
    moreover have "content a' q hi = byte (tmp - 1) # content a (Suc q) hi" "written a' q hi"
      by (rule content; use False old in \<open>simp add: a'_def\<close>)+
    ultimately show thesis using put unfolding q(2) by simp
  qed
qed

lemma copy_bytes_lays_out:
  assumes "loaded p offset pg a" "n \<le> unat p" "unat p \<le> 0x20000" "written a (unat p) hi" "unat p \<le> hi"
  shows "\<exists>r a' m'. copy_bytes byte n tmp p offset pg a m = Inr (r, a', m') \<and>
    (r = None \<or> (\<exists>p' offset' pg'. r = Some (p', offset', pg') \<and> unat p' = unat p - n \<and> loaded p' offset' pg' a' \<and>
       written a' (unat p') hi \<and>
       content a' (unat p') hi = map (\<lambda>j. byte (tmp - of_nat n + of_nat j)) [0..<n] @ content a (unat p) hi))"
  using assms
proof (induction n arbitrary: tmp p offset pg a m)
  case (Suc n)
  have pos: "0 < unat p" using Suc.prems(2) by simp
  show ?case
  proof (rule copy_step [OF Suc.prems(1) pos Suc.prems(3,4,5), of byte n tmp m])
    fix offset' pg' a1 m1
    assume put: "copy_bytes byte (Suc n) tmp p offset pg a m = copy_bytes byte n (tmp - 1) (p - 1) offset' pg' a1 m1"
      "loaded (p - 1) offset' pg' a1" "written a1 (unat p - 1) hi"
      "content a1 (unat p - 1) hi = byte (tmp - 1) # content a (unat p) hi"
    have "n \<le> unat (p - 1)" "unat (p - 1) \<le> 0x20000" "unat (p - 1) \<le> hi" "written a1 (unat (p - 1)) hi"
      using Suc.prems(2,3,5) put(3) by (simp_all add: unat_pred [OF pos])
    from Suc.IH [OF put(2) this(1,2,4,3), of "tmp - 1" m1]
    obtain r a' m' where r: "copy_bytes byte n (tmp - 1) (p - 1) offset' pg' a1 m1 = Inr (r, a', m')"
      "r = None \<or> (\<exists>p' offset' pg'. r = Some (p', offset', pg') \<and> unat p' = unat (p - 1) - n \<and> loaded p' offset' pg' a' \<and>
       written a' (unat p') hi \<and>
       content a' (unat p') hi = map (\<lambda>j. byte (tmp - 1 - of_nat n + of_nat j)) [0..<n] @ content a1 (unat (p - 1)) hi)"
      by blast
    moreover have "map (\<lambda>j. byte (tmp - 1 - of_nat n + of_nat j)) [0..<n] @ byte (tmp - 1) # c =
        map (\<lambda>j. byte (tmp - of_nat (Suc n) + of_nat j)) [0..<Suc n] @ c" for c
      by (simp add: algebra_simps)
    ultimately show ?thesis
      unfolding put(1) using put(4) by (intro exI [of _ r] exI [of _ a'] exI [of _ m']) (auto simp: unat_pred [OF pos])
  qed blast
qed simp

section \<open>Copying the strings\<close>

definition space :: "u8 list list \<Rightarrow> nat" where
  "space ss = length (concat (map (\<lambda>s. s @ [0]) ss))"

lemma space_simps [simp]: "space [] = 0" "space (s # ss) = Suc (length s) + space ss" "space (xs @ ys) = space xs + space ys"
  by (simp_all add: space_def)

lemma length_le_space: "length ss \<le> space ss"
  by (induction ss) auto

lemma copy_args_lays_out:
  assumes "\<forall>j < length ss. ptr j \<noteq> 0 \<and> str_at byte (ptr j) (ss ! j)"
    and "loaded p offset pg a" "space ss \<le> unat p" "unat p \<le> 0x20000" "written a (unat p) hi" "unat p \<le> hi"
  shows "\<exists>p' a' m'. copy_args (length ss) ptr byte p offset pg a m = Inr (p', a', m') \<and>
    (p' = 0 \<or> unat p' = unat p - space ss \<and> written a' (unat p') hi \<and>
       content a' (unat p') hi = concat (map (\<lambda>s. s @ [0]) ss) @ content a (unat p) hi)"
  using assms
proof (induction ss arbitrary: p offset pg a m rule: rev_induct)
  case (snoc s ss)
  let ?n = "Suc (length s)"
  let ?tmp = "ptr (length ss) + of_nat ?n"
  have s: "ptr (length ss) \<noteq> 0" "str_at byte (ptr (length ss)) s"
    using snoc.prems(1) by (auto dest: spec [of _ "length ss"])
  have ss: "\<forall>j < length ss. ptr j \<noteq> 0 \<and> str_at byte (ptr j) (ss ! j)"
    using snoc.prems(1) by (auto simp: nth_append less_Suc_eq)
  have n: "?n \<le> unat p" "space ss \<le> unat p - ?n" using snoc.prems(3) by simp_all
  have bytes: "map (\<lambda>j. byte (?tmp - of_nat ?n + of_nat j)) [0..<?n] = s @ [0]"
    using str_at_bytes [OF s(2)] by simp
  obtain r a1 m1 where c: "copy_bytes byte ?n ?tmp p offset pg a m = Inr (r, a1, m1)"
    "r = None \<or> (\<exists>p' offset' pg'. r = Some (p', offset', pg') \<and> unat p' = unat p - ?n \<and> loaded p' offset' pg' a1 \<and>
       written a1 (unat p') hi \<and> content a1 (unat p') hi = (s @ [0]) @ content a (unat p) hi)"
    using copy_bytes_lays_out [OF snoc.prems(2) n(1) snoc.prems(4-6), of byte ?tmp m] unfolding bytes by blast
  have step: "copy_args (length (ss @ [s])) ptr byte p offset pg a m =
      (case r of None \<Rightarrow> Inr (0, a1, m1) | Some (p, offset, pg) \<Rightarrow> copy_args (length ss) ptr byte p offset pg a1 m1)"
    using s c(1) by (simp add: arg_len_str loops_def)
  from c(2) show ?case
  proof (elim disjE exE conjE)
    fix p1 offset1 pg1
    assume r: "r = Some (p1, offset1, pg1)" "unat p1 = unat p - ?n" "loaded p1 offset1 pg1 a1" "written a1 (unat p1) hi"
      "content a1 (unat p1) hi = (s @ [0]) @ content a (unat p) hi"
    have "space ss \<le> unat p1" "unat p1 \<le> 0x20000" "unat p1 \<le> hi" using n snoc.prems(4,6) by (simp_all add: r(2))
    from snoc.IH [OF ss r(3) this(1,2) r(4) this(3), of m1] show ?thesis
      unfolding step r(1) using r(2,5) by (auto simp: algebra_simps)
  next
    assume "r = None"
    then show ?thesis unfolding step by simp
  qed
qed simp

text \<open>
  \<open>copy_strings\<close> answers 0 when there is no page left, or it has laid the strings end to end, each
  with its NUL and in their order, just below \<open>p\<close>, and answers where the first one starts.
\<close>

lemma copy_strings_lays_out:
  assumes "\<forall>j < length ss. ptr j \<noteq> 0 \<and> str_at byte (ptr j) (ss ! j)"
    and "space ss \<le> unat p" "unat p \<le> 0x20000" "written a (unat p) hi" "unat p \<le> hi"
  shows "\<exists>p' a' m'. copy_strings (int (length ss)) ptr byte a p m = Inr (p', a', m') \<and>
    (p' = 0 \<or> unat p' = unat p - space ss \<and> written a' (unat p') hi \<and>
       content a' (unat p') hi = concat (map (\<lambda>s. s @ [0]) ss) @ content a (unat p) hi)"
  using copy_args_lays_out [OF assms(1) _ assms(2-), of 0 0 m] by (simp add: copy_strings_def loaded_def)

section \<open>Longs in user memory\<close>

abbreviation "long_apart a b \<equiv> unat (a :: u32) + 4 \<le> unat (b :: u32) \<or> unat b + 4 \<le> unat a"

lemma user_put_fs_long:
  "user (put_fs_long v a k) = (user k)(a := ucast v, a + 1 := ucast (drop_bit 8 v),
     a + 2 := ucast (drop_bit 16 v), a + 3 := ucast (drop_bit 24 v))"
  by (simp add: put_fs_long_def put_fs_byte_def)

lemma user_put_fs_long_far:
  assumes "unat a + 4 \<le> 2 ^ 32" "unat x < unat a \<or> unat a + 4 \<le> unat x"
  shows "user (put_fs_long v a k) x = user k x"
proof -
  have "unat (a + 1) = unat a + 1" "unat (a + 2) = unat a + 2" "unat (a + 3) = unat a + 3"
    using assms(1) by (simp_all add: unat_add_one unat_add_numeral)
  then have "x \<noteq> a" "x \<noteq> a + 1" "x \<noteq> a + 2" "x \<noteq> a + 3" using assms(2) by auto
  then show ?thesis by (simp add: user_put_fs_long)
qed

lemma get_put_fs_long [simp]: "get_fs_long a (put_fs_long v a k) = v"
  by (simp add: get_fs_long_def user_put_fs_long)

lemma get_fs_long_cong:
  assumes "unat a + 4 \<le> 2 ^ 32" "\<And>x. unat a \<le> unat x \<Longrightarrow> unat x < unat a + 4 \<Longrightarrow> user k' x = user k x"
  shows "get_fs_long a k' = get_fs_long a k"
proof -
  have "unat (a + 1) = unat a + 1" "unat (a + 2) = unat a + 2" "unat (a + 3) = unat a + 3"
    using assms(1) by (simp_all add: unat_add_one unat_add_numeral)
  then show ?thesis using assms(2) [of a] assms(2) [of "a + 1"] assms(2) [of "a + 2"] assms(2) [of "a + 3"]
    by (simp add: get_fs_long_def)
qed

lemma get_put_fs_long_apart:
  assumes "unat a + 4 \<le> 2 ^ 32" "unat b + 4 \<le> 2 ^ 32" "long_apart a b"
  shows "get_fs_long b (put_fs_long v a k) = get_fs_long b k"
  by (rule get_fs_long_cong [OF assms(2)], rule user_put_fs_long_far) (use assms in auto)

section \<open>Pointer tables\<close>

fun strings_at :: "(u32 \<Rightarrow> u8) \<Rightarrow> u32 \<Rightarrow> u8 list list \<Rightarrow> bool" where
  "strings_at byte p [] = True"
| "strings_at byte p (s # ss) = (str_at byte p s \<and> strings_at byte (p + of_nat (Suc (length s))) ss)"

fun table :: "'f kstate \<Rightarrow> u32 \<Rightarrow> u32 \<Rightarrow> u8 list list \<Rightarrow> bool" where
  "table k a p [] = (get_fs_long a k = 0)"
| "table k a p (s # ss) = (get_fs_long a k = p \<and> table k (a + 4) (p + of_nat (Suc (length s))) ss)"

text \<open>A NULL-terminated vector of pointers to strings, as \<open>main\<close> gets it.\<close>

definition vector :: "'f kstate \<Rightarrow> u32 \<Rightarrow> u8 list list \<Rightarrow> bool" where
  "vector k a ss \<longleftrightarrow> (\<forall>i < length ss. str_at (user k) (get_fs_long (a + 4 * of_nat i) k) (ss ! i)) \<and>
     get_fs_long (a + 4 * of_nat (length ss)) k = 0"

lemma table_vector: "table k a p ss \<Longrightarrow> strings_at (user k) p ss \<Longrightarrow> vector k a ss"
proof (induction ss arbitrary: a p)
  case (Cons s ss)
  then have "vector k (a + 4) ss" "str_at (user k) (get_fs_long a k) s" by auto
  then show ?case by (auto simp: vector_def less_Suc_eq_0_disj algebra_simps)
qed (simp add: vector_def)

lemma str_at_cong:
  assumes "unat a + length s < 2 ^ 32" "\<And>x. unat a \<le> unat x \<Longrightarrow> unat x \<le> unat a + length s \<Longrightarrow> byte' x = byte x"
  shows "str_at byte' a s = str_at byte a s"
proof -
  have "unat (a + of_nat j) = unat a + j" if "j \<le> length s" for j using that assms(1) by (intro unat_add_small) simp
  then have "byte' (a + of_nat j) = byte (a + of_nat j)" if "j \<le> length s" for j using that by (intro assms(2)) simp_all
  then show ?thesis by (simp add: str_at_def)
qed

lemma strings_at_cong:
  assumes "unat p + space ss < 2 ^ 32" "\<And>x. unat p \<le> unat x \<Longrightarrow> byte' x = byte x"
  shows "strings_at byte' p ss = strings_at byte p ss"
  using assms
proof (induction ss arbitrary: p)
  case (Cons s ss)
  have u: "unat (p + of_nat (Suc (length s))) = unat p + Suc (length s)"
    using Cons.prems(1) by (intro unat_add_small) simp
  have "strings_at byte' (p + of_nat (Suc (length s))) ss = strings_at byte (p + of_nat (Suc (length s))) ss"
    using Cons.prems by (intro Cons.IH) (simp_all only: u, simp_all)
  moreover have "str_at byte' p s = str_at byte p s" using Cons.prems by (intro str_at_cong) simp_all
  ultimately show ?case by simp
qed simp

lemma table_cong:
  assumes "unat a + 4 * Suc (length ss) \<le> 2 ^ 32"
    and "\<And>x. unat a \<le> unat x \<Longrightarrow> unat x < unat a + 4 * Suc (length ss) \<Longrightarrow> user k' x = user k x"
  shows "table k' a p ss = table k a p ss"
  using assms
proof (induction ss arbitrary: a p)
  case (Cons s ss)
  have u: "unat (a + 4) = unat a + 4" using Cons.prems(1) by (intro unat_add_numeral) simp
  have "table k' (a + 4) q ss = table k (a + 4) q ss" for q
    using Cons.prems by (intro Cons.IH) (simp_all add: u)
  moreover have "get_fs_long a k' = get_fs_long a k" using Cons.prems by (intro get_fs_long_cong) simp_all
  ultimately show ?case by simp
next
  case Nil
  then have "get_fs_long a k' = get_fs_long a k" by (intro get_fs_long_cong) simp_all
  then show ?case by simp
qed

text \<open>Two user memories with the same bytes outside \<open>[lo, hi)\<close>.\<close>

definition outside :: "nat \<Rightarrow> nat \<Rightarrow> 'f kstate \<Rightarrow> 'f kstate \<Rightarrow> bool" where
  "outside lo hi k k' \<longleftrightarrow> (\<forall>x. unat x < lo \<or> hi \<le> unat x \<longrightarrow> user k' x = user k x)"

lemma fill_table_builds:
  assumes "strings_at (user k) p ss" "unat a + 4 * Suc (length ss) \<le> unat p" "unat p + space ss < 2 ^ 32"
  shows "\<exists>k'. fill_table (length ss) p a k = Inr (p + of_nat (space ss), k') \<and> table k' a p ss \<and>
    outside (unat a) (unat a + 4 * Suc (length ss)) k k'"
  using assms
proof (induction ss arbitrary: p a k)
  case Nil
  then show ?case by (auto simp: outside_def intro!: user_put_fs_long_far)
next
  case (Cons s ss)
  let ?k = "put_fs_long p a k" and ?p = "p + of_nat (Suc (length s))"
  have a: "unat (a + 4) = unat a + 4" using Cons.prems(2) by (intro unat_add_numeral) (use u32_lt [of p] in simp)
  have p: "unat ?p = unat p + Suc (length s)" using Cons.prems(3) by (intro unat_add_small) simp
  have far: "user ?k x = user k x" if "unat x < unat a \<or> unat a + 4 \<le> unat x" for x
    using that Cons.prems(2) by (intro user_put_fs_long_far) (use u32_lt [of p] in simp_all)
  have same: "strings_at (user ?k) p (s # ss)"
    using Cons.prems strings_at_cong [of p "s # ss" "user ?k" "user k"] far by simp
  have "\<exists>k'. fill_table (length ss) ?p (a + 4) ?k = Inr (?p + of_nat (space ss), k') \<and> table k' (a + 4) ?p ss \<and>
      outside (unat (a + 4)) (unat (a + 4) + 4 * Suc (length ss)) ?k k'"
    using same Cons.prems(2,3) by (intro Cons.IH) (simp_all only: p a, simp_all)
  then obtain k' where k': "fill_table (length ss) ?p (a + 4) ?k = Inr (?p + of_nat (space ss), k')"
    "table k' (a + 4) ?p ss" "outside (unat a + 4) (unat a + 4 + 4 * Suc (length ss)) ?k k'"
    unfolding a by blast
  have "get_fs_long a k' = get_fs_long a ?k"
    using k'(3) Cons.prems(2) by (intro get_fs_long_cong) (use u32_lt [of p] in \<open>simp_all add: outside_def\<close>)
  moreover have "outside (unat a) (unat a + 4 * Suc (length (s # ss))) k k'"
    using k'(3) far by (auto simp: outside_def)
  moreover have "fill_table (length (s # ss)) p a k = Inr (p + of_nat (space (s # ss)), k')"
    using k'(1) arg_len_str [of "user ?k" p s 0] same by (simp add: loops_def algebra_simps)
  ultimately show ?case using k'(2) by auto
qed

lemma strings_at_append:
  "strings_at byte p (xs @ ys) \<longleftrightarrow> strings_at byte p xs \<and> strings_at byte (p + of_nat (space xs)) ys"
  by (induction xs arbitrary: p) (auto simp: algebra_simps)

section \<open>The first stack frame\<close>

text \<open>The frame at \<open>sp\<close> with the strings from \<open>p\<close> on, and what lies where.\<close>

definition stack_frame :: "'f kstate \<Rightarrow> u32 \<Rightarrow> u32 \<Rightarrow> u8 list list \<Rightarrow> u8 list list \<Rightarrow> bool" where
  "stack_frame k sp p args envs \<longleftrightarrow>
     (\<exists>argv envp. get_fs_long sp k = of_nat (length args) \<and> get_fs_long (sp + 4) k = argv \<and> get_fs_long (sp + 8) k = envp \<and>
        table k argv p args \<and> table k envp (p + of_nat (space args)) envs \<and> strings_at (user k) p (args @ envs) \<and>
        unat sp + 12 \<le> unat argv \<and> unat argv + 4 * Suc (length args) \<le> unat envp \<and>
        unat envp + 4 * Suc (length envs) \<le> unat p \<and> unat p + space (args @ envs) < 2 ^ 32)"

lemma stack_frame_cong:
  assumes "stack_frame k sp p args envs" "\<And>x. unat sp \<le> unat x \<Longrightarrow> user k' x = user k x"
  shows "stack_frame k' sp p args envs"
proof -
  obtain argv envp where f: "get_fs_long sp k = of_nat (length args)" "get_fs_long (sp + 4) k = argv"
    "get_fs_long (sp + 8) k = envp" "table k argv p args" "table k envp (p + of_nat (space args)) envs"
    "strings_at (user k) p (args @ envs)" and b: "unat sp + 12 \<le> unat argv"
    "unat argv + 4 * Suc (length args) \<le> unat envp" "unat envp + 4 * Suc (length envs) \<le> unat p"
    "unat p + space (args @ envs) < 2 ^ 32"
    using assms(1) unfolding stack_frame_def by blast
  have p: "unat p < 2 ^ 32" using b(4) by simp
  have u: "unat (sp + 4) = unat sp + 4" "unat (sp + 8) = unat sp + 8"
    using b p by (intro unat_add_numeral, simp)+
  have "get_fs_long a k' = get_fs_long a k" if "unat sp \<le> unat a" "unat a \<le> unat sp + 8" for a
    using that b p by (intro get_fs_long_cong assms(2)) simp_all
  from this [of sp] this [of "sp + 4"] this [of "sp + 8"]
  have g: "get_fs_long sp k' = of_nat (length args)" "get_fs_long (sp + 4) k' = argv" "get_fs_long (sp + 8) k' = envp"
    by (simp_all add: u f(1-3))
  have "table k' argv p args" "table k' envp (p + of_nat (space args)) envs"
    using f(4,5) b p assms(2) table_cong [of argv args k' k p] table_cong [of envp envs k' k "p + of_nat (space args)"]
    by simp_all
  moreover have "strings_at (user k') p (args @ envs)"
    using f(6) b p assms(2) strings_at_cong [of p "args @ envs" "user k'" "user k"] by simp
  ultimately show ?thesis unfolding stack_frame_def using g b by blast
qed

lemma stack_frame_main:
  assumes "stack_frame k sp p args envs"
  shows "get_fs_long sp k = of_nat (length args) \<and> vector k (get_fs_long (sp + 4) k) args \<and>
    vector k (get_fs_long (sp + 8) k) envs"
  using assms by (auto simp: stack_frame_def strings_at_append intro: table_vector)

lemma unat_align: "unat (0xfffffffc AND p :: u32) = 4 * (unat p div 4)"
proof -
  have "0xfffffffc AND p = push_bit 2 (drop_bit 2 p)"
  proof (rule bit_word_eqI)
    fix n assume "n < LENGTH(32)"
    have "(0xfffffffc :: u32) = NOT (mask 2)" by (simp add: mask_eq_exp_minus_1 not_eq_complement)
    moreover have "Suc (Suc (n - 2)) = n" if "2 \<le> n" using that by simp
    ultimately show "bit (0xfffffffc AND p) n = bit (push_bit 2 (drop_bit 2 p)) n" using \<open>n < LENGTH(32)\<close>
      by (auto simp only: bit_and_iff bit_not_iff bit_mask_iff bit_push_bit_iff bit_drop_bit_eq) auto
  qed
  also have "unat \<dots> = 4 * (unat p div 4)"
    using u32_lt [of p] by (simp add: unat_word_ariths push_bit_eq_mult unat_drop_bit_eq drop_bit_eq_div)
  finally show ?thesis .
qed

lemma create_tables_frame:
  assumes s: "strings_at (user k) p (args @ envs)"
    and room: "4 * (length args + length envs + 6) \<le> unat p" "unat p + space (args @ envs) < 2 ^ 32"
  shows "\<exists>sp k'. create_tables p (int (length args)) (int (length envs)) k = Inr (sp, k') \<and>
    stack_frame k' sp p args envs \<and> unat p \<le> unat sp + 4 * (length args + length envs + 6)"
proof -
  define q where "q = 0xfffffffc AND p"
  define envp where "envp = q - of_nat (4 * (length envs + 1))"
  define argv where "argv = envp - of_nat (4 * (length args + 1))"
  have q: "unat q \<le> unat p" "unat p < unat q + 4" unfolding q_def unat_align by simp_all
  have e: "unat envp = unat q - 4 * (length envs + 1)" unfolding envp_def using room(1) q by (intro unat_sub_small) simp
  have a: "unat argv = unat q - 4 * (length args + length envs + 2)"
    unfolding argv_def using room(1) q by (subst unat_sub_small) (simp_all only: e, simp_all)
  have a12: "unat (argv - 4) = unat argv - 4" "unat (argv - 8) = unat argv - 8" "unat (argv - 12) = unat argv - 12"
    using unat_sub_small [of 4 argv] unat_sub_small [of 8 argv] unat_sub_small [of 12 argv] a q room(1) by simp_all
  have b: "12 \<le> unat argv" "unat argv + 4 * Suc (length args) = unat envp" "unat envp + 4 * Suc (length envs) = unat q"
    using a e q room(1) by simp_all
  define k1 where "k1 = put_fs_long envp (argv - 4) k"
  define k2 where "k2 = put_fs_long argv (argv - 8) k1"
  define k3 where "k3 = put_fs_long (of_nat (length args)) (argv - 12) k2"
  have far: "user k3 x = user k x" if "unat argv \<le> unat x" for x
  proof -
    have "user (put_fs_long v y s) x = user s x" if "y \<in> {argv - 4, argv - 8, argv - 12}" for v y and s :: "'a kstate"
      by (intro user_put_fs_long_far disjI2) (use that \<open>unat argv \<le> unat x\<close> b u32_lt [of argv] in \<open>auto simp: a12\<close>)
    then show ?thesis by (simp add: k1_def k2_def k3_def)
  qed
  have s3: "strings_at (user k3) p (args @ envs)"
    using s room far b q strings_at_cong [of p "args @ envs" "user k3" "user k"] by simp
  have fit: "unat argv + 4 * Suc (length args) \<le> unat p" "unat p + space args < 2 ^ 32" using b q room(2) by simp_all
  obtain k4 where k4: "fill_table (length args) p argv k3 = Inr (p + of_nat (space args), k4)" "table k4 argv p args"
    "outside (unat argv) (unat envp) k3 k4"
    using fill_table_builds [OF _ fit, of k3] s3 b(2) by (auto simp: strings_at_append)
  have s4: "strings_at (user k4) p (args @ envs)"
    using s3 room k4(3) b q strings_at_cong [of p "args @ envs" "user k4" "user k3"] by (simp add: outside_def)
  let ?p = "p + of_nat (space args)"
  have p: "unat ?p = unat p + space args" using room(2) by (intro unat_add_small) simp
  have fit: "unat envp + 4 * Suc (length envs) \<le> unat ?p" "unat ?p + space envs < 2 ^ 32" using b q room(2) p by simp_all
  obtain k5 where k5: "fill_table (length envs) ?p envp k4 = Inr (?p + of_nat (space envs), k5)" "table k5 envp ?p envs"
    "outside (unat envp) (unat q) k4 k5"
    using fill_table_builds [OF _ fit, of k4] s4 b(3) by (auto simp: strings_at_append)
  have low: "user k5 x = user k3 x" if "unat x < unat argv" for x
    using that k4(3) k5(3) b by (simp add: outside_def)
  have lows: "get_fs_long x k5 = get_fs_long x k3" if "unat x + 4 \<le> unat argv" for x
    using that low u32_lt [of argv] by (intro get_fs_long_cong) simp_all
  have "get_fs_long (argv - 12) k3 = of_nat (length args)" "get_fs_long (argv - 8) k3 = argv" "get_fs_long (argv - 4) k3 = envp"
  proof -
    have apart: "get_fs_long y (put_fs_long v x s) = get_fs_long y s"
      if "(x, y) \<in> {(argv - 12, argv - 8), (argv - 12, argv - 4), (argv - 8, argv - 4)}" for v x y and s :: "'a kstate"
      by (intro get_put_fs_long_apart disjI1) (use that b u32_lt [of argv] in \<open>auto simp: a12\<close>)
    show "get_fs_long (argv - 12) k3 = of_nat (length args)" "get_fs_long (argv - 8) k3 = argv"
      "get_fs_long (argv - 4) k3 = envp"
      by (simp_all add: k1_def k2_def k3_def apart)
  qed
  then have g: "get_fs_long (argv - 12) k5 = of_nat (length args)" "get_fs_long (argv - 8) k5 = argv"
    "get_fs_long (argv - 4) k5 = envp"
    using b by (simp_all add: lows a12)
  have t5: "table k5 argv p args"
    using k4(2) k5(3) b u32_lt [of envp] table_cong [of argv args k5 k4 p] by (simp add: outside_def)
  have s5: "strings_at (user k5) p (args @ envs)"
    using s4 room k5(3) b q strings_at_cong [of p "args @ envs" "user k5" "user k4"] by (simp add: outside_def)
  have "stack_frame k5 (argv - 12) p args envs"
    unfolding stack_frame_def using g t5 k5(2) s5 b q room(2) by (auto simp: a12)
  moreover have "create_tables p (int (length args)) (int (length envs)) k = Inr (argv - 12, k5)"
  proof -
    have "q - 4 * (word_of_int (int (length envs)) + 1) = envp" by (simp add: envp_def algebra_simps)
    moreover have "envp - 4 * (word_of_int (int (length args)) + 1) = argv" by (simp add: argv_def algebra_simps)
    ultimately show ?thesis using k4(1) k5(1)
      unfolding create_tables_def Let_def q_def [symmetric] by (simp add: k1_def k2_def k3_def)
  qed
  moreover have "unat p \<le> unat (argv - 12) + 4 * (length args + length envs + 6)" using a12 a q room(1) by simp
  ultimately show ?thesis by blast
qed

section \<open>From the caller's arguments to the program's\<close>

definition seg_top :: "u32 \<Rightarrow> u32" where
  "seg_top p = p + (0x4000000 - 0x20000)"

lemma unat_seg_top: "unat p \<le> 0x20000 \<Longrightarrow> unat (seg_top p) = unat p + 0x3fe0000"
  using unat_add_small [of p "0x3fe0000"] by (simp add: seg_top_def)

lemma strings_at_concat:
  assumes "\<forall>s \<in> set ss. 0 \<notin> set s" "\<forall>j < space ss. byte (p + of_nat j) = concat (map (\<lambda>s. s @ [0]) ss) ! j"
  shows "strings_at byte p ss"
  using assms
proof (induction ss arbitrary: p)
  case (Cons s ss)
  let ?c = "concat (map (\<lambda>s. s @ [0]) (s # ss))"
  have "byte (p + of_nat j) = (s @ [0]) ! j" if "j \<le> length s" for j
    using Cons.prems(2) that by (auto simp: nth_append dest!: spec [of _ j])
  then have "str_at byte p s" using Cons.prems(1) by (simp add: str_at_def)
  moreover have "byte (p + of_nat (Suc (length s)) + of_nat j) = concat (map (\<lambda>s. s @ [0]) ss) ! j" if "j < space ss" for j
  proof -
    have "byte (p + of_nat (Suc (length s) + j)) = ?c ! (Suc (length s) + j)"
      using Cons.prems(2) that by (metis add_less_cancel_left space_simps(2))
    also have "?c ! (Suc (length s) + j) = concat (map (\<lambda>s. s @ [0]) ss) ! j" by (simp add: nth_append)
    finally show ?thesis by (simp only: of_nat_add add.assoc)
  qed
  then have "strings_at byte (p + of_nat (Suc (length s))) ss" using Cons.prems(1) by (intro Cons.IH) auto
  ultimately show ?case by simp
qed simp

lemma args_at_top_strings:
  assumes "written a (unat p) hi" "hi \<le> 0x20000" "unat p \<le> hi" "content a (unat p) hi = concat (map (\<lambda>s. s @ [0]) ss)"
    and "\<forall>s \<in> set ss. 0 \<notin> set s"
  shows "strings_at (args_at_top a img) (seg_top p) ss"
proof (rule strings_at_concat [OF assms(5)], intro allI impI)
  fix j assume j: "j < space ss"
  have "length (content a (unat p) hi) = hi - unat p" by (simp add: content_def)
  then have n: "unat p + j < hi" using j by (simp add: assms(4) space_def)
  have "seg_top p + of_nat j - (0x4000000 - 0x20000) = p + of_nat j" by (simp add: seg_top_def)
  then have u: "unat (seg_top p + of_nat j - (0x4000000 - 0x20000)) = unat p + j"
    using n assms(2) by (simp only:) (intro unat_add_small, simp)
  have "args_at_top a img (seg_top p + of_nat j) = ap_bytes a (unat p + j)"
    unfolding args_at_top_def Let_def u using assms(1,2) n by (simp add: written_def)
  also have "\<dots> = content a (unat p) hi ! j" using n by (simp add: content_def)
  finally show "args_at_top a img (seg_top p + of_nat j) = concat (map (\<lambda>s. s @ [0]) ss) ! j" by (simp only: assms(4))
qed

definition passes :: "'f kstate \<Rightarrow> u32 \<Rightarrow> u8 list list \<Rightarrow> bool" where
  "passes k argv args \<longleftrightarrow> (\<forall>j < length args. user_ptr argv k j \<noteq> 0 \<and> str_at (user k) (user_ptr argv k j) (args ! j))"

lemma passes_no_NUL: "passes k argv args \<Longrightarrow> \<forall>s \<in> set args. 0 \<notin> set s"
  by (auto simp: passes_def str_at_def in_set_conv_nth)

lemma put_strings_twice:
  assumes "passes k argv args" "passes k envp envs" "space (args @ envs) \<le> 0x1fffc"
    and "kbind (put_strings (int (length envs)) (user_ptr envp k) (user k) (0x20000 - 4, no_args, k))
           (put_strings (int (length args)) (user_ptr argv k) (user k)) = Inr (p, a, k1)" "p \<noteq> 0"
  shows "unat p = 0x1fffc - space (args @ envs) \<and> written a (unat p) 0x1fffc \<and>
    content a (unat p) 0x1fffc = concat (map (\<lambda>s. s @ [0]) (args @ envs))"
proof -
  let ?hi = "0x1fffc :: nat"
  have top: "unat (0x20000 - 4 :: u32) = ?hi" by simp
  have "written no_args ?hi ?hi" unfolding written_def by auto
  with assms(2,3) obtain p1 a1 m1 where c1:
    "copy_strings (int (length envs)) (user_ptr envp k) (user k) no_args (0x20000 - 4) (mem k) = Inr (p1, a1, m1)"
    "p1 = 0 \<or> unat p1 = ?hi - space envs \<and> written a1 (unat p1) ?hi \<and>
       content a1 (unat p1) ?hi = concat (map (\<lambda>s. s @ [0]) envs) @ content no_args ?hi ?hi"
    using copy_strings_lays_out [of envs "user_ptr envp k" "user k" "0x20000 - 4" no_args ?hi "mem k"]
    by (auto simp: passes_def)
  then have r: "put_strings (int (length args)) (user_ptr argv k) (user k) (p1, a1, k\<lparr>mem := m1\<rparr>) = Inr (p, a, k1)"
    using assms(4) by (simp add: put_strings_def)
  then have p1: "p1 \<noteq> 0" using assms(5) by (auto simp: put_strings_def copy_strings_def kbind_Inr_iff)
  with c1(2) have f: "unat p1 = ?hi - space envs" "written a1 (unat p1) ?hi"
    "content a1 (unat p1) ?hi = concat (map (\<lambda>s. s @ [0]) envs)" by (auto simp: content_def)
  have "space args \<le> unat p1" "unat p1 \<le> 0x20000" "unat p1 \<le> ?hi" using f(1) assms(3) by simp_all
  with assms(1) f(2) obtain p2 a2 m2 where c2:
    "copy_strings (int (length args)) (user_ptr argv k) (user k) a1 p1 m1 = Inr (p2, a2, m2)"
    "p2 = 0 \<or> unat p2 = unat p1 - space args \<and> written a2 (unat p2) ?hi \<and>
       content a2 (unat p2) ?hi = concat (map (\<lambda>s. s @ [0]) args) @ content a1 (unat p1) ?hi"
    using copy_strings_lays_out [of args "user_ptr argv k" "user k" p1 a1 ?hi m1]
    by (auto simp: passes_def)
  then have "p2 = p" "a2 = a" using r by (auto simp: put_strings_def)
  then show ?thesis using c2(2) assms(5) f(1,3) by auto
qed

lemma outside_zero_bytes:
  assumes "unat i + n < 2 ^ 32"
  shows "outside (unat i) (unat i + n) k (zero_bytes n i k)"
  using assms
proof (induction n arbitrary: i k)
  case (Suc n)
  have i: "unat (i + 1) = unat i + 1" using Suc.prems by (intro unat_add_one) simp
  have "outside (unat (i + 1)) (unat (i + 1) + n) (put_fs_byte 0 i k) (zero_bytes n (i + 1) (put_fs_byte 0 i k))"
    using Suc.prems by (intro Suc.IH) (simp add: i)
  then show ?case unfolding i outside_def by (auto simp: put_fs_byte_def)
qed (simp add: outside_def)

lemma user_zero_bytes_cong: "user k = user k2 \<Longrightarrow> user (zero_bytes n i k) = user (zero_bytes n i k2)"
  by (induction n arbitrary: i k k2) (simp_all add: put_fs_byte_def)

lemma load_program_end:
  assumes "load_program ops img inode ex ids argc envc p a k = Inr (r, Some (eip, sp), k')"
  shows "\<exists>(k1 :: kernel) (k2 :: kernel). user k1 = args_at_top a img \<and> create_tables (seg_top p) argc envc k1 = Inr (sp, k2) \<and> eip = a_entry ex \<and>
    user k' = user (zero_bytes (unat ((- (a_text ex + a_data ex)) AND 0xfff)) (a_text ex + a_data ex) k2)"
proof -
  let ?i = "a_text ex + a_data ex"
  obtain k0 where k0: "drop_program ops inode k = Inr k0"
    using assms unfolding load_program_def by (cases "drop_program ops inode k") auto
  define k1 where "k1 = snd (change_ldt (a_text ex) a img k0)"
  have c: "change_ldt (a_text ex) a img k0 = (0x4000000, k1)" "user k1 = args_at_top a img"
    unfolding k1_def change_ldt_def Let_def by simp_all
  obtain k2 f where "create_tables (seg_top p) argc envc k1 = Inr (sp, k2)" "eip = a_entry ex"
    "k' = zero_bytes (unat ((- ?i) AND 0xfff)) ?i (upd_cur f k2)"
    using assms k0 c(1) unfolding load_program_def seg_top_def
    by (cases "create_tables (p + (0x4000000 - 0x20000)) argc envc k1") (auto simp: Let_def)
  then show ?thesis using c(2) user_zero_bytes_cong [of "upd_cur f k2" k2]
    by (intro exI [of _ k1] exI [of _ k2]) (simp add: upd_cur_def upd_def)
qed

lemma unat_zeroed: "unat (w AND 0xfff :: u32) < 4096"
proof -
  have "w AND 0xfff \<le> 0xfff" by (rule word_and_le1)
  then show ?thesis by (simp add: word_le_nat_alt)
qed

lemma tables_at_top:
  fixes k1 :: kernel
  assumes "passes k argv args" "passes k envp envs" "space (args @ envs) \<le> 0x1fffc"
    and "unat p = 0x1fffc - space (args @ envs)" "written a (unat p) 0x1fffc"
      "content a (unat p) 0x1fffc = concat (map (\<lambda>s. s @ [0]) (args @ envs))"
    and "user k1 = args_at_top a img"
  shows "unat (seg_top p) = unat p + 0x3fe0000 \<and>
    (\<exists>sp k2. create_tables (seg_top p) (int (length args)) (int (length envs)) k1 = Inr (sp, k2) \<and>
      stack_frame k2 sp (seg_top p) args envs \<and> unat (seg_top p) \<le> unat sp + 4 * (length args + length envs + 6))"
proof
  have "strings_at (user k1) (seg_top p) (args @ envs)"
    unfolding assms(7)
    by (rule args_at_top_strings [OF assms(5) _ _ assms(6)])
      (use assms(4) passes_no_NUL [OF assms(1)] passes_no_NUL [OF assms(2)] in auto)
  moreover show top: "unat (seg_top p) = unat p + 0x3fe0000" using assms(4) by (intro unat_seg_top) simp
  moreover have "length args + length envs \<le> 0x1fffc"
    using assms(3) length_le_space [of "args @ envs"] by simp
  ultimately show "\<exists>sp k2. create_tables (seg_top p) (int (length args)) (int (length envs)) k1 = Inr (sp, k2) \<and>
      stack_frame k2 sp (seg_top p) args envs \<and> unat (seg_top p) \<le> unat sp + 4 * (length args + length envs + 6)"
    using assms(3,4) by (intro create_tables_frame) simp_all
qed

text \<open>C11: When \<open>do_execve\<close> has replaced a program by a file that is no script, the new one finds on its
  stack the number of its arguments and two NULL-terminated vectors of pointers to copies of the
  strings that the caller passed: they have been copied to fresh pages, mapped below the end of the
  new data segment and pointed to. The header must not place text and data above the 48 MB it may
  claim; the sum that is compared with this bound can wrap around.
\<close>

theorem program_gets_arguments:
  assumes run: "exec_file ops img argv envp False inode d (int (length args)) (int (length envs)) ids
      (0x20000 - 4, no_args, k) = Inr (r, Some (eip, sp), k')"
    and args: "passes k argv args" and envs: "passes k envp envs" and "space (args @ envs) \<le> 0x1fffc"
    and "a_text (exec_at d) + a_data (exec_at d) \<le> 0x3000000"
  shows "get_fs_long sp k' = of_nat (length args) \<and> vector k' (get_fs_long (sp + 4) k') args \<and>
    vector k' (get_fs_long (sp + 8) k') envs"
proof -
  let ?ex = "exec_at d" and ?s = "(0x20000 - 4, no_args, k)"
  let ?i = "a_text ?ex + a_data ?ex"
  have ok: "\<not> bad_header ?ex (the_inode inode k)"
    using run by (auto simp: exec_file_def exec_error2_def exec_error1_def kbind_Inr_iff)
  define c where "c = kbind (put_strings (int (length envs)) (user_ptr envp k) (user k) ?s)
    (put_strings (int (length args)) (user_ptr argv k) (user k))"
  have run: "kbind c (\<lambda>(p, a, k). if p = 0 then exec_error2 ops inode (- ENOMEM) a k
      else load_program ops img inode ?ex ids (int (length args)) (int (length envs)) p a k) = Inr (r, Some (eip, sp), k')"
    using run ok by (simp add: exec_file_def c_def)
  then obtain p a k0 where c: "c = Inr (p, a, k0)" by (cases c) auto
  with run have p: "p \<noteq> 0" by (auto simp: exec_error2_def exec_error1_def kbind_Inr_iff)
  with run c have load: "load_program ops img inode ?ex ids (int (length args)) (int (length envs)) p a k0 =
      Inr (r, Some (eip, sp), k')" by simp
  from put_strings_twice [OF args envs assms(4) c [unfolded c_def] p]
  have lay: "unat p = 0x1fffc - space (args @ envs)" "written a (unat p) 0x1fffc"
    "content a (unat p) 0x1fffc = concat (map (\<lambda>s. s @ [0]) (args @ envs))" by blast+
  from load_program_end [OF load] obtain k1 k2 :: kernel where k2: "user k1 = args_at_top a img"
    "create_tables (seg_top p) (int (length args)) (int (length envs)) k1 = Inr (sp, k2)"
    "user k' = user (zero_bytes (unat ((- ?i) AND 0xfff)) ?i k2)" by blast
  have few: "length args + length envs \<le> 0x1fffc"
    using assms(4) length_le_space [of "args @ envs"] by simp
  from tables_at_top [OF args envs assms(4) lay k2(1)] k2(2)
  have top: "unat (seg_top p) = unat p + 0x3fe0000" "stack_frame k2 sp (seg_top p) args envs"
    "unat (seg_top p) \<le> unat sp + 4 * (length args + length envs + 6)" by auto
  have "user k' x = user k2 x" if "unat sp \<le> unat x" for x
  proof -
    have "unat ?i \<le> 0x3000000" using assms(5) by (simp add: word_le_nat_alt)
    moreover have "unat ((- ?i) AND 0xfff) < 4096" by (rule unat_zeroed)
    ultimately show ?thesis
      using that top few outside_zero_bytes [of ?i "unat ((- ?i) AND 0xfff)" k2]
      unfolding k2(3) by (simp add: outside_def)
  qed
  then have "stack_frame k' sp (seg_top p) args envs" using top(2) by (blast intro: stack_frame_cong)
  then show ?thesis by (rule stack_frame_main)
qed

text \<open>What remains to be checked for the program to start.\<close>

lemma exec_file_starts:
  assumes "passes k argv args" "passes k envp envs" "space (args @ envs) \<le> 0x1fffc"
    and "\<not> bad_header (exec_at d) (the_inode inode k)"
    and c: "kbind (put_strings (int (length envs)) (user_ptr envp k) (user k) (0x20000 - 4, no_args, k))
      (put_strings (int (length args)) (user_ptr argv k) (user k)) = Inr (p, a, k0)" "p \<noteq> 0"
    and drop: "drop_program ops inode k0 = Inr k1"
  shows "\<exists>sp k'. exec_file ops img argv envp False inode d (int (length args)) (int (length envs)) ids
    (0x20000 - 4, no_args, k) = Inr (0, Some (a_entry (exec_at d), sp), k')"
proof -
  define k2 where "k2 = snd (change_ldt (a_text (exec_at d)) a img k1)"
  have l: "change_ldt (a_text (exec_at d)) a img k1 = (0x4000000, k2)" "user k2 = args_at_top a img"
    unfolding k2_def change_ldt_def Let_def by simp_all
  have "\<exists>sp k3. create_tables (seg_top p) (int (length args)) (int (length envs)) k2 = Inr (sp, k3)"
    using tables_at_top [OF assms(1-3) _ _ _ l(2)] put_strings_twice [OF assms(1-3) c] by blast
  then obtain sp k3 where "create_tables (seg_top p) (int (length args)) (int (length envs)) k2 = Inr (sp, k3)" by blast
  then show ?thesis
    using assms(4) c drop l(1) by (simp add: exec_file_def load_program_def seg_top_def Let_def)
qed

definition exec_kernel :: kernel where
  "exec_kernel = file_kernel\<lparr>user := (\<lambda>a. if a = 0x100 then 97 else if a = 0x201 then 1 else 0),
     fsys := upd_inode 0 (i_size_update (\<lambda>_. 0x2000)) (fsys file_kernel)\<rparr>"

definition exec_block :: "u8 list" where
  "exec_block = [11, 1, 0, 0, 0, 16] @ replicate 1018 0"

lemma exec_block_header: "exec_at exec_block = \<lparr>a_magic = 267, a_text = 0x1000, a_data = 0, a_bss = 0, a_syms = 0,
    a_entry = 0, a_trsize = 0, a_drsize = 0\<rparr>"
  by (simp add: exec_at_def exec_block_def u32_at_def nth_append)

lemma exec_kernel_passes: "passes exec_kernel 0x200 [[97]]" "passes exec_kernel 0 []"
  by (simp_all add: passes_def user_ptr_def get_fs_long_def exec_kernel_def str_at_Cons str_at_Nil)

lemma exec_kernel_copy:
  "\<exists>p a. copy_strings 1 (user_ptr 0x200 exec_kernel) (user exec_kernel) no_args (0x20000 - 4) (mem exec_kernel) =
    Inr (p, a, clear_page 0xfff000 (set_map 3839 1 (mem exec_kernel))) \<and> p \<noteq> 0"
proof -
  have "user_ptr 0x200 exec_kernel 0 = 0x100"
    by (simp add: user_ptr_def get_fs_long_def exec_kernel_def)
  moreover have "arg_len (user exec_kernel) 0x100 0 = Some (Suc (Suc 0))"
    using arg_len_str [of "user exec_kernel" "0x100" "[97]" 0] by (simp add: exec_kernel_def str_at_Cons str_at_Nil)
  moreover have "get_free_page (mem exec_kernel) = (0xfff000, clear_page 0xfff000 (set_map 3839 1 (mem exec_kernel)))"
    by (simp add: get_free_page_def scan_free.simps [of _ 3840] exec_kernel_def file_kernel_def small_system_def page_addr_def)
  ultimately show ?thesis
    by (simp add: copy_strings_def loops_def no_args_def Let_def)
qed

lemma close_exec_none: "close_on_exec (cur k) = 0 \<Longrightarrow> close_exec ops is k = Inr k"
  by (induction "is") simp_all

lemma exec_kernel_drop:
  assumes "m = clear_page 0xfff000 (set_map 3839 1 (mem exec_kernel))"
  shows "\<exists>k'. drop_program rd_ops 0 (exec_kernel\<lparr>mem := m\<rparr>) = Inr k'"
proof -
  let ?k = "exec_kernel\<lparr>mem := m\<rparr>"
  have t: "executable (cur ?k) = None" "close_on_exec (cur (upd_cur f ?k)) = close_on_exec (f shell)"
    "ldt_code (cur (upd_cur g (upd_cur f ?k))) = ldt_code (g (f shell))"
    "ldt_data (cur (upd_cur g (upd_cur f ?k))) = ldt_data (g (f shell))" for f g
    by (simp_all add: cur_def upd_cur_def upd_def upd_task_def exec_kernel_def file_kernel_def small_system_def
        sched_boot_def shell_def INIT_TASK_def)
  have s: "close_on_exec shell = 0" "ldt_code shell = \<lparr>d_base = 0x8000000, d_limit = 0xa0000\<rparr>"
    "ldt_data shell = \<lparr>d_base = 0x8000000, d_limit = 0xa0000\<rparr>"
    by (simp_all add: shell_def INIT_TASK_def)
  have u: "mem (upd_cur f k) = mem k" for f and k :: kernel by (simp add: upd_cur_def upd_def)
  have "phys m 0x80 = 0" unfolding assms
    by (simp add: clear_page_def set_map_def exec_kernel_def file_kernel_def small_system_def)
  then have "free_page_tables 0x8000000 0xa0000 m = Inr m"
    by (simp add: free_page_tables_def dir_slot_def present_def)
  then show ?thesis
    unfolding drop_program_def Let_def
    by (simp add: t s u close_exec_none)
qed

lemma program_gets_arguments_witness:
  "\<exists>sp k'. exec_file rd_ops (\<lambda>_. 0) 0x200 0 False 0 exec_block 1 0 (0, 0) (0x20000 - 4, no_args, exec_kernel) =
      Inr (0, Some (0, sp), k') \<and>
    get_fs_long sp k' = 1 \<and> vector k' (get_fs_long (sp + 4) k') [[97]] \<and> vector k' (get_fs_long (sp + 8) k') []"
proof -
  let ?m = "clear_page 0xfff000 (set_map 3839 1 (mem exec_kernel))"
  obtain p a where c: "copy_strings 1 (user_ptr 0x200 exec_kernel) (user exec_kernel) no_args (0x20000 - 4)
      (mem exec_kernel) = Inr (p, a, ?m)" "p \<noteq> 0" using exec_kernel_copy by blast
  have put: "kbind (put_strings (int (length [])) (user_ptr 0 exec_kernel) (user exec_kernel) (0x20000 - 4, no_args, exec_kernel))
      (put_strings (int (length [[97 :: u8]])) (user_ptr 0x200 exec_kernel) (user exec_kernel)) = Inr (p, a, exec_kernel\<lparr>mem := ?m\<rparr>)"
    using c by (simp add: put_strings_def) (simp add: copy_strings_def)
  have n: "i_size (the_inode 0 exec_kernel) = 0x2000"
    by (simp add: exec_kernel_def the_inode_def fs_simps)
  have "\<not> bad_header (exec_at exec_block) (the_inode 0 exec_kernel)"
    by (simp add: bad_header_def N_TXTOFF_def exec_block_header n)
  moreover obtain k1 where "drop_program rd_ops 0 (exec_kernel\<lparr>mem := ?m\<rparr>) = Inr k1" using exec_kernel_drop by blast
  ultimately obtain sp k' where run: "exec_file rd_ops (\<lambda>_. 0) 0x200 0 False 0 exec_block (int (length [[97 :: u8]]))
      (int (length ([] :: u8 list list))) (0, 0) (0x20000 - 4, no_args, exec_kernel) = Inr (0, Some (0, sp), k')"
    using exec_file_starts [OF exec_kernel_passes _ _ put c(2), of exec_block 0 rd_ops k1 "\<lambda>_. 0" "(0, 0)"]
    by (auto simp: exec_block_header)
  have "space ([[97]] @ []) \<le> 0x1fffc" "a_text (exec_at exec_block) + a_data (exec_at exec_block) \<le> 0x3000000"
    by (simp_all add: exec_block_header)
  from program_gets_arguments [OF run exec_kernel_passes this] run show ?thesis by auto
qed

section \<open>Checks that do not check\<close>

lemma copy_bytes_add:
  "copy_bytes byte (n + l) tmp p offset pg a m =
    kbind (copy_bytes byte n tmp p offset pg a m) (\<lambda>(r, a, m).
      case r of None \<Rightarrow> Inr (None, a, m)
      | Some (p, offset, pg) \<Rightarrow> copy_bytes byte l (tmp - of_nat n) p offset pg a m)"
proof (induction n arbitrary: tmp p offset pg a m)
  case (Suc n)
  have "tmp - 1 - of_nat n = tmp - of_nat (Suc n)" by simp
  note IH = Suc [of "tmp - 1", unfolded this]
  show ?case by (simp add: IH Let_def del: of_nat_Suc split: prod.split)
qed simp

lemma copy_bytes_below:
  assumes "loaded 0 offset pg a"
  shows "copy_bytes byte (Suc l) tmp 0 offset pg a m = Inl Undefined"
proof -
  have "unat (- 1 :: u32) = 0xffffffff" by (simp add: unsigned_minus_1_eq_mask mask_eq_exp_minus_1)
  then show ?thesis using assms by (auto simp: loaded_def Let_def)
qed




end
