(* ===== verification/Ports.thy ===== *)
theory Ports
  imports Prelude
begin

text \<open>
  Input and output of the disk drivers: what has passed through the ports, the latest first. What a
  controller answers is an argument, a function of all that has passed before.
\<close>

datatype port_io =
    Out nat u8
  | In nat u8
  | In_sector
  | Out_sector "u8 list"

record controller =
  ctl_in :: "port_io list \<Rightarrow> nat \<Rightarrow> u8"
  ctl_data :: "port_io list \<Rightarrow> nat \<Rightarrow> u8"

definition inb :: "controller \<Rightarrow> nat \<Rightarrow> port_io list \<Rightarrow> u8 \<times> port_io list" where
  "inb ctl port tr = (let v = ctl_in ctl tr port in (v, In port v # tr))"

definition outb :: "u8 \<Rightarrow> nat \<Rightarrow> port_io list \<Rightarrow> port_io list" where
  "outb v port tr = Out port v # tr"

text \<open>\<open>port_read\<close> and \<open>port_write\<close> of 256 words.\<close>

definition port_read :: "controller \<Rightarrow> port_io list \<Rightarrow> u8 list \<times> port_io list" where
  "port_read ctl tr = (map (ctl_data ctl tr) [0..<512], In_sector # tr)"

definition port_write :: "u8 list \<Rightarrow> port_io list \<Rightarrow> port_io list" where
  "port_write bs tr = Out_sector bs # tr"

end
