(* ===== verification/Hd.thy ===== *)
theory Hd
  imports Buffer Inode Ports
begin

text \<open>
  \<^verbatim>\<open>kernel/blk_drv/hd.c\<close>: the hard disk driver. It runs in interrupts: \<open>do_hd\<close> is the routine
  that the next one calls. The first request of the device is \<open>CURRENT\<close>; reading a field of
  \<open>CURRENT\<close> when there is none is undefined. The drives' parameters and partitions are part of the state.
\<close>

section \<open>State\<close>

datatype hd_intr = Read_intr | Write_intr | Recal_intr

record hd_i_struct =
  hi_head :: u32
  hi_sect :: u32
  hi_cyl :: u32
  hi_wpcom :: u32
  hi_lzone :: u32
  hi_ctl :: u32

record hd_struct =
  start_sect :: u32
  nr_sects :: u32

record hd_blk = blk +
  hd_recalibrate :: bool
  hd_reset :: bool
  hd_info :: "nat \<Rightarrow> hd_i_struct"
  NR_HD :: nat
  partitions :: "nat \<Rightarrow> hd_struct"
  do_hd :: "hd_intr option"
  hd_io :: "port_io list"

abbreviation (input) HD_ERROR :: nat where "HD_ERROR \<equiv> 0x1f1"

abbreviation (input) HD_STATUS :: nat where "HD_STATUS \<equiv> 0x1f7"

abbreviation (input) HD_CMD :: nat where "HD_CMD \<equiv> 0x3f6"

abbreviation (input) DRQ_STAT :: u8 where "DRQ_STAT \<equiv> 0x08"

abbreviation (input) SEEK_STAT :: u8 where "SEEK_STAT \<equiv> 0x10"

abbreviation (input) READY_STAT :: u8 where "READY_STAT \<equiv> 0x40"

abbreviation (input) BUSY_STAT :: u8 where "BUSY_STAT \<equiv> 0x80"

abbreviation (input) WIN_RESTORE :: u8 where "WIN_RESTORE \<equiv> 0x10"

abbreviation (input) WIN_READ :: u8 where "WIN_READ \<equiv> 0x20"

abbreviation (input) WIN_WRITE :: u8 where "WIN_WRITE \<equiv> 0x30"

abbreviation (input) WIN_SPECIFY :: u8 where "WIN_SPECIFY \<equiv> 0x91"

definition hd_outb :: "u8 \<Rightarrow> nat \<Rightarrow> hd_blk \<Rightarrow> hd_blk" where
  "hd_outb v port s = s\<lparr>hd_io := outb v port (hd_io s)\<rparr>"

definition hd_inb :: "controller \<Rightarrow> nat \<Rightarrow> hd_blk \<Rightarrow> u8 \<times> hd_blk" where
  "hd_inb ctl port s = (case inb ctl port (hd_io s) of (v, tr) \<Rightarrow> (v, s\<lparr>hd_io := tr\<rparr>))"

section \<open>The controller\<close>

text \<open>\<open>controller_ready\<close> with \<open>retries\<close> left; 0 is its failure.\<close>

fun ready_loop :: "controller \<Rightarrow> nat \<Rightarrow> hd_blk \<Rightarrow> nat \<times> hd_blk" where
  "ready_loop ctl 0 s = (0, s)"
| "ready_loop ctl (Suc retries) s =
     (if retries = 0 then (0, s)
      else case hd_inb ctl HD_STATUS s of (v, s) \<Rightarrow>
        if v AND 0xc0 \<noteq> 0x40 then ready_loop ctl retries s else (retries, s))"

definition controller_ready :: "controller \<Rightarrow> hd_blk \<Rightarrow> nat \<times> hd_blk" where
  "controller_ready ctl s = ready_loop ctl 10000 s"

definition win_result :: "controller \<Rightarrow> hd_blk \<Rightarrow> bool \<times> hd_blk" where
  "win_result ctl s =
     (case hd_inb ctl HD_STATUS s of (i, s) \<Rightarrow>
        if i AND 0xf1 = READY_STAT OR SEEK_STAT then (False, s)
        else (True, if i AND 1 \<noteq> 0 then snd (hd_inb ctl HD_ERROR s) else s))"

definition hd_out ::
    "controller \<Rightarrow> nat \<Rightarrow> u32 \<Rightarrow> u32 \<Rightarrow> u32 \<Rightarrow> u32 \<Rightarrow> u8 \<Rightarrow> hd_intr \<Rightarrow> hd_blk \<Rightarrow> hd_blk res" where
  "hd_out ctl drive nsect sect head cyl cmd intr s =
     (if drive > 1 \<or> head > 15 then Inl (Panic ''Trying to write bad sector'')
      else case controller_ready ctl s of (ready, s) \<Rightarrow>
        if ready = 0 then Inl (Panic ''HD controller not ready'')
        else let s = s\<lparr>do_hd := Some intr\<rparr>;
                 s = hd_outb (ucast (hi_ctl (hd_info s drive))) HD_CMD s;
                 s = hd_outb (ucast (drop_bit 2 (hi_wpcom (hd_info s drive)))) 0x1f1 s;
                 s = hd_outb (ucast nsect) 0x1f2 s;
                 s = hd_outb (ucast sect) 0x1f3 s;
                 s = hd_outb (ucast cyl) 0x1f4 s;
                 s = hd_outb (ucast (drop_bit 8 cyl)) 0x1f5 s;
                 s = hd_outb (0xA0 OR push_bit 4 (of_nat drive) OR ucast head) 0x1f6 s
             in Inr (hd_outb cmd 0x1f7 s))"

text \<open>The loop of \<open>drive_busy\<close>, and its result, which the precedence of \<open>==\<close> over \<open>|\<close> decides.\<close>

fun busy_loop :: "controller \<Rightarrow> nat \<Rightarrow> hd_blk \<Rightarrow> hd_blk" where
  "busy_loop ctl 0 s = s"
| "busy_loop ctl (Suc n) s =
     (case hd_inb ctl HD_STATUS s of (v, s) \<Rightarrow>
        if v AND (BUSY_STAT OR READY_STAT) = READY_STAT then s else busy_loop ctl n s)"

definition drive_busy :: "controller \<Rightarrow> hd_blk \<Rightarrow> bool \<times> hd_blk" where
  "drive_busy ctl s =
     (case hd_inb ctl HD_STATUS (busy_loop ctl 10000 s) of (i, s) \<Rightarrow>
        let i = i AND (BUSY_STAT OR READY_STAT OR SEEK_STAT)
        in (\<not> of_bool (i = READY_STAT) OR SEEK_STAT \<noteq> 0, s))"

definition reset_controller :: "controller \<Rightarrow> hd_blk \<Rightarrow> hd_blk" where
  "reset_controller ctl s =
     (let s = hd_outb 4 HD_CMD s;
          s = hd_outb (ucast (hi_ctl (hd_info s 0) AND 0x0f)) HD_CMD s;
          s = snd (drive_busy ctl s)
      in snd (hd_inb ctl HD_ERROR s))"

definition reset_hd :: "controller \<Rightarrow> nat \<Rightarrow> hd_blk \<Rightarrow> hd_blk res" where
  "reset_hd ctl nr s =
     (let s = reset_controller ctl s;
          h = hd_info s nr
      in hd_out ctl nr (hi_sect h) (hi_sect h) (hi_head h - 1) (hi_cyl h) WIN_SPECIFY Recal_intr s)"

section \<open>Requests\<close>

definition upd_req :: "nat \<Rightarrow> (request \<Rightarrow> request) \<Rightarrow> 'a blk_scheme \<Rightarrow> 'a blk_scheme" where
  "upd_req req f s = s\<lparr>requests := (requests s)(req := f (requests s req))\<rparr>"

text \<open>\<open>CURRENT\<close> of the hard disk.\<close>

definition with_current :: "(nat \<Rightarrow> hd_blk \<Rightarrow> 'r res) \<Rightarrow> hd_blk \<Rightarrow> 'r res" where
  "with_current f s = (case dev_queue s 3 of [] \<Rightarrow> Inl Undefined | req # q \<Rightarrow> f req s)"

definition bad_rw_intr :: "hd_blk \<Rightarrow> hd_blk res" where
  "bad_rw_intr s =
     with_current (\<lambda>req s.
       let s = upd_req req (rq_errors_update (\<lambda>n. n + 1)) s
       in kbind (if rq_errors (requests s req) \<ge> 7 then end_request 3 False s else Inr s) (\<lambda>s.
          with_current (\<lambda>req s.
            Inr (if rq_errors (requests s req) > 3 then s\<lparr>hd_reset := True\<rparr> else s)) s)) s"

text \<open>The bytes at \<open>CURRENT->buffer\<close>; a buffer holds 1024.\<close>

definition store_sector :: "nat \<Rightarrow> u8 list \<Rightarrow> 'a blk_scheme \<Rightarrow> 'a blk_scheme res" where
  "store_sector req bs s =
     (let r = requests s req
      in case rq_bh r of
           None \<Rightarrow> Inl Undefined
         | Some bh \<Rightarrow>
             if rq_buffer r + 512 > 1024 then Inl Undefined
             else Inr (upd_buf bh (b_data_update (put_bytes (rq_buffer r) bs)) s))"

definition load_sector :: "nat \<Rightarrow> 'a blk_scheme \<Rightarrow> u8 list res" where
  "load_sector req s =
     (let r = requests s req
      in case rq_bh r of
           None \<Rightarrow> Inl Undefined
         | Some bh \<Rightarrow>
             if rq_buffer r + 512 > 1024 then Inl Undefined
             else Inr (take 512 (drop (rq_buffer r) (b_data (bufs s bh)))))"

text \<open>The loop for \<open>DRQ_STAT\<close>: whether \<open>r\<close> is set when it ends.\<close>

fun drq_loop :: "controller \<Rightarrow> nat \<Rightarrow> hd_blk \<Rightarrow> bool \<times> hd_blk" where
  "drq_loop ctl 0 s = (False, s)"
| "drq_loop ctl (Suc n) s =
     (case hd_inb ctl HD_STATUS s of (v, s) \<Rightarrow>
        if v AND DRQ_STAT \<noteq> 0 then (True, s) else drq_loop ctl n s)"

text \<open>One turn of \<open>do_hd_request\<close> on \<open>CURRENT\<close>, and whether it goes to \<open>repeat\<close>.\<close>

definition hd_transfer :: "controller \<Rightarrow> nat \<Rightarrow> nat \<Rightarrow> u32 \<Rightarrow> u32 \<Rightarrow> u32 \<Rightarrow> hd_blk \<Rightarrow> (bool \<times> hd_blk) res" where
  "hd_transfer ctl req dev sec head cyl s =
     (let r = requests s req;
          nsect = rq_nr_sectors r
      in if hd_reset s
         then kbind (reset_hd ctl (nat (rq_dev r mod 256) div 5) (s\<lparr>hd_reset := False, hd_recalibrate := True\<rparr>))
                (\<lambda>s. Inr (False, s))
         else if hd_recalibrate s
         then kbind (hd_out ctl dev (hi_sect (hd_info s (nat (rq_dev r mod 256) div 5))) 0 0 0 WIN_RESTORE Recal_intr
                       (s\<lparr>hd_recalibrate := False\<rparr>)) (\<lambda>s. Inr (False, s))
         else if rq_cmd r = WRITE
         then kbind (hd_out ctl dev nsect sec head cyl WIN_WRITE Write_intr s) (\<lambda>s.
           case drq_loop ctl 3000 s of (drq, s) \<Rightarrow>
             if \<not> drq then kbind (bad_rw_intr s) (\<lambda>s. Inr (True, s))
             else kbind (load_sector req s) (\<lambda>bs. Inr (False, s\<lparr>hd_io := port_write bs (hd_io s)\<rparr>)))
         else if rq_cmd r = READ
         then kbind (hd_out ctl dev nsect sec head cyl WIN_READ Read_intr s) (\<lambda>s. Inr (False, s))
         else Inl (Panic ''unknown hd-command''))"

definition hd_request :: "controller \<Rightarrow> nat \<Rightarrow> hd_blk \<Rightarrow> (bool \<times> hd_blk) res" where
  "hd_request ctl req s =
     (let r = requests s req;
          dev = nat (rq_dev r mod 256);
          block = rq_sector r
      in if rq_dev r div 256 \<noteq> 3 then Inl (Panic ''harddisk: request list destroyed'')
         else if case rq_bh r of None \<Rightarrow> False | Some bh \<Rightarrow> \<not> b_lock (bufs s bh)
         then Inl (Panic ''harddisk: block not locked'')
         else if dev \<ge> 5 * NR_HD s \<or> block + 2 > nr_sects (partitions s dev)
         then kbind (end_request 3 False s) (\<lambda>s. Inr (True, s))
         else let block = block + start_sect (partitions s dev);
                  dev = dev div 5;
                  h = hd_info s dev
              in if hi_sect h = 0 \<or> hi_head h = 0 then Inl Undefined
                 else let sec = block mod hi_sect h;
                          block = block div hi_sect h;
                          head = block mod hi_head h;
                          cyl = block div hi_head h
                      in hd_transfer ctl req dev (sec + 1) head cyl s)"

partial_function (option) hd_loop :: "controller \<Rightarrow> hd_blk \<Rightarrow> hd_blk res option" where
  "hd_loop ctl s =
     (case dev_queue s 3 of
        [] \<Rightarrow> Some (Inr s)
      | req # q \<Rightarrow>
          case hd_request ctl req s of
            Inl e \<Rightarrow> Some (Inl e)
          | Inr (again, s) \<Rightarrow> if again then hd_loop ctl s else Some (Inr s))"

declare hd_loop.simps [code]

definition do_hd_request :: "controller \<Rightarrow> hd_blk \<Rightarrow> hd_blk res" where
  "do_hd_request ctl s = returns (hd_loop ctl s)"

section \<open>Interrupts\<close>

definition hd_failed :: "controller \<Rightarrow> hd_blk \<Rightarrow> hd_blk res" where
  "hd_failed ctl s = kbind (bad_rw_intr s) (do_hd_request ctl)"

definition read_intr :: "controller \<Rightarrow> hd_blk \<Rightarrow> hd_blk res" where
  "read_intr ctl s =
     (case win_result ctl s of (bad, s) \<Rightarrow>
        if bad then hd_failed ctl s
        else with_current (\<lambda>req s.
          case port_read ctl (hd_io s) of (bs, tr) \<Rightarrow>
            kbind (store_sector req bs (s\<lparr>hd_io := tr\<rparr>)) (\<lambda>s.
            let s = upd_req req (\<lambda>r. r\<lparr>rq_errors := 0, rq_buffer := rq_buffer r + 512,
                      rq_sector := rq_sector r + 1, rq_nr_sectors := rq_nr_sectors r - 1\<rparr>) s
            in if rq_nr_sectors (requests s req) \<noteq> 0 then Inr (s\<lparr>do_hd := Some Read_intr\<rparr>)
               else kbind (end_request 3 True s) (do_hd_request ctl))) s)"

definition write_intr :: "controller \<Rightarrow> hd_blk \<Rightarrow> hd_blk res" where
  "write_intr ctl s =
     (case win_result ctl s of (bad, s) \<Rightarrow>
        if bad then hd_failed ctl s
        else with_current (\<lambda>req s.
          let s = upd_req req (rq_nr_sectors_update (\<lambda>n. n - 1)) s
          in if rq_nr_sectors (requests s req) \<noteq> 0
             then let s = upd_req req (\<lambda>r. r\<lparr>rq_sector := rq_sector r + 1, rq_buffer := rq_buffer r + 512\<rparr>) s;
                      s = s\<lparr>do_hd := Some Write_intr\<rparr>
                  in kbind (load_sector req s) (\<lambda>bs. Inr (s\<lparr>hd_io := port_write bs (hd_io s)\<rparr>))
             else kbind (end_request 3 True s) (do_hd_request ctl)) s)"

definition recal_intr :: "controller \<Rightarrow> hd_blk \<Rightarrow> hd_blk res" where
  "recal_intr ctl s =
     (case win_result ctl s of (bad, s) \<Rightarrow>
        kbind (if bad then bad_rw_intr s else Inr s) (do_hd_request ctl))"

text \<open>
  The entry point takes the routine out of \<open>do_hd\<close>; without one the interrupt is only reported. Saving
  registers and the acknowledgement to the interrupt controllers are left out.
\<close>

definition hd_interrupt :: "controller \<Rightarrow> hd_blk \<Rightarrow> hd_blk res" where
  "hd_interrupt ctl s =
     (let s' = s\<lparr>do_hd := None\<rparr>
      in case do_hd s of
           None \<Rightarrow> Inr s'
         | Some Read_intr \<Rightarrow> read_intr ctl s'
         | Some Write_intr \<Rightarrow> write_intr ctl s'
         | Some Recal_intr \<Rightarrow> recal_intr ctl s')"

section \<open>Setting up\<close>

text \<open>The drives' parameters from the BIOS, 16 bytes each.\<close>

definition bios_drive :: "u8 list \<Rightarrow> nat \<Rightarrow> hd_i_struct" where
  "bios_drive d a =
     \<lparr>hi_head = ucast (d ! (a + 2)), hi_sect = ucast (d ! (a + 14)), hi_cyl = ucast (u16_at d a),
      hi_wpcom = ucast (u16_at d (a + 5)), hi_lzone = ucast (u16_at d (a + 12)), hi_ctl = ucast (d ! (a + 8))\<rparr>"

text \<open>The partition table of \<open>drive\<close>, from 0x1BE of its first block.\<close>

definition partition :: "u8 list \<Rightarrow> nat \<Rightarrow> hd_struct" where
  "partition d i = \<lparr>start_sect = u32_at d (0x1BE + 16 * i + 8), nr_sects = u32_at d (0x1BE + 16 * i + 12)\<rparr>"

fun read_partitions :: "unit hd_blk_ext blk_ops \<Rightarrow> nat list \<Rightarrow> hd_blk \<Rightarrow> hd_blk res" where
  "read_partitions ops [] s = Inr s"
| "read_partitions ops (drive # drives) s =
     kbind (bread ops (of_nat (0x300 + drive * 5)) 0 s) (\<lambda>(bh, s).
       case bh of
         None \<Rightarrow> Inl (Panic '''')
       | Some bh \<Rightarrow>
           let d = b_data (bufs s bh)
           in if d ! 510 \<noteq> 0x55 \<or> d ! 511 \<noteq> 0xAA then Inl (Panic '''')
              else let s = s\<lparr>partitions := (\<lambda>k. if 5 * drive < k \<and> k < 5 * drive + 5
                                       then partition d (k - 5 * drive - 1) else partitions s k)\<rparr>
                   in kbind (brelse bh s) (read_partitions ops drives))"

text \<open>
  \<open>sys_setup\<close>; whether it may still be called is \<open>callable\<close>, and \<open>rd_load\<close> with \<open>mount_root\<close> is an
  argument. The BIOS tells how many drives there are, the CMOS overrides it.
\<close>

definition drive_count :: "u8 \<Rightarrow> nat" where
  "drive_count cmos_disks =
     (if cmos_disks AND 0xf0 \<noteq> 0 then if cmos_disks AND 0x0f \<noteq> 0 then 2 else 1 else 0)"

definition whole_drives :: "hd_blk \<Rightarrow> hd_blk" where
  "whole_drives s = s\<lparr>partitions := (\<lambda>k. if k mod 5 = 0 \<and> k div 5 < NR_HD s
     then \<lparr>start_sect = 0, nr_sects = hi_head (hd_info s (k div 5)) * hi_sect (hd_info s (k div 5)) *
           hi_cyl (hd_info s (k div 5))\<rparr> else partitions s k)\<rparr>"

definition sys_setup ::
    "controller \<Rightarrow> unit hd_blk_ext blk_ops \<Rightarrow> (hd_blk \<Rightarrow> hd_blk res) \<Rightarrow> u8 list \<Rightarrow> bool \<Rightarrow> hd_blk \<Rightarrow> (int \<times> bool \<times> hd_blk) res" where
  "sys_setup ctl ops load_and_mount BIOS callable s =
     (if \<not> callable then Inr (-1, False, s)
      else let s = s\<lparr>hd_info := (hd_info s)(0 := bios_drive BIOS 0, 1 := bios_drive BIOS 16)\<rparr>;
               s = s\<lparr>NR_HD := if hi_cyl (hd_info s 1) \<noteq> 0 then 2 else 1\<rparr>;
               s = whole_drives s;
               s = hd_outb (0x80 OR 0x12) 0x70 s
           in case hd_inb ctl 0x71 s of (cmos_disks, s) \<Rightarrow>
             let s = s\<lparr>NR_HD := drive_count cmos_disks\<rparr>;
                 s = s\<lparr>partitions := (\<lambda>k. if k mod 5 = 0 \<and> NR_HD s \<le> k div 5 \<and> k div 5 < 2
                                then \<lparr>start_sect = 0, nr_sects = 0\<rparr> else partitions s k)\<rparr>
             in kbind (read_partitions ops [0..<NR_HD s] s) (\<lambda>s.
                kbind (load_and_mount s) (\<lambda>s. Inr (0, False, s))))"

definition hd_init :: "controller \<Rightarrow> hd_blk \<Rightarrow> hd_blk" where
  "hd_init ctl s =
     (case hd_inb ctl 0x21 s of (v, s) \<Rightarrow>
        case hd_inb ctl 0xA1 (hd_outb (v AND 0xfb) 0x21 s) of (v, s) \<Rightarrow> hd_outb (v AND 0xbf) 0xA1 s)"

text \<open>The driver as the buffer cache reaches it.\<close>

definition hd_ops :: "controller \<Rightarrow> unit hd_blk_ext blk_ops" where
  "hd_ops ctl = \<lparr>request_fn = (\<lambda>m. if m = 3 then Some (do_hd_request ctl) else None), sync_inodes_of = Inr\<rparr>"

end
