(* ===== verification/Hd_Facts.thy ===== *)
theory Hd_Facts
  imports Hd Buffer_Facts Inode_Facts
begin

text \<open>
  The hard disk driver: its loop ends, no request is left without an interrupt to wait for, and what
  it tells a controller that works as documented reads and writes the blocks of a partition.
\<close>

section \<open>Routine by routine\<close>

lemma hd_outb_sel [simp]:
  "dev_queue (hd_outb v p s) = dev_queue s" "requests (hd_outb v p s) = requests s" "bufs (hd_outb v p s) = bufs s"
  "do_hd (hd_outb v p s) = do_hd s" "hd_info (hd_outb v p s) = hd_info s" "partitions (hd_outb v p s) = partitions s"
  "hd_io (hd_outb v p s) = Out p v # hd_io s" "hd_reset (hd_outb v p s) = hd_reset s"
  by (simp_all add: hd_outb_def outb_def)

text \<open>States that differ in what has passed through the ports.\<close>

definition same_io :: "hd_blk \<Rightarrow> hd_blk \<Rightarrow> bool" where
  "same_io s s' \<longleftrightarrow> s' = s\<lparr>hd_io := hd_io s'\<rparr>"

lemma same_io_sel:
  assumes "same_io s s'"
  shows "dev_queue s' = dev_queue s" "requests s' = requests s" "do_hd s' = do_hd s" "bufs s' = bufs s"
    "hd_info s' = hd_info s"
proof -
  obtain tr where "s' = s\<lparr>hd_io := tr\<rparr>" using assms unfolding same_io_def by blast
  then show "dev_queue s' = dev_queue s" "requests s' = requests s" "do_hd s' = do_hd s" "bufs s' = bufs s"
    "hd_info s' = hd_info s" by simp_all
qed

lemma same_io_refl [simp]: "same_io s s" by (simp add: same_io_def)

lemma same_io_trans: "same_io s t \<Longrightarrow> same_io t u \<Longrightarrow> same_io s u"
  unfolding same_io_def by (metis hd_blk.surjective hd_blk.update_convs(7))

lemma same_io_inb: "hd_inb ctl p s = (v, t) \<Longrightarrow> same_io s t"
  by (auto simp: same_io_def hd_inb_def inb_def Let_def)

lemma same_io_outb: "same_io s (hd_outb v p s)"
  by (simp add: same_io_def hd_outb_def)

lemma same_io_then: "hd_inb ctl p s = (v, t) \<Longrightarrow> same_io t u \<Longrightarrow> same_io s u"
  using same_io_inb same_io_trans by blast

lemma same_io_ready: "same_io s (snd (ready_loop ctl n s))"
  by (induction n arbitrary: s) (auto split: prod.split intro: same_io_then same_io_inb)

lemma same_io_busy: "same_io s (busy_loop ctl n s)"
  by (induction n arbitrary: s) (auto split: prod.split intro: same_io_then same_io_inb)

lemma same_io_drq: "same_io s (snd (drq_loop ctl n s))"
  by (induction n arbitrary: s) (auto split: prod.split intro: same_io_then same_io_inb)

lemma same_io_result: "same_io s (snd (win_result ctl s))"
  by (auto simp: win_result_def split: prod.split intro: same_io_then same_io_inb [OF surjective_pairing] same_io_inb)

lemma same_io_reset: "same_io s (reset_controller ctl s)"
proof -
  have "same_io t (snd (drive_busy ctl t))" for t
    unfolding drive_busy_def Let_def
    by (simp add: split_beta) (rule same_io_trans [OF same_io_busy same_io_inb [OF surjective_pairing]])
  then show ?thesis
    unfolding reset_controller_def Let_def by (meson same_io_trans same_io_outb same_io_inb surjective_pairing)
qed

lemma hd_out_cases:
  "hd_out ctl drive nsect sect head cyl cmd intr s = Inr s' \<Longrightarrow>
    dev_queue s' = dev_queue s \<and> requests s' = requests s \<and> bufs s' = bufs s \<and> do_hd s' = Some intr"
  "hd_out ctl drive nsect sect head cyl cmd intr s \<noteq> Inl Diverges"
  using same_io_sel [OF same_io_ready [of s ctl 10000]]
  by (auto simp: hd_out_def controller_ready_def Let_def split: prod.splits if_splits)

lemma reset_hd_cases:
  "reset_hd ctl nr s = Inr s' \<Longrightarrow>
    dev_queue s' = dev_queue s \<and> requests s' = requests s \<and> bufs s' = bufs s \<and> do_hd s' = Some Recal_intr"
  "reset_hd ctl nr s \<noteq> Inl Diverges"
  using hd_out_cases same_io_sel [OF same_io_reset [of s ctl]]
  by (auto simp: reset_hd_def Let_def)

text \<open>What a turn that goes to \<open>repeat\<close> leaves: one request less, or one more error of the first.\<close>

definition progress :: "hd_blk \<Rightarrow> hd_blk \<Rightarrow> bool" where
  "progress s s' \<longleftrightarrow> dev_queue s' 3 = tl (dev_queue s 3) \<or>
     dev_queue s' 3 = dev_queue s 3 \<and> rq_errors (requests s (List.hd (dev_queue s 3))) < 6 \<and>
     rq_errors (requests s' (List.hd (dev_queue s 3))) = rq_errors (requests s (List.hd (dev_queue s 3))) + 1"

lemma end_request_queue:
  fixes s :: hd_blk
  shows "end_request m up s = Inr s' \<Longrightarrow> dev_queue s' m = tl (dev_queue s m)"
  "end_request m up s \<noteq> Inl Diverges"
  by (auto simp: end_request_def unlock_buffer_def upd_buf_def Let_def split: list.splits option.splits)

lemma end_request_do_hd: "end_request m up s = Inr s' \<Longrightarrow> do_hd s' = do_hd s"
  by (auto simp: end_request_def unlock_buffer_def upd_buf_def Let_def split: list.splits option.splits)

lemma bad_rw_intr_cases:
  "bad_rw_intr s = Inr s' \<Longrightarrow> progress s s' \<and> do_hd s' = do_hd s"
  "bad_rw_intr s \<noteq> Inl Diverges"
proof -
  assume r: "bad_rw_intr s = Inr s'"
  then obtain req q where q: "dev_queue s 3 = req # q"
    by (cases "dev_queue s 3") (auto simp: bad_rw_intr_def with_current_def)
  let ?t = "upd_req req (rq_errors_update (\<lambda>n. n + 1)) s"
  let ?again = "with_current (\<lambda>req s. Inr (if rq_errors (requests s req) > 3 then s\<lparr>hd_reset := True\<rparr> else s))"
  have t: "dev_queue ?t = dev_queue s" "do_hd ?t = do_hd s"
    "rq_errors (requests ?t req) = rq_errors (requests s req) + 1" by (simp_all add: upd_req_def)
  have again: "requests v = requests u \<and> dev_queue v = dev_queue u \<and> do_hd v = do_hd u" if "?again u = Inr v" for u v
    using that by (auto simp: with_current_def split: list.splits if_splits)
  from r obtain u where u: "(if rq_errors (requests s req) + 1 \<ge> 7 then end_request 3 False ?t else Inr ?t) = Inr u"
    "?again u = Inr s'"
    using q t by (auto simp: bad_rw_intr_def with_current_def Let_def kbind_Inr_iff)
  show "progress s s' \<and> do_hd s' = do_hd s"
  proof (cases "rq_errors (requests s req) + 1 \<ge> 7")
    case True
    then have "dev_queue u 3 = tl (dev_queue s 3)" "do_hd u = do_hd s"
      using u(1) end_request_queue(1) [of 3 False ?t u] end_request_do_hd [of 3 False ?t u] t by simp_all
    then show ?thesis using again [OF u(2)] by (simp add: progress_def)
  next
    case False
    then have "u = ?t" using u(1) by simp
    then show ?thesis using again [OF u(2)] t q False by (simp add: progress_def)
  qed
next
  show "bad_rw_intr s \<noteq> Inl Diverges"
    using end_request_queue(2)
    by (auto simp: bad_rw_intr_def with_current_def Let_def kbind_Inl_iff split: list.splits if_splits)
qed

lemma load_sector_cases: "load_sector req (s :: hd_blk) \<noteq> Inl Diverges"
  by (auto simp: load_sector_def Let_def split: option.splits)

lemma progress_cong:
  "dev_queue t = dev_queue s \<Longrightarrow> requests t = requests s \<Longrightarrow> progress t s' = progress s s'"
  by (simp add: progress_def)

lemma hd_transfer_cases:
  "hd_transfer ctl req dev sec head cyl s = Inr (again, s') \<Longrightarrow>
    if again then progress s s' else do_hd s' \<noteq> None"
  "hd_transfer ctl req dev sec head cyl s \<noteq> Inl Diverges"
proof -
  assume r: "hd_transfer ctl req dev sec head cyl s = Inr (again, s')"
  consider (resets) "hd_reset s" | (recal) "\<not> hd_reset s" "hd_recalibrate s"
    | (writes) "\<not> hd_reset s" "\<not> hd_recalibrate s" "rq_cmd (requests s req) = WRITE"
    | (reads) "\<not> hd_reset s" "\<not> hd_recalibrate s" "rq_cmd (requests s req) = READ"
    using r by (fastforce simp: hd_transfer_def Let_def split: if_splits)
  then show "if again then progress s s' else do_hd s' \<noteq> None"
  proof cases
    case writes
    then obtain u where u: "hd_out ctl dev (rq_nr_sectors (requests s req)) sec head cyl WIN_WRITE Write_intr s = Inr u"
      using r by (auto simp: hd_transfer_def Let_def kbind_Inr_iff)
    obtain drq v where v: "drq_loop ctl 3000 u = (drq, v)" by (cases "drq_loop ctl 3000 u")
    note u' = hd_out_cases(1) [OF u]
    note v' = same_io_sel [OF same_io_drq [of u ctl 3000]]
    show ?thesis
    proof (cases drq)
      case True
      then show ?thesis using r writes u v u' v' by (auto simp: hd_transfer_def Let_def kbind_Inr_iff)
    next
      case False
      then have b: "bad_rw_intr v = Inr s'" "again"
        using r writes u v by (auto simp: hd_transfer_def Let_def kbind_Inr_iff)
      have "dev_queue v = dev_queue s" "requests v = requests s" using u' v' v by simp_all
      then show ?thesis using bad_rw_intr_cases(1) [OF b(1)] b(2) progress_cong [of v s s'] by simp
    qed
  qed (use r reset_hd_cases(1) hd_out_cases(1) in \<open>auto simp: hd_transfer_def Let_def kbind_Inr_iff\<close>)
next
  show "hd_transfer ctl req dev sec head cyl s \<noteq> Inl Diverges"
    using reset_hd_cases(2) hd_out_cases(2) bad_rw_intr_cases(2) load_sector_cases
    by (auto simp: hd_transfer_def Let_def kbind_Inl_iff split: prod.splits if_splits)
qed

lemma hd_request_cases:
  "hd_request ctl req s = Inr (again, s') \<Longrightarrow> if again then progress s s' else do_hd s' \<noteq> None"
  "hd_request ctl req s \<noteq> Inl Diverges"
proof -
  assume r: "hd_request ctl req s = Inr (again, s')"
  show "if again then progress s s' else do_hd s' \<noteq> None"
  proof (cases "\<exists>dev sec head cyl. hd_transfer ctl req dev sec head cyl s = Inr (again, s')")
    case True
    then show ?thesis using hd_transfer_cases(1) by blast
  next
    case False
    then have "end_request 3 False s = Inr s'" "again"
      using r by (auto simp: hd_request_def Let_def kbind_Inr_iff split: if_splits)
    then show ?thesis using end_request_queue(1) by (auto simp: progress_def)
  qed
next
  show "hd_request ctl req s \<noteq> Inl Diverges"
    using hd_transfer_cases(2) end_request_queue(2)
    by (auto simp: hd_request_def Let_def kbind_Inl_iff split: if_splits)
qed

lemma progress_measure:
  assumes "dev_queue s 3 \<noteq> []" "progress s s'"
  shows "(s', s) \<in> measures [\<lambda>s. length (dev_queue s 3),
    \<lambda>s. nat (6 - rq_errors (requests s (List.hd (dev_queue s 3))))]"
  using assms by (auto simp: progress_def neq_Nil_conv)

lemma hd_loop_returns:
  "\<exists>r. hd_loop ctl s = Some r \<and> r \<noteq> Inl Diverges \<and>
    (\<forall>s'. r = Inr s' \<longrightarrow> dev_queue s' 3 \<noteq> [] \<longrightarrow> do_hd s' \<noteq> None)"
proof (induction s rule: wf_induct_rule [OF wf_measures [of "[\<lambda>s. length (dev_queue s 3),
    \<lambda>s. nat (6 - rq_errors (requests s (List.hd (dev_queue s 3))))]"]])
  case (1 s)
  show ?case
  proof (cases "dev_queue s 3")
    case Nil
    then show ?thesis by (subst hd_loop.simps) simp
  next
    case (Cons req q)
    show ?thesis
    proof (cases "hd_request ctl req s")
      case (Inl e)
      then show ?thesis using Cons hd_request_cases(2) [of ctl req s] by (subst hd_loop.simps) simp
    next
      case (Inr r)
      obtain again t where r: "r = (again, t)" by (cases r)
      note c = hd_request_cases(1) [OF Inr [unfolded r]]
      show ?thesis
      proof (cases again)
        case True
        with c Cons have "(t, s) \<in> measures [\<lambda>s. length (dev_queue s 3),
            \<lambda>s. nat (6 - rq_errors (requests s (List.hd (dev_queue s 3))))]"
          by (intro progress_measure) simp_all
        from 1 [OF this] show ?thesis using Cons Inr r True by (subst hd_loop.simps) simp
      next
        case False
        then show ?thesis using Cons Inr r c by (subst hd_loop.simps) simp
      qed
    qed
  qed
qed

lemma do_hd_request_waits: "do_hd_request ctl s = Inr s' \<Longrightarrow> dev_queue s' 3 \<noteq> [] \<Longrightarrow> do_hd s' \<noteq> None"
  using hd_loop_returns [of ctl s] by (auto simp: do_hd_request_def returns_def)

text \<open>C15: \<open>do_hd_request\<close> always returns, or panics: whatever the controller answers, every turn of its
  loop takes a request off the queue or counts one more of the errors that a request may have.
\<close>

theorem do_hd_request_returns: "do_hd_request ctl s \<noteq> Inl Diverges"
  using hd_loop_returns [of ctl s] by (auto simp: do_hd_request_def returns_def)

section \<open>No request is left behind\<close>

text \<open>What happens to the driver: an interrupt, or a request for any buffer.\<close>

inductive hd_step :: "controller \<Rightarrow> hd_blk \<Rightarrow> hd_blk \<Rightarrow> bool" for ctl where
  interrupt: "hd_interrupt ctl s = Inr s' \<Longrightarrow> hd_step ctl s s'"
| submit: "ll_rw_block (hd_ops ctl) rw bh s = Inr s' \<Longrightarrow> hd_step ctl s s'"

definition waits :: "hd_blk \<Rightarrow> bool" where
  "waits s \<longleftrightarrow> (dev_queue s 3 \<noteq> [] \<longrightarrow> do_hd s \<noteq> None)"

lemma do_hd_request_ok: "do_hd_request ctl s = Inr s' \<Longrightarrow> waits s'"
  using do_hd_request_waits by (simp add: waits_def)

lemma interrupt_waits: "waits s \<Longrightarrow> hd_interrupt ctl s = Inr s' \<Longrightarrow> waits s'"
proof -
  assume w: "waits s" and r: "hd_interrupt ctl s = Inr s'"
  let ?s = "s\<lparr>do_hd := None\<rparr>"
  show "waits s'"
  proof (cases "do_hd s")
    case None
    then show ?thesis using w r by (auto simp: waits_def hd_interrupt_def)
  next
    case (Some h)
    then show ?thesis
      using r
      by (cases h) (auto simp: hd_interrupt_def read_intr_def write_intr_def recal_intr_def hd_failed_def with_current_def
          Let_def kbind_Inr_iff waits_def split: prod.splits list.splits if_splits dest: do_hd_request_waits)
  qed
qed

lemma submit_waits: "waits s \<Longrightarrow> ll_rw_block (hd_ops ctl) rw bh s = Inr s' \<Longrightarrow> waits s'"
proof -
  assume w: "waits s" and r: "ll_rw_block (hd_ops ctl) rw bh s = Inr s'"
  have add: "waits u" if "add_request (hd_ops ctl) m req t = Inr u" "dev_queue t = dev_queue s" "do_hd t = do_hd s" for m req t u
    using that w
    by (auto simp: add_request_def hd_ops_def upd_buf_def waits_def Let_def split: option.splits if_splits
        dest: do_hd_request_waits)
  from r show "waits s'"
    using w
    by (auto simp: ll_rw_block_def make_request_def lock_buffer_def unlock_buffer_def upd_buf_def Let_def kbind_Inr_iff
        waits_def split: option.splits if_splits dest!: add)
qed

text \<open>C14: Whatever requests come and whatever the controller answers, as long as the driver does not
  panic a queue that is not empty has an interrupt routine waiting: no request is left behind.
\<close>

theorem hd_never_stalls:
  assumes "(hd_step ctl)\<^sup>*\<^sup>* s s'" "dev_queue s 3 = []"
  shows "dev_queue s' 3 \<noteq> [] \<longrightarrow> do_hd s' \<noteq> None"
proof -
  have "waits s'" using assms(1)
  proof induction
    case base
    then show ?case using assms(2) by (simp add: waits_def)
  next
    case (step t u)
    from step(2,3) show ?case by cases (auto intro: interrupt_waits submit_waits)
  qed
  then show ?thesis by (simp add: waits_def)
qed

section \<open>A controller that works as documented\<close>

text \<open>The registers of the controller: what was last written to a port.\<close>

fun reg :: "nat \<Rightarrow> port_io list \<Rightarrow> u8" where
  "reg port [] = 0"
| "reg port (Out p v # tr) = (if p = port then v else reg port tr)"
| "reg port (In p v # tr) = reg port tr"
| "reg port (In_sector # tr) = reg port tr"
| "reg port (Out_sector bs # tr) = reg port tr"

text \<open>The sectors transferred since the last command.\<close>

fun moved :: "port_io list \<Rightarrow> nat" where
  "moved [] = 0"
| "moved (Out p v # tr) = (if p = HD_STATUS then 0 else moved tr)"
| "moved (In p v # tr) = moved tr"
| "moved (In_sector # tr) = Suc (moved tr)"
| "moved (Out_sector bs # tr) = Suc (moved tr)"

definition sel_drive :: "port_io list \<Rightarrow> nat" where
  "sel_drive tr = unat (reg 0x1f6 tr) div 16 mod 2"

definition sel_sector :: "(nat \<Rightarrow> hd_i_struct) \<Rightarrow> port_io list \<Rightarrow> nat" where
  "sel_sector geo tr =
     ((unat (reg 0x1f4 tr) + 256 * unat (reg 0x1f5 tr)) * unat (hi_head (geo (sel_drive tr))) + unat (reg 0x1f6 tr) mod 16) *
       unat (hi_sect (geo (sel_drive tr))) + (unat (reg 0x1f3 tr) - 1) + moved tr"

text \<open>The sectors on the drives, from \<open>d\<close> by what has been written.\<close>

fun disk :: "(nat \<Rightarrow> hd_i_struct) \<Rightarrow> (nat \<Rightarrow> nat \<Rightarrow> u8 list) \<Rightarrow> port_io list \<Rightarrow> nat \<Rightarrow> nat \<Rightarrow> u8 list" where
  "disk geo d [] = d"
| "disk geo d (Out_sector bs # tr) =
     (if reg HD_STATUS tr = WIN_WRITE
      then (disk geo d tr)(sel_drive tr := (disk geo d tr (sel_drive tr))(sel_sector geo tr := bs)) else disk geo d tr)"
| "disk geo d (Out p v # tr) = disk geo d tr"
| "disk geo d (In p v # tr) = disk geo d tr"
| "disk geo d (In_sector # tr) = disk geo d tr"

text \<open>
  The controller as the driver relies on it: it is ready and without errors, asks for data, and after
  the command to read delivers the selected sectors.
\<close>

definition obeys :: "controller \<Rightarrow> (nat \<Rightarrow> hd_i_struct) \<Rightarrow> (nat \<Rightarrow> nat \<Rightarrow> u8 list) \<Rightarrow> bool" where
  "obeys ctl geo d \<longleftrightarrow> (\<forall>tr. ctl_in ctl tr HD_STATUS = 0x58) \<and>
     (\<forall>tr j. reg HD_STATUS tr = WIN_READ \<longrightarrow>
        ctl_data ctl tr j = disk geo d tr (sel_drive tr) (sel_sector geo tr) ! j)"

lemma obeys_inb: "obeys ctl geo d \<Longrightarrow> hd_inb ctl HD_STATUS s = (0x58, s\<lparr>hd_io := In HD_STATUS 0x58 # hd_io s\<rparr>)"
  by (simp add: obeys_def hd_inb_def inb_def Let_def)

lemma obeys_result: "obeys ctl geo d \<Longrightarrow> win_result ctl s = (False, s\<lparr>hd_io := In HD_STATUS 0x58 # hd_io s\<rparr>)"
  by (simp add: win_result_def obeys_inb)

lemma obeys_ready:
  "obeys ctl geo d \<Longrightarrow> controller_ready ctl s = (9999, s\<lparr>hd_io := In HD_STATUS 0x58 # hd_io s\<rparr>)"
  using ready_loop.simps(2) [of ctl 9999 s] by (simp add: controller_ready_def obeys_inb)

lemma obeys_drq: "obeys ctl geo d \<Longrightarrow> drq_loop ctl 3000 s = (True, s\<lparr>hd_io := In HD_STATUS 0x58 # hd_io s\<rparr>)"
  using drq_loop.simps(2) [of ctl 2999 s] by (simp add: obeys_inb)

text \<open>The ports that a command fills, the command first.\<close>

definition command :: "hd_i_struct \<Rightarrow> nat \<Rightarrow> u32 \<Rightarrow> u32 \<Rightarrow> u32 \<Rightarrow> u32 \<Rightarrow> u8 \<Rightarrow> port_io list" where
  "command h drive nsect sect head cyl cmd =
     [Out 0x1f7 cmd, Out 0x1f6 (0xA0 OR push_bit 4 (of_nat drive) OR ucast head), Out 0x1f5 (ucast (drop_bit 8 cyl)),
      Out 0x1f4 (ucast cyl), Out 0x1f3 (ucast sect), Out 0x1f2 (ucast nsect),
      Out 0x1f1 (ucast (drop_bit 2 (hi_wpcom h))), Out HD_CMD (ucast (hi_ctl h)), In HD_STATUS 0x58]"

lemma obeys_hd_out:
  assumes "obeys ctl geo d" "drive \<le> 1" "head \<le> 15"
  shows "hd_out ctl drive nsect sect head cyl cmd intr s =
    Inr (s\<lparr>do_hd := Some intr, hd_io := command (hd_info s drive) drive nsect sect head cyl cmd @ hd_io s\<rparr>)"
  using assms by (simp add: hd_out_def obeys_ready hd_outb_def outb_def command_def Let_def)

lemma select_byte:
  assumes "drive \<le> 1" "unat head \<le> 15"
  shows "unat (0xA0 OR push_bit 4 (of_nat drive) OR ucast (head :: u32) :: u8) = 160 + 16 * drive + unat head"
proof -
  have "head = of_nat (unat head)" by simp
  moreover have "unat head \<in> {0, 1, 2, 3, 4, 5, 6, 7, 8, 9, 10, 11, 12, 13, 14, 15}"
    using assms(2) by (simp, presburger)
  moreover have "drive = 0 \<or> drive = 1" using assms(1) by auto
  moreover have "\<forall>n \<in> {0, 1, 2, 3, 4, 5, 6, 7, 8, 9, 10, 11, 12, 13, 14, 15}. \<forall>dr \<in> {0, 1}.
      unat (0xA0 OR push_bit 4 (of_nat dr) OR ucast (of_nat n :: u32) :: u8) = 160 + 16 * dr + n"
    by simp
  ultimately show ?thesis by (metis insertCI)
qed

lemma unat_ucast_mod: "unat (ucast (w :: u32) :: u8) = unat w mod 256"
  by (simp add: unsigned_ucast_eq take_bit_eq_mod)

lemma split_bytes: "c < 65536 \<Longrightarrow> c mod 256 + 256 * (c div 256 mod 256) = (c :: nat)"
  by (simp add: less_mult_imp_div_less)

lemma uint_dev: "uint (w :: u16) div 256 = int (MAJOR w)" "nat (uint w mod 256) = MINOR w"
  by (simp_all add: MAJOR_def MINOR_def of_nat_div nat_mod_distrib)

text \<open>Cylinder, head and sector of a sector number, and back.\<close>

lemma command_selects:
  fixes block :: u32
  assumes "drive \<le> 1" "0 < unat (hi_sect h)" "unat (hi_sect h) \<le> 255" "0 < unat (hi_head h)" "unat (hi_head h) \<le> 16"
    and "unat block < unat (hi_sect h) * unat (hi_head h) * 65536" "geo drive = h"
    and tr_def: "tr = command h drive nsect (block mod hi_sect h + 1) (block div hi_sect h mod hi_head h)
    (block div hi_sect h div hi_head h) cmd @ tr0"
  shows "reg HD_STATUS tr = cmd" "moved tr = 0" "sel_drive tr = drive" "sel_sector geo tr = unat block"
proof -
  let ?S = "unat (hi_sect h)" and ?H = "unat (hi_head h)" and ?b = "unat block"
  let ?head = "block div hi_sect h mod hi_head h" and ?cyl = "block div hi_sect h div hi_head h"
  have head: "unat ?head = ?b div ?S mod ?H" and cyl: "unat ?cyl = ?b div ?S div ?H"
    and sec: "unat (block mod hi_sect h) = ?b mod ?S"
    by (simp_all add: unat_div unat_mod)
  have "?b div ?S mod ?H < ?H" using assms(4) by (rule mod_less_divisor)
  then have hb: "unat ?head \<le> 15" unfolding head using assms(5) by linarith
  have "?b mod ?S < ?S" using assms(2) by (rule mod_less_divisor)
  then have sb: "?b mod ?S < 255" using assms(3) by linarith
  have cb: "?b div ?S div ?H < 65536"
    using assms(2,4,6) by (simp add: div_less_iff_less_mult ac_simps)
  have r6: "unat (reg 0x1f6 tr) = 160 + 16 * drive + unat ?head"
    using select_byte [OF assms(1) hb] by (simp add: tr_def command_def)
  moreover have "(160 + 16 * drive + x) div 16 mod 2 = drive" if "x \<le> 15" for x
  proof -
    have "(160 + 16 * drive + x) div 16 = (x + (10 + drive) * 16) div 16" by (simp add: algebra_simps)
    also have "\<dots> = 10 + drive" using that by (subst div_mult_self1) simp_all
    finally show ?thesis using assms(1) by (cases drive) auto
  qed
  ultimately show d: "sel_drive tr = drive" using hb by (simp add: sel_drive_def)
  show "reg HD_STATUS tr = cmd" "moved tr = 0" by (simp_all add: tr_def command_def)
  have s: "unat (block mod hi_sect h + 1) = ?b mod ?S + 1"
    using sb sec by (simp add: unat_word_ariths)
  have "unat (reg 0x1f3 tr) = ?b mod ?S + 1"
    using sb s by (simp add: tr_def command_def unat_ucast_mod)
  moreover have "unat (reg 0x1f4 tr) + 256 * unat (reg 0x1f5 tr) = ?b div ?S div ?H"
    using cyl split_bytes [OF cb] by (simp add: tr_def command_def unat_ucast_mod unat_drop_bit_eq drop_bit_eq_div unat_div)
  moreover have "unat (reg 0x1f6 tr) mod 16 = ?b div ?S mod ?H"
  proof -
    have "unat (reg 0x1f6 tr) = unat ?head + (10 + drive) * 16" using r6 by simp
    then show ?thesis using hb by (simp only: mod_mult_self1) (simp add: head)
  qed
  moreover have "moved tr = 0" by (simp add: tr_def command_def)
  ultimately show "sel_sector geo tr = ?b"
    by (simp add: sel_sector_def d assms(7))
qed

section \<open>Transfers\<close>

text \<open>\<open>req\<close> is being served for the buffer \<open>bh\<close> and has reached its sector \<open>k\<close>.\<close>

definition serving :: "hd_intr \<Rightarrow> nat \<Rightarrow> nat \<Rightarrow> nat \<Rightarrow> hd_blk \<Rightarrow> bool" where
  "serving intr bh req k s \<longleftrightarrow> dev_queue s 3 = [req] \<and> do_hd s = Some intr \<and> rq_bh (requests s req) = Some bh \<and>
     rq_buffer (requests s req) = 512 * k \<and> rq_nr_sectors (requests s req) = 2 - of_nat k \<and>
     length (b_data (bufs s bh)) = 1024"

text \<open>\<open>bh\<close> is not locked and there is nothing to do; then a transfer can start at once.\<close>

definition hd_idle :: "nat \<Rightarrow> hd_blk \<Rightarrow> bool" where
  "hd_idle bh s \<longleftrightarrow> dev_queue s 3 = [] \<and> \<not> hd_reset s \<and> \<not> hd_recalibrate s \<and> \<not> b_lock (bufs s bh) \<and>
     length (b_data (bufs s bh)) = 1024 \<and> (\<exists>r < 21. rq_dev (requests s r) < 0)"

definition hd_drive :: "nat \<Rightarrow> hd_blk \<Rightarrow> nat" where
  "hd_drive bh s = MINOR (b_dev (bufs s bh)) div 5"

text \<open>The first sector of the block of \<open>bh\<close> on its drive.\<close>

definition first_sector :: "nat \<Rightarrow> hd_blk \<Rightarrow> nat" where
  "first_sector bh s = unat (start_sect (partitions s (MINOR (b_dev (bufs s bh))))) + 2 * unat (b_blocknr (bufs s bh))"

definition on_disk :: "nat \<Rightarrow> hd_blk \<Rightarrow> bool" where
  "on_disk bh s \<longleftrightarrow>
     (let p = MINOR (b_dev (bufs s bh)); h = hd_info s (hd_drive bh s)
      in MAJOR (b_dev (bufs s bh)) = 3 \<and> p < 5 * NR_HD s \<and> NR_HD s \<le> 2 \<and>
         0 < unat (hi_sect h) \<and> unat (hi_sect h) \<le> 255 \<and> 0 < unat (hi_head h) \<and> unat (hi_head h) \<le> 16 \<and>
         2 * unat (b_blocknr (bufs s bh)) + 2 \<le> unat (nr_sects (partitions s p)) \<and>
         unat (start_sect (partitions s p)) + unat (nr_sects (partitions s p)) \<le> unat (hi_sect h) * unat (hi_head h) * 65536)"

text \<open>The command for the block of \<open>bh\<close>.\<close>

definition block_command :: "nat \<Rightarrow> u8 \<Rightarrow> hd_blk \<Rightarrow> port_io list" where
  "block_command bh cmd s =
     (let h = hd_info s (hd_drive bh s); block = of_nat (first_sector bh s)
      in command h (hd_drive bh s) 2 (block mod hi_sect h + 1) (block div hi_sect h mod hi_head h)
           (block div hi_sect h div hi_head h) cmd)"

lemma submit_hd:
  assumes "hd_idle bh s" "MAJOR (b_dev (bufs s bh)) = 3"
    and "rw = WRITE \<and> b_dirt (bufs s bh) \<or> rw = READ \<and> \<not> b_uptodate (bufs s bh)"
  shows "\<exists>req. ll_rw_block (hd_ops ctl) rw bh s = do_hd_request ctl (s\<lparr>
      requests := (requests s)(req := \<lparr>rq_dev = uint (b_dev (bufs s bh)), rq_cmd = rw, rq_errors = 0,
        rq_sector = push_bit 1 (b_blocknr (bufs s bh)), rq_nr_sectors = 2, rq_buffer = 0, rq_bh = Some bh\<rparr>),
      bufs := (bufs s)(bh := (bufs s bh)\<lparr>b_lock := True, b_dirt := False\<rparr>),
      dev_queue := (dev_queue s)(3 := [req])\<rparr>)"
proof -
  let ?n = "if rw = READ then NR_REQUEST else NR_REQUEST * 2 div 3 :: nat"
  have "21 \<le> ?n" by simp
  then have "\<exists>r < ?n. rq_dev (requests s r) < 0"
    using assms(1) less_le_trans unfolding hd_idle_def by blast
  then obtain req where "free_request (requests s) ?n = Some req" using free_request_Some by blast
  then show ?thesis
    using assms
    by (intro exI [of _ req])
      (auto simp: ll_rw_block_def hd_ops_def make_request_def lock_buffer_def upd_buf_def add_request_def hd_idle_def Let_def)
qed

lemma start_transfer:
  assumes idle: "hd_idle bh s" and on: "on_disk bh s" and obeys: "obeys ctl geo d"
    and rw: "rw = WRITE \<and> b_dirt (bufs s bh) \<or> rw = READ \<and> \<not> b_uptodate (bufs s bh)"
  shows "\<exists>req s'. ll_rw_block (hd_ops ctl) rw bh s = Inr s' \<and> serving (if rw = READ then Read_intr else Write_intr) bh req 0 s' \<and>
    bufs s' = (bufs s)(bh := (bufs s bh)\<lparr>b_lock := True, b_dirt := False\<rparr>) \<and>
    hd_io s' = (if rw = READ then [] else [Out_sector (take 512 (b_data (bufs s bh))), In HD_STATUS 0x58]) @
      block_command bh (if rw = READ then WIN_READ else WIN_WRITE) s @ hd_io s"
proof -
  define p where "p = MINOR (b_dev (bufs s bh))"
  define drive where "drive = p div 5"
  define h where "h = hd_info s drive"
  define block where "block = b_blocknr (bufs s bh) * 2 + start_sect (partitions s p)"
  have drive: "hd_drive bh s = drive" by (simp add: hd_drive_def drive_def p_def)
  have on': "MAJOR (b_dev (bufs s bh)) = 3" "p < 5 * NR_HD s" "NR_HD s \<le> 2" "0 < unat (hi_sect h)" "0 < unat (hi_head h)"
    "unat (hi_head h) \<le> 16" "2 * unat (b_blocknr (bufs s bh)) + 2 \<le> unat (nr_sects (partitions s p))"
    "unat (start_sect (partitions s p)) + unat (nr_sects (partitions s p)) \<le> unat (hi_sect h) * unat (hi_head h) * 65536"
    "unat (hi_sect h) \<le> 255"
    using on by (simp_all add: on_disk_def drive p_def [symmetric] h_def [symmetric] Let_def)
  have room: "unat (hi_sect h) * unat (hi_head h) \<le> 255 * 16" using on'(6,9) by (intro mult_mono) simp_all
  have b2: "unat (b_blocknr (bufs s bh) * 2) = 2 * unat (b_blocknr (bufs s bh))"
    using on'(7,8) room by (simp add: unat_word_ariths)
  have first: "first_sector bh s = unat block"
    using on'(7,8) room b2 by (simp add: first_sector_def p_def [symmetric] block_def unat_word_ariths)
  have drive1: "drive \<le> 1" using on'(2,3) by (simp add: drive_def)
  have dev: "uint (b_dev (bufs s bh)) div 256 = 3" "nat (uint (b_dev (bufs s bh)) mod 256) = p"
    using on'(1) by (simp_all add: uint_dev p_def)
  have blk: "block mod hi_sect h + 1 = of_nat (first_sector bh s) mod hi_sect h + 1" "of_nat (first_sector bh s) = block"
    by (simp_all add: first)
  obtain req where sub: "ll_rw_block (hd_ops ctl) rw bh s = do_hd_request ctl (s\<lparr>
      requests := (requests s)(req := \<lparr>rq_dev = uint (b_dev (bufs s bh)), rq_cmd = rw, rq_errors = 0,
        rq_sector = push_bit 1 (b_blocknr (bufs s bh)), rq_nr_sectors = 2, rq_buffer = 0, rq_bh = Some bh\<rparr>),
      bufs := (bufs s)(bh := (bufs s bh)\<lparr>b_lock := True, b_dirt := False\<rparr>),
      dev_queue := (dev_queue s)(3 := [req])\<rparr>)" (is "_ = do_hd_request ctl ?s")
    using submit_hd [OF idle on'(1) rw] by blast
  let ?sec = "block mod hi_sect h + 1" and ?head = "block div hi_sect h mod hi_head h"
    and ?cyl = "block div hi_sect h div hi_head h"
  have head: "?head \<le> 15"
  proof -
    have "unat (block div hi_sect h) mod unat (hi_head h) < unat (hi_head h)" using on'(5) by (rule mod_less_divisor)
    then show ?thesis using on'(6) by (simp add: word_le_nat_alt unat_mod)
  qed
  have in_part: "b_blocknr (bufs s bh) * 2 + 2 \<le> nr_sects (partitions s p)"
  proof -
    have "unat (b_blocknr (bufs s bh) * 2 + 2) = 2 * unat (b_blocknr (bufs s bh)) + 2"
      using on'(7,8) room unfolding b2 [symmetric] by (intro unat_add_numeral) simp
    then show ?thesis using on'(7) by (simp add: word_le_nat_alt)
  qed
  have nz: "hi_sect h \<noteq> 0" "hi_head h \<noteq> 0" using on'(4,5) by auto
  have req: "hd_request ctl req ?s = hd_transfer ctl req drive ?sec ?head ?cyl ?s"
    using in_part on'(2) nz dev
    by (simp add: hd_request_def Let_def h_def [symmetric] drive_def [symmetric] block_def [symmetric]
        linorder_not_less [symmetric])
  let ?intr = "if rw = READ then Read_intr else Write_intr"
    and ?tr = "(if rw = READ then [] else [Out_sector (take 512 (b_data (bufs s bh))), In HD_STATUS 0x58]) @
      block_command bh (if rw = READ then WIN_READ else WIN_WRITE) s @ hd_io s"
  have run: "hd_transfer ctl req drive ?sec ?head ?cyl ?s = Inr (False, ?s\<lparr>do_hd := Some ?intr, hd_io := ?tr\<rparr>)"
    using idle rw obeys_hd_out [OF obeys drive1 head] obeys_drq [OF obeys]
    by (auto simp: hd_transfer_def Let_def hd_idle_def load_sector_def port_write_def block_command_def drive h_def first)
  have "dev_queue ?s 3 = [req]" by simp
  then have "hd_loop ctl ?s = Some (Inr (?s\<lparr>do_hd := Some ?intr, hd_io := ?tr\<rparr>))"
    by (subst hd_loop.simps) (simp only: list.case req run sum.case prod.case if_False)
  then have "ll_rw_block (hd_ops ctl) rw bh s = Inr (?s\<lparr>do_hd := Some ?intr, hd_io := ?tr\<rparr>)"
    by (simp add: sub do_hd_request_def returns_def)
  then show ?thesis
    using idle by (intro exI [of _ req] exI [of _ "?s\<lparr>do_hd := Some ?intr, hd_io := ?tr\<rparr>"])
      (simp add: serving_def hd_idle_def)
qed

text \<open>The interrupts of a transfer.\<close>

lemma read_step:
  assumes "serving Read_intr bh req k s" "obeys ctl geo d" "k \<le> 1"
  defines "bs \<equiv> map (ctl_data ctl (In HD_STATUS 0x58 # hd_io s)) [0..<512]"
    and "tr \<equiv> In_sector # In HD_STATUS 0x58 # hd_io s"
  shows "\<exists>s'. hd_interrupt ctl s = Inr s' \<and> hd_io s' = tr \<and>
    (if k = 0 then serving Read_intr bh req 1 s' \<and>
        bufs s' = (bufs s)(bh := b_data_update (put_bytes 0 bs) (bufs s bh))
     else dev_queue s' 3 = [] \<and>
        bufs s' = (bufs s)(bh := (b_data_update (put_bytes 512 bs) (bufs s bh))\<lparr>b_uptodate := True, b_lock := False\<rparr>))"
proof -
  have q: "dev_queue s 3 = [req]" "do_hd s = Some Read_intr" "rq_bh (requests s req) = Some bh"
    "rq_buffer (requests s req) = 512 * k" "rq_nr_sectors (requests s req) = 2 - of_nat k" "length (b_data (bufs s bh)) = 1024"
    using assms(1) by (simp_all add: serving_def)
  consider "k = 0" | "k = 1" using assms(3) by linarith
  then show ?thesis
  proof cases
    case 1
    then show ?thesis
      using q by (simp add: hd_interrupt_def read_intr_def obeys_result [OF assms(2)] with_current_def port_read_def
          store_sector_def upd_buf_def upd_req_def Let_def serving_def bs_def tr_def length_put_bytes)
  next
    case 2
    have "do_hd_request ctl t = Inr t" if "dev_queue t 3 = []" for t
      using that by (simp add: do_hd_request_def returns_def hd_loop.simps)
    then show ?thesis
      using q 2 by (simp add: hd_interrupt_def read_intr_def obeys_result [OF assms(2)] with_current_def port_read_def
          store_sector_def upd_buf_def upd_req_def Let_def bs_def tr_def end_request_def unlock_buffer_def)
  qed
qed

lemma write_step:
  assumes "serving Write_intr bh req k s" "obeys ctl geo d" "k \<le> 1"
  shows "\<exists>s'. hd_interrupt ctl s = Inr s' \<and>
    (if k = 0 then serving Write_intr bh req 1 s' \<and> bufs s' = bufs s \<and>
        hd_io s' = Out_sector (drop 512 (b_data (bufs s bh))) # In HD_STATUS 0x58 # hd_io s
     else dev_queue s' 3 = [] \<and> bufs s' = (bufs s)(bh := (bufs s bh)\<lparr>b_uptodate := True, b_lock := False\<rparr>) \<and>
        hd_io s' = In HD_STATUS 0x58 # hd_io s)"
proof -
  have q: "dev_queue s 3 = [req]" "do_hd s = Some Write_intr" "rq_bh (requests s req) = Some bh"
    "rq_buffer (requests s req) = 512 * k" "rq_nr_sectors (requests s req) = 2 - of_nat k" "length (b_data (bufs s bh)) = 1024"
    using assms(1) by (simp_all add: serving_def)
  consider "k = 0" | "k = 1" using assms(3) by linarith
  then show ?thesis
  proof cases
    case 1
    then show ?thesis
      using q by (simp add: hd_interrupt_def write_intr_def obeys_result [OF assms(2)] with_current_def port_write_def
          load_sector_def upd_req_def Let_def serving_def)
  next
    case 2
    have "do_hd_request ctl t = Inr t" if "dev_queue t 3 = []" for t
      using that by (simp add: do_hd_request_def returns_def hd_loop.simps)
    then show ?thesis
      using q 2 by (simp add: hd_interrupt_def write_intr_def obeys_result [OF assms(2)] with_current_def
          upd_req_def Let_def end_request_def unlock_buffer_def upd_buf_def)
  qed
qed

text \<open>Two sectors in place of a block.\<close>

lemma two_sectors:
  assumes "length d = 1024" "length xs = 512" "length ys = 512"
  shows "put_bytes 512 ys (put_bytes 0 xs d) = xs @ ys"
  using assms by (simp add: put_bytes_def)

lemma on_disk_command:
  assumes "on_disk bh s" "geo (hd_drive bh s) = hd_info s (hd_drive bh s)"
  shows "reg HD_STATUS (block_command bh cmd s @ tr) = cmd" "moved (block_command bh cmd s @ tr) = 0"
    "sel_drive (block_command bh cmd s @ tr) = hd_drive bh s"
    "sel_sector geo (block_command bh cmd s @ tr) = first_sector bh s"
proof -
  define h where "h = hd_info s (hd_drive bh s)"
  let ?p = "MINOR (b_dev (bufs s bh))"
  have on: "?p < 5 * NR_HD s" "NR_HD s \<le> 2" "0 < unat (hi_sect h)" "unat (hi_sect h) \<le> 255" "0 < unat (hi_head h)"
    "unat (hi_head h) \<le> 16" "2 * unat (b_blocknr (bufs s bh)) + 2 \<le> unat (nr_sects (partitions s ?p))"
    "unat (start_sect (partitions s ?p)) + unat (nr_sects (partitions s ?p)) \<le> unat (hi_sect h) * unat (hi_head h) * 65536"
    using assms(1) by (simp_all add: on_disk_def Let_def h_def [symmetric])
  have "unat (hi_sect h) * unat (hi_head h) \<le> 255 * 16" using on(4,6) by (intro mult_mono) simp_all
  then have lt: "first_sector bh s < unat (hi_sect h) * unat (hi_head h) * 65536" "first_sector bh s < 2 ^ 32"
    using on(7,8) by (simp_all add: first_sector_def)
  then have f: "unat (of_nat (first_sector bh s) :: u32) = first_sector bh s" by (simp add: unat_of_nat)
  have d: "hd_drive bh s \<le> 1" using on(1,2) by (simp add: hd_drive_def)
  have t: "block_command bh cmd s @ tr = command h (hd_drive bh s) 2 (of_nat (first_sector bh s) mod hi_sect h + 1)
      (of_nat (first_sector bh s) div hi_sect h mod hi_head h) (of_nat (first_sector bh s) div hi_sect h div hi_head h) cmd @ tr"
    by (simp add: block_command_def h_def Let_def)
  have "unat (of_nat (first_sector bh s) :: u32) < unat (hi_sect h) * unat (hi_head h) * 65536" using lt by (simp only: f)
  note c = command_selects [where geo = geo, OF d on(3-6) this assms(2) [folded h_def] t]
  show "reg HD_STATUS (block_command bh cmd s @ tr) = cmd" "moved (block_command bh cmd s @ tr) = 0"
    "sel_drive (block_command bh cmd s @ tr) = hd_drive bh s"
    "sel_sector geo (block_command bh cmd s @ tr) = first_sector bh s"
    using c by (simp_all only: f)
qed

lemma obeys_data:
  assumes "obeys ctl geo d" "reg HD_STATUS tr = WIN_READ"
    and "length (disk geo d tr (sel_drive tr) (sel_sector geo tr)) = 512"
  shows "map (ctl_data ctl tr) [0..<512] = disk geo d tr (sel_drive tr) (sel_sector geo tr)"
  using assms by (intro nth_equalityI) (auto simp: obeys_def)

text \<open>The contents of the block of \<open>bh\<close> on the disk.\<close>

definition block_on_disk :: "(nat \<Rightarrow> hd_i_struct) \<Rightarrow> (nat \<Rightarrow> nat \<Rightarrow> u8 list) \<Rightarrow> nat \<Rightarrow> hd_blk \<Rightarrow> port_io list \<Rightarrow> u8 list" where
  "block_on_disk geo d bh s tr =
     disk geo d tr (hd_drive bh s) (first_sector bh s) @ disk geo d tr (hd_drive bh s) (first_sector bh s + 1)"

lemma sel_step [simp]:
  "sel_drive (In p v # tr) = sel_drive tr" "sel_drive (Out_sector bs # tr) = sel_drive tr" "sel_drive (In_sector # tr) = sel_drive tr"
  "sel_sector geo (In p v # tr) = sel_sector geo tr" "sel_sector geo (Out_sector bs # tr) = Suc (sel_sector geo tr)"
  "sel_sector geo (In_sector # tr) = Suc (sel_sector geo tr)"
  by (simp_all add: sel_drive_def sel_sector_def)

lemma disk_command [simp]: "disk geo d (block_command bh cmd s @ tr) = disk geo d tr"
  by (simp add: block_command_def command_def Let_def)

definition whole_block :: "(nat \<Rightarrow> hd_i_struct) \<Rightarrow> (nat \<Rightarrow> nat \<Rightarrow> u8 list) \<Rightarrow> nat \<Rightarrow> hd_blk \<Rightarrow> bool" where
  "whole_block geo d bh s \<longleftrightarrow> length (disk geo d (hd_io s) (hd_drive bh s) (first_sector bh s)) = 512 \<and>
     length (disk geo d (hd_io s) (hd_drive bh s) (Suc (first_sector bh s))) = 512"

text \<open>C12: Reading a block of a partition: the driver gives the controller one command, and after its two
  interrupts the buffer has the block's two sectors as they are on the disk, is up to date and unlocked.
\<close>

theorem hd_reads_block:
  assumes "hd_idle bh s" "on_disk bh s" "\<not> b_uptodate (bufs s bh)"
    and "obeys ctl geo d" "geo (hd_drive bh s) = hd_info s (hd_drive bh s)" "whole_block geo d bh s"
  shows "\<exists>s1 s2 s3. ll_rw_block (hd_ops ctl) READ bh s = Inr s1 \<and> hd_interrupt ctl s1 = Inr s2 \<and>
    hd_interrupt ctl s2 = Inr s3 \<and> dev_queue s3 3 = [] \<and>
    bufs s3 = (bufs s)(bh := (bufs s bh)\<lparr>b_data := block_on_disk geo d bh s (hd_io s), b_uptodate := True,
      b_dirt := False\<rparr>)"
proof -
  let ?cmd = "block_command bh WIN_READ s @ hd_io s"
  let ?sector = "\<lambda>i. disk geo d (hd_io s) (hd_drive bh s) (first_sector bh s + i)"
  note sel = on_disk_command [where geo = geo, OF assms(2,5), of WIN_READ "hd_io s"]
  have len: "length (?sector 0) = 512" "length (?sector 1) = 512" using assms(6) by (simp_all add: whole_block_def)
  obtain req s1 where s1: "ll_rw_block (hd_ops ctl) READ bh s = Inr s1" "serving Read_intr bh req 0 s1"
    "bufs s1 = (bufs s)(bh := (bufs s bh)\<lparr>b_lock := True, b_dirt := False\<rparr>)" "hd_io s1 = ?cmd"
    using start_transfer [OF assms(1,2,4), of READ] assms(3) by auto
  have bs1: "map (ctl_data ctl (In HD_STATUS 0x58 # hd_io s1)) [0..<512] = ?sector 0"
    using obeys_data [OF assms(4), of "In HD_STATUS 0x58 # ?cmd"] len(1) sel by (simp add: s1(4))
  obtain s2 where s2: "hd_interrupt ctl s1 = Inr s2" "serving Read_intr bh req 1 s2"
    "hd_io s2 = In_sector # In HD_STATUS 0x58 # ?cmd"
    "bufs s2 = (bufs s1)(bh := b_data_update (put_bytes 0 (?sector 0)) (bufs s1 bh))"
    using read_step [OF s1(2) assms(4)] unfolding bs1 by (auto simp: s1(4))
  have bs2: "map (ctl_data ctl (In HD_STATUS 0x58 # hd_io s2)) [0..<512] = ?sector 1"
    using obeys_data [OF assms(4), of "In HD_STATUS 0x58 # In_sector # In HD_STATUS 0x58 # ?cmd"] len(2) sel
    by (simp add: s2(3))
  obtain s3 where s3: "hd_interrupt ctl s2 = Inr s3" "dev_queue s3 3 = []"
    "bufs s3 = (bufs s2)(bh := (b_data_update (put_bytes 512 (?sector 1)) (bufs s2 bh))\<lparr>b_uptodate := True, b_lock := False\<rparr>)"
    using read_step [OF s2(2) assms(4)] unfolding bs2 by auto
  have "length (b_data (bufs s bh)) = 1024" "\<not> b_lock (bufs s bh)" using assms(1) by (simp_all add: hd_idle_def)
  with two_sectors [OF _ len] have "bufs s3 bh = (bufs s bh)\<lparr>b_data := block_on_disk geo d bh s (hd_io s),
      b_uptodate := True, b_dirt := False\<rparr>"
    by (intro buffer_head.equality) (simp_all add: s1(3) s2(4) s3(3) block_on_disk_def)
  then have "bufs s3 = (bufs s)(bh := (bufs s bh)\<lparr>b_data := block_on_disk geo d bh s (hd_io s), b_uptodate := True,
      b_dirt := False\<rparr>)"
    by (auto simp: s1(3) s2(4) s3(3) fun_eq_iff)
  then show ?thesis using s1(1) s2(1) s3(1,2) by blast
qed

text \<open>C13: Writing a block: after the command, the data and two interrupts the block on the disk is the
  buffer's data, and no other sector has changed.
\<close>

theorem hd_writes_block:
  assumes "hd_idle bh s" "on_disk bh s" "b_dirt (bufs s bh)"
    and "obeys ctl geo d" "geo (hd_drive bh s) = hd_info s (hd_drive bh s)"
  shows "\<exists>s1 s2 s3. ll_rw_block (hd_ops ctl) WRITE bh s = Inr s1 \<and> hd_interrupt ctl s1 = Inr s2 \<and>
    hd_interrupt ctl s2 = Inr s3 \<and> dev_queue s3 3 = [] \<and>
    bufs s3 = (bufs s)(bh := (bufs s bh)\<lparr>b_uptodate := True, b_dirt := False\<rparr>) \<and>
    block_on_disk geo d bh s (hd_io s3) = b_data (bufs s bh) \<and>
    (\<forall>dr i. (dr, i) \<notin> {(hd_drive bh s, first_sector bh s), (hd_drive bh s, first_sector bh s + 1)} \<longrightarrow>
       disk geo d (hd_io s3) dr i = disk geo d (hd_io s) dr i)"
proof -
  let ?d = "b_data (bufs s bh)"
  let ?cmd = "block_command bh WIN_WRITE s @ hd_io s"
  let ?tr = "In HD_STATUS 0x58 # Out_sector (drop 512 ?d) # In HD_STATUS 0x58 # Out_sector (take 512 ?d) # In HD_STATUS 0x58 # ?cmd"
  note sel = on_disk_command [where geo = geo, OF assms(2,5), of WIN_WRITE "hd_io s"]
  obtain req s1 where s1: "ll_rw_block (hd_ops ctl) WRITE bh s = Inr s1" "serving Write_intr bh req 0 s1"
    "bufs s1 = (bufs s)(bh := (bufs s bh)\<lparr>b_lock := True, b_dirt := False\<rparr>)"
    "hd_io s1 = Out_sector (take 512 ?d) # In HD_STATUS 0x58 # ?cmd"
    using start_transfer [OF assms(1,2,4), of WRITE] assms(3) by auto
  obtain s2 where s2: "hd_interrupt ctl s1 = Inr s2" "serving Write_intr bh req 1 s2" "bufs s2 = bufs s1"
    "hd_io s2 = Out_sector (drop 512 ?d) # In HD_STATUS 0x58 # hd_io s1"
    using write_step [OF s1(2) assms(4)] by (auto simp: s1(3))
  obtain s3 where s3: "hd_interrupt ctl s2 = Inr s3" "dev_queue s3 3 = []" "hd_io s3 = ?tr"
    "bufs s3 = (bufs s2)(bh := (bufs s2 bh)\<lparr>b_uptodate := True, b_lock := False\<rparr>)"
    using write_step [OF s2(2) assms(4)] by (auto simp: s2(4) s1(4))
  have lock: "\<not> b_lock (bufs s bh)" using assms(1) by (simp add: hd_idle_def)
  then have "bufs s3 bh = (bufs s bh)\<lparr>b_uptodate := True, b_dirt := False\<rparr>"
    by (intro buffer_head.equality) (simp_all add: s1(3) s2(3) s3(4))
  then have "bufs s3 = (bufs s)(bh := (bufs s bh)\<lparr>b_uptodate := True, b_dirt := False\<rparr>)"
    by (auto simp: s1(3) s2(3) s3(4) fun_eq_iff)
  moreover have "block_on_disk geo d bh s (hd_io s3) = ?d"
    using sel by (simp add: s3(3) block_on_disk_def)
  moreover have "\<forall>dr i. (dr, i) \<notin> {(hd_drive bh s, first_sector bh s), (hd_drive bh s, first_sector bh s + 1)} \<longrightarrow>
       disk geo d (hd_io s3) dr i = disk geo d (hd_io s) dr i"
    using sel by (auto simp: s3(3))
  ultimately show ?thesis using s1(1) s2(1) s3(1,2) by blast
qed

text \<open>C26: After the last error that a request may have \<open>bad_rw_intr\<close> ends it and then reads the errors of
  \<open>CURRENT\<close>: with no further request in the queue this is a null pointer.
\<close>

theorem hd_last_error_undefined:
  "bad_rw_intr s = Inl Undefined \<longleftrightarrow>
    dev_queue s 3 = [] \<or> (\<exists>req. dev_queue s 3 = [req] \<and> rq_errors (requests s req) \<ge> 6)"
  by (auto simp: bad_rw_intr_def with_current_def Let_def upd_req_def end_request_def unlock_buffer_def upd_buf_def
      split: list.splits option.splits)

section \<open>A small disk\<close>

definition ide :: "(nat \<Rightarrow> hd_i_struct) \<Rightarrow> (nat \<Rightarrow> nat \<Rightarrow> u8 list) \<Rightarrow> controller" where
  "ide geo d = \<lparr>ctl_in = (\<lambda>_ _. 0x58), ctl_data = (\<lambda>tr j. disk geo d tr (sel_drive tr) (sel_sector geo tr) ! j)\<rparr>"

lemma ide_obeys: "obeys (ide geo d) geo d"
  by (simp add: obeys_def ide_def)

definition small_hd :: hd_blk where
  "small_hd = \<lparr>bufs = (\<lambda>_. \<lparr>b_data = replicate 1024 9, b_blocknr = 3, b_dev = 0x301, b_uptodate = False, b_dirt = True,
       b_count = 1, b_lock = False\<rparr>), nr_buffers = 1, hash_table = (\<lambda>_. []), free_list = [0], null_b_prev = None,
     requests = (\<lambda>_. \<lparr>rq_dev = -1, rq_cmd = 0, rq_errors = 0, rq_sector = 0, rq_nr_sectors = 0, rq_buffer = 0, rq_bh = None\<rparr>),
     dev_queue = (\<lambda>_. []), rd_start = (\<lambda>_. 0), rd_length = 0, hd_recalibrate = False, hd_reset = False,
     hd_info = (\<lambda>_. \<lparr>hi_head = 4, hi_sect = 17, hi_cyl = 615, hi_wpcom = 300, hi_lzone = 0, hi_ctl = 8\<rparr>), NR_HD = 1,
     partitions = (\<lambda>_. \<lparr>start_sect = 17, nr_sects = 1000\<rparr>), do_hd = None, hd_io = []\<rparr>"

definition small_disk :: "nat \<Rightarrow> nat \<Rightarrow> u8 list" where
  "small_disk dr i = replicate 512 (of_nat i)"

lemma small_hd_ready:
  "hd_idle 0 small_hd" "on_disk 0 small_hd" "hd_drive 0 small_hd = 0" "first_sector 0 small_hd = 23"
  "whole_block (hd_info small_hd) small_disk 0 small_hd"
  by (auto simp: hd_idle_def on_disk_def small_hd_def hd_drive_def MAJOR_def MINOR_def first_sector_def whole_block_def
      small_disk_def intro: exI [of _ 0])

lemma hd_reads_block_witness:
  "\<exists>s1 s2 s3. ll_rw_block (hd_ops (ide (hd_info small_hd) small_disk)) READ 0 small_hd = Inr s1 \<and>
    hd_interrupt (ide (hd_info small_hd) small_disk) s1 = Inr s2 \<and>
    hd_interrupt (ide (hd_info small_hd) small_disk) s2 = Inr s3 \<and>
    b_data (bufs s3 0) = replicate 512 23 @ replicate 512 24"
proof -
  have "\<not> b_uptodate (bufs small_hd 0)" by (simp add: small_hd_def)
  from hd_reads_block [OF small_hd_ready(1,2) this ide_obeys [of "hd_info small_hd" small_disk] refl small_hd_ready(5)] obtain s1 s2 s3 where
    "ll_rw_block (hd_ops (ide (hd_info small_hd) small_disk)) READ 0 small_hd = Inr s1"
    "hd_interrupt (ide (hd_info small_hd) small_disk) s1 = Inr s2" "hd_interrupt (ide (hd_info small_hd) small_disk) s2 = Inr s3"
    "b_data (bufs s3 0) = block_on_disk (hd_info small_hd) small_disk 0 small_hd (hd_io small_hd)" by auto
  moreover have "block_on_disk (hd_info small_hd) small_disk 0 small_hd (hd_io small_hd) = replicate 512 23 @ replicate 512 24"
    unfolding block_on_disk_def small_hd_ready(3,4) by (simp add: small_hd_def small_disk_def)
  ultimately show ?thesis by auto
qed

lemma hd_writes_block_witness:
  "\<exists>s1 s2 s3. ll_rw_block (hd_ops (ide (hd_info small_hd) small_disk)) WRITE 0 small_hd = Inr s1 \<and>
    hd_interrupt (ide (hd_info small_hd) small_disk) s1 = Inr s2 \<and>
    hd_interrupt (ide (hd_info small_hd) small_disk) s2 = Inr s3 \<and>
    block_on_disk (hd_info small_hd) small_disk 0 small_hd (hd_io s3) = replicate 1024 9"
proof -
  have "b_dirt (bufs small_hd 0)" by (simp add: small_hd_def)
  from hd_writes_block [OF small_hd_ready(1,2) this ide_obeys [of "hd_info small_hd" small_disk] refl] obtain s1 s2 s3 where
    "ll_rw_block (hd_ops (ide (hd_info small_hd) small_disk)) WRITE 0 small_hd = Inr s1"
    "hd_interrupt (ide (hd_info small_hd) small_disk) s1 = Inr s2" "hd_interrupt (ide (hd_info small_hd) small_disk) s2 = Inr s3"
    "block_on_disk (hd_info small_hd) small_disk 0 small_hd (hd_io s3) = b_data (bufs small_hd 0)" by blast
  then show ?thesis by (auto simp: small_hd_def)
qed

lemma hd_never_stalls_witness:
  "\<exists>s. (hd_step (ide (hd_info small_hd) small_disk))\<^sup>*\<^sup>* small_hd s \<and> (dev_queue s 3 \<noteq> [] \<longrightarrow> do_hd s \<noteq> None)"
proof -
  let ?c = "ide (hd_info small_hd) small_disk"
  obtain s1 where s1: "ll_rw_block (hd_ops ?c) WRITE 0 small_hd = Inr s1"
    using start_transfer [OF small_hd_ready(1,2) ide_obeys, of WRITE] by (auto simp: small_hd_def)
  then have run: "(hd_step ?c)\<^sup>*\<^sup>* small_hd s1" by (intro r_into_rtranclp submit)
  have "dev_queue small_hd 3 = []" by (simp add: small_hd_def)
  from hd_never_stalls [OF run this] run show ?thesis by blast
qed

end
