(* ===== verification/Ramdisk.thy ===== *)
theory Ramdisk
  imports Inode
begin

text \<open>
  \<open>rd_load\<close> of \<^verbatim>\<open>kernel/blk_drv/ramdisk.c\<close>: when the system starts from a floppy disk, the file system
  image from its block 256 on is copied to the RAM disk, which becomes the root device. The buffers are
  reached through the cache; what the routine prints is left out.
\<close>

abbreviation (input) SUPER_MAGIC :: u16 where "SUPER_MAGIC \<equiv> 0x137f"

text \<open>
  The loop, with \<open>nblocks\<close> to go and \<open>cp\<close> bytes copied: whether it ran to its end. A store beyond
  \<open>rd_length\<close> is undefined.
\<close>

fun rd_load_loop :: "fs_drv \<Rightarrow> nat \<Rightarrow> u32 \<Rightarrow> nat \<Rightarrow> fs \<Rightarrow> (bool \<times> fs) res" where
  "rd_load_loop ops 0 block cp s = Inr (True, s)"
| "rd_load_loop ops (Suc n) block cp s =
     kbind (if sint (of_nat (Suc n) :: u32) > 2 then breada ops (root_dev s) block [block + 1, block + 2] s
            else bread ops (root_dev s) block s) (\<lambda>(bh, s).
       case bh of
         None \<Rightarrow> Inr (False, s)
       | Some bh \<Rightarrow>
           if cp + 1024 > rd_length s then Inl Undefined
           else kbind (brelse bh (rd_store cp (take 1024 (b_data (bufs s bh))) s))
                  (rd_load_loop ops n (block + 1) (cp + 1024)))"

definition rd_load :: "fs_drv \<Rightarrow> fs \<Rightarrow> fs res" where
  "rd_load ops s =
     (if rd_length s = 0 then Inr s
      else if MAJOR (root_dev s) \<noteq> 2 then Inr s
      else kbind (breada ops (root_dev s) 257 [256, 258] s) (\<lambda>(bh, s).
        case bh of
          None \<Rightarrow> Inr s
        | Some bh \<Rightarrow>
            let d = b_data (bufs s bh)
            in kbind (brelse bh s) (\<lambda>s.
               if u16_at d 16 \<noteq> SUPER_MAGIC then Inr s
               else if u16_at d 10 \<ge> 32 then Inl Undefined
               else let nblocks = push_bit (unat (u16_at d 10)) (ucast (u16_at d 2)) :: u32
                    in if sint nblocks > int (rd_length s div 1024) then Inr s
                       else kbind (rd_load_loop ops (unat nblocks) 256 0 s) (\<lambda>(done, s).
                         Inr (if done then s\<lparr>root_dev := 0x0101\<rparr> else s)))))"

end
