(* ===== verification/Ramdisk_Facts.thy ===== *)
theory Ramdisk_Facts
  imports Ramdisk Bitmap_Facts
begin

text \<open>\<open>rd_load\<close> on an image whose blocks are in the buffer cache: the RAM disk is a copy of it.\<close>

lemma read_ahead_resident:
  assumes "\<forall>b \<in> set bs. \<exists>i. resident dev b i s"
  shows "read_ahead ops dev bh bs s = Inr s"
  using assms
proof (induction bs)
  case (Cons b bs)
  then obtain i where i: "find_buffer dev b s = Some i" "\<not> b_lock (bufs s i)" "b_uptodate (bufs s i)"
    by (auto simp: resident_def at_hand_def)
  have "upd_buf i (b_count_update (\<lambda>c. c - 1)) (hold i s) = s"
    by (simp add: hold_def cache_simps comp_def upd_buf_id)
  then show ?case using Cons i by (simp add: getblk_hit [OF i(1,2)] hold_def cache_simps)
qed simp

lemma resident_hold:
  assumes "resident dev n i s" "resident dev n' i' s" "n \<noteq> n'"
  shows "resident dev n' i' (hold i s)"
proof -
  have "holds dev n (bufs s i)" "holds dev n' (bufs s i')"
    using assms find_buffer_holds by (auto simp: resident_def at_hand_def)
  then have "i \<noteq> i'" using assms(3) by (auto simp: holds_def)
  then show ?thesis using assms(2) by (auto simp: resident_def at_hand_def) (auto simp: hold_def cache_simps)
qed

lemma breada_resident:
  assumes "resident dev b i s" "\<forall>b' \<in> set ahead. b' \<noteq> b \<and> (\<exists>i. resident dev b' i s)"
  shows "breada ops dev b ahead s = Inr (Some i, hold i s)"
proof -
  have i: "find_buffer dev b s = Some i" "\<not> b_lock (bufs s i)" "b_uptodate (bufs s i)"
    using assms(1) by (auto simp: resident_def at_hand_def)
  have "read_ahead ops dev i ahead (hold i s) = Inr (hold i s)"
    using assms resident_hold [OF assms(1)] by (intro read_ahead_resident) metis
  then show ?thesis
    using i by (simp add: breada_def getblk_hit [OF i(1,2)] wait_uptodate_def wait_on_buffer_def hold_def cache_simps)
qed

lemma rd_store_sel [simp]:
  "root_dev (rd_store a bs (s :: fs)) = root_dev s" "bufs (rd_store a bs s) = bufs s" "rd_length (rd_store a bs s) = rd_length s"
  "find_buffer dev n (rd_store a bs s) = find_buffer dev n s" "rd_length (hold i s) = rd_length s"
  by (simp_all add: rd_store_def find_buffer_def hold_def upd_buf_def)

lemma hold_rd_store [simp]: "hold i (rd_store a bs (s :: fs)) = rd_store a bs (hold i s)"
  by (rule fs.equality) (simp_all add: rd_store_def hold_def upd_buf_def cong: if_cong)

lemma resident_rd_store [simp]: "resident dev n i (rd_store a bs (s :: fs)) = resident dev n i s"
  by (simp add: resident_def at_hand_def)

lemma brelse_rd_store:
  "resident dev n i (s :: fs) \<Longrightarrow> brelse i (rd_store a bs (hold i s)) = Inr (rd_store a bs s)"
  using brelse_hold [of "rd_store a bs s" i] by (simp add: resident_def at_hand_def)

lemma rd_load_loop_copies:
  assumes "\<forall>j < n. resident (root_dev s) (block + of_nat j) (bf j) s \<and> length (b_data (bufs s (bf j))) = 1024"
    and "cp + 1024 * n \<le> rd_length s" "n < 2 ^ 31"
  shows "\<exists>s'. rd_load_loop ops n block cp s = Inr (True, s') \<and> rd_bytes cp (1024 * n) s' =
      concat (map (\<lambda>j. b_data (bufs s (bf j))) [0..<n]) \<and>
    (\<forall>a. a < cp \<or> cp + 1024 * n \<le> a \<longrightarrow> rd_start s' a = rd_start s a) \<and> s' = s\<lparr>rd_start := rd_start s'\<rparr>"
  using assms
proof (induction n arbitrary: block cp s bf)
  case 0
  then show ?case by (auto simp: rd_bytes_def)
next
  case (Suc n)
  let ?s = "rd_store cp (b_data (bufs s (bf 0))) s"
  have r0: "resident (root_dev s) block (bf 0) s" "length (b_data (bufs s (bf 0))) = 1024" using Suc.prems(1) by auto
  have get: "(if sint (of_nat (Suc n) :: u32) > 2 then breada ops (root_dev s) block [block + 1, block + 2] s
      else bread ops (root_dev s) block s) = Inr (Some (bf 0), hold (bf 0) s)"
  proof (cases "2 \<le> n")
    case True
    have "resident (root_dev s) (block + 1) (bf 1) s" "resident (root_dev s) (block + 2) (bf 2) s"
      using Suc.prems(1) [rule_format, of 1] Suc.prems(1) [rule_format, of 2] True by simp_all
    then have "breada ops (root_dev s) block [block + 1, block + 2] s = Inr (Some (bf 0), hold (bf 0) s)"
      by (intro breada_resident [OF r0(1)]) auto
    then show ?thesis using bread_resident [OF r0(1)] by simp
  next
    case False
    then have "n = 0 \<or> n = 1" by auto
    then have "\<not> sint (of_nat (Suc n) :: u32) > 2" by auto
    then show ?thesis using bread_resident [OF r0(1)] by simp
  qed
  have step: "rd_load_loop ops (Suc n) block cp s = rd_load_loop ops n (block + 1) (cp + 1024) ?s"
    using Suc.prems(2) r0 get brelse_rd_store [OF r0(1)]
    by (simp add: hold_def cache_simps) (simp add: hold_def [symmetric])
  have "\<forall>j < n. resident (root_dev ?s) (block + 1 + of_nat j) (bf (Suc j)) ?s \<and> length (b_data (bufs ?s (bf (Suc j)))) = 1024"
    using Suc.prems(1) by (auto simp: add.assoc dest: spec [of _ "Suc _"])
  moreover have "cp + 1024 + 1024 * n \<le> rd_length ?s" "n < 2 ^ 31" using Suc.prems(2,3) by simp_all
  ultimately obtain s' where s': "rd_load_loop ops n (block + 1) (cp + 1024) ?s = Inr (True, s')"
    "rd_bytes (cp + 1024) (1024 * n) s' = concat (map (\<lambda>j. b_data (bufs s (bf (Suc j)))) [0..<n])"
    "\<And>a. a < cp + 1024 \<or> cp + 1024 + 1024 * n \<le> a \<Longrightarrow> rd_start s' a = rd_start ?s a" "s' = ?s\<lparr>rd_start := rd_start s'\<rparr>"
    using Suc.IH [where block = "block + 1" and bf = "\<lambda>j. bf (Suc j)" and s = ?s and cp = "cp + 1024"] by auto
  have "rd_bytes cp (1024 * Suc n) s' = rd_bytes cp 1024 s' @ rd_bytes (cp + 1024) (1024 * n) s'"
    using upt_add_eq_append [of cp "cp + 1024" "1024 * n"]
    by (simp add: rd_bytes_def add.assoc flip: map_append)
  moreover have "rd_bytes cp 1024 s' = b_data (bufs s (bf 0))"
    using r0(2) s'(3) by (intro nth_equalityI) (auto simp: rd_bytes_def rd_store_def)
  moreover have "rd_start s' a = rd_start s a" if "a < cp \<or> cp + 1024 * Suc n \<le> a" for a
    using s'(3) [of a] that r0(2) by (auto simp: rd_store_def)
  moreover have "s' = s\<lparr>rd_start := rd_start s'\<rparr>" using s'(4) by (simp add: rd_store_def)
  moreover have "concat (map (\<lambda>j. b_data (bufs s (bf j))) [0..<Suc n]) =
      b_data (bufs s (bf 0)) @ concat (map (\<lambda>j. b_data (bufs s (bf (Suc j)))) [0..<n])"
    by (simp add: upt_rec [of 0] map_Suc_upt [symmetric] comp_def del: upt_Suc)
  ultimately show ?case using s'(1,2) unfolding step by auto
qed


text \<open>A floppy disk with an image of three blocks, all in the cache; block 257 holds the super block.\<close>

definition floppy_bufs :: "nat \<Rightarrow> buffer_head" where
  "floppy_bufs i = \<lparr>b_data = if i = 1 then [32, 0, 3, 0] @ replicate 12 0 @ [0x7f, 0x13] @ replicate 1006 0
       else replicate 1024 (of_nat i), b_blocknr = 256 + of_nat i, b_dev = 0x208, b_uptodate = True, b_dirt = False,
     b_count = 0, b_lock = False\<rparr>"

definition floppy_fs :: fs where
  "floppy_fs = small_fs\<lparr>bufs := floppy_bufs, nr_buffers := 3, free_list := [0..<3],
     hash_table := (\<lambda>h. filter (\<lambda>i. hash_of (floppy_bufs i) = h) [0..<3]),
     rd_length := 4096, root_dev := 0x208\<rparr>"

lemma floppy_resident:
  assumes "i < 3"
  shows "resident 0x208 (256 + of_nat i) i floppy_fs"
proof -
  have "i = 0 \<or> i = 1 \<or> i = 2" using assms by auto
  then have "find_buffer 0x208 (256 + of_nat i) floppy_fs = Some i"
    by (auto simp: find_buffer_def holds_def floppy_fs_def floppy_bufs_def hash_of_def upt_conv_Cons)
  then show ?thesis by (simp add: resident_def at_hand_def floppy_fs_def floppy_bufs_def)
qed


end
