(* ===== verification/Spec2Isabelle.thy ===== *)
theory Spec2Isabelle
  imports Vsprintf Mktime Timer Memory Process_Facts Buffer_Facts Bitmap_Facts Inode_Facts File_Props
    Pipe_Facts Dir_Facts Open_Facts Console_Props Tty_Read Malloc_Facts Exec_Facts Hd_Facts Ramdisk_Facts
begin

text \<open>
  A verification library for the kernel of \<^verbatim>\<open>src/linux-0.11\<close>, Linux 0.11 for the i386: the C code of its
  scheduler, memory manager, buffer cache, file system, block and character devices and system calls, as
  executable definitions with the theorems that make them correct. Paths below are relative to
  \<^verbatim>\<open>src/linux-0.11\<close>.

  \<^bold>\<open>How the parts of the program interact.\<close> A task enters the kernel by a system call. \<^verbatim>\<open>kernel/sched.c\<close>
  decides who runs, and every wait in the kernel is a \<open>sleep_on\<close> there; \<^verbatim>\<open>kernel/fork.c\<close>, \<^verbatim>\<open>exit.c\<close> and
  \<^verbatim>\<open>signal.c\<close> change the table of tasks, \<^verbatim>\<open>mm/memory.c\<close> and \<^verbatim>\<open>lib/malloc.c\<close> give out page frames and
  parts of them. \<open>read\<close> and \<open>write\<close> (\<^verbatim>\<open>fs/read_write.c\<close>) go to regular files, pipes, block devices or
  terminals. The file system (\<^verbatim>\<open>fs/namei.c\<close>, \<^verbatim>\<open>inode.c\<close>, \<^verbatim>\<open>bitmap.c\<close>, \<^verbatim>\<open>super.c\<close>) works on buffers of
  \<^verbatim>\<open>fs/buffer.c\<close>, whose blocks come through the request queues of \<^verbatim>\<open>kernel/blk_drv/ll_rw_blk.c\<close> from the
  RAM disk, the hard disk and the floppy disk. \<^verbatim>\<open>fs/exec.c\<close> joins the file system and the memory manager.
  Terminals (\<^verbatim>\<open>kernel/chr_drv/tty_io.c\<close>) are queues between the tasks and the drivers of the console and
  the serial lines.

  \<^bold>\<open>Conventions.\<close> A C struct is a record, a table is a function of its index, a pointer into a table is
  the index, with \<open>None\<close> for the null pointer, and a list threaded through pointers is a list of indices where the
  code only walks it. The \<open>unsigned\<close> types and what is stored to disk or to the user are words of their width; an \<open>int\<close>
  or \<open>long\<close> that the code counts with is its value, reduced by \<open>to_s32\<close> where it can leave its range.
  A routine takes the state and returns it updated; one that can fail has the
  type \<open>res\<close> of \<^verbatim>\<open>Prelude\<close>, whose errors are \<open>Panic\<close> with the code's message, \<open>Undefined\<close> where the C program
  has no defined behaviour (a null pointer, an index outside its array, a division by zero), \<open>Sleeps\<close> for
  a sleep that nothing in the model can end, and \<open>Diverges\<close>. Error numbers are returned, negative, as in
  the code. A loop that may not end is a \<open>partial_function (option)\<close>, and \<open>None\<close>
  becomes \<open>Diverges\<close>: a result \<open>Inr\<close> in a theorem's conclusion therefore says that the code returns.

  \<^bold>\<open>Theories.\<close>
  \<^item> \<^verbatim>\<open>Prelude\<close>: machine types, \<open>res\<close> and \<open>kbind\<close>, C's division, shared lemmas.
  \<^item> \<^verbatim>\<open>Vsprintf\<close>, \<^verbatim>\<open>Mktime\<close>: \<^verbatim>\<open>kernel/vsprintf.c\<close> and \<^verbatim>\<open>kernel/mktime.c\<close>, with their properties.
  \<^item> \<^verbatim>\<open>Task\<close>, \<^verbatim>\<open>Sched\<close>, \<^verbatim>\<open>Wait\<close>, \<^verbatim>\<open>Timer\<close>: \<open>task_struct\<close> of \<^verbatim>\<open>include/linux/sched.h\<close>; \<open>schedule\<close>,
    \<open>sleep_on\<close>, \<open>wake_up\<close>, the floppy motors' timers, the timer list and \<open>do_timer\<close> of \<^verbatim>\<open>kernel/sched.c\<close>. The
    record \<open>sched\<close> is the static data of that file with a trace of port output.
  \<^item> \<^verbatim>\<open>Memory\<close>, \<^verbatim>\<open>Malloc\<close>: \<^verbatim>\<open>mm/memory.c\<close> and \<^verbatim>\<open>lib/malloc.c\<close>, over physical memory as a function of
    addresses with the page directory at 0; \<^verbatim>\<open>Malloc_Facts\<close> reads the descriptors and free lists as the set
    of blocks in use.
  \<^item> \<^verbatim>\<open>Process\<close>: \<^verbatim>\<open>kernel/signal.c\<close>, \<^verbatim>\<open>exit.c\<close>, \<^verbatim>\<open>fork.c\<close>, \<^verbatim>\<open>sys.c\<close>. Its record \<open>kernel\<close> joins the
    scheduler, the memory, the file system and the current task's user memory (\<open>get_fs_*\<close>, \<open>put_fs_*\<close>).
    \<^verbatim>\<open>Process_Facts\<close> has its lemmas.
  \<^item> \<^verbatim>\<open>Block\<close>, \<^verbatim>\<open>Buffer\<close>: \<^verbatim>\<open>kernel/blk_drv/ll_rw_blk.c\<close>, \<^verbatim>\<open>blk.h\<close>, the RAM disk's requests, \<^verbatim>\<open>fs/buffer.c\<close>.
    A driver is its request function in the record \<open>blk_ops\<close>. \<^verbatim>\<open>Buffer_Facts\<close> has the elevator order, the
    cache's invariant \<open>cache_inv\<close> and the RAM disk as memory; \<^verbatim>\<open>Cached_Facts\<close> the paths that need no driver,
    with the interface \<open>block_access\<close> on which the file system's lemmas rest.
  \<^item> \<^verbatim>\<open>Ports\<close>, \<^verbatim>\<open>Hd\<close>, \<^verbatim>\<open>Hd_Facts\<close>: \<^verbatim>\<open>kernel/blk_drv/hd.c\<close>. What the controller answers is an argument, a
    function of all that passed through the ports; \<open>obeys\<close> in \<^verbatim>\<open>Hd_Facts\<close> says that it works as an array of sectors.
  \<^item> \<^verbatim>\<open>Ramdisk\<close>, \<^verbatim>\<open>Ramdisk_Facts\<close>: \<open>rd_load\<close> of \<^verbatim>\<open>kernel/blk_drv/ramdisk.c\<close>.
  \<^item> \<^verbatim>\<open>Bitmap\<close>, \<^verbatim>\<open>Inode\<close>, \<^verbatim>\<open>Inode_Table\<close>: \<^verbatim>\<open>fs/bitmap.c\<close>, \<^verbatim>\<open>fs/inode.c\<close>, \<^verbatim>\<open>fs/truncate.c\<close> and the in-core tables of
    \<^verbatim>\<open>include/linux/fs.h\<close>. \<^verbatim>\<open>Bitmap_Facts\<close> (the interface \<open>bit_map\<close>) and \<^verbatim>\<open>Inode_Facts\<close> have their lemmas.
  \<^item> \<^verbatim>\<open>Pipe\<close>, \<^verbatim>\<open>File_IO\<close>: \<^verbatim>\<open>fs/pipe.c\<close>; \<^verbatim>\<open>fs/file_dev.c\<close>, \<^verbatim>\<open>block_dev.c\<close>, \<^verbatim>\<open>char_dev.c\<close>, \<^verbatim>\<open>read_write.c\<close>.
    \<^verbatim>\<open>Pipe_Facts\<close> reads a pipe as a queue of bytes (the interface \<open>byte_queue\<close> of \<^verbatim>\<open>Byte_Queue\<close>),
    \<^verbatim>\<open>File_Facts\<close> and \<^verbatim>\<open>File_Props\<close> read a regular file as an array of bytes.
  \<^item> \<^verbatim>\<open>Namei\<close>, \<^verbatim>\<open>Path\<close>, \<^verbatim>\<open>Super\<close>, \<^verbatim>\<open>Open\<close>: \<^verbatim>\<open>fs/namei.c\<close>; \<^verbatim>\<open>fs/super.c\<close>; \<^verbatim>\<open>fs/open.c\<close>, \<^verbatim>\<open>fcntl.c\<close>, \<^verbatim>\<open>stat.c\<close>,
    with \<open>kernel_fs\<close>, the file system as the process system calls reach it. \<^verbatim>\<open>Dir_Facts\<close> and \<^verbatim>\<open>Open_Facts\<close> have
    directories as lists of entries and the use counts of open files.
  \<^item> \<^verbatim>\<open>Exec\<close>, \<^verbatim>\<open>Exec_Facts\<close>: \<^verbatim>\<open>fs/exec.c\<close> and \<^verbatim>\<open>include/a.out.h\<close>.
  \<^item> \<^verbatim>\<open>Tty\<close>, \<^verbatim>\<open>Tty_Ioctl\<close>, \<^verbatim>\<open>Console\<close>: \<^verbatim>\<open>kernel/chr_drv/tty_io.c\<close> with \<^verbatim>\<open>include/linux/tty.h\<close>; \<^verbatim>\<open>tty_ioctl.c\<close>,
    \<^verbatim>\<open>serial.c\<close>, \<^verbatim>\<open>fs/ioctl.c\<close>; \<^verbatim>\<open>console.c\<close>. \<^verbatim>\<open>Tty_Facts\<close> has what a driver may be assumed to keep (the
    interfaces \<open>tty_keeps\<close> and \<open>tty_ignores\<close>), \<^verbatim>\<open>Tty_Queue\<close> the rings as queues, \<^verbatim>\<open>Console_Facts\<close>,
    \<^verbatim>\<open>Console_Safe\<close> and \<^verbatim>\<open>Console_Props\<close> the screen, \<^verbatim>\<open>Tty_Props\<close>, \<^verbatim>\<open>Tty_Lines\<close> and \<^verbatim>\<open>Tty_Read\<close> the terminals.

  \<^bold>\<open>What the theorems show.\<close> The properties are the theorems whose text begins with C and a number.
  \<^item> Tasks: \<open>schedule\<close> returns and picks a runnable task with the largest counter; no wake-up of a
    \<open>sleep_on\<close> queue is lost; a timer comes due after the ticks asked for; fork copies what it should, exit
    leaves its children to init, kill reaches its target, \<open>setreuid\<close> gives no rights.
  \<^item> Memory: copy on write separates two tasks' pages, fork's page tables keep the use counts, \<open>malloc\<close>
    gives blocks that overlap no other and \<open>free_s\<close> takes back exactly one.
  \<^item> Blocks: the cache holds a block once; requests are served in elevator order; the hard disk driver moves
    exactly the block asked for between disk and buffer, never waits for nothing, and its loop ends.
  \<^item> Files: a written file reads back, as an array of bytes; pipes are first in, first out, and their readers
    are woken; names added to directories are found; zones are given out once; use counts of open files are right.
  \<^item> Programs: a new program finds the arguments and the environment it was given.
  \<^item> Terminals: the console stays inside its video memory whatever it is sent, scrolling moves lines, queue
    indices stay in range, the line counter counts lines, a canonical read returns one line.
  Where the code does something else than it means to, the theorem states what it does: an
  argument list that is too long is not refused, header sums wrap around, the last failing request of the hard
  disk is read through a null pointer. \<open>PROJECT.json\<close> lists these and the defects found while modelling.

  \<^bold>\<open>Bounds and fuel.\<close> The tables have the code's sizes (64 tasks, 32 inodes, 64 files, 8 super blocks, 32
  requests, 64 timers). Loops of the code with a constant bound count it down as a natural number, so
  none needs fuel of its own. Two recursions
  that run through a driver's argument are cut at a depth: \<open>kernel_ops\<close> of \<^verbatim>\<open>Inode\<close>, since \<open>sync_inodes\<close> reads
  blocks, which may need a buffer and synchronise again (at depth 0 the result is \<open>Diverges\<close>; no property depends
  on the depth), and \<open>driver inb d\<close> of \<^verbatim>\<open>Console\<close>, since \<open>con_write\<close> reaches itself through its echo, \<open>d\<close> deep: each level consumes
  an ESC Z of the write queue, and the theorems hold for every \<open>d\<close>.

  \<^bold>\<open>Not modelled.\<close> Assembly (\<^verbatim>\<open>boot\<close>, \<^verbatim>\<open>kernel/asm.s\<close>, \<^verbatim>\<open>system_call.s\<close>, \<^verbatim>\<open>keyboard.S\<close>, \<^verbatim>\<open>rs_io.s\<close>, \<^verbatim>\<open>page.s\<close>) but for the
  parts that a C routine needs to be stated; what traps and panics print (\<^verbatim>\<open>kernel/traps.c\<close>, \<^verbatim>\<open>printk.c\<close>);
  the C library's system call wrappers, expanded from a macro of inline assembly; the builder of the boot image. The rest of
  the repository is third-party code (SQLite, OpenSSL), programs for hardware or for libraries that are not in
  it, and short exercises; \<open>PROJECT.json\<close> lists them with the reasons.
\<close>

end
